(* ===== verification/Prelude.thy ===== *)
theory Prelude
  imports Main
begin

text \<open>
  What every theory of the development shares: the JavaScript string operations the code uses
  (\<open>trim\<close>, \<open>toLowerCase\<close>, \<open>toUpperCase\<close>, the decimal text of a number), the scan for the first
  free generated name (\<open>for (let i = 1; ; i++)\<close>), and generic lemmas about lists that are
  updated element by element.

  A JavaScript string is modelled by a \<^typ>\<open>string\<close> whose characters are its code units; the
  model covers the strings whose code units are below 256 (Latin-1). On these \<open>trim\<close> and
  \<open>toLowerCase\<close> are exact.
\<close>

section \<open>Characters and strings\<close>

named_theorems js_simps \<open>evaluation of the string operations\<close>

definition code :: "char \<Rightarrow> nat" where
  "code c = of_char c"

definition is_upper :: "char \<Rightarrow> bool" where
  "is_upper c \<longleftrightarrow> 65 \<le> code c \<and> code c \<le> 90"

definition is_lower :: "char \<Rightarrow> bool" where
  "is_lower c \<longleftrightarrow> 97 \<le> code c \<and> code c \<le> 122"

definition is_letter :: "char \<Rightarrow> bool" where
  "is_letter c \<longleftrightarrow> is_upper c \<or> is_lower c"

definition is_digit :: "char \<Rightarrow> bool" where
  "is_digit c \<longleftrightarrow> 48 \<le> code c \<and> code c \<le> 57"

text \<open>\<open>String.prototype.trim\<close>: white space and line terminators of the Latin-1 range.\<close>

definition js_space :: "char \<Rightarrow> bool" where
  "js_space c \<longleftrightarrow> code c \<in> {9, 10, 11, 12, 13, 32, 160}"

definition js_trim :: "string \<Rightarrow> string" where
  "js_trim s = rev (dropWhile js_space (rev (dropWhile js_space s)))"

text \<open>
  \<open>String.prototype.toLowerCase\<close>: A-Z and the accented capitals 192-222 (without 215, the
  multiplication sign) move up by 32.
\<close>

definition lower_char :: "char \<Rightarrow> char" where
  "lower_char c =
     (if is_upper c \<or> (192 \<le> code c \<and> code c \<le> 222 \<and> code c \<noteq> 215)
      then char_of (code c + 32) else c)"

definition js_lower :: "string \<Rightarrow> string" where
  "js_lower s = map lower_char s"

text \<open>
  \<open>String.prototype.toUpperCase\<close>. Three Latin-1 characters (181, 223, 255) have an upper case
  that is not one Latin-1 character; they are kept, which no comparison of the code can see: it
  compares the result with names made of ASCII capitals and digits only.
\<close>

definition upper_char :: "char \<Rightarrow> char" where
  "upper_char c =
     (if is_lower c \<or> (224 \<le> code c \<and> code c \<le> 254 \<and> code c \<noteq> 247)
      then char_of (code c - 32) else c)"

definition js_upper :: "string \<Rightarrow> string" where
  "js_upper s = map upper_char s"

lemma js_lower_append [simp]: "js_lower (xs @ ys) = js_lower xs @ js_lower ys"
  by (simp add: js_lower_def)

lemma js_lower_Nil_iff [simp]: "js_lower xs = [] \<longleftrightarrow> xs = []"
  by (simp add: js_lower_def)

lemma code_char_of [simp]: "n < 256 \<Longrightarrow> code (char_of n) = n"
  by (simp add: code_def)

lemma code_less [simp]: "code c < 256"
  by (simp add: code_def)

lemma lower_char_idem [simp]: "lower_char (lower_char c) = lower_char c"
  by (auto simp: lower_char_def is_upper_def)

lemma js_lower_idem [simp]: "js_lower (js_lower s) = js_lower s"
  by (simp add: js_lower_def)

lemma dropWhile_idem_hd: "dropWhile P xs = [] \<or> \<not> P (hd (dropWhile P xs))"
  using hd_dropWhile [of P xs] by (auto simp: dropWhile_eq_Nil_conv)

lemma js_trim_ends:
  "js_trim s \<noteq> [] \<Longrightarrow> \<not> js_space (hd (js_trim s)) \<and> \<not> js_space (last (js_trim s))"
proof
  assume ne: "js_trim s \<noteq> []"
  define t where "t = dropWhile js_space s"
  have ne': "dropWhile js_space (rev t) \<noteq> []" using ne by (simp add: js_trim_def t_def)
  then have "\<not> js_space (hd (dropWhile js_space (rev t)))"
    using dropWhile_idem_hd by blast
  then show "\<not> js_space (last (js_trim s))"
    using ne' by (simp add: js_trim_def t_def last_rev)
  obtain pre where "rev t = pre @ dropWhile js_space (rev t)"
    by (metis takeWhile_dropWhile_id)
  then have t: "t = js_trim s @ rev pre"
    by (metis js_trim_def rev_append rev_rev_ident t_def)
  then have "hd t = hd (js_trim s)" using ne by simp
  moreover have "t \<noteq> []" using t ne by auto
  then have "\<not> js_space (hd t)" using dropWhile_idem_hd [of js_space s] by (auto simp: t_def)
  ultimately show "\<not> js_space (hd (js_trim s))" by simp
qed

section \<open>Numbers as text\<close>

definition digit_char :: "nat \<Rightarrow> char" where
  "digit_char n = char_of (48 + n)"

fun num_str :: "nat \<Rightarrow> string" where
  "num_str n = (if n < 10 then [digit_char n] else num_str (n div 10) @ [digit_char (n mod 10)])"

declare num_str.simps [simp del]

definition num_val :: "string \<Rightarrow> nat" where
  "num_val s = foldl (\<lambda>a c. 10 * a + (code c - 48)) 0 s"

lemma code_digit_char [simp]: "n < 10 \<Longrightarrow> code (digit_char n) = 48 + n"
  by (simp add: digit_char_def)

lemma num_val_num_str [simp]: "num_val (num_str n) = n"
proof (induction n rule: num_str.induct)
  case (1 n)
  then show ?case
    by (subst num_str.simps) (auto simp: num_val_def)
qed

lemma inj_num_str: "inj num_str"
  by (metis injI num_val_num_str)

lemma num_str_eq_iff [simp]: "num_str i = num_str j \<longleftrightarrow> i = j"
  using inj_num_str by (auto dest: injD)

lemma num_str_digits: "c \<in> set (num_str n) \<Longrightarrow> is_digit c"
proof (induction n rule: num_str.induct)
  case (1 n)
  then show ?case
    by (subst (asm) num_str.simps) (auto simp: is_digit_def split: if_splits)
qed

lemma num_str_not_Nil [simp]: "num_str n \<noteq> []"
  by (subst num_str.simps) simp

lemma lower_digit [simp]: "is_digit c \<Longrightarrow> lower_char c = c"
  by (simp add: is_digit_def lower_char_def is_upper_def)

lemma js_lower_num_str [simp]: "js_lower (num_str n) = num_str n"
  unfolding js_lower_def by (rule map_idI) (simp add: num_str_digits)

section \<open>The scan for a free generated name\<close>

text \<open>
  The loop \<open>for (let i = 1; ; i++)\<close> of \<open>freshNet\<close>, \<open>freshNets\<close> and \<open>nextDesignator\<close>: the
  first \<open>i\<close> for which \<open>p\<close> followed by \<open>i\<close> is not in \<open>as\<close> and the lower-case text of \<open>q\<close>
  followed by \<open>i\<close> is not in \<open>bs\<close>. It ends because only finitely many numbers are taken.
\<close>

definition name_taken :: "string \<Rightarrow> string \<Rightarrow> string list \<Rightarrow> string list \<Rightarrow> nat \<Rightarrow> bool" where
  "name_taken p q as bs i \<longleftrightarrow> p @ num_str i \<in> set as \<or> js_lower (q @ num_str i) \<in> set bs"

lemma finite_name_taken: "finite {i. name_taken p q as bs i}"
proof -
  have "finite ((\<lambda>i. p @ num_str i) -` set as)"
    by (rule finite_vimageI) (auto intro: injI)
  moreover have "finite ((\<lambda>i. js_lower (q @ num_str i)) -` set bs)"
    by (rule finite_vimageI) (auto intro: injI)
  moreover have "{i. name_taken p q as bs i} \<subseteq>
      (\<lambda>i. p @ num_str i) -` set as \<union> (\<lambda>i. js_lower (q @ num_str i)) -` set bs"
    by (auto simp: name_taken_def)
  ultimately show ?thesis by (meson finite_UnI finite_subset)
qed

function next_free :: "string \<Rightarrow> string \<Rightarrow> string list \<Rightarrow> string list \<Rightarrow> nat \<Rightarrow> nat" where
  "next_free p q as bs i =
     (if name_taken p q as bs i then next_free p q as bs (Suc i) else i)"
  by pat_completeness auto
termination
proof (relation "measure (\<lambda>(p, q, as, bs, i). card {j. i \<le> j \<and> name_taken p q as bs j})")
  fix p q as bs i
  assume t: "name_taken p q as bs i"
  have fin: "finite {j. i \<le> j \<and> name_taken p q as bs j}"
    by (rule finite_subset [OF _ finite_name_taken [of p q as bs]]) auto
  have "i \<in> {j. i \<le> j \<and> name_taken p q as bs j} - {j. Suc i \<le> j \<and> name_taken p q as bs j}"
    using t by simp
  moreover have "{j. Suc i \<le> j \<and> name_taken p q as bs j} \<subseteq> {j. i \<le> j \<and> name_taken p q as bs j}"
    by auto
  ultimately have "{j. Suc i \<le> j \<and> name_taken p q as bs j} \<subset> {j. i \<le> j \<and> name_taken p q as bs j}"
    by blast
  then show "((p, q, as, bs, Suc i), (p, q, as, bs, i)) \<in>
      measure (\<lambda>(p, q, as, bs, i). card {j. i \<le> j \<and> name_taken p q as bs j})"
    using fin by (simp add: psubset_card_mono)
qed simp

declare next_free.simps [simp del]

lemma next_free_free: "\<not> name_taken p q as bs (next_free p q as bs i)"
proof (induction p q as bs i rule: next_free.induct)
  case (1 p q as bs i)
  then show ?case by (subst next_free.simps) auto
qed

lemma next_free_ge: "i \<le> next_free p q as bs i"
proof (induction p q as bs i rule: next_free.induct)
  case (1 p q as bs i)
  show ?case
  proof (cases "name_taken p q as bs i")
    case True
    then have "Suc i \<le> next_free p q as bs (Suc i)" by (rule 1)
    with True show ?thesis by (subst next_free.simps) simp
  next
    case False
    then show ?thesis by (subst next_free.simps) simp
  qed
qed

lemma next_free_least: "i \<le> j \<Longrightarrow> j < next_free p q as bs i \<Longrightarrow> name_taken p q as bs j"
proof (induction p q as bs i rule: next_free.induct)
  case (1 p q as bs i)
  show ?case
  proof (cases "name_taken p q as bs i")
    case True
    then have "next_free p q as bs i = next_free p q as bs (Suc i)"
      by (subst next_free.simps) simp
    with 1 True show ?thesis by (cases "j = i") auto
  next
    case False
    with 1(2,3) show ?thesis by (subst (asm) next_free.simps) simp
  qed
qed

section \<open>Lists\<close>

text \<open>\<open>map\<close> with a conditional body is how the code replaces one element of an array.\<close>

definition map_if :: "('a \<Rightarrow> bool) \<Rightarrow> ('a \<Rightarrow> 'a) \<Rightarrow> 'a list \<Rightarrow> 'a list" where
  "map_if P f xs = map (\<lambda>x. if P x then f x else x) xs"

lemma map_if_Nil [simp]: "map_if P f [] = []"
  by (simp add: map_if_def)

lemma map_if_Cons [simp]: "map_if P f (x # xs) = (if P x then f x else x) # map_if P f xs"
  by (simp add: map_if_def)

lemma length_map_if [simp]: "length (map_if P f xs) = length xs"
  by (simp add: map_if_def)

lemma set_map_if: "set (map_if P f xs) = (\<lambda>x. if P x then f x else x) ` set xs"
  by (simp add: map_if_def)

lemma map_map_if_same:
  "(\<And>x. x \<in> set xs \<Longrightarrow> P x \<Longrightarrow> g (f x) = g x) \<Longrightarrow> map g (map_if P f xs) = map g xs"
  by (induction xs) auto

lemma find_None_iff_set: "find P xs = None \<longleftrightarrow> (\<forall>x \<in> set xs. \<not> P x)"
  by (auto simp: find_None_iff)

lemma find_SomeD: "find P xs = Some x \<Longrightarrow> x \<in> set xs \<and> P x"
  by (induction xs) (auto split: if_splits)

lemma find_distinct:
  "distinct (map k xs) \<Longrightarrow> x \<in> set xs \<Longrightarrow> find (\<lambda>y. k y = k x) xs = Some x"
  by (induction xs) (auto simp: image_iff)

lemma distinct_map_eqD:
  "distinct (map k xs) \<Longrightarrow> x \<in> set xs \<Longrightarrow> y \<in> set xs \<Longrightarrow> k x = k y \<Longrightarrow> x = y"
  by (auto simp: distinct_map inj_on_def)

lemma filter_map_if_id:
  "(\<And>x. x \<in> set xs \<Longrightarrow> \<not> P x) \<Longrightarrow> map_if P f xs = xs"
  by (induction xs) auto

text \<open>\<open>[...new Set(xs)]\<close>: the distinct elements in the order of their first occurrence.\<close>

definition uniq :: "'a list \<Rightarrow> 'a list" where
  "uniq xs = rev (remdups (rev xs))"

lemma set_uniq [simp]: "set (uniq xs) = set xs"
  by (simp add: uniq_def)

lemma uniq_Nil_iff [simp]: "uniq xs = [] \<longleftrightarrow> xs = []"
  by (simp add: uniq_def)

lemma distinct_uniq [simp]: "distinct (uniq xs)"
  by (simp add: uniq_def)

lemma uniq_distinct: "distinct xs \<Longrightarrow> uniq xs = xs"
  by (simp add: uniq_def distinct_remdups_id)

end
