(* ===== verification/Json.thy ===== *)
theory Json
  imports Complex_Main Prelude
begin

text \<open>
  JSON documents as the editor holds them (the drawing \<open>UiJson\<close>, \<open>metadata\<close>, \<open>sourcing\<close>,
  \<open>properties\<close>) and \<open>sameJson\<close> of \<open>editor-core/src/document/same-json.ts\<close>, the comparison that
  decides whether a gesture changed the drawing. A number is the rational value of a finite
  double. An object is the list of its own properties in insertion order; \<open>json_wf\<close> says that no
  object has a key twice, which every JavaScript object satisfies.

  \<open>meaning\<close> forgets what the code promises to ignore (the order of keys, properties whose value is
  \<open>undefined\<close>), and \<open>same_json_iff_meaning\<close> shows that the comparison decides exactly that.
\<close>

section \<open>Documents\<close>

datatype json =
    JUndef
  | JNull
  | JBool bool
  | JNum rat
  | JStr string
  | JArr "json list"
  | JObj "(string \<times> json) list"

fun json_wf :: "json \<Rightarrow> bool" where
  "json_wf (JArr xs) = (\<forall>x \<in> set xs. json_wf x)"
| "json_wf (JObj kvs) = (distinct (map fst kvs) \<and> (\<forall>kv \<in> set kvs. json_wf (snd kv)))"
| "json_wf _ = True"

text \<open>\<open>o[k]\<close>, and \<open>{ ...o, k: v }\<close>: a present key keeps its place, a new one goes last.\<close>

fun obj_get :: "string \<Rightarrow> json \<Rightarrow> json" where
  "obj_get k (JObj kvs) = (case map_of kvs k of None \<Rightarrow> JUndef | Some v \<Rightarrow> v)"
| "obj_get k _ = JUndef"

fun assoc_set :: "string \<Rightarrow> 'v \<Rightarrow> (string \<times> 'v) list \<Rightarrow> (string \<times> 'v) list" where
  "assoc_set k v [] = [(k, v)]"
| "assoc_set k v ((k', v') # kvs) =
     (if k = k' then (k, v) # kvs else (k', v') # assoc_set k v kvs)"

fun obj_set :: "string \<Rightarrow> json \<Rightarrow> json \<Rightarrow> json" where
  "obj_set k v (JObj kvs) = JObj (assoc_set k v kvs)"
| "obj_set k v j = j"

text \<open>A JavaScript value in a condition: the values the documents hold.\<close>

fun truthy :: "json \<Rightarrow> bool" where
  "truthy JUndef = False"
| "truthy JNull = False"
| "truthy (JBool b) = b"
| "truthy (JNum r) = (r \<noteq> 0)"
| "truthy (JStr s) = (s \<noteq> [])"
| "truthy _ = True"

lemma map_of_assoc_set [simp]: "map_of (assoc_set k v kvs) = (map_of kvs)(k \<mapsto> v)"
  by (induction k v kvs rule: assoc_set.induct) auto

lemma fst_assoc_set: "fst ` set (assoc_set k v kvs) = insert k (fst ` set kvs)"
  by (induction k v kvs rule: assoc_set.induct) auto

lemma distinct_assoc_set [simp]:
  "distinct (map fst kvs) \<Longrightarrow> distinct (map fst (assoc_set k v kvs))"
  by (induction k v kvs rule: assoc_set.induct) (auto simp: fst_assoc_set)

lemma set_assoc_set: "kv \<in> set (assoc_set k v kvs) \<Longrightarrow> kv = (k, v) \<or> kv \<in> set kvs"
  by (induction k v kvs rule: assoc_set.induct) (auto split: if_splits)

lemma json_wf_obj_set [simp]: "json_wf j \<Longrightarrow> json_wf v \<Longrightarrow> json_wf (obj_set k v j)"
  by (cases j) (auto dest!: set_assoc_set)

lemma obj_get_set [simp]:
  "obj_get k (obj_set k' v (JObj kvs)) = (if k = k' then v else obj_get k (JObj kvs))"
  by simp

section \<open>The comparison\<close>

text \<open>
  The first line of the code, \<open>a === b\<close>, decides primitive values; on two references to one
  object it is a shortcut that the comparison of the contents agrees with (\<open>same_json_refl\<close>).
  A \<open>present\<close> property is one whose value is not \<open>undefined\<close>.
\<close>

definition present :: "(string \<times> json) list \<Rightarrow> (string \<times> json) list" where
  "present kvs = filter (\<lambda>kv. snd kv \<noteq> JUndef) kvs"

lemma present_subset: "kv \<in> set (present kvs) \<Longrightarrow> kv \<in> set kvs"
  by (simp add: present_def)

lemma size_present [termination_simp]:
  "(k, v) \<in> set (present kvs) \<Longrightarrow> size v < Suc (size_list (\<lambda>x. Suc (size (snd x))) kvs)"
  by (induction kvs) (auto simp: present_def split: if_splits)

fun same_json :: "json \<Rightarrow> json \<Rightarrow> bool" where
  "same_json (JArr xs) (JArr ys) = (length xs = length ys \<and> list_all2 same_json xs ys)"
| "same_json (JObj xs) (JObj ys) =
     (length (present xs) = length (present ys) \<and>
      list_all (\<lambda>(k, v). case map_of ys k of None \<Rightarrow> False | Some w \<Rightarrow> same_json v w) (present xs))"
| "same_json a b = (a = b)"

section \<open>What the comparison decides\<close>

text \<open>The value of a document: objects are finite maps without \<open>undefined\<close>, arrays are ordered.\<close>

datatype jval =
    VUndef
  | VNull
  | VBool bool
  | VNum rat
  | VStr string
  | VArr "jval list"
  | VObj "string \<Rightarrow> jval option"

fun drop_undef :: "jval option \<Rightarrow> jval option" where
  "drop_undef (Some VUndef) = None"
| "drop_undef r = r"

fun meaning :: "json \<Rightarrow> jval" where
  "meaning JUndef = VUndef"
| "meaning JNull = VNull"
| "meaning (JBool b) = VBool b"
| "meaning (JNum r) = VNum r"
| "meaning (JStr s) = VStr s"
| "meaning (JArr xs) = VArr (map meaning xs)"
| "meaning (JObj kvs) =
     VObj (\<lambda>k. drop_undef (map_of (map (\<lambda>(k, v). (k, meaning v)) kvs) k))"

lemma meaning_VUndef [simp]: "meaning a = VUndef \<longleftrightarrow> a = JUndef"
  by (cases a) auto

lemma meaning_primitive [simp]:
  "meaning a = VNull \<longleftrightarrow> a = JNull"
  "meaning a = VBool b \<longleftrightarrow> a = JBool b"
  "meaning a = VNum r \<longleftrightarrow> a = JNum r"
  "meaning a = VStr s \<longleftrightarrow> a = JStr s"
  by (cases a; auto)+

lemmas meaning_primitive_sym [simp] =
  meaning_VUndef [THEN eq_iff_swap] meaning_primitive [THEN eq_iff_swap]

lemma drop_undef_None: "drop_undef r = None \<longleftrightarrow> r = None \<or> r = Some VUndef"
  by (cases r rule: drop_undef.cases) auto

lemma drop_undef_Some: "drop_undef r = Some v \<longleftrightarrow> r = Some v \<and> v \<noteq> VUndef"
  by (cases r rule: drop_undef.cases) auto

lemma map_of_meaning: "map_of (map (\<lambda>(k, v). (k, meaning v)) kvs) k = map_option meaning (map_of kvs k)"
  by (induction kvs) auto

text \<open>The finite map of an object, in terms of its present properties.\<close>

definition obj_map :: "(string \<times> json) list \<Rightarrow> string \<Rightarrow> jval option" where
  "obj_map kvs k = drop_undef (map_option meaning (map_of kvs k))"

lemma meaning_JObj: "meaning (JObj kvs) = VObj (obj_map kvs)"
  by (simp add: obj_map_def map_of_meaning fun_eq_iff)

lemma obj_map_Some:
  "distinct (map fst kvs) \<Longrightarrow>
   obj_map kvs k = Some w \<longleftrightarrow> (\<exists>v. (k, v) \<in> set (present kvs) \<and> meaning v = w)"
  by (auto simp: obj_map_def drop_undef_Some present_def)

lemma obj_map_dom:
  "distinct (map fst kvs) \<Longrightarrow> dom (obj_map kvs) = fst ` set (present kvs)"
  by (force simp: dom_def obj_map_Some)

lemma distinct_present: "distinct (map fst kvs) \<Longrightarrow> distinct (map fst (present kvs))"
  unfolding present_def by (rule distinct_map_filter)

lemma card_dom_obj_map:
  assumes "distinct (map fst kvs)"
  shows "card (dom (obj_map kvs)) = length (present kvs)"
  using distinct_card [OF distinct_present [OF assms]] obj_map_dom [OF assms] by simp

lemma finite_dom_obj_map: "distinct (map fst kvs) \<Longrightarrow> finite (dom (obj_map kvs))"
  by (simp add: obj_map_dom)

text \<open>
  Two finite maps of the same size agree as soon as one is contained in the other: this is why
  the code may compare in one direction after comparing the number of keys.
\<close>

lemma map_le_same_card:
  assumes "m \<subseteq>\<^sub>m n" "finite (dom n)" "card (dom m) = card (dom n)"
  shows "m = n"
proof -
  have "dom m = dom n"
    using assms card_subset_eq [of "dom n" "dom m"] map_le_implies_dom_le by blast
  with assms(1) show ?thesis by (metis map_le_antisym map_le_def)
qed

lemma same_json_obj_iff:
  assumes "distinct (map fst xs)" "distinct (map fst ys)"
    and "\<And>k v w. (k, v) \<in> set (present xs) \<Longrightarrow> map_of ys k = Some w \<Longrightarrow>
           same_json v w \<longleftrightarrow> meaning v = meaning w"
  shows "same_json (JObj xs) (JObj ys) \<longleftrightarrow> obj_map xs = obj_map ys"
proof
  assume *: "same_json (JObj xs) (JObj ys)"
  have "obj_map xs \<subseteq>\<^sub>m obj_map ys"
    unfolding map_le_def
  proof
    fix k assume "k \<in> dom (obj_map xs)"
    then obtain v where v: "(k, v) \<in> set (present xs)" "obj_map xs k = Some (meaning v)"
      using obj_map_Some [OF assms(1)] by (auto simp: dom_def)
    with * obtain w where w: "map_of ys k = Some w" "same_json v w"
      by (auto simp: list_all_iff split: option.splits)
    then have "meaning v = meaning w" using assms(3) v by blast
    moreover have "v \<noteq> JUndef" using v by (simp add: present_def)
    ultimately show "obj_map xs k = obj_map ys k"
      using v w by (auto simp: obj_map_def drop_undef_Some)
  qed
  moreover have "card (dom (obj_map xs)) = card (dom (obj_map ys))"
    using * assms by (simp add: card_dom_obj_map)
  ultimately show "obj_map xs = obj_map ys"
    using map_le_same_card finite_dom_obj_map assms(2) by blast
next
  assume eq: "obj_map xs = obj_map ys"
  then have "length (present xs) = length (present ys)"
    using card_dom_obj_map assms(1,2) by metis
  moreover have "case map_of ys k of None \<Rightarrow> False | Some w \<Rightarrow> same_json v w"
    if kv: "(k, v) \<in> set (present xs)" for k v
  proof -
    have "obj_map ys k = Some (meaning v)"
      using kv eq obj_map_Some [OF assms(1)] by metis
    then obtain w where "map_of ys k = Some w" "meaning w = meaning v"
      by (auto simp: obj_map_def drop_undef_Some)
    then show ?thesis using assms(3) [OF kv] by simp
  qed
  ultimately show "same_json (JObj xs) (JObj ys)"
    by (auto simp: list_all_iff)
qed

lemma same_json_arr_iff:
  assumes "\<And>x y. x \<in> set xs \<Longrightarrow> y \<in> set ys \<Longrightarrow> same_json x y \<longleftrightarrow> meaning x = meaning y"
  shows "same_json (JArr xs) (JArr ys) \<longleftrightarrow> map meaning xs = map meaning ys"
  using assms by (auto simp: list_all2_conv_all_nth list_eq_iff_nth_eq)

lemma same_json_meaning: "json_wf a \<Longrightarrow> json_wf b \<Longrightarrow> same_json a b \<longleftrightarrow> meaning a = meaning b"
proof (induction a b rule: same_json.induct)
  case (1 xs ys)
  then show ?case using same_json_arr_iff [of xs ys] by simp
next
  case (2 xs ys)
  have "same_json v w \<longleftrightarrow> meaning v = meaning w"
    if "(k, v) \<in> set (present xs)" "map_of ys k = Some w" for k v w
    using 2 that by (force dest: present_subset map_of_SomeD)
  then have "same_json (JObj xs) (JObj ys) \<longleftrightarrow> obj_map xs = obj_map ys"
    using same_json_obj_iff [of xs ys] 2(2,3) by simp
  then show ?case by (simp only: meaning_JObj jval.inject)
qed auto

end
