(* ===== verification/Circuit.thy ===== *)
theory Circuit
  imports Json
begin

text \<open>
  The circuit document of \<open>eda-core/src/types/circuit.ts\<close>: components with their pins, nets, the
  tables of pins and SPICE prefixes per component type, and the roles of digital pins. An optional
  field is an \<open>option\<close> (\<open>None\<close>: the key is absent). \<open>circuit.components ?? []\<close> and
  \<open>circuit.nets ?? []\<close> are lists: a document without the key is read as one with no element.

  The abstraction used by the proofs is \<open>pin_net\<close>, which net a terminal is on, and the invariant is
  \<open>wf_circuit\<close>: ids, designators and net names are unique and every pin names a declared net.
\<close>

section \<open>Component types\<close>

datatype ctype =
    Resistor
  | Capacitor
  | Inductor
  | Transformer
  | Tline
  | VoltageSource
  | CurrentSource
  | Vcvs
  | Vccs
  | Bsource
  | Switch
  | Diode
  | Zener
  | Bjt
  | Mosfet
  | Jfet
  | Subckt
  | LogicAnd
  | LogicOr
  | LogicNand
  | LogicNor
  | LogicXor
  | LogicXnor
  | LogicNot
  | LogicBuffer
  | Dff
  | Jkff
  | Tff
  | Dlatch
  | Tristate
  | Ground
  | Generic

fun component_pins :: "ctype \<Rightarrow> string list" where
  "component_pins Resistor = [''1'', ''2'']"
| "component_pins Capacitor = [''1'', ''2'']"
| "component_pins Inductor = [''1'', ''2'']"
| "component_pins Transformer = [''p+'', ''p-'', ''s+'', ''s-'']"
| "component_pins Tline = [''a+'', ''a-'', ''b+'', ''b-'']"
| "component_pins VoltageSource = [''+'', ''-'']"
| "component_pins CurrentSource = [''+'', ''-'']"
| "component_pins Vcvs = [''+'', ''-'', ''c+'', ''c-'']"
| "component_pins Vccs = [''+'', ''-'', ''c+'', ''c-'']"
| "component_pins Bsource = [''+'', ''-'']"
| "component_pins Switch = [''+'', ''-'', ''c+'', ''c-'']"
| "component_pins Diode = [''anode'', ''cathode'']"
| "component_pins Zener = [''anode'', ''cathode'']"
| "component_pins Bjt = [''c'', ''b'', ''e'']"
| "component_pins Mosfet = [''d'', ''g'', ''s'', ''b'']"
| "component_pins Jfet = [''d'', ''g'', ''s'']"
| "component_pins Subckt = []"
| "component_pins LogicAnd = []"
| "component_pins LogicOr = []"
| "component_pins LogicNand = []"
| "component_pins LogicNor = []"
| "component_pins LogicXor = []"
| "component_pins LogicXnor = []"
| "component_pins LogicNot = []"
| "component_pins LogicBuffer = []"
| "component_pins Dff = [''d'', ''clk'', ''set'', ''rst'', ''q'', ''qb'']"
| "component_pins Jkff = [''j'', ''k'', ''clk'', ''set'', ''rst'', ''q'', ''qb'']"
| "component_pins Tff = [''t'', ''clk'', ''set'', ''rst'', ''q'', ''qb'']"
| "component_pins Dlatch = [''d'', ''en'', ''set'', ''rst'', ''q'', ''qb'']"
| "component_pins Tristate = [''in1'', ''en'', ''out'']"
| "component_pins Ground = [''1'']"
| "component_pins Generic = []"

fun spice_prefix :: "ctype \<Rightarrow> string" where
  "spice_prefix Resistor = ''R''"
| "spice_prefix Capacitor = ''C''"
| "spice_prefix Inductor = ''L''"
| "spice_prefix Transformer = []"
| "spice_prefix Tline = ''T''"
| "spice_prefix VoltageSource = ''V''"
| "spice_prefix CurrentSource = ''I''"
| "spice_prefix Vcvs = ''E''"
| "spice_prefix Vccs = ''G''"
| "spice_prefix Bsource = ''B''"
| "spice_prefix Switch = ''S''"
| "spice_prefix Diode = ''D''"
| "spice_prefix Zener = ''D''"
| "spice_prefix Bjt = ''Q''"
| "spice_prefix Mosfet = ''M''"
| "spice_prefix Jfet = ''J''"
| "spice_prefix Subckt = ''X''"
| "spice_prefix LogicAnd = ''A''"
| "spice_prefix LogicOr = ''A''"
| "spice_prefix LogicNand = ''A''"
| "spice_prefix LogicNor = ''A''"
| "spice_prefix LogicXor = ''A''"
| "spice_prefix LogicXnor = ''A''"
| "spice_prefix LogicNot = ''A''"
| "spice_prefix LogicBuffer = ''A''"
| "spice_prefix Dff = ''A''"
| "spice_prefix Jkff = ''A''"
| "spice_prefix Tff = ''A''"
| "spice_prefix Dlatch = ''A''"
| "spice_prefix Tristate = ''A''"
| "spice_prefix Ground = []"
| "spice_prefix Generic = []"

text \<open>The text of a component type, as the type string of the source.\<close>

fun ctype_name :: "ctype \<Rightarrow> string" where
  "ctype_name Resistor = ''resistor''"
| "ctype_name Capacitor = ''capacitor''"
| "ctype_name Inductor = ''inductor''"
| "ctype_name Transformer = ''transformer''"
| "ctype_name Tline = ''tline''"
| "ctype_name VoltageSource = ''voltage_source''"
| "ctype_name CurrentSource = ''current_source''"
| "ctype_name Vcvs = ''vcvs''"
| "ctype_name Vccs = ''vccs''"
| "ctype_name Bsource = ''bsource''"
| "ctype_name Switch = ''switch''"
| "ctype_name Diode = ''diode''"
| "ctype_name Zener = ''zener''"
| "ctype_name Bjt = ''bjt''"
| "ctype_name Mosfet = ''mosfet''"
| "ctype_name Jfet = ''jfet''"
| "ctype_name Subckt = ''subckt''"
| "ctype_name LogicAnd = ''logic_and''"
| "ctype_name LogicOr = ''logic_or''"
| "ctype_name LogicNand = ''logic_nand''"
| "ctype_name LogicNor = ''logic_nor''"
| "ctype_name LogicXor = ''logic_xor''"
| "ctype_name LogicXnor = ''logic_xnor''"
| "ctype_name LogicNot = ''logic_not''"
| "ctype_name LogicBuffer = ''logic_buffer''"
| "ctype_name Dff = ''dff''"
| "ctype_name Jkff = ''jkff''"
| "ctype_name Tff = ''tff''"
| "ctype_name Dlatch = ''dlatch''"
| "ctype_name Tristate = ''tristate''"
| "ctype_name Ground = ''ground''"
| "ctype_name Generic = ''generic''"

definition is_simulatable :: "ctype \<Rightarrow> bool" where
  "is_simulatable t \<longleftrightarrow> t \<noteq> Generic"

definition logic_gate_types :: "ctype list" where
  "logic_gate_types =
     [LogicAnd, LogicOr, LogicNand, LogicNor, LogicXor, LogicXnor, LogicNot, LogicBuffer]"

definition sequential_types :: "ctype list" where
  "sequential_types = [Dff, Jkff, Tff, Dlatch]"

definition digital_types :: "ctype list" where
  "digital_types = logic_gate_types @ sequential_types @ [Tristate]"

definition is_single_input_gate :: "ctype \<Rightarrow> bool" where
  "is_single_input_gate t \<longleftrightarrow> t = LogicNot \<or> t = LogicBuffer"

definition is_logic_gate :: "ctype \<Rightarrow> bool" where
  "is_logic_gate t \<longleftrightarrow> t \<in> set logic_gate_types"

definition is_sequential :: "ctype \<Rightarrow> bool" where
  "is_sequential t \<longleftrightarrow> t \<in> set sequential_types"

definition is_digital :: "ctype \<Rightarrow> bool" where
  "is_digital t \<longleftrightarrow> t \<in> set digital_types"

datatype pin_role = Source | Sink

definition digital_pin_role :: "ctype \<Rightarrow> string \<Rightarrow> pin_role option" where
  "digital_pin_role t p =
     (if is_logic_gate t then Some (if p = ''out'' then Source else Sink)
      else if is_sequential t then Some (if p = ''q'' \<or> p = ''qb'' then Source else Sink)
      else if t = Tristate then Some (if p = ''out'' then Source else Sink)
      else None)"

section \<open>The document\<close>

record pin_connection =
  pinId :: string
  netId :: string

record net =
  net_id :: string
  net_name :: string
  isGround :: "bool option"
  isPower :: "bool option"

datatype tolerance_source = UserStated | CatalogFact

record component =
  comp_id :: string
  comp_type :: ctype
  designator :: string
  comp_value :: "string option"
  comp_model :: "string option"
  tolerance :: "rat option"
  toleranceSource :: "tolerance_source option"
  pins :: "pin_connection list"
  properties :: "json option"
  mpn :: "string option"
  manufacturer :: "string option"
  footprint :: "string option"
  sourcing :: "json option"

record model_def =
  model_name :: string
  model_device :: string
  model_body :: string
  model_tier :: "string option"
  model_ports :: "string list option"

record circuit =
  version :: string
  components :: "component list"
  nets :: "net list"
  models :: "model_def list option"
  metadata :: "json option"

record pin_ref =
  componentId :: string
  refPin :: string

text \<open>An optional flag in a condition: absent reads as false.\<close>

definition flag :: "bool option \<Rightarrow> bool" where
  "flag b \<longleftrightarrow> b = Some True"

lemma flag_simps [simp]: "\<not> flag None" "flag (Some b) = b"
  by (simp_all add: flag_def)

section \<open>Terminals and the net each one is on\<close>

definition comp_by_id :: "circuit \<Rightarrow> string \<Rightarrow> component option" where
  "comp_by_id c i = find (\<lambda>x. comp_id x = i) (components c)"

definition pin_by_id :: "component \<Rightarrow> string \<Rightarrow> pin_connection option" where
  "pin_by_id x i = find (\<lambda>p. pinId p = i) (pins x)"

definition pin_net :: "circuit \<Rightarrow> pin_ref \<Rightarrow> string option" where
  "pin_net c r = Option.bind (comp_by_id c (componentId r))
     (\<lambda>x. map_option netId (pin_by_id x (refPin r)))"

text \<open>Two terminals are connected when both exist and are on one net.\<close>

definition connected :: "circuit \<Rightarrow> pin_ref \<Rightarrow> pin_ref \<Rightarrow> bool" where
  "connected c a b \<longleftrightarrow> pin_net c a \<noteq> None \<and> pin_net c a = pin_net c b"

section \<open>Well-formed documents\<close>

definition wf_component :: "string set \<Rightarrow> component \<Rightarrow> bool" where
  "wf_component ids x \<longleftrightarrow> distinct (map pinId (pins x)) \<and> netId ` set (pins x) \<subseteq> ids"

definition net_ids :: "circuit \<Rightarrow> string set" where
  "net_ids c = net_id ` set (nets c)"

definition wf_circuit :: "circuit \<Rightarrow> bool" where
  "wf_circuit c \<longleftrightarrow>
     distinct (map comp_id (components c)) \<and>
     distinct (map (\<lambda>x. js_lower (designator x)) (components c)) \<and>
     distinct (map net_id (nets c)) \<and>
     distinct (map (\<lambda>n. js_lower (net_name n)) (nets c)) \<and>
     (\<forall>x \<in> set (components c). wf_component (net_ids c) x)"

lemma wf_circuitI [intro?]:
  assumes "distinct (map comp_id (components c))"
    and "distinct (map (\<lambda>x. js_lower (designator x)) (components c))"
    and "distinct (map net_id (nets c))"
    and "distinct (map (\<lambda>n. js_lower (net_name n)) (nets c))"
    and "\<And>x. x \<in> set (components c) \<Longrightarrow> wf_component (net_ids c) x"
  shows "wf_circuit c"
  using assms by (simp add: wf_circuit_def)

lemma wf_circuitD:
  assumes "wf_circuit c"
  shows "distinct (map comp_id (components c))"
    and "distinct (map (\<lambda>x. js_lower (designator x)) (components c))"
    and "distinct (map net_id (nets c))"
    and "distinct (map (\<lambda>n. js_lower (net_name n)) (nets c))"
    and "x \<in> set (components c) \<Longrightarrow> wf_component (net_ids c) x"
  using assms by (simp_all add: wf_circuit_def)

lemma comp_by_id_Some: "comp_by_id c i = Some x \<Longrightarrow> x \<in> set (components c) \<and> comp_id x = i"
  by (auto simp: comp_by_id_def dest: find_SomeD)

lemma comp_by_id_wf:
  "distinct (map comp_id (components c)) \<Longrightarrow>
   comp_by_id c i = Some x \<longleftrightarrow> x \<in> set (components c) \<and> comp_id x = i"
  using find_distinct [of comp_id "components c" x]
  by (auto simp: comp_by_id_def dest: find_SomeD)

lemma pin_by_id_Some: "pin_by_id x i = Some p \<Longrightarrow> p \<in> set (pins x) \<and> pinId p = i"
  by (auto simp: pin_by_id_def dest: find_SomeD)

lemma pin_by_id_wf:
  "distinct (map pinId (pins x)) \<Longrightarrow>
   pin_by_id x i = Some p \<longleftrightarrow> p \<in> set (pins x) \<and> pinId p = i"
  using find_distinct [of pinId "pins x" p] by (auto simp: pin_by_id_def dest: find_SomeD)

lemma pin_net_declared: "wf_circuit c \<Longrightarrow> pin_net c r = Some n \<Longrightarrow> n \<in> net_ids c"
  by (fastforce simp: pin_net_def wf_component_def bind_eq_Some_conv
      dest: comp_by_id_Some pin_by_id_Some wf_circuitD(5))

lemma comp_by_id_wfc:
  "wf_circuit c \<Longrightarrow> comp_by_id c i = Some x \<longleftrightarrow> x \<in> set (components c) \<and> comp_id x = i"
  by (simp add: comp_by_id_wf wf_circuitD)

lemma pin_by_id_wfc:
  "wf_component S x \<Longrightarrow> pin_by_id x i = Some p \<longleftrightarrow> p \<in> set (pins x) \<and> pinId p = i"
  by (simp add: pin_by_id_wf wf_component_def)

lemma pin_net_Some_wf:
  assumes "wf_circuit c"
  shows "pin_net c r = Some n \<longleftrightarrow>
    (\<exists>x \<in> set (components c). comp_id x = componentId r \<and>
      (\<exists>p \<in> set (pins x). pinId p = refPin r \<and> netId p = n))"
    (is "_ \<longleftrightarrow> ?R")
proof
  assume "pin_net c r = Some n"
  then obtain x p where "comp_by_id c (componentId r) = Some x" "pin_by_id x (refPin r) = Some p"
      "netId p = n"
    by (auto simp: pin_net_def bind_eq_Some_conv)
  then show ?R using comp_by_id_Some pin_by_id_Some by blast
next
  assume ?R
  then obtain x p where "comp_by_id c (componentId r) = Some x" "p \<in> set (pins x)"
      "pinId p = refPin r" "netId p = n" "wf_component (net_ids c) x"
    using assms comp_by_id_wfc wf_circuitD(5) by blast
  then show "pin_net c r = Some n"
    using pin_by_id_wfc [of "net_ids c" x "refPin r" p] by (simp add: pin_net_def)
qed

section \<open>Rewriting components in place\<close>

text \<open>
  Most edits rebuild the component array with \<open>map\<close>, keeping ids and pin ids. The first match of
  a \<open>find\<close> by such a key commutes with the rebuild.
\<close>

lemma find_map_key:
  "(\<And>x. x \<in> set xs \<Longrightarrow> k (g x) = k x) \<Longrightarrow>
   find (\<lambda>x. k x = i) (map g xs) = map_option g (find (\<lambda>x. k x = i) xs)"
  by (induction xs) auto

lemma pin_net_map:
  assumes "\<And>x. x \<in> set (components c) \<Longrightarrow> comp_id (g x) = comp_id x"
    and "\<And>x. x \<in> set (components c) \<Longrightarrow> pins (g x) = map (h x) (pins x)"
    and "\<And>x p. pinId (h x p) = pinId p"
    and "components c' = map g (components c)"
  shows "pin_net c' r =
    Option.bind (comp_by_id c (componentId r)) (\<lambda>x. map_option (netId \<circ> h x) (pin_by_id x (refPin r)))"
proof (cases "comp_by_id c (componentId r)")
  case None
  then show ?thesis using assms find_map_key [of "components c" comp_id g]
    by (simp add: pin_net_def comp_by_id_def)
next
  case (Some x)
  then have x: "x \<in> set (components c)" by (auto dest: comp_by_id_Some)
  have "pin_by_id (g x) i = map_option (h x) (pin_by_id x i)" for i
    using assms(2) [OF x] assms(3) find_map_key [of "pins x" pinId "h x"]
    by (simp add: pin_by_id_def)
  then show ?thesis
    using Some assms(1,4) find_map_key [of "components c" comp_id g]
    by (simp add: pin_net_def comp_by_id_def option.map_comp comp_def)
qed

lemma wf_circuit_map:
  assumes "wf_circuit c"
    and "\<And>x. x \<in> set (components c) \<Longrightarrow>
           comp_id (g x) = comp_id x \<and> map pinId (pins (g x)) = map pinId (pins x) \<and>
           netId ` set (pins (g x)) \<subseteq> net_id ` set ns"
    and "distinct (map (\<lambda>x. js_lower (designator (g x))) (components c))"
    and "distinct (map net_id ns)"
    and "distinct (map (\<lambda>n. js_lower (net_name n)) ns)"
  shows "wf_circuit (c\<lparr>components := map g (components c), nets := ns\<rparr>)"
proof
  let ?c = "c\<lparr>components := map g (components c), nets := ns\<rparr>"
  have "map comp_id (components ?c) = map comp_id (components c)" using assms(2) by simp
  then show "distinct (map comp_id (components ?c))"
    using wf_circuitD(1) [OF assms(1)] by (simp only:)
  show "distinct (map (\<lambda>x. js_lower (designator x)) (components ?c))"
    using assms(3) by (simp add: comp_def)
  show "wf_component (net_ids ?c) y" if y: "y \<in> set (components ?c)" for y
  proof -
    obtain x where x: "x \<in> set (components c)" "y = g x" using y by auto
    then have "distinct (map pinId (pins x))"
      using wf_circuitD(5) [OF assms(1)] by (simp add: wf_component_def)
    then show ?thesis using assms(2) [OF x(1)] x(2) by (simp add: wf_component_def net_ids_def)
  qed
qed (use assms in auto)

text \<open>The special case that renames nothing and declares the same nets.\<close>

lemma wf_circuit_map_same:
  assumes "wf_circuit c"
    and "\<And>x. x \<in> set (components c) \<Longrightarrow>
           comp_id (g x) = comp_id x \<and> designator (g x) = designator x \<and> pins (g x) = pins x"
  shows "wf_circuit (c\<lparr>components := map g (components c)\<rparr>)"
proof -
  have "map (\<lambda>x. js_lower (designator (g x))) (components c) =
      map (\<lambda>x. js_lower (designator x)) (components c)" using assms(2) by simp
  then have "distinct (map (\<lambda>x. js_lower (designator (g x))) (components c))"
    using wf_circuitD(2) [OF assms(1)] by (simp only:)
  moreover have "netId ` set (pins x) \<subseteq> net_id ` set (nets c)" if "x \<in> set (components c)" for x
    using that wf_circuitD(5) [OF assms(1)] by (simp add: wf_component_def net_ids_def)
  ultimately have "wf_circuit (c\<lparr>components := map g (components c), nets := nets c\<rparr>)"
    using assms by (intro wf_circuit_map) (simp_all add: wf_circuitD)
  then show ?thesis by simp
qed

end
