(* ===== verification/Edits.thy ===== *)
theory Edits
  imports Circuit
begin

text \<open>
  \<open>editor-core/src/document/edits.ts\<close>: the outcome of an edit and the three edits that change a
  label (\<open>setDesignator\<close>, \<open>setValue\<close>, \<open>setNetName\<close>). Every edit is total: it returns a new
  document, the same document, or a refusal.

  A message or a note is modelled by the template the code fills in, with the interpolated values as
  arguments of the constructor.

  \<open>edit_contract\<close> is the interface the history relies on: an edit keeps a document well formed and
  answers "unchanged" with the very document it was given. It is interpreted for every edit of the
  kernel, here and in \<open>Nets\<close> and \<open>Parts\<close>.
\<close>

section \<open>The outcome of an edit\<close>

datatype refusal =
    NoSuchComponent
  | DuplicateDesignator
  | EmptyText
  | InvalidCharacters
  | NoSuchPin
  | NoSuchNet
  | PinNotOnNet
  | RailShort
  | PointlessSplit

datatype message =
    MNoComponent string
  | MDesignatorEmpty
  | MDesignatorShape
  | MDesignatorTaken string
  | MValueEmpty
  | MNoNet string
  | MNetNameEmpty
  | MNetNameTaken string
  | MNoPin string string
  | MSelfConnection
  | MUndeclaredNet string string
  | MRailShort string string
  | MPinElsewhere string string string string
  | MChooseAPin
  | MWholeNet string
  | MNoFixedPins ctype
  | MPartNeedsPin
  | MPinNamedTwice
  | MStrayPin string ctype
  | MNoDesignator
  | MDesignatorInvalid string
  | MIdTaken string

datatype edit_note =
    NMerged string string
  | NDisconnected string string string
  | NDisconnectedLeaving string string string string
  | NMoved string string string
  | NMovedGone string string string string
  | NMovedLeaving string string string string
  | NSplit nat nat string string
  | NAdded string nat "string list"
  | NRemoved string
  | NRemovedWithNets string nat "string list"
  | NCopied "nat option" "(string \<times> string) list"

datatype edit_result =
    Changed circuit "edit_note option" "string list option" "string list option"
  | Unchanged circuit
  | Refused refusal message

text \<open>The document after an accepted edit.\<close>

fun accepted :: "edit_result \<Rightarrow> circuit option" where
  "accepted (Changed c _ _ _) = Some c"
| "accepted (Unchanged c) = Some c"
| "accepted (Refused _ _) = None"

fun changed :: "edit_result \<Rightarrow> bool" where
  "changed (Changed _ _ _ _) = True"
| "changed _ = False"

lemma changedE:
  assumes "changed e"
  obtains c n cr df where "e = Changed c n cr df"
  using assms by (cases e) auto

locale edit_contract =
  fixes edit :: "circuit \<Rightarrow> edit_result"
  assumes keeps_wf: "wf_circuit c \<Longrightarrow> edit c = Changed c' n cr df \<Longrightarrow> wf_circuit c'"
    and unchanged_same: "edit c = Unchanged c' \<Longrightarrow> c' = c"
begin

lemma accepted_wf: "wf_circuit c \<Longrightarrow> accepted (edit c) = Some c' \<Longrightarrow> wf_circuit c'"
  by (cases "edit c") (auto dest: keeps_wf unchanged_same)

end

section \<open>The grammar of designators\<close>

text \<open>
  \<open>DESIGNATOR_PATTERN\<close>, \<open>/^[A-Z][A-Z0-9]*[0-9]+[A-Z]?$/i\<close>, as the matcher that looks at the two
  ends of the text; \<open>designator_ok_iff\<close> shows that it accepts the language of the expression.
\<close>

definition is_alnum :: "char \<Rightarrow> bool" where
  "is_alnum c \<longleftrightarrow> is_letter c \<or> is_digit c"

definition ends_in_digit :: "string \<Rightarrow> bool" where
  "ends_in_digit s \<longleftrightarrow> s \<noteq> [] \<and> is_digit (last s)"

fun designator_ok :: "string \<Rightarrow> bool" where
  "designator_ok [] = False"
| "designator_ok (c # r) =
     (is_letter c \<and> list_all is_alnum r \<and>
      (ends_in_digit r \<or> (r \<noteq> [] \<and> is_letter (last r) \<and> ends_in_digit (butlast r))))"

lemma not_letter_and_digit: "is_letter c \<Longrightarrow> \<not> is_digit c"
  by (auto simp: is_letter_def is_upper_def is_lower_def is_digit_def)

lemma designator_ok_lang:
  "designator_ok s \<longleftrightarrow>
   (\<exists>c a d l. s = c # a @ d @ l \<and> is_letter c \<and> list_all is_alnum a \<and>
      d \<noteq> [] \<and> list_all is_digit d \<and> length l \<le> 1 \<and> list_all is_letter l)"
  (is "_ \<longleftrightarrow> ?R")
proof
  assume ok: "designator_ok s"
  then obtain c r where s: "s = c # r" by (cases s) auto
  with ok have c: "is_letter c" and r: "list_all is_alnum r" by simp_all
  consider "ends_in_digit r" | "r \<noteq> []" "is_letter (last r)" "ends_in_digit (butlast r)"
    using ok s by auto
  then show ?R
  proof cases
    case 1
    then have eq: "s = c # butlast r @ [last r] @ []" and "is_digit (last r)"
      using s by (auto simp: ends_in_digit_def)
    moreover have "list_all is_alnum (butlast r)"
      using r by (auto simp: list_all_iff dest: in_set_butlastD)
    ultimately show ?R using c
      by (intro exI [of _ c] exI [of _ "butlast r"] exI [of _ "[last r]"] exI [of _ "[]"]) simp
  next
    case 2
    define b where "b = butlast r"
    have b: "b \<noteq> []" "is_digit (last b)" using 2 by (auto simp: ends_in_digit_def b_def)
    then have "b = butlast b @ [last b]" "r = b @ [last r]" using 2 by (simp_all add: b_def)
    then have "s = c # butlast b @ [last b] @ [last r]"
      using s by (metis append.assoc)
    moreover have "list_all is_alnum (butlast b)"
      using r by (auto simp: list_all_iff b_def dest!: in_set_butlastD)
    ultimately show ?R using c b 2
      by (intro exI [of _ c] exI [of _ "butlast b"] exI [of _ "[last b]"] exI [of _ "[last r]"]) simp
  qed
next
  assume ?R
  then obtain c a d l where *: "s = c # a @ d @ l" "is_letter c" "list_all is_alnum a"
      "d \<noteq> []" "list_all is_digit d" "length l \<le> 1" "list_all is_letter l" by blast
  then have alnum: "list_all is_alnum (a @ d @ l)"
    by (auto simp: list_all_iff is_alnum_def)
  have last: "is_digit (last d)" using * by (auto simp: list_all_iff)
  show "designator_ok s"
  proof (cases l)
    case Nil
    then show ?thesis using * alnum last by (simp add: ends_in_digit_def)
  next
    case (Cons x xs)
    then have "l = [x]" using * by simp
    then show ?thesis using * alnum last by (simp add: ends_in_digit_def butlast_append)
  qed
qed

section \<open>The label edits\<close>

text \<open>\<open>replaceComponent\<close>: the order of the array and every other component are kept.\<close>

definition replace_component :: "circuit \<Rightarrow> string \<Rightarrow> (component \<Rightarrow> component) \<Rightarrow> circuit" where
  "replace_component c i upd =
     c\<lparr>components := map (\<lambda>x. if comp_id x = i then upd x else x) (components c)\<rparr>"

definition set_designator :: "circuit \<Rightarrow> string \<Rightarrow> string \<Rightarrow> edit_result" where
  "set_designator c i next =
     (case find (\<lambda>x. comp_id x = i) (components c) of
        None \<Rightarrow> Refused NoSuchComponent (MNoComponent i)
      | Some target \<Rightarrow>
         (let trimmed = js_trim next in
          if trimmed = [] then Refused EmptyText MDesignatorEmpty
          else if \<not> designator_ok trimmed then Refused InvalidCharacters MDesignatorShape
          else if trimmed = designator target then Unchanged c
          else case find (\<lambda>x. comp_id x \<noteq> i \<and> js_lower (designator x) = js_lower trimmed)
                  (components c) of
                 Some clash \<Rightarrow> Refused DuplicateDesignator (MDesignatorTaken (designator clash))
               | None \<Rightarrow>
                   Changed (replace_component c i (\<lambda>x. x\<lparr>designator := trimmed\<rparr>)) None None None))"

definition set_value :: "circuit \<Rightarrow> string \<Rightarrow> string \<Rightarrow> edit_result" where
  "set_value c i next =
     (case find (\<lambda>x. comp_id x = i) (components c) of
        None \<Rightarrow> Refused NoSuchComponent (MNoComponent i)
      | Some target \<Rightarrow>
         (let trimmed = js_trim next in
          if trimmed = [] then Refused EmptyText MValueEmpty
          else if Some trimmed = comp_value target then Unchanged c
          else Changed (replace_component c i (\<lambda>x. x\<lparr>comp_value := Some trimmed\<rparr>)) None None None))"

definition set_net_name :: "circuit \<Rightarrow> string \<Rightarrow> string \<Rightarrow> edit_result" where
  "set_net_name c i next =
     (case find (\<lambda>n. net_id n = i) (nets c) of
        None \<Rightarrow> Refused NoSuchComponent (MNoNet i)
      | Some target \<Rightarrow>
         (let trimmed = js_trim next in
          if trimmed = [] then Refused EmptyText MNetNameEmpty
          else if trimmed = net_name target then Unchanged c
          else case find (\<lambda>n. net_id n \<noteq> i \<and> js_lower (net_name n) = js_lower trimmed) (nets c) of
                 Some clash \<Rightarrow> Refused DuplicateDesignator (MNetNameTaken (net_name clash))
               | None \<Rightarrow>
                   Changed (c\<lparr>nets := map (\<lambda>n. if net_id n = i then n\<lparr>net_name := trimmed\<rparr> else n)
                              (nets c)\<rparr>) None None None))"

section \<open>What they keep\<close>

lemma set_designator_Changed:
  assumes "set_designator c i s = Changed c' n cr df"
  shows "c' = replace_component c i (\<lambda>x. x\<lparr>designator := js_trim s\<rparr>)"
    and "designator_ok (js_trim s)"
    and "x \<in> set (components c) \<Longrightarrow> comp_id x \<noteq> i \<Longrightarrow>
           js_lower (designator x) \<noteq> js_lower (js_trim s)"
    and "\<exists>x \<in> set (components c). comp_id x = i"
  using assms
  by (auto simp: set_designator_def Let_def find_None_iff_set split: option.splits if_splits
      dest: find_SomeD)

lemma set_value_Changed:
  assumes "set_value c i s = Changed c' n cr df"
  shows "c' = replace_component c i (\<lambda>x. x\<lparr>comp_value := Some (js_trim s)\<rparr>)"
    and "js_trim s \<noteq> []"
  using assms by (auto simp: set_value_def Let_def split: option.splits if_splits)

lemma set_net_name_Changed:
  assumes "set_net_name c i s = Changed c' n cr df"
  shows "c' = c\<lparr>nets := map (\<lambda>n. if net_id n = i then n\<lparr>net_name := js_trim s\<rparr> else n) (nets c)\<rparr>"
    and "js_trim s \<noteq> []"
    and "x \<in> set (nets c) \<Longrightarrow> net_id x \<noteq> i \<Longrightarrow> js_lower (net_name x) \<noteq> js_lower (js_trim s)"
  using assms
  by (auto simp: set_net_name_def Let_def find_None_iff_set split: option.splits if_splits)

text \<open>Giving one element a text no other element has keeps the texts distinct.\<close>

lemma distinct_relabel:
  assumes "distinct (map k xs)" "distinct (map l xs)"
    and "\<And>x. x \<in> set xs \<Longrightarrow> k x \<noteq> i \<Longrightarrow> l x \<noteq> t"
    and "\<And>x. x \<in> set xs \<Longrightarrow> l' x = (if k x = i then t else l x)"
  shows "distinct (map l' xs)"
  using assms
proof (induction xs)
  case (Cons y ys)
  then have "distinct (map l' ys)" by simp
  moreover have "l' y \<noteq> l' z" if z: "z \<in> set ys" for z
  proof -
    have ne: "k z \<noteq> k y" "l z \<noteq> l y" using Cons.prems(1,2) z by (auto simp: image_iff)
    have "l z \<noteq> t" if "k z \<noteq> i" using Cons.prems(3) z that by simp
    moreover have "l y \<noteq> t" if "k y \<noteq> i" using Cons.prems(3) that by simp
    ultimately show ?thesis using ne Cons.prems(4) z by auto
  qed
  ultimately show ?case by auto
qed simp

lemma set_designator_wf:
  assumes "wf_circuit c" "set_designator c i s = Changed c' n cr df"
  shows "wf_circuit c'"
proof -
  let ?g = "\<lambda>x. if comp_id x = i then x\<lparr>designator := js_trim s\<rparr> else x"
  note c' = set_designator_Changed(1) [OF assms(2)]
  have "distinct (map (\<lambda>x. js_lower (designator (?g x))) (components c))"
    by (rule distinct_relabel [OF wf_circuitD(1,2) [OF assms(1)] set_designator_Changed(3) [OF assms(2)]]) auto
  moreover have "comp_id (?g x) = comp_id x \<and> map pinId (pins (?g x)) = map pinId (pins x) \<and>
      netId ` set (pins (?g x)) \<subseteq> net_id ` set (nets c)" if "x \<in> set (components c)" for x
    using that wf_circuitD(5) [OF assms(1)] by (auto simp: wf_component_def net_ids_def)
  ultimately have "wf_circuit (c\<lparr>components := map ?g (components c), nets := nets c\<rparr>)"
    using assms(1) by (intro wf_circuit_map) (simp_all add: wf_circuitD)
  then show ?thesis by (simp add: c' replace_component_def)
qed

lemma set_value_wf:
  assumes "wf_circuit c" "set_value c i s = Changed c' n cr df"
  shows "wf_circuit c'"
  unfolding set_value_Changed(1) [OF assms(2)] replace_component_def
  using assms(1) by (rule wf_circuit_map_same) auto

lemma set_net_name_wf:
  assumes "wf_circuit c" "set_net_name c i s = Changed c' n cr df"
  shows "wf_circuit c'"
proof -
  let ?f = "\<lambda>n. if net_id n = i then n\<lparr>net_name := js_trim s\<rparr> else n"
  note c' = set_net_name_Changed(1) [OF assms(2)]
  have names: "distinct (map (\<lambda>n. js_lower (net_name (?f n))) (nets c))"
    by (rule distinct_relabel [OF wf_circuitD(3,4) [OF assms(1)] set_net_name_Changed(3) [OF assms(2)]]) auto
  have ids: "map net_id (nets c') = map net_id (nets c)" by (simp add: c')
  then have "net_ids c' = net_ids c" by (metis list.set_map net_ids_def)
  moreover have "components c' = components c" by (simp add: c')
  moreover have "distinct (map (\<lambda>n. js_lower (net_name n)) (nets c'))"
    using names by (simp add: c' comp_def)
  ultimately show ?thesis
    using assms(1) ids by (auto simp only: wf_circuit_def)
qed

lemma label_edit_unchanged:
  "set_designator c i s = Unchanged c' \<Longrightarrow> c' = c"
  "set_value c i s = Unchanged c' \<Longrightarrow> c' = c"
  "set_net_name c i s = Unchanged c' \<Longrightarrow> c' = c"
  by (auto simp: set_designator_def set_value_def set_net_name_def Let_def
      split: option.splits if_splits)

interpretation designator_edit: edit_contract "\<lambda>c. set_designator c i s" for i s
  by unfold_locales (auto intro: set_designator_wf dest: label_edit_unchanged)

interpretation value_edit: edit_contract "\<lambda>c. set_value c i s" for i s
  by unfold_locales (auto intro: set_value_wf dest: label_edit_unchanged)

interpretation net_name_edit: edit_contract "\<lambda>c. set_net_name c i s" for i s
  by unfold_locales (auto intro: set_net_name_wf dest: label_edit_unchanged)

text \<open>The label edits move no terminal: the netlist is the same before and after.\<close>

lemma replace_component_pin_net:
  assumes "\<And>x. comp_id (upd x) = comp_id x" "\<And>x. pins (upd x) = pins x"
  shows "pin_net (replace_component c i upd) r = pin_net c r"
  using pin_net_map [of c "\<lambda>x. if comp_id x = i then upd x else x" "\<lambda>_ p. p"
      "replace_component c i upd" r] assms
  by (simp add: replace_component_def pin_net_def comp_def)

lemma set_designator_pin_net:
  "set_designator c i s = Changed c' n cr df \<Longrightarrow> pin_net c' = pin_net c"
  by (drule set_designator_Changed(1)) (simp add: fun_eq_iff replace_component_pin_net)

lemma set_value_pin_net:
  "set_value c i s = Changed c' n cr df \<Longrightarrow> pin_net c' = pin_net c"
  by (drule set_value_Changed(1)) (simp add: fun_eq_iff replace_component_pin_net)

lemma set_net_name_pin_net:
  "set_net_name c i s = Changed c' n cr df \<Longrightarrow> pin_net c' = pin_net c"
  by (drule set_net_name_Changed(1)) (simp add: fun_eq_iff pin_net_def comp_by_id_def)

end
