(* ===== verification/Nets.thy ===== *)
theory Nets
  imports Edits
begin

text \<open>
  \<open>editor-core/src/document/nets.ts\<close>: the edits that decide what is wired to what. Each definition
  follows the function of the same name; \<open>retarget\<close> is the common shape of the three ways the code
  rewrites pins (\<open>repoint\<close>, one pin, a chosen set of pins), and its lemmas carry the proofs.

  \<open>pinKey\<close> encodes a pin as the JSON text of the pair of its ids, which is injective; the model uses
  the pair itself.
\<close>

section \<open>Lookups\<close>

definition find_pin :: "circuit \<Rightarrow> pin_ref \<Rightarrow> message + (component \<times> string)" where
  "find_pin c r =
     (case find (\<lambda>x. comp_id x = componentId r) (components c) of
        None \<Rightarrow> Inl (MNoComponent (componentId r))
      | Some x \<Rightarrow>
          (case find (\<lambda>p. pinId p = refPin r) (pins x) of
             None \<Rightarrow> Inl (MNoPin (designator x) (refPin r))
           | Some p \<Rightarrow> Inr (x, netId p)))"

definition net_by_id :: "circuit \<Rightarrow> string \<Rightarrow> net option" where
  "net_by_id c i = find (\<lambda>n. net_id n = i) (nets c)"

definition pin_key :: "string \<Rightarrow> string \<Rightarrow> pin_ref" where
  "pin_key i p = \<lparr>componentId = i, refPin = p\<rparr>"

definition pins_on :: "circuit \<Rightarrow> string \<Rightarrow> pin_ref list" where
  "pins_on c n =
     concat (map (\<lambda>x. map (\<lambda>p. pin_key (comp_id x) (pinId p)) (filter (\<lambda>p. netId p = n) (pins x)))
       (components c))"

definition fresh_net :: "circuit \<Rightarrow> string \<times> string" where
  "fresh_net c =
     (let i = next_free ''n'' ''N'' (map net_id (nets c)) (map (\<lambda>n. js_lower (net_name n)) (nets c)) 1
      in (''n'' @ num_str i, ''N'' @ num_str i))"

definition new_net :: "string \<times> string \<Rightarrow> net" where
  "new_net f = \<lparr>net_id = fst f, net_name = snd f, isGround = None, isPower = None\<rparr>"

definition repoint :: "circuit \<Rightarrow> string \<Rightarrow> string \<Rightarrow> circuit" where
  "repoint c fromNet toNet =
     c\<lparr>components := map (\<lambda>x.
         if \<exists>p \<in> set (pins x). netId p = fromNet
         then x\<lparr>pins := map (\<lambda>p. if netId p = fromNet then p\<lparr>netId := toNet\<rparr> else p) (pins x)\<rparr>
         else x) (components c)\<rparr>"

definition rank :: "net \<Rightarrow> nat" where
  "rank n = (if flag (isGround n) then 2 else if flag (isPower n) then 1 else 0)"

section \<open>The edits\<close>

definition connect_pins :: "circuit \<Rightarrow> pin_ref \<Rightarrow> pin_ref \<Rightarrow> edit_result" where
  "connect_pins c frm to =
     (case find_pin c frm of Inl m \<Rightarrow> Refused NoSuchPin m
      | Inr (xa, ia) \<Rightarrow>
     (case find_pin c to of Inl m \<Rightarrow> Refused NoSuchPin m
      | Inr (xb, ib) \<Rightarrow>
          if componentId frm = componentId to \<and> refPin frm = refPin to
          then Refused NoSuchPin MSelfConnection
          else if ia = ib then Unchanged c
          else
     (case net_by_id c ia of
        None \<Rightarrow> Refused NoSuchNet (MUndeclaredNet (designator xa) (refPin frm))
      | Some na \<Rightarrow>
     (case net_by_id c ib of
        None \<Rightarrow> Refused NoSuchNet (MUndeclaredNet (designator xb) (refPin to))
      | Some nb \<Rightarrow>
          if (flag (isGround na) \<and> flag (isPower nb)) \<or> (flag (isPower na) \<and> flag (isGround nb))
          then (let (gnd, pwr) = (if flag (isGround na) then (na, nb) else (nb, na))
                in Refused RailShort (MRailShort (net_name gnd) (net_name pwr)))
          else (let (keep, absorb) = (if rank na \<le> rank nb then (nb, na) else (na, nb));
                    moved = repoint c (net_id absorb) (net_id keep)
                in Changed (moved\<lparr>nets := filter (\<lambda>n. net_id n \<noteq> net_id absorb) (nets moved)\<rparr>)
                     (Some (NMerged (net_name absorb) (net_name keep))) None None)))))"

text \<open>The rewrite of one pin, written out in \<open>disconnectPin\<close> and in \<open>movePinToNet\<close>.\<close>

definition put_pin :: "circuit \<Rightarrow> pin_ref \<Rightarrow> string \<Rightarrow> circuit" where
  "put_pin c r n =
     c\<lparr>components := map (\<lambda>x.
         if comp_id x = componentId r
         then x\<lparr>pins := map (\<lambda>p. if pinId p = refPin r then p\<lparr>netId := n\<rparr> else p) (pins x)\<rparr>
         else x) (components c)\<rparr>"

definition disconnect_pin :: "circuit \<Rightarrow> pin_ref \<Rightarrow> edit_result" where
  "disconnect_pin c r =
     (case find_pin c r of Inl m \<Rightarrow> Refused NoSuchPin m
      | Inr (x, i) \<Rightarrow>
     (case net_by_id c i of
        None \<Rightarrow> Refused NoSuchNet (MUndeclaredNet (designator x) (refPin r))
      | Some old \<Rightarrow>
          (let others = filter (\<lambda>p. \<not> (componentId p = componentId r \<and> refPin p = refPin r)) (pins_on c i)
           in if length others = 0 then Unchanged c
              else (let fresh = fresh_net c; moved = put_pin c r (fst fresh)
                    in Changed (moved\<lparr>nets := nets c @ [new_net fresh]\<rparr>)
                         (Some (if length others = 1
                                then NDisconnectedLeaving (designator x) (refPin r) (snd fresh) (net_name old)
                                else NDisconnected (designator x) (refPin r) (snd fresh)))
                         None None))))"

definition move_pin_to_net :: "circuit \<Rightarrow> pin_ref \<Rightarrow> string \<Rightarrow> edit_result" where
  "move_pin_to_net c r n =
     (case find_pin c r of Inl m \<Rightarrow> Refused NoSuchPin m
      | Inr (x, i) \<Rightarrow>
     (case net_by_id c n of
        None \<Rightarrow> Refused NoSuchNet (MNoNet n)
      | Some target \<Rightarrow>
          if i = n then Unchanged c
          else (let old_name = (case net_by_id c i of None \<Rightarrow> i | Some old \<Rightarrow> net_name old);
                    left_behind = length (filter (\<lambda>p. p \<noteq> r) (pins_on c i));
                    moved = (put_pin c r n)\<lparr>nets := filter (\<lambda>m. \<not> (left_behind = 0 \<and> net_id m = i)) (nets c)\<rparr>
                in Changed moved
                     (Some (if left_behind = 0
                            then NMovedGone (designator x) (refPin r) (net_name target) old_name
                            else if left_behind = 1
                            then NMovedLeaving (designator x) (refPin r) (net_name target) old_name
                            else NMoved (designator x) (refPin r) (net_name target)))
                     None None)))"

text \<open>The loop of \<open>splitNet\<close> over the chosen pins: the first that is missing or elsewhere is refused.\<close>

fun check_take :: "circuit \<Rightarrow> net \<Rightarrow> pin_ref list \<Rightarrow> pin_ref list \<Rightarrow> edit_result option" where
  "check_take c n on [] = None"
| "check_take c n on (r # rs) =
     (case find_pin c r of
        Inl m \<Rightarrow> Some (Refused NoSuchPin m)
      | Inr (x, i) \<Rightarrow>
          if r \<notin> set on
          then Some (Refused PinNotOnNet
                 (MPinElsewhere (designator x) (refPin r)
                    (case net_by_id c i of None \<Rightarrow> i | Some m \<Rightarrow> net_name m) (net_name n)))
          else check_take c n on rs)"

definition split_net :: "circuit \<Rightarrow> string \<Rightarrow> pin_ref list \<Rightarrow> edit_result" where
  "split_net c i chosen =
     (case net_by_id c i of
        None \<Rightarrow> Refused NoSuchNet (MNoNet i)
      | Some n \<Rightarrow>
          (let on = pins_on c i in
           case check_take c n on chosen of
             Some refusal \<Rightarrow> refusal
           | None \<Rightarrow>
               (let keys = uniq chosen in
                if length keys = 0 then Refused PointlessSplit MChooseAPin
                else if length keys = length on then Refused PointlessSplit (MWholeNet (net_name n))
                else (let fresh = fresh_net c;
                          moved = c\<lparr>components := map (\<lambda>x.
                              if \<not> (\<exists>p \<in> set (pins x). pin_key (comp_id x) (pinId p) \<in> set keys) then x
                              else x\<lparr>pins := map (\<lambda>p.
                                  if pin_key (comp_id x) (pinId p) \<in> set keys
                                  then p\<lparr>netId := fst fresh\<rparr> else p) (pins x)\<rparr>) (components c)\<rparr>
                      in Changed (moved\<lparr>nets := nets c @ [new_net fresh]\<rparr>)
                           (Some (NSplit (length keys) (length on) (net_name n) (snd fresh)))
                           None None))))"

section \<open>Rewriting pins\<close>

definition retarget :: "(pin_ref \<Rightarrow> string \<Rightarrow> bool) \<Rightarrow> string \<Rightarrow> circuit \<Rightarrow> circuit" where
  "retarget P n c =
     c\<lparr>components := map (\<lambda>x.
         x\<lparr>pins := map (\<lambda>p. if P (pin_key (comp_id x) (pinId p)) (netId p) then p\<lparr>netId := n\<rparr> else p) (pins x)\<rparr>)
       (components c)\<rparr>"

lemma pin_key_simps [simp]:
  "componentId (pin_key i p) = i" "refPin (pin_key i p) = p"
  by (simp_all add: pin_key_def)

lemma pin_key_eq: "pin_key i p = r \<longleftrightarrow> i = componentId r \<and> p = refPin r"
  by (cases r) (auto simp: pin_key_def)

lemma pin_ref_eq: "componentId a = componentId b \<and> refPin a = refPin b \<longleftrightarrow> a = (b :: pin_ref)"
  by (cases a; cases b) auto

lemma map_pins_id: "(\<And>p. p \<in> set (pins x) \<Longrightarrow> f p = p) \<Longrightarrow> x\<lparr>pins := map f (pins x)\<rparr> = (x :: component)"
  by (simp add: map_idI)

lemma repoint_retarget: "repoint c f t = retarget (\<lambda>_ m. m = f) t c"
proof -
  have "(if \<exists>p \<in> set (pins x). netId p = f
         then x\<lparr>pins := map (\<lambda>p. if netId p = f then p\<lparr>netId := t\<rparr> else p) (pins x)\<rparr> else x) =
        x\<lparr>pins := map (\<lambda>p. if netId p = f then p\<lparr>netId := t\<rparr> else p) (pins x)\<rparr>" for x :: component
    by (auto intro!: map_pins_id [symmetric])
  then show ?thesis by (simp add: repoint_def retarget_def)
qed

lemma put_pin_retarget: "put_pin c r n = retarget (\<lambda>q _. q = r) n c"
proof -
  have "(if comp_id x = componentId r
         then x\<lparr>pins := map (\<lambda>p. if pinId p = refPin r then p\<lparr>netId := n\<rparr> else p) (pins x)\<rparr> else x) =
        x\<lparr>pins := map (\<lambda>p. if pin_key (comp_id x) (pinId p) = r then p\<lparr>netId := n\<rparr> else p) (pins x)\<rparr>"
    for x :: component
    by (auto simp: pin_key_eq intro!: map_pins_id [symmetric])
  then show ?thesis by (simp add: put_pin_def retarget_def)
qed

lemma take_retarget:
  "c\<lparr>components := map (\<lambda>x.
       if \<not> (\<exists>p \<in> set (pins x). pin_key (comp_id x) (pinId p) \<in> K) then x
       else x\<lparr>pins := map (\<lambda>p. if pin_key (comp_id x) (pinId p) \<in> K then p\<lparr>netId := n\<rparr> else p) (pins x)\<rparr>)
     (components c)\<rparr> = retarget (\<lambda>q _. q \<in> K) n c"
proof -
  have "(if \<not> (\<exists>p \<in> set (pins x). pin_key (comp_id x) (pinId p) \<in> K) then x
       else x\<lparr>pins := map (\<lambda>p. if pin_key (comp_id x) (pinId p) \<in> K then p\<lparr>netId := n\<rparr> else p) (pins x)\<rparr>) =
     x\<lparr>pins := map (\<lambda>p. if pin_key (comp_id x) (pinId p) \<in> K then p\<lparr>netId := n\<rparr> else p) (pins x)\<rparr>"
    for x :: component
    by (auto intro!: map_pins_id [symmetric])
  then show ?thesis by (simp add: retarget_def)
qed

lemma retarget_nets [simp]: "nets (retarget P n c) = nets c"
  by (simp add: retarget_def)

lemma pin_net_nets [simp]: "pin_net (c\<lparr>nets := ns\<rparr>) r = pin_net c r"
  by (simp add: pin_net_def comp_by_id_def)

lemma pin_net_retarget:
  "pin_net (retarget P n c) r = map_option (\<lambda>m. if P r m then n else m) (pin_net c r)"
proof -
  let ?h = "\<lambda>x p. if P (pin_key (comp_id x) (pinId p)) (netId p) then p\<lparr>netId := n\<rparr> else p"
  have "pin_net (retarget P n c) r =
      Option.bind (comp_by_id c (componentId r)) (\<lambda>x. map_option (netId \<circ> ?h x) (pin_by_id x (refPin r)))"
    by (rule pin_net_map [where g = "\<lambda>x. x\<lparr>pins := map (?h x) (pins x)\<rparr>"]) (auto simp: retarget_def)
  also have "\<dots> = map_option (\<lambda>m. if P r m then n else m) (pin_net c r)"
  proof (cases "comp_by_id c (componentId r)")
    case (Some x)
    then have x: "comp_id x = componentId r" by (simp add: comp_by_id_Some)
    show ?thesis
    proof (cases "pin_by_id x (refPin r)")
      case (Some p)
      then have "pinId p = refPin r" by (simp add: pin_by_id_Some)
      then have "pin_key (comp_id x) (pinId p) = r" using x by (simp add: pin_key_eq)
      then show ?thesis using \<open>comp_by_id c (componentId r) = Some x\<close> Some
        by (simp add: pin_net_def)
    qed (use Some in \<open>simp add: pin_net_def\<close>)
  qed (simp add: pin_net_def)
  finally show ?thesis .
qed

lemma wf_retarget:
  assumes "wf_circuit c" "distinct (map net_id ns)" "distinct (map (\<lambda>n. js_lower (net_name n)) ns)"
    and "\<And>x p. x \<in> set (components c) \<Longrightarrow> p \<in> set (pins x) \<Longrightarrow>
           (if P (pin_key (comp_id x) (pinId p)) (netId p) then n else netId p) \<in> net_id ` set ns"
  shows "wf_circuit ((retarget P n c)\<lparr>nets := ns\<rparr>)"
proof -
  let ?g = "\<lambda>x. x\<lparr>pins := map (\<lambda>p. if P (pin_key (comp_id x) (pinId p)) (netId p)
    then p\<lparr>netId := n\<rparr> else p) (pins x)\<rparr>"
  have "netId ` set (pins (?g x)) \<subseteq> net_id ` set ns" if x: "x \<in> set (components c)" for x
  proof
    fix m assume "m \<in> netId ` set (pins (?g x))"
    then obtain p where p: "p \<in> set (pins x)"
        "m = (if P (pin_key (comp_id x) (pinId p)) (netId p) then n else netId p)"
      by (auto split: if_splits)
    show "m \<in> net_id ` set ns" unfolding p(2) using assms(4) x p(1) .
  qed
  moreover have "map pinId (pins (?g x)) = map pinId (pins x)" for x by auto
  ultimately have "wf_circuit (c\<lparr>components := map ?g (components c), nets := ns\<rparr>)"
    using assms(1-3) by (intro wf_circuit_map) (simp_all add: wf_circuitD)
  then show ?thesis by (simp add: retarget_def)
qed

section \<open>Facts about the lookups\<close>

lemma find_pin_Inr:
  "find_pin c r = Inr (x, i) \<longleftrightarrow>
   comp_by_id c (componentId r) = Some x \<and> map_option netId (pin_by_id x (refPin r)) = Some i"
  by (auto simp: find_pin_def comp_by_id_def pin_by_id_def split: option.splits)

lemma find_pin_pin_net: "find_pin c r = Inr (x, i) \<Longrightarrow> pin_net c r = Some i"
  by (auto simp: find_pin_Inr pin_net_def)

lemma pin_net_find_pin: "pin_net c r = Some i \<Longrightarrow> \<exists>x. find_pin c r = Inr (x, i)"
  by (auto simp: find_pin_Inr pin_net_def bind_eq_Some_conv)

lemma find_pin_Inl: "find_pin c r = Inl m \<Longrightarrow> pin_net c r = None"
  by (cases "pin_net c r") (auto dest: pin_net_find_pin)

lemma net_by_id_Some: "net_by_id c i = Some n \<Longrightarrow> n \<in> set (nets c) \<and> net_id n = i"
  by (auto simp: net_by_id_def dest: find_SomeD)

lemma net_by_id_wfc:
  "wf_circuit c \<Longrightarrow> net_by_id c i = Some n \<longleftrightarrow> n \<in> set (nets c) \<and> net_id n = i"
  using find_distinct [of net_id "nets c" n]
  by (auto simp: net_by_id_def wf_circuitD dest: find_SomeD)

lemma net_by_id_declared: "i \<in> net_ids c \<Longrightarrow> net_by_id c i \<noteq> None"
  by (auto simp: net_by_id_def net_ids_def find_None_iff_set)

lemma in_pins_on:
  "r \<in> set (pins_on c n) \<longleftrightarrow>
   (\<exists>x \<in> set (components c). comp_id x = componentId r \<and>
      (\<exists>p \<in> set (pins x). pinId p = refPin r \<and> netId p = n))"
proof -
  have "r \<in> (\<lambda>p. pin_key (comp_id x) (pinId p)) ` S \<longleftrightarrow>
      comp_id x = componentId r \<and> (\<exists>p \<in> S. pinId p = refPin r)" for x :: component and S :: "pin_connection set"
    by (auto simp: pin_key_eq image_iff eq_commute [of r])
  then show ?thesis unfolding pins_on_def by (auto simp del: image_iff)
qed

lemma pins_on_iff: "wf_circuit c \<Longrightarrow> r \<in> set (pins_on c n) \<longleftrightarrow> pin_net c r = Some n"
  by (simp only: in_pins_on pin_net_Some_wf)

lemma distinct_keyed_pins:
  assumes "distinct (map comp_id xs)" "\<And>x. x \<in> set xs \<Longrightarrow> distinct (map pinId (pins x))"
  shows "distinct (concat (map (\<lambda>x. map (\<lambda>p. pin_key (comp_id x) (pinId p))
      (filter (\<lambda>p. netId p = n) (pins x))) xs))"
  using assms
proof (induction xs)
  case (Cons x xs)
  then have "distinct (map pinId (pins x))" by simp
  then have "distinct (map (\<lambda>p. pin_key (comp_id x) (pinId p)) (filter (\<lambda>p. netId p = n) (pins x)))"
    by (induction "pins x") (auto simp: distinct_map inj_on_def pin_key_eq distinct_filter)
  with Cons show ?case by (auto simp: pin_key_eq)
qed simp

lemma distinct_pins_on: "wf_circuit c \<Longrightarrow> distinct (pins_on c n)"
  unfolding pins_on_def
  by (rule distinct_keyed_pins) (auto simp: wf_circuitD dest!: wf_circuitD(5) simp: wf_component_def)

lemma fresh_net_id: "fst (fresh_net c) \<notin> net_ids c"
  and fresh_net_name: "js_lower (snd (fresh_net c)) \<notin> (\<lambda>n. js_lower (net_name n)) ` set (nets c)"
  using next_free_free [of "''n''" "''N''" "map net_id (nets c)" "map (\<lambda>n. js_lower (net_name n)) (nets c)" 1]
  by (auto simp: fresh_net_def Let_def name_taken_def net_ids_def)

lemma fresh_net_not_net: "wf_circuit c \<Longrightarrow> pin_net c r \<noteq> Some (fst (fresh_net c))"
  using pin_net_declared fresh_net_id by blast

lemma distinct_add_fresh:
  assumes "wf_circuit c"
  shows "distinct (map net_id (nets c @ [new_net (fresh_net c)]))"
    and "distinct (map (\<lambda>n. js_lower (net_name n)) (nets c @ [new_net (fresh_net c)]))"
  using assms fresh_net_id [of c] fresh_net_name [of c]
  by (auto simp: wf_circuitD new_net_def net_ids_def)

lemma wf_pin_declared:
  "wf_circuit c \<Longrightarrow> x \<in> set (components c) \<Longrightarrow> p \<in> set (pins x) \<Longrightarrow> netId p \<in> net_id ` set (nets c)"
  using wf_circuitD(5) [of c x] by (auto simp: wf_component_def net_ids_def)

lemma wf_pin_key_net:
  "wf_circuit c \<Longrightarrow> x \<in> set (components c) \<Longrightarrow> p \<in> set (pins x) \<Longrightarrow>
   pin_net c (pin_key (comp_id x) (pinId p)) = Some (netId p)"
  by (auto simp: pin_net_Some_wf)

section \<open>What an accepted edit did\<close>

lemma connect_pins_Changed:
  assumes "connect_pins c a b = Changed c' n cr df"
  obtains ia ib na nb k d where
    "pin_net c a = Some ia" "pin_net c b = Some ib" "ia \<noteq> ib"
    "net_by_id c ia = Some na" "net_by_id c ib = Some nb"
    "\<not> (flag (isGround na) \<and> flag (isPower nb))" "\<not> (flag (isPower na) \<and> flag (isGround nb))"
    "(k, d) = (if rank na \<le> rank nb then (nb, na) else (na, nb))"
    "c' = (retarget (\<lambda>_ m. m = net_id d) (net_id k) c)\<lparr>nets := filter (\<lambda>n. net_id n \<noteq> net_id d) (nets c)\<rparr>"
    "n = Some (NMerged (net_name d) (net_name k))"
proof -
  obtain xa ia where fa: "find_pin c a = Inr (xa, ia)"
    using assms by (auto simp: connect_pins_def split: sum.splits)
  obtain xb ib where fb: "find_pin c b = Inr (xb, ib)"
    using assms fa by (auto simp: connect_pins_def split: sum.splits)
  have ne: "ia \<noteq> ib" using assms fa fb by (auto simp: connect_pins_def split: if_splits)
  obtain na where na: "net_by_id c ia = Some na"
    using assms fa fb ne by (auto simp: connect_pins_def split: if_splits option.splits)
  obtain nb where nb: "net_by_id c ib = Some nb"
    using assms fa fb ne na by (auto simp: connect_pins_def split: if_splits option.splits)
  show ?thesis
    using assms fa fb ne na nb find_pin_pin_net [OF fa] find_pin_pin_net [OF fb]
    by (intro that [of ia ib na nb "if rank na \<le> rank nb then nb else na"
          "if rank na \<le> rank nb then na else nb"])
      (auto simp: connect_pins_def repoint_retarget Let_def split: if_splits)
qed

lemma disconnect_pin_Changed:
  assumes "disconnect_pin c r = Changed c' n cr df"
  shows "c' = (retarget (\<lambda>q _. q = r) (fst (fresh_net c)) c)\<lparr>nets := nets c @ [new_net (fresh_net c)]\<rparr>"
    and "\<exists>i. pin_net c r = Some i \<and> (\<exists>q \<in> set (pins_on c i). q \<noteq> r)"
  using assms
  by (auto simp: disconnect_pin_def put_pin_retarget Let_def filter_empty_conv pin_ref_eq
      dest!: find_pin_pin_net split: sum.splits option.splits if_splits)

lemma move_pin_to_net_Changed:
  assumes "move_pin_to_net c r t = Changed c' n cr df"
  obtains i where "pin_net c r = Some i" "i \<noteq> t" "net_by_id c t \<noteq> None"
    "c' = (retarget (\<lambda>q _. q = r) t c)\<lparr>nets := filter (\<lambda>m. \<not> ((\<forall>q \<in> set (pins_on c i). q = r) \<and> net_id m = i)) (nets c)\<rparr>"
  using assms
  by (auto simp: move_pin_to_net_def put_pin_retarget Let_def filter_empty_conv
      dest!: find_pin_pin_net split: sum.splits option.splits if_splits)

lemma check_take_None:
  "check_take c n on rs = None \<longleftrightarrow> (\<forall>r \<in> set rs. r \<in> set on \<and> pin_net c r \<noteq> None)"
proof (induction rs)
  case (Cons r rs)
  then show ?case using find_pin_pin_net [of c r] find_pin_Inl [of c r]
    by (cases "find_pin c r") (auto split: if_splits)
qed simp

lemma check_take_refused:
  "check_take c n on rs \<noteq> Some (Changed c' m cr df)"
  "check_take c n on rs \<noteq> Some (Unchanged c')"
  by (induction rs) (auto split: sum.splits if_splits)

lemma split_net_Changed:
  assumes "split_net c i ps = Changed c' n cr df"
  shows "c' = (retarget (\<lambda>q _. q \<in> set ps) (fst (fresh_net c)) c)\<lparr>nets := nets c @ [new_net (fresh_net c)]\<rparr>"
    and "set ps \<subseteq> set (pins_on c i)"
    and "ps \<noteq> []"
    and "length (uniq ps) \<noteq> length (pins_on c i)"
proof -
  obtain m where m: "net_by_id c i = Some m"
    using assms by (cases "net_by_id c i") (simp_all add: split_net_def)
  have none: "check_take c m (pins_on c i) ps = None"
    using assms m check_take_refused(1) by (cases "check_take c m (pins_on c i) ps") (auto simp: split_net_def)
  then show "set ps \<subseteq> set (pins_on c i)" by (auto simp: check_take_None)
  show "ps \<noteq> []" and "length (uniq ps) \<noteq> length (pins_on c i)"
    using assms m none by (auto simp: split_net_def Let_def split: if_splits)
  show "c' = (retarget (\<lambda>q _. q \<in> set ps) (fst (fresh_net c)) c)\<lparr>nets := nets c @ [new_net (fresh_net c)]\<rparr>"
    using assms m none
    by (simp only: split_net_def Let_def option.case take_retarget set_uniq split: if_splits) auto
qed

section \<open>Well-formedness\<close>

lemma connect_pins_wf:
  assumes wf: "wf_circuit c" and ch: "connect_pins c a b = Changed c' n cr df"
  shows "wf_circuit c'"
proof (rule connect_pins_Changed [OF ch])
  fix ia ib na nb k d
  assume ne: "ia \<noteq> ib" and na: "net_by_id c ia = Some na" and nb: "net_by_id c ib = Some nb"
    and kd: "(k, d) = (if rank na \<le> rank nb then (nb, na) else (na, nb))"
    and c': "c' = (retarget (\<lambda>_ m. m = net_id d) (net_id k) c)
               \<lparr>nets := filter (\<lambda>n. net_id n \<noteq> net_id d) (nets c)\<rparr>"
  have k: "k \<in> set (nets c)" "net_id k \<noteq> net_id d"
    using kd ne net_by_id_Some [OF na] net_by_id_Some [OF nb] by (auto split: if_splits)
  show "wf_circuit c'" unfolding c'
  proof (rule wf_retarget [OF wf])
    fix x p assume "x \<in> set (components c)" "p \<in> set (pins x)"
    then show "(if netId p = net_id d then net_id k else netId p)
        \<in> net_id ` set (filter (\<lambda>n. net_id n \<noteq> net_id d) (nets c))"
      using wf_pin_declared [OF wf] k by fastforce
  qed (use wf in \<open>simp_all add: wf_circuitD distinct_map_filter\<close>)
qed

lemma disconnect_pin_wf:
  assumes wf: "wf_circuit c" and ch: "disconnect_pin c r = Changed c' n cr df"
  shows "wf_circuit c'"
  unfolding disconnect_pin_Changed(1) [OF ch]
  by (rule wf_retarget [OF wf distinct_add_fresh [OF wf]])
    (use wf_pin_declared [OF wf] in \<open>auto simp: new_net_def\<close>)

lemma split_net_wf:
  assumes wf: "wf_circuit c" and ch: "split_net c i ps = Changed c' n cr df"
  shows "wf_circuit c'"
  unfolding split_net_Changed(1) [OF ch]
  by (rule wf_retarget [OF wf distinct_add_fresh [OF wf]])
    (use wf_pin_declared [OF wf] in \<open>auto simp: new_net_def\<close>)

lemma move_pin_to_net_wf:
  assumes wf: "wf_circuit c" and ch: "move_pin_to_net c r t = Changed c' n cr df"
  shows "wf_circuit c'"
proof (rule move_pin_to_net_Changed [OF ch])
  fix i
  assume i: "pin_net c r = Some i" "i \<noteq> t" and t: "net_by_id c t \<noteq> None"
    and c': "c' = (retarget (\<lambda>q _. q = r) t c)
      \<lparr>nets := filter (\<lambda>m. \<not> ((\<forall>q \<in> set (pins_on c i). q = r) \<and> net_id m = i)) (nets c)\<rparr>"
  show "wf_circuit c'" unfolding c'
  proof (rule wf_retarget [OF wf])
    fix x p assume xp: "x \<in> set (components c)" "p \<in> set (pins x)"
    let ?q = "pin_key (comp_id x) (pinId p)"
    have "pin_net c ?q = Some (netId p)" using wf_pin_key_net [OF wf xp] .
    then show "(if ?q = r then t else netId p)
        \<in> net_id ` set (filter (\<lambda>m. \<not> ((\<forall>q \<in> set (pins_on c i). q = r) \<and> net_id m = i)) (nets c))"
      using wf_pin_declared [OF wf xp] t i net_by_id_Some [of c t] pins_on_iff [OF wf, of ?q i]
      by fastforce
  qed (use wf in \<open>simp_all add: wf_circuitD distinct_map_filter\<close>)
qed

lemma net_edit_unchanged:
  "connect_pins c a b = Unchanged c' \<Longrightarrow> c' = c"
  "disconnect_pin c r = Unchanged c' \<Longrightarrow> c' = c"
  "move_pin_to_net c r t = Unchanged c' \<Longrightarrow> c' = c"
  "split_net c i ps = Unchanged c' \<Longrightarrow> c' = c"
  by (auto simp: connect_pins_def disconnect_pin_def move_pin_to_net_def split_net_def Let_def
      check_take_refused split: option.splits sum.splits if_splits)

interpretation connect_edit: edit_contract "\<lambda>c. connect_pins c a b" for a b
  by unfold_locales (auto intro: connect_pins_wf dest: net_edit_unchanged)

interpretation disconnect_edit: edit_contract "\<lambda>c. disconnect_pin c r" for r
  by unfold_locales (auto intro: disconnect_pin_wf dest: net_edit_unchanged)

interpretation move_edit: edit_contract "\<lambda>c. move_pin_to_net c r t" for r t
  by unfold_locales (auto intro: move_pin_to_net_wf dest: net_edit_unchanged)

interpretation split_edit: edit_contract "\<lambda>c. split_net c i ps" for i ps
  by unfold_locales (auto intro: split_net_wf dest: net_edit_unchanged)

section \<open>What the edits do to the netlist\<close>

lemma connected_sym: "connected c x y \<Longrightarrow> connected c y x"
  unfolding connected_def by metis

lemma connect_pin_net:
  assumes "connect_pins c a b = Changed c' n cr df"
  obtains ia ib where "pin_net c a = Some ia" "pin_net c b = Some ib" "ia \<noteq> ib"
    "\<exists>k \<in> {ia, ib}. \<forall>r. pin_net c' r = map_option (\<lambda>m. if m \<in> {ia, ib} then k else m) (pin_net c r)"
proof (rule connect_pins_Changed [OF assms])
  fix ia ib na nb k d
  assume "pin_net c a = Some ia" "pin_net c b = Some ib" "ia \<noteq> ib"
    and na: "net_by_id c ia = Some na" and nb: "net_by_id c ib = Some nb"
    and kd: "(k, d) = (if rank na \<le> rank nb then (nb, na) else (na, nb))"
    and c': "c' = (retarget (\<lambda>_ m. m = net_id d) (net_id k) c)
               \<lparr>nets := filter (\<lambda>n. net_id n \<noteq> net_id d) (nets c)\<rparr>"
  moreover have k: "net_id k = ia \<and> net_id d = ib \<or> net_id k = ib \<and> net_id d = ia"
    using kd net_by_id_Some [OF na] net_by_id_Some [OF nb] by (auto split: if_splits)
  then have "net_id k \<in> {ia, ib}" by blast
  moreover from k have "pin_net c' r = map_option (\<lambda>m. if m \<in> {ia, ib} then net_id k else m) (pin_net c r)" for r
    unfolding c' by (cases "pin_net c r") (auto simp: pin_net_retarget)
  ultimately show thesis using that by blast
qed

lemma joined_nodes:
  assumes "connect_pins c a b = Changed c' n cr df"
  shows "connected c' x y \<longleftrightarrow>
    connected c x y \<or> (connected c x a \<and> connected c b y) \<or> (connected c x b \<and> connected c a y)"
proof (rule connect_pin_net [OF assms])
  fix ia ib
  assume "pin_net c a = Some ia" "pin_net c b = Some ib"
    and "\<exists>k \<in> {ia, ib}. \<forall>r. pin_net c' r = map_option (\<lambda>m. if m \<in> {ia, ib} then k else m) (pin_net c r)"
  then show ?thesis
    by (cases "pin_net c x"; cases "pin_net c y") (auto simp: connected_def split: if_splits)
qed

text \<open>
  \<^bold>\<open>C2.\<close> Joining two pins makes one node of the two nodes they are on and touches no other: after an
  accepted \<open>connectPins\<close> two terminals are connected exactly when they were before, or when one was
  connected to the first pin and the other to the second.
\<close>

theorem connect_pins_joins:
  assumes "connect_pins c a b = Changed c' n cr df"
  shows "connected c' x y \<longleftrightarrow>
    connected c x y \<or> (connected c x a \<and> connected c b y) \<or> (connected c x b \<and> connected c a y)"
  using assms by (rule joined_nodes)

text \<open>The role of the node a terminal is on.\<close>

definition on_net_with :: "(net \<Rightarrow> bool option) \<Rightarrow> circuit \<Rightarrow> pin_ref \<Rightarrow> bool" where
  "on_net_with f c r \<longleftrightarrow> (\<exists>n \<in> set (nets c). pin_net c r = Some (net_id n) \<and> flag (f n))"

lemma on_net_with_net:
  assumes "wf_circuit c" "net_by_id c i = Some n" "pin_net c r = Some i"
  shows "on_net_with f c r \<longleftrightarrow> flag (f n)"
proof -
  have one: "m = n" if "m \<in> set (nets c)" "net_id m = i" for m
  proof -
    have "net_by_id c i = Some m" using that net_by_id_wfc [OF assms(1)] by blast
    then show ?thesis using assms(2) by simp
  qed
  have n: "n \<in> set (nets c)" "net_id n = i" using net_by_id_Some [OF assms(2)] by simp_all
  show ?thesis unfolding on_net_with_def assms(3) option.inject using one n by blast
qed

lemma connect_pins_short_iff:
  assumes wf: "wf_circuit c"
  shows "(\<exists>m. connect_pins c a b = Refused RailShort m) \<longleftrightarrow>
      pin_net c a \<noteq> None \<and> pin_net c b \<noteq> None \<and> \<not> connected c a b \<and>
      ((on_net_with isGround c a \<and> on_net_with isPower c b) \<or>
       (on_net_with isPower c a \<and> on_net_with isGround c b))"
proof (cases "find_pin c a"; cases "find_pin c b")
  fix va vb assume fa: "find_pin c a = Inr va" and fb: "find_pin c b = Inr vb"
  obtain xa ia xb ib where v: "va = (xa, ia)" "vb = (xb, ib)" by (cases va; cases vb)
  have p: "pin_net c a = Some ia" "pin_net c b = Some ib" using fa fb v find_pin_pin_net by auto
  obtain na nb where n: "net_by_id c ia = Some na" "net_by_id c ib = Some nb"
    using net_by_id_declared pin_net_declared [OF wf] p by blast
  have on: "on_net_with g c a \<longleftrightarrow> flag (g na)" "on_net_with g c b \<longleftrightarrow> flag (g nb)" for g
    using on_net_with_net [OF wf] n p by blast+
  let ?bad = "(flag (isGround na) \<and> flag (isPower nb)) \<or> (flag (isPower na) \<and> flag (isGround nb))"
  have same: "ia = ib" if "componentId a = componentId b \<and> refPin a = refPin b"
    using that p by (simp add: pin_ref_eq)
  have con: "connected c a b \<longleftrightarrow> ia = ib" using p by (simp add: connected_def)
  have "(\<exists>m. connect_pins c a b = Refused RailShort m) \<longleftrightarrow> ia \<noteq> ib \<and> ?bad"
  proof (cases "ia = ib \<or> \<not> ?bad")
    case True
    then show ?thesis by (auto simp: connect_pins_def fa fb v n Let_def)
  next
    case False
    then show ?thesis using same by (auto simp: connect_pins_def fa fb v n)
  qed
  then show ?thesis unfolding on con using p by auto
qed (auto simp: connect_pins_def dest: find_pin_Inl)

lemma connect_pins_role_kept:
  assumes wf: "wf_circuit c" and ch: "connect_pins c a b = Changed c' n cr df"
    and f: "f = isGround \<or> f = isPower"
  shows "on_net_with f c' x \<longleftrightarrow> on_net_with f c x \<or>
        (connected c x a \<and> on_net_with f c b) \<or> (connected c x b \<and> on_net_with f c a)"
proof (rule connect_pins_Changed [OF ch])
  fix ia ib na nb k d
  assume p: "pin_net c a = Some ia" "pin_net c b = Some ib" and ne: "ia \<noteq> ib"
    and na: "net_by_id c ia = Some na" and nb: "net_by_id c ib = Some nb"
    and short: "\<not> (flag (isGround na) \<and> flag (isPower nb))" "\<not> (flag (isPower na) \<and> flag (isGround nb))"
    and kd: "(k, d) = (if rank na \<le> rank nb then (nb, na) else (na, nb))"
    and c': "c' = (retarget (\<lambda>_ m. m = net_id d) (net_id k) c)
             \<lparr>nets := filter (\<lambda>n. net_id n \<noteq> net_id d) (nets c)\<rparr>"
  note N = net_by_id_Some [OF na] net_by_id_Some [OF nb]
  have on: "on_net_with f c a \<longleftrightarrow> flag (f na)" "on_net_with f c b \<longleftrightarrow> flag (f nb)"
    using on_net_with_net [OF wf] na nb p by blast+
  have role: "flag (f k) \<longleftrightarrow> flag (f na) \<or> flag (f nb)"
    using kd short f by (auto simp: rank_def split: if_splits)
  have ids: "net_id k = ia \<and> net_id d = ib \<or> net_id k = ib \<and> net_id d = ia" and k: "k \<in> set (nets c)"
    using kd N by (auto split: if_splits)
  have k': "net_by_id c' (net_id k) = Some k"
    using k ids ne wf connect_pins_wf [OF wf ch] by (auto simp: c' net_by_id_wfc)
  have new: "pin_net c' x = map_option (\<lambda>m. if m = net_id d then net_id k else m) (pin_net c x)"
    by (simp add: c' pin_net_retarget)
  have nets': "nets c' = filter (\<lambda>n. net_id n \<noteq> net_id d) (nets c)" by (simp add: c')
  consider "pin_net c x = None" | i where "pin_net c x = Some i" "i = ia \<or> i = ib"
    | m where "pin_net c x = Some m" "m \<noteq> ia" "m \<noteq> ib" by (cases "pin_net c x") auto
  then show ?thesis
  proof cases
    case 1
    then show ?thesis using new by (simp add: on_net_with_def connected_def)
  next
    case 2
    then have "pin_net c' x = Some (net_id k)" using new ids by auto
    then have "on_net_with f c' x \<longleftrightarrow> flag (f k)"
      using on_net_with_net [OF connect_pins_wf [OF wf ch] k'] by blast
    moreover have "on_net_with f c x \<longleftrightarrow> (if i = ia then flag (f na) else flag (f nb))"
      using on_net_with_net [OF wf na, of x f] on_net_with_net [OF wf nb, of x f] 2 ne
      by (cases "i = ia") simp_all
    ultimately show ?thesis using 2 p ne role by (auto simp: on connected_def)
  next
    case 3
    then show ?thesis using ids new p by (auto simp: on_net_with_def nets' connected_def)
  qed
qed

text \<open>
  \<open>connectPins\<close> never shorts a supply. It refuses with \<open>rail-short\<close> exactly when the two pins
  are on different nodes of which one is declared ground and the other a power rail; and a merge it
  does accept loses no role: a terminal is on ground (on a power rail) afterwards exactly when it was, or
  when its node was joined to one that is.
\<close>

theorem connect_pins_roles:
  assumes "wf_circuit c"
  shows "((\<exists>m. connect_pins c a b = Refused RailShort m) \<longleftrightarrow>
        pin_net c a \<noteq> None \<and> pin_net c b \<noteq> None \<and> \<not> connected c a b \<and>
        ((on_net_with isGround c a \<and> on_net_with isPower c b) \<or>
         (on_net_with isPower c a \<and> on_net_with isGround c b))) \<and>
     (\<forall>c' n cr df x. connect_pins c a b = Changed c' n cr df \<longrightarrow>
        (\<forall>f \<in> {isGround, isPower}. on_net_with f c' x \<longleftrightarrow>
           on_net_with f c x \<or> (connected c x a \<and> on_net_with f c b) \<or>
           (connected c x b \<and> on_net_with f c a)))"
  using connect_pins_short_iff [OF assms] connect_pins_role_kept [OF assms] by simp

lemma disconnect_pin_net:
  assumes "disconnect_pin c r = Changed c' n cr df"
  shows "pin_net c' q = (if q = r then Some (fst (fresh_net c)) else pin_net c q)"
  using disconnect_pin_Changed [OF assms] by (auto simp: pin_net_retarget option.map_ident)

lemma move_pin_net:
  assumes "move_pin_to_net c r t = Changed c' n cr df"
  shows "pin_net c' = (pin_net c)(r \<mapsto> t)"
proof (rule move_pin_to_net_Changed [OF assms])
  fix i N
  assume r: "pin_net c r = Some i"
    and c': "c' = (retarget (\<lambda>q _. q = r) t c)
      \<lparr>nets := filter (\<lambda>m. \<not> ((\<forall>q \<in> set (pins_on c i). q = r) \<and> net_id m = i)) (nets c)\<rparr>"
  show "pin_net c' = (pin_net c)(r \<mapsto> t)"
  proof
    fix q
    show "pin_net c' q = ((pin_net c)(r \<mapsto> t)) q"
      unfolding c' pin_net_nets pin_net_retarget using r by (cases "q = r") (simp_all add: option.map_ident)
  qed
qed

lemma split_pin_net:
  assumes wf: "wf_circuit c" and ch: "split_net c i ps = Changed c' n cr df"
  shows "pin_net c' q = (if q \<in> set ps then Some (fst (fresh_net c)) else pin_net c q)"
proof -
  have "pin_net c q = Some i" if "q \<in> set ps"
    using that split_net_Changed(2) [OF ch] pins_on_iff [OF wf] by blast
  then show ?thesis
    by (auto simp: split_net_Changed(1) [OF ch] pin_net_retarget option.map_ident)
qed

text \<open>A pin that has just been put on the fresh net can always be joined back.\<close>

lemma fresh_net_role:
  assumes wf: "wf_circuit c'" and nets: "nets c' = nets c @ [new_net (fresh_net c)]"
    and r: "pin_net c' r = Some (fst (fresh_net c))"
  shows "\<not> on_net_with isGround c' r" "\<not> on_net_with isPower c' r"
proof -
  have "net_by_id c' (fst (fresh_net c)) = Some (new_net (fresh_net c))"
    using nets by (simp add: net_by_id_wfc [OF wf] new_net_def)
  then show "\<not> on_net_with isGround c' r" "\<not> on_net_with isPower c' r"
    using on_net_with_net [OF wf _ r] by (simp_all add: new_net_def)
qed

lemma connect_pins_accepts:
  assumes wf: "wf_circuit c" and "pin_net c a \<noteq> None" "pin_net c b \<noteq> None" "\<not> connected c a b"
    and "\<not> on_net_with isGround c a" "\<not> on_net_with isPower c a"
  shows "\<exists>c' n. connect_pins c a b = Changed c' n None None"
proof -
  obtain xa ia xb ib where f: "find_pin c a = Inr (xa, ia)" "find_pin c b = Inr (xb, ib)"
    using pin_net_find_pin assms(2,3) by blast
  then have p: "pin_net c a = Some ia" "pin_net c b = Some ib" by (simp_all add: find_pin_pin_net)
  then have ne: "ia \<noteq> ib" "a \<noteq> b" using assms(4) by (auto simp: connected_def)
  obtain na nb where n: "net_by_id c ia = Some na" "net_by_id c ib = Some nb"
    using net_by_id_declared pin_net_declared [OF wf] p by blast
  have "\<not> flag (isGround na)" "\<not> flag (isPower na)"
    using on_net_with_net [OF wf n(1) p(1)] assms(5,6) by simp_all
  then show ?thesis using ne n f by (auto simp: connect_pins_def Let_def pin_ref_eq)
qed

lemma separated:
  assumes wf: "wf_circuit c"
    and pn: "\<And>q. pin_net c1 q = (if q \<in> S then Some (fst (fresh_net c)) else pin_net c q)"
    and S: "\<And>q. q \<in> S \<Longrightarrow> pin_net c q = Some i"
  shows "connected c1 x y \<longleftrightarrow> connected c x y \<and> (x \<in> S \<longleftrightarrow> y \<in> S)"
  using S [of x] S [of y] fresh_net_not_net [OF wf, of x] fresh_net_not_net [OF wf, of y]
    fresh_net_not_net [OF wf, of x, THEN not_sym] fresh_net_not_net [OF wf, of y, THEN not_sym]
  by (cases "x \<in> S"; cases "y \<in> S") (simp_all add: connected_def pn)

lemma rejoin:
  assumes wf: "wf_circuit c" "wf_circuit c1"
    and nets: "nets c1 = nets c @ [new_net (fresh_net c)]"
    and pn: "\<And>q. pin_net c1 q = (if q \<in> S then Some (fst (fresh_net c)) else pin_net c q)"
    and S: "\<And>q. q \<in> S \<Longrightarrow> pin_net c q = Some i"
    and ab: "a \<in> S" "b \<notin> S" "pin_net c b = Some i"
  shows "\<exists>c2 m. connect_pins c1 a b = Changed c2 m None None \<and>
    (\<forall>x y. connected c2 x y \<longleftrightarrow> connected c x y)"
proof -
  have sep: "connected c1 x y \<longleftrightarrow> connected c x y \<and> (x \<in> S \<longleftrightarrow> y \<in> S)" for x y
    by (rule separated [OF wf(1) pn]) (rule S)
  have nc: "\<not> connected c1 a b" using ab by (simp add: sep)
  have a: "pin_net c1 a = Some (fst (fresh_net c))" "pin_net c1 b = Some i" using ab by (simp_all add: pn)
  obtain c2 m where c2: "connect_pins c1 a b = Changed c2 m None None"
    using connect_pins_accepts [OF wf(2) _ _ nc fresh_net_role [OF wf(2) nets a(1)]] a by auto
  have con: "connected c z w \<longleftrightarrow> pin_net c z = Some i" "connected c w z \<longleftrightarrow> pin_net c z = Some i"
    if "pin_net c w = Some i" for z w
    using that by (auto simp: connected_def)
  have "connected c2 x y \<longleftrightarrow> connected c x y" for x y
    unfolding joined_nodes [OF c2] sep
    using ab S [of x] S [of y] con [OF S [OF ab(1)]] con [OF ab(3)]
      con [of x y] con [of y x] by metis
  then show ?thesis using c2 by blast
qed

text \<open>
  \<^bold>\<open>C5.\<close> \<open>splitNet\<close> moves exactly the chosen pins: two terminals stay connected exactly when they were
  and the split left both on one side, and each side keeps a pin.
\<close>

theorem split_net_refines:
  assumes wf: "wf_circuit c" and ch: "split_net c i ps = Changed c1 n cr df"
  shows "(connected c1 x y \<longleftrightarrow> connected c x y \<and> (x \<in> set ps \<longleftrightarrow> y \<in> set ps)) \<and>
    (\<exists>a \<in> set ps. pin_net c a = Some i) \<and> (\<exists>b. b \<notin> set ps \<and> pin_net c b = Some i)"
proof (intro conjI)
  have on: "set ps \<subseteq> set (pins_on c i)" by (rule split_net_Changed(2) [OF ch])
  have at: "pin_net c q = Some i" if "q \<in> set ps" for q
    using subsetD [OF on that] pins_on_iff [OF wf] by simp
  show "connected c1 x y \<longleftrightarrow> connected c x y \<and> (x \<in> set ps \<longleftrightarrow> y \<in> set ps)"
    by (rule separated [OF wf split_pin_net [OF wf ch]]) (rule at)
  show "\<exists>a \<in> set ps. pin_net c a = Some i"
    using split_net_Changed(3) [OF ch] at by (meson all_not_in_conv set_empty)
  have "card (set ps) \<noteq> card (set (pins_on c i))"
    using split_net_Changed(4) [OF ch] distinct_card [OF distinct_pins_on [OF wf, of i]]
      distinct_card [OF distinct_uniq [of ps]] by simp
  then have "\<not> set (pins_on c i) \<subseteq> set ps" using on by auto
  then obtain b where "b \<in> set (pins_on c i)" "b \<notin> set ps" by blast
  then show "\<exists>b. b \<notin> set ps \<and> pin_net c b = Some i" using pins_on_iff [OF wf] by blast
qed

text \<open>
  Taking a pin off its net can always be taken back by the gesture that made it: after a split or a
  disconnection, \<open>connectPins\<close> of a moved pin with one it was connected to is accepted, and the
  connectivity afterwards is the one there was before.
\<close>

theorem separation_rejoins:
  assumes wf: "wf_circuit c"
    and ch: "split_net c i ps = Changed c1 n cr df \<and> a \<in> set ps \<and> b \<notin> set ps \<and> pin_net c b = Some i \<or>
      disconnect_pin c a = Changed c1 n cr df \<and> a \<noteq> b \<and> connected c a b"
  shows "\<exists>c2 m. connect_pins c1 a b = Changed c2 m None None \<and>
    (\<forall>x y. connected c2 x y \<longleftrightarrow> connected c x y)"
  using ch
proof
  assume *: "split_net c i ps = Changed c1 n cr df \<and> a \<in> set ps \<and> b \<notin> set ps \<and> pin_net c b = Some i"
  then have s: "split_net c i ps = Changed c1 n cr df" by simp
  show ?thesis
    by (rule rejoin [OF wf split_net_wf [OF wf s] _ split_pin_net [OF wf s]])
      (use * split_net_Changed [OF s] pins_on_iff [OF wf] in auto)
next
  assume *: "disconnect_pin c a = Changed c1 n cr df \<and> a \<noteq> b \<and> connected c a b"
  then have d: "disconnect_pin c a = Changed c1 n cr df" by simp
  obtain i where i: "pin_net c a = Some i" "pin_net c b = Some i"
    using * unfolding connected_def by (metis not_None_eq)
  show ?thesis
    by (rule rejoin [of c c1 "{a}", OF wf disconnect_pin_wf [OF wf d]])
      (use * i disconnect_pin_Changed [OF d] disconnect_pin_net [OF d] in auto)
qed

text \<open>
  \<open>movePinToNet\<close> moves one pin and nothing else: the pin is on the chosen net, every other pin is
  where it was, and of the declared nets only the pin's old one may go, exactly when no other pin is on it.
\<close>

theorem move_pin_alone:
  assumes wf: "wf_circuit c" and ch: "move_pin_to_net c r t = Changed c' n cr df"
  shows "pin_net c' = (pin_net c)(r \<mapsto> t) \<and>
    (\<forall>m \<in> set (nets c). m \<in> set (nets c') \<longleftrightarrow>
       \<not> (pin_net c r = Some (net_id m) \<and> (\<forall>q. pin_net c q = Some (net_id m) \<longrightarrow> q = r)))"
proof (rule move_pin_to_net_Changed [OF ch])
  fix i
  assume i: "pin_net c r = Some i" and c': "c' = (retarget (\<lambda>q _. q = r) t c)
      \<lparr>nets := filter (\<lambda>m. \<not> ((\<forall>q \<in> set (pins_on c i). q = r) \<and> net_id m = i)) (nets c)\<rparr>"
  have nets': "nets c' = filter (\<lambda>m. \<not> ((\<forall>q \<in> set (pins_on c i). q = r) \<and> net_id m = i)) (nets c)"
    by (simp add: c')
  have "(\<forall>q \<in> set (pins_on c i). q = r) \<longleftrightarrow> (\<forall>q. pin_net c q = Some i \<longrightarrow> q = r)"
    using pins_on_iff [OF wf] by blast
  then have kept: "m \<in> set (nets c') \<longleftrightarrow> \<not> ((\<forall>q. pin_net c q = Some i \<longrightarrow> q = r) \<and> net_id m = i)"
      if "m \<in> set (nets c)" for m
    using that by (simp only: nets' set_filter mem_Collect_eq simp_thms)
  have "\<forall>m \<in> set (nets c). m \<in> set (nets c') \<longleftrightarrow>
       \<not> (pin_net c r = Some (net_id m) \<and> (\<forall>q. pin_net c q = Some (net_id m) \<longrightarrow> q = r))"
  proof
    fix m assume "m \<in> set (nets c)"
    then show "m \<in> set (nets c') \<longleftrightarrow>
       \<not> (pin_net c r = Some (net_id m) \<and> (\<forall>q. pin_net c q = Some (net_id m) \<longrightarrow> q = r))"
      unfolding kept [OF \<open>m \<in> set (nets c)\<close>] i option.inject by blast
  qed
  with move_pin_net [OF ch] show ?thesis ..
qed

section \<open>A concrete document\<close>

text \<open>A supply, two resistors and a ground marker, on which the properties are tried.\<close>

definition demo_part :: "string \<Rightarrow> ctype \<Rightarrow> string \<Rightarrow> (string \<times> string) list \<Rightarrow> component" where
  "demo_part i t d ps =
     \<lparr>comp_id = i, comp_type = t, designator = d, comp_value = Some ''1k'', comp_model = None,
      tolerance = None, toleranceSource = None,
      pins = map (\<lambda>(p, n). \<lparr>pinId = p, netId = n\<rparr>) ps,
      properties = None, mpn = None, manufacturer = None, footprint = None, sourcing = None\<rparr>"

definition demo :: circuit where
  "demo =
     \<lparr>version = ''1.0'',
      components =
        [demo_part ''v1'' VoltageSource ''V1'' [(''pos'', ''vcc''), (''neg'', ''gnd'')],
         demo_part ''r1'' Resistor ''R1'' [(''1'', ''vcc''), (''2'', ''mid'')],
         demo_part ''r2'' Resistor ''R2'' [(''1'', ''mid''), (''2'', ''gnd'')],
         demo_part ''r3'' Resistor ''R3'' [(''1'', ''mid''), (''2'', ''out'')]],
      nets =
        [\<lparr>net_id = ''gnd'', net_name = ''GND'', isGround = Some True, isPower = None\<rparr>,
         \<lparr>net_id = ''vcc'', net_name = ''VCC'', isGround = None, isPower = Some True\<rparr>,
         \<lparr>net_id = ''mid'', net_name = ''MID'', isGround = None, isPower = None\<rparr>,
         \<lparr>net_id = ''out'', net_name = ''OUT'', isGround = None, isPower = None\<rparr>],
      models = None, metadata = None\<rparr>"

lemma demo_wf: "wf_circuit demo"
  by code_simp

lemma demo_edits:
  "changed (connect_pins demo (pin_key ''r3'' ''2'') (pin_key ''v1'' ''neg''))"
  "changed (split_net demo ''mid'' [pin_key ''r2'' ''1''])"
  "changed (move_pin_to_net demo (pin_key ''r3'' ''2'') ''mid'')"
  "pin_net demo (pin_key ''r1'' ''2'') = Some ''mid''"
  by code_simp+

theorem connect_pins_joins_witness:
  "\<exists>c'. accepted (connect_pins demo (pin_key ''r3'' ''2'') (pin_key ''v1'' ''neg'')) = Some c' \<and>
     connected c' (pin_key ''r3'' ''2'') (pin_key ''r2'' ''2'') \<and>
     \<not> connected c' (pin_key ''r3'' ''2'') (pin_key ''r3'' ''1'')"
proof (rule changedE [OF demo_edits(1)])
  fix c' n cr df
  assume *: "connect_pins demo (pin_key ''r3'' ''2'') (pin_key ''v1'' ''neg'') = Changed c' n cr df"
  have "connected demo (pin_key ''r3'' ''2'') (pin_key ''r3'' ''2'')"
    "connected demo (pin_key ''v1'' ''neg'') (pin_key ''r2'' ''2'')"
    "\<not> connected demo (pin_key ''r3'' ''2'') (pin_key ''r3'' ''1'')"
    "\<not> connected demo (pin_key ''v1'' ''neg'') (pin_key ''r3'' ''1'')"
    "\<not> connected demo (pin_key ''r3'' ''2'') (pin_key ''v1'' ''neg'')"
    by code_simp+
  then show ?thesis using * by (simp add: connect_pins_joins [OF *])
qed

theorem connect_pins_roles_witness:
  "\<exists>m. connect_pins demo (pin_key ''r1'' ''1'') (pin_key ''r2'' ''2'') = Refused RailShort m"
proof -
  have "pin_net demo (pin_key ''r1'' ''1'') \<noteq> None \<and> pin_net demo (pin_key ''r2'' ''2'') \<noteq> None \<and>
    \<not> connected demo (pin_key ''r1'' ''1'') (pin_key ''r2'' ''2'') \<and>
    on_net_with isPower demo (pin_key ''r1'' ''1'') \<and> on_net_with isGround demo (pin_key ''r2'' ''2'')"
    by code_simp
  then show ?thesis
    using connect_pins_roles [OF demo_wf, of "pin_key ''r1'' ''1''" "pin_key ''r2'' ''2''"] by blast
qed

theorem split_net_refines_witness:
  "\<exists>c'. accepted (split_net demo ''mid'' [pin_key ''r2'' ''1'']) = Some c' \<and>
     \<not> connected c' (pin_key ''r1'' ''2'') (pin_key ''r2'' ''1'') \<and>
     connected c' (pin_key ''r1'' ''2'') (pin_key ''r3'' ''1'')"
proof (rule changedE [OF demo_edits(2)])
  fix c' n cr df
  assume *: "split_net demo ''mid'' [pin_key ''r2'' ''1''] = Changed c' n cr df"
  have "connected demo (pin_key ''r1'' ''2'') (pin_key ''r3'' ''1'')"
    "pin_key ''r1'' ''2'' \<noteq> pin_key ''r2'' ''1''" "pin_key ''r3'' ''1'' \<noteq> pin_key ''r2'' ''1''"
    by code_simp+
  then show ?thesis using * split_net_refines [OF demo_wf *] by simp
qed

theorem separation_rejoins_witness:
  "\<exists>c1 c2. accepted (split_net demo ''mid'' [pin_key ''r2'' ''1'']) = Some c1 \<and>
     accepted (connect_pins c1 (pin_key ''r2'' ''1'') (pin_key ''r1'' ''2'')) = Some c2 \<and>
     (\<forall>x y. connected c2 x y \<longleftrightarrow> connected demo x y)"
proof (rule changedE [OF demo_edits(2)])
  fix c1 n cr df
  assume *: "split_net demo ''mid'' [pin_key ''r2'' ''1''] = Changed c1 n cr df"
  moreover have "pin_key ''r1'' ''2'' \<notin> set [pin_key ''r2'' ''1'']" by code_simp
  ultimately obtain c2 m where "connect_pins c1 (pin_key ''r2'' ''1'') (pin_key ''r1'' ''2'') = Changed c2 m None None"
    "\<forall>x y. connected c2 x y \<longleftrightarrow> connected demo x y"
    using separation_rejoins [OF demo_wf, of "''mid''" "[pin_key ''r2'' ''1'']" c1 n cr df
        "pin_key ''r2'' ''1''" "pin_key ''r1'' ''2''"] demo_edits(4) by auto
  then show ?thesis using * by auto
qed

theorem move_pin_alone_witness:
  "\<exists>c'. accepted (move_pin_to_net demo (pin_key ''r3'' ''2'') ''mid'') = Some c' \<and>
     pin_net c' (pin_key ''r3'' ''2'') = Some ''mid'' \<and> map net_id (nets c') = [''gnd'', ''vcc'', ''mid'']"
proof (rule changedE [OF demo_edits(3)])
  fix c' n cr df
  assume *: "move_pin_to_net demo (pin_key ''r3'' ''2'') ''mid'' = Changed c' n cr df"
  have "map_option (\<lambda>c. map net_id (nets c)) (accepted (move_pin_to_net demo (pin_key ''r3'' ''2'') ''mid'')) =
    Some [''gnd'', ''vcc'', ''mid'']" by code_simp
  then show ?thesis using * move_pin_alone [OF demo_wf *] by simp
qed

end
