(* ===== verification/Parts.thy ===== *)
theory Parts
  imports Nets
begin

text \<open>
  \<open>editor-core/src/document/parts.ts\<close>: adding, removing and copying parts, with \<open>isPlaceablePart\<close> of
  \<open>tree/object-tree.ts\<close>. A designator, an id and a net are found by scanning what the document uses.

  The code's \<open>canonical === undefined\<close> refusal is for a type outside the closed union, which
  \<^typ>\<open>ctype\<close> cannot name. \<open>wasOn\<close>, \<open>inside\<close> and \<open>netFor\<close> are the maps of that name.
\<close>

section \<open>Names and nets for a new part\<close>

definition is_placeable_part :: "component \<Rightarrow> bool" where
  "is_placeable_part x \<longleftrightarrow> comp_type x \<noteq> Ground"

definition is_variable_arity :: "ctype \<Rightarrow> bool" where
  "is_variable_arity t \<longleftrightarrow> length (component_pins t) = 0"

definition next_designator :: "circuit \<Rightarrow> ctype \<Rightarrow> string option" where
  "next_designator c t =
     (let prefix = spice_prefix t in
      if prefix = [] then None
      else Some (prefix @ num_str (next_free prefix prefix
             (map (\<lambda>x. js_upper (designator x)) (components c)) (map comp_id (components c)) 1)))"

text \<open>\<open>freshNets\<close>: the scan goes on from the number after the last one taken.\<close>

fun fresh_from :: "string list \<Rightarrow> string list \<Rightarrow> nat \<Rightarrow> nat \<Rightarrow> (string \<times> string) list" where
  "fresh_from ids names i 0 = []"
| "fresh_from ids names i (Suc k) =
     (let j = next_free ''n'' ''N'' ids names i; n = ''n'' @ num_str j; m = ''N'' @ num_str j
      in (n, m) # fresh_from (n # ids) (js_lower m # names) (Suc j) k)"

definition fresh_nets :: "circuit \<Rightarrow> nat \<Rightarrow> (string \<times> string) list" where
  "fresh_nets c k = fresh_from (map net_id (nets c)) (map (\<lambda>n. js_lower (net_name n)) (nets c)) 1 k"

section \<open>Adding a part\<close>

record new_part =
  np_type :: ctype
  np_designator :: "string option"
  np_value :: "string option"
  np_model :: "string option"
  np_mpn :: "string option"
  np_manufacturer :: "string option"
  np_footprint :: "string option"
  np_tolerance :: "rat option"
  np_toleranceSource :: "tolerance_source option"
  np_sourcing :: "json option"
  np_pins :: "string list option"

definition built_part :: "new_part \<Rightarrow> string \<Rightarrow> string list \<Rightarrow> (string \<times> string) list \<Rightarrow> component" where
  "built_part spec d ps fresh =
     \<lparr>comp_id = js_lower d, comp_type = np_type spec, designator = d,
      comp_value = np_value spec, comp_model = np_model spec,
      tolerance = np_tolerance spec, toleranceSource = np_toleranceSource spec,
      pins = map (\<lambda>(p, n). \<lparr>pinId = p, netId = fst n\<rparr>) (zip ps fresh),
      properties = None, mpn = np_mpn spec, manufacturer = np_manufacturer spec,
      footprint = np_footprint spec, sourcing = np_sourcing spec\<rparr>"

definition add_component :: "circuit \<Rightarrow> new_part \<Rightarrow> edit_result" where
  "add_component c spec =
     (let t = np_type spec; canonical = component_pins t in
      if np_pins spec = None \<and> is_variable_arity t then Refused InvalidCharacters (MNoFixedPins t)
      else
     (let ps = (case np_pins spec of None \<Rightarrow> canonical | Some ps \<Rightarrow> ps) in
      if length ps = 0 then Refused EmptyText MPartNeedsPin
      else if length (uniq ps) \<noteq> length ps then Refused InvalidCharacters MPinNamedTwice
      else
     (case (if np_pins spec \<noteq> None \<and> \<not> is_variable_arity t
            then find (\<lambda>i. i \<notin> set canonical) ps else None) of
        Some stray \<Rightarrow> Refused InvalidCharacters (MStrayPin stray t)
      | None \<Rightarrow>
     (let d = js_trim (case np_designator spec of
                Some d \<Rightarrow> d
              | None \<Rightarrow> (case next_designator c t of Some d \<Rightarrow> d | None \<Rightarrow> [])) in
      if length d = 0 then Refused EmptyText MNoDesignator
      else if \<not> designator_ok d then Refused InvalidCharacters (MDesignatorInvalid d)
      else
     (case find (\<lambda>x. js_lower (designator x) = js_lower d) (components c) of
        Some clash \<Rightarrow> Refused DuplicateDesignator (MDesignatorTaken (designator clash))
      | None \<Rightarrow>
          if \<exists>x \<in> set (components c). comp_id x = js_lower d
          then Refused DuplicateDesignator (MIdTaken (js_lower d))
          else (let fresh = fresh_nets c (length ps) in
                Changed (c\<lparr>components := components c @ [built_part spec d ps fresh],
                           nets := nets c @ map new_net fresh\<rparr>)
                  (Some (NAdded d (length ps) (map snd fresh))) None None))))))"

section \<open>Removing a part\<close>

definition delete_component :: "circuit \<Rightarrow> string \<Rightarrow> edit_result" where
  "delete_component c i =
     (case find (\<lambda>x. comp_id x = i) (components c) of
        None \<Rightarrow> Refused NoSuchComponent (MNoComponent i)
      | Some target \<Rightarrow>
          (let remaining = filter (\<lambda>x. comp_id x \<noteq> i) (components c);
               still_used = concat (map (\<lambda>x. map netId (pins x)) remaining);
               touched = map netId (pins target);
               orphaned = filter (\<lambda>n. net_id n \<in> set touched \<and> net_id n \<notin> set still_used) (nets c)
           in Changed (c\<lparr>components := remaining,
                         nets := filter (\<lambda>n. net_id n \<notin> set (map net_id orphaned)) (nets c)\<rparr>)
                (Some (if length orphaned \<noteq> 0
                       then NRemovedWithNets (designator target) (length orphaned) (map net_name orphaned)
                       else NRemoved (designator target)))
                None None))"

section \<open>Copying parts\<close>

definition copy_spec :: "component \<Rightarrow> new_part" where
  "copy_spec x =
     \<lparr>np_type = comp_type x, np_designator = None, np_value = comp_value x, np_model = comp_model x,
      np_mpn = mpn x, np_manufacturer = manufacturer x, np_footprint = footprint x,
      np_tolerance = tolerance x, np_toleranceSource = toleranceSource x, np_sourcing = sourcing x,
      np_pins = Some (map pinId (pins x))\<rparr>"

text \<open>\<open>{ ...carried, ...c }\<close>: a field the copy has wins, a field it lacks comes from the original.\<close>

fun either :: "'a option \<Rightarrow> 'a option \<Rightarrow> 'a option" where
  "either (Some v) _ = Some v"
| "either None w = w"

definition carry_over :: "component \<Rightarrow> component \<Rightarrow> component" where
  "carry_over original x =
     x\<lparr>comp_value := either (comp_value x) (comp_value original),
       comp_model := either (comp_model x) (comp_model original),
       tolerance := either (tolerance x) (tolerance original),
       toleranceSource := either (toleranceSource x) (toleranceSource original),
       properties := either (properties x) (properties original),
       mpn := either (mpn x) (mpn original),
       manufacturer := either (manufacturer x) (manufacturer original),
       footprint := either (footprint x) (footprint original),
       sourcing := either (sourcing x) (sourcing original)\<rparr>"

definition shared_nets :: "circuit \<Rightarrow> string list" where
  "shared_nets c = map net_id (filter (\<lambda>n. flag (isGround n) \<or> flag (isPower n)) (nets c))"

definition inside_count :: "string list \<Rightarrow> component list \<Rightarrow> string \<Rightarrow> nat" where
  "inside_count shared originals n =
     (if n \<in> set shared then 0
      else length (filter (\<lambda>p. netId p = n) (concat (map pins originals))))"

definition was_on :: "component \<Rightarrow> string \<Rightarrow> string option" where
  "was_on x = map_of (rev (map (\<lambda>p. (pinId p, netId p)) (pins x)))"

fun copy_pins :: "string list \<Rightarrow> (string \<Rightarrow> nat) \<Rightarrow> (string \<Rightarrow> string option) \<Rightarrow>
    pin_connection list \<Rightarrow> (string \<Rightarrow> string option) \<Rightarrow>
    pin_connection list \<times> (string \<Rightarrow> string option)" where
  "copy_pins shared inside was [] netFor = ([], netFor)"
| "copy_pins shared inside was (p # ps) netFor =
     (let (p', netFor') =
        (case was (pinId p) of
           None \<Rightarrow> (p, netFor)
         | Some w \<Rightarrow>
             if w \<in> set shared then (p\<lparr>netId := w\<rparr>, netFor)
             else if inside w < 2 then (p, netFor)
             else (let m = (case netFor w of Some m \<Rightarrow> m | None \<Rightarrow> netId p)
                   in (p\<lparr>netId := m\<rparr>, netFor(w \<mapsto> m))));
          (ps', netFor'') = copy_pins shared inside was ps netFor'
      in (p' # ps', netFor''))"

type_synonym copying = "circuit \<times> string list \<times> (string \<Rightarrow> string option)"

text \<open>The body of the loop over the originals; a refusal of \<open>addComponent\<close> ends it.\<close>

definition copy_one :: "string list \<Rightarrow> (string \<Rightarrow> nat) \<Rightarrow> component \<Rightarrow> copying \<Rightarrow>
    (refusal \<times> message) + copying" where
  "copy_one shared inside original = (\<lambda>(nxt, created, netFor).
     (case add_component nxt (copy_spec original) of
        Refused r m \<Rightarrow> Inl (r, m)
      | Unchanged _ \<Rightarrow> Inr (nxt, created, netFor)
      | Changed added _ _ _ \<Rightarrow>
          (let copy = last (components added);
               (ps, netFor') = copy_pins shared inside (was_on original) (pins copy) netFor
           in Inr (replace_component (replace_component added (comp_id copy) (carry_over original))
                     (comp_id copy) (\<lambda>x. x\<lparr>pins := ps\<rparr>),
                   created @ [comp_id copy], netFor'))))"

fun copy_all :: "string list \<Rightarrow> (string \<Rightarrow> nat) \<Rightarrow> component list \<Rightarrow> copying \<Rightarrow>
    (refusal \<times> message) + copying" where
  "copy_all shared inside [] st = Inr st"
| "copy_all shared inside (x # xs) st =
     (case copy_one shared inside x st of
        Inl e \<Rightarrow> Inl e
      | Inr st' \<Rightarrow> copy_all shared inside xs st')"

subsection \<open>The expression of a behavioural source\<close>

definition is_word :: "char \<Rightarrow> bool" where
  "is_word c \<longleftrightarrow> is_letter c \<or> is_digit c \<or> c = CHR ''_''"

definition in_ref :: "char \<Rightarrow> bool" where
  "in_ref c \<longleftrightarrow> c \<noteq> CHR '')'' \<and> c \<noteq> CHR '','' \<and> \<not> js_space c"

text \<open>
  One match of \<open>/v\s*\(\s*([^),\s]+)\s*\)/i\<close> at the start of a text: the whole match, the name inside
  and what follows. No two neighbouring parts of the expression share a character, so the greedy
  reading is the only one.
\<close>

definition match_node :: "string \<Rightarrow> (string \<times> string \<times> string) option" where
  "match_node s =
     (case s of [] \<Rightarrow> None
      | c # r0 \<Rightarrow>
          if c \<noteq> CHR ''v'' \<and> c \<noteq> CHR ''V'' then None
          else (case dropWhile js_space r0 of [] \<Rightarrow> None
          | p # r1 \<Rightarrow>
              if p \<noteq> CHR ''('' then None
              else (let r2 = dropWhile js_space r1; ref = takeWhile in_ref r2; r3 = dropWhile in_ref r2
                    in if ref = [] then None
                       else (case dropWhile js_space r3 of [] \<Rightarrow> None
                       | q # rest \<Rightarrow>
                           if q \<noteq> CHR '')'' then None
                           else Some (take (length s - length rest) s, ref, rest)))))"

lemma dropWhile_Cons_length: "dropWhile P xs = y # ys \<Longrightarrow> length ys < length xs"
  using length_dropWhile_le [of P xs] by simp

lemma match_node_shorter:
  assumes "match_node s = Some (w, ref, rest)"
  shows "length rest < length s"
proof -
  obtain c r0 where s: "s = c # r0" using assms by (cases s) (simp_all add: match_node_def)
  obtain p r1 where r1: "dropWhile js_space r0 = p # r1"
    using assms by (cases "dropWhile js_space r0") (simp_all add: match_node_def s del: dropWhile_eq_Nil_conv split: if_splits)
  obtain q where q: "dropWhile js_space (dropWhile in_ref (dropWhile js_space r1)) = q # rest"
    using assms
    by (cases "dropWhile js_space (dropWhile in_ref (dropWhile js_space r1))")
      (simp_all add: match_node_def s r1 Let_def del: dropWhile_eq_Nil_conv split: if_splits)
  show ?thesis
    using dropWhile_Cons_length [OF r1] dropWhile_Cons_length [OF q]
      length_dropWhile_le [of in_ref "dropWhile js_space r1"] length_dropWhile_le [of js_space r1]
    by (simp add: s)
qed

fun replace_first :: "string \<Rightarrow> string \<Rightarrow> string \<Rightarrow> string" where
  "replace_first ref to [] = (if ref = [] then to else [])"
| "replace_first ref to (c # cs) =
     (if take (length ref) (c # cs) = ref then to @ drop (length ref) (c # cs)
      else c # replace_first ref to cs)"

text \<open>
  \<open>value.replace(/.../gi, ...)\<close>: \<open>boundary\<close> says whether the position is a word boundary before a
  letter, and the nodes that could not be re-pointed are collected in order.
\<close>

function rewrite_nodes :: "string list \<Rightarrow> (string \<Rightarrow> string option) \<Rightarrow> bool \<Rightarrow> string \<Rightarrow>
    string \<times> string list" where
  "rewrite_nodes shared netFor boundary s =
     (case s of [] \<Rightarrow> ([], [])
      | c # cs \<Rightarrow>
          (case (if boundary then match_node s else None) of
             None \<Rightarrow> (let (t, left) = rewrite_nodes shared netFor (\<not> is_word c) cs in (c # t, left))
           | Some (whole, ref, rest) \<Rightarrow>
               (let (t, left) = rewrite_nodes shared netFor True rest in
                if ref \<in> set shared then (whole @ t, left)
                else (case netFor ref of
                        Some to \<Rightarrow> (replace_first ref to whole @ t, left)
                      | None \<Rightarrow> (whole @ t, ref # left)))))"
  by pat_completeness auto
termination
  by (relation "measure (\<lambda>(_, _, _, s). length s)")
    (auto dest: match_node_shorter split: if_splits)

text \<open>\<open>/\bv\s*\(/i.test(value)\<close>\<close>

definition opens_node :: "string \<Rightarrow> bool" where
  "opens_node s =
     (case s of [] \<Rightarrow> False
      | c # r0 \<Rightarrow> (c = CHR ''v'' \<or> c = CHR ''V'') \<and>
          (case dropWhile js_space r0 of [] \<Rightarrow> False | p # _ \<Rightarrow> p = CHR ''(''))"

fun reads_node :: "bool \<Rightarrow> string \<Rightarrow> bool" where
  "reads_node boundary [] = False"
| "reads_node boundary (c # cs) =
     (boundary \<and> opens_node (c # cs) \<or> reads_node (\<not> is_word c) cs)"

definition rewrite_value :: "string list \<Rightarrow> (string \<Rightarrow> string option) \<Rightarrow> string list \<Rightarrow> component \<Rightarrow>
    component \<times> (string \<times> string) list" where
  "rewrite_value shared netFor created x =
     (if comp_id x \<notin> set created then (x, [])
      else (case comp_value x of
              None \<Rightarrow> (x, [])
            | Some v \<Rightarrow>
                if \<not> reads_node True v then (x, [])
                else (let (v', left) = rewrite_nodes shared netFor True v
                      in (x\<lparr>comp_value := Some v'\<rparr>, map (Pair (designator x)) left))))"

subsection \<open>The edit\<close>

definition duplicate_components :: "circuit \<Rightarrow> string list \<Rightarrow> edit_result" where
  "duplicate_components c ids =
     (let asked = map (\<lambda>i. find (\<lambda>x. comp_id x = i) (components c)) ids;
          missing = map fst (filter (\<lambda>(i, a). a = None) (zip ids asked)) in
      if length missing > 0 then Refused NoSuchComponent (MNoComponent (hd missing))
      else
     (let originals = filter is_placeable_part (map the asked) in
      if length originals = 0 then Unchanged c
      else
     (let shared = shared_nets c;
          existing = map net_id (nets c);
          inside = inside_count shared originals in
      case copy_all shared inside originals (c, [], Map.empty) of
        Inl (r, m) \<Rightarrow> Refused r m
      | Inr (nxt, created, netFor) \<Rightarrow>
          (let rewritten = map (rewrite_value shared netFor created) (components nxt);
               still_reaching = uniq (concat (map snd rewritten));
               nxt' = nxt\<lparr>components := map fst rewritten\<rparr>;
               referenced = concat (map (\<lambda>x. map netId (pins x)) (components nxt'))
           in Changed (nxt'\<lparr>nets := filter (\<lambda>n. net_id n \<in> set referenced \<or> net_id n \<in> set existing)
                             (nets nxt')\<rparr>)
                (let count = (if length created = 1 then None else Some (length created)) in
                 if count = None \<and> still_reaching = [] then None else Some (NCopied count still_reaching))
                (Some created) (Some (map comp_id originals))))))"

section \<open>The generated nets\<close>

lemma fresh_from_all:
  "length (fresh_from ids names i k) = k \<and>
   (\<forall>f \<in> set (fresh_from ids names i k). fst f \<notin> set ids \<and> js_lower (snd f) \<notin> set names) \<and>
   distinct (map fst (fresh_from ids names i k)) \<and>
   distinct (map (\<lambda>f. js_lower (snd f)) (fresh_from ids names i k))"
proof (induction k arbitrary: ids names i)
  case (Suc k)
  define j where "j = next_free ''n'' ''N'' ids names i"
  have new: "''n'' @ num_str j \<notin> set ids" "js_lower (''N'' @ num_str j) \<notin> set names"
    using next_free_free [of "''n''" "''N''" ids names i] by (simp_all add: name_taken_def j_def)
  have eq: "fresh_from ids names i (Suc k) = (''n'' @ num_str j, ''N'' @ num_str j) #
      fresh_from ((''n'' @ num_str j) # ids) (js_lower (''N'' @ num_str j) # names) (Suc j) k"
    unfolding fresh_from.simps Let_def j_def ..
  show ?case
    unfolding eq using new Suc.IH [of "(''n'' @ num_str j) # ids" "js_lower (''N'' @ num_str j) # names" "Suc j"]
    by auto
qed simp

lemmas fresh_from_facts =
  fresh_from_all [THEN conjunct1] fresh_from_all [THEN conjunct2, THEN conjunct1]
  fresh_from_all [THEN conjunct2, THEN conjunct2, THEN conjunct1]
  fresh_from_all [THEN conjunct2, THEN conjunct2, THEN conjunct2]

lemma fresh_nets_facts:
  "length (fresh_nets c k) = k"
  "distinct (map fst (fresh_nets c k))"
  "distinct (map (\<lambda>f. js_lower (snd f)) (fresh_nets c k))"
  "f \<in> set (fresh_nets c k) \<Longrightarrow> fst f \<notin> net_ids c"
  "f \<in> set (fresh_nets c k) \<Longrightarrow> js_lower (snd f) \<notin> (\<lambda>n. js_lower (net_name n)) ` set (nets c)"
  using fresh_from_facts(2) [of "map net_id (nets c)" "map (\<lambda>n. js_lower (net_name n)) (nets c)" 1 k]
  by (simp_all add: fresh_nets_def fresh_from_facts net_ids_def)

lemma new_net_simps [simp]: "net_id (new_net f) = fst f" "net_name (new_net f) = snd f"
  by (simp_all add: new_net_def)

section \<open>Adding a part\<close>

lemma map_snd_zip_comp: "length fr = length ps \<Longrightarrow> map (\<lambda>x. h (snd x)) (zip ps fr) = map h fr"
  by (induction ps fr rule: list_induct2') auto

lemma built_part_simps [simp]:
  "comp_id (built_part spec d ps fr) = js_lower d"
  "designator (built_part spec d ps fr) = d"
  "comp_type (built_part spec d ps fr) = np_type spec"
  "length fr = length ps \<Longrightarrow> map pinId (pins (built_part spec d ps fr)) = ps"
  "length fr = length ps \<Longrightarrow> map netId (pins (built_part spec d ps fr)) = map fst fr"
  by (simp_all add: built_part_def case_prod_beta comp_def map_snd_zip_comp)

lemma length_uniq_iff: "length (uniq xs) = length xs \<longleftrightarrow> distinct xs"
  by (metis card_distinct distinct_card distinct_uniq set_uniq)

lemma add_component_Changed:
  assumes "add_component c spec = Changed c' n cr df"
  obtains d ps where
    "ps = (case np_pins spec of None \<Rightarrow> component_pins (np_type spec) | Some ps \<Rightarrow> ps)"
    "ps \<noteq> []" "distinct ps" "designator_ok d"
    "\<forall>x \<in> set (components c). js_lower (designator x) \<noteq> js_lower d \<and> comp_id x \<noteq> js_lower d"
    "c' = c\<lparr>components := components c @ [built_part spec d ps (fresh_nets c (length ps))],
            nets := nets c @ map new_net (fresh_nets c (length ps))\<rparr>"
proof -
  define ps where "ps = (case np_pins spec of None \<Rightarrow> component_pins (np_type spec) | Some ps \<Rightarrow> ps)"
  define d where "d = js_trim (case np_designator spec of Some d \<Rightarrow> d
    | None \<Rightarrow> (case next_designator c (np_type spec) of None \<Rightarrow> [] | Some d \<Rightarrow> d))"
  define stray where "stray = (if np_pins spec \<noteq> None \<and> \<not> is_variable_arity (np_type spec)
            then find (\<lambda>i. i \<notin> set (component_pins (np_type spec))) ps else None)"
  note A = assms [unfolded add_component_def Let_def, folded ps_def d_def, folded stray_def]
  have ps: "ps \<noteq> []" "distinct ps" and none: "stray = None"
    using A by (auto simp: length_uniq_iff split: if_splits option.splits)
  have ok: "designator_ok d"
    using A ps none by (auto split: if_splits)
  show ?thesis
  proof (rule that [OF ps_def ps ok])
    show "\<forall>x \<in> set (components c). js_lower (designator x) \<noteq> js_lower d \<and> comp_id x \<noteq> js_lower d"
      using A ps none ok by (auto simp: find_None_iff_set split: if_splits option.splits)
    show "c' = c\<lparr>components := components c @ [built_part spec d ps (fresh_nets c (length ps))],
            nets := nets c @ map new_net (fresh_nets c (length ps))\<rparr>"
      using A ps none ok by (auto split: if_splits option.splits)
  qed
qed

lemma wf_append:
  assumes wf: "wf_circuit c"
    and x: "distinct (map pinId (pins x))" "set (map netId (pins x)) \<subseteq> net_ids c \<union> net_id ` set ns"
    and fresh: "\<forall>y \<in> set (components c). js_lower (designator y) \<noteq> js_lower (designator x) \<and> comp_id y \<noteq> comp_id x"
    and ns: "distinct (map net_id (nets c @ ns))" "distinct (map (\<lambda>n. js_lower (net_name n)) (nets c @ ns))"
  shows "wf_circuit (c\<lparr>components := components c @ [x], nets := nets c @ ns\<rparr>)"
proof
  let ?c = "c\<lparr>components := components c @ [x], nets := nets c @ ns\<rparr>"
  show "wf_component (net_ids ?c) y" if "y \<in> set (components ?c)" for y
    using that x wf_circuitD(5) [OF wf, of y] by (auto simp: wf_component_def net_ids_def)
  show "distinct (map comp_id (components ?c))" "distinct (map (\<lambda>x. js_lower (designator x)) (components ?c))"
    using fresh wf by (auto simp: wf_circuitD)
qed (use ns in simp_all)

lemma distinct_add_nets:
  assumes "wf_circuit c"
  shows "distinct (map net_id (nets c @ map new_net (fresh_nets c k)))"
    and "distinct (map (\<lambda>n. js_lower (net_name n)) (nets c @ map new_net (fresh_nets c k)))"
  using assms fresh_nets_facts(2,3) [of c k] fresh_nets_facts(4,5) [of _ c k]
  by (simp_all add: wf_circuitD comp_def net_ids_def) (force simp: image_iff)+

lemma add_component_wf:
  assumes wf: "wf_circuit c" and ch: "add_component c spec = Changed c' n cr df"
  shows "wf_circuit c'"
proof (rule add_component_Changed [OF ch])
  fix d ps
  assume "distinct ps"
    and fresh: "\<forall>x \<in> set (components c). js_lower (designator x) \<noteq> js_lower d \<and> comp_id x \<noteq> js_lower d"
    and c': "c' = c\<lparr>components := components c @ [built_part spec d ps (fresh_nets c (length ps))],
            nets := nets c @ map new_net (fresh_nets c (length ps))\<rparr>"
  then show "wf_circuit c'" unfolding c'
    by (intro wf_append [OF wf _ _ _ distinct_add_nets [OF wf]])
      (simp_all only: built_part_simps fresh_nets_facts(1), auto simp: image_image)
qed

section \<open>Removing a part\<close>

lemma delete_component_Changed:
  assumes "delete_component c i = Changed c' n cr df"
  obtains t where "t \<in> set (components c)" "comp_id t = i"
    "c' = c\<lparr>components := filter (\<lambda>x. comp_id x \<noteq> i) (components c),
            nets := filter (\<lambda>m. net_id m \<notin> netId ` set (pins t) \<or>
              (\<exists>x \<in> set (components c). comp_id x \<noteq> i \<and> net_id m \<in> netId ` set (pins x))) (nets c)\<rparr>"
proof (cases "find (\<lambda>x. comp_id x = i) (components c)")
  case None
  then show ?thesis using assms by (simp add: delete_component_def)
next
  case (Some t)
  define used where "used = concat (map (\<lambda>x. map netId (pins x)) (filter (\<lambda>x. comp_id x \<noteq> i) (components c)))"
  define touched where "touched = map netId (pins t)"
  have used: "m \<in> set used \<longleftrightarrow> (\<exists>x \<in> set (components c). comp_id x \<noteq> i \<and> m \<in> netId ` set (pins x))" for m
    by (auto simp: used_def)
  have touched: "m \<in> set touched \<longleftrightarrow> m \<in> netId ` set (pins t)" for m
    by (auto simp: touched_def)
  have "filter (\<lambda>n. net_id n \<notin> set (map net_id (filter (\<lambda>n. net_id n \<in> set touched \<and> net_id n \<notin> set used) (nets c)))) (nets c) =
      filter (\<lambda>m. net_id m \<notin> set touched \<or> net_id m \<in> set used) (nets c)"
    by (rule filter_cong [OF refl]) auto
  then have "c' = c\<lparr>components := filter (\<lambda>x. comp_id x \<noteq> i) (components c),
            nets := filter (\<lambda>m. net_id m \<notin> set touched \<or> net_id m \<in> set used) (nets c)\<rparr>"
    using assms
    by (simp only: delete_component_def Some option.case Let_def used_def [symmetric] touched_def [symmetric]
        edit_result.inject)
  then show ?thesis
    using find_SomeD [OF Some] unfolding used touched by (intro that [of t]) simp_all
qed

lemma delete_component_wf:
  assumes wf: "wf_circuit c" and ch: "delete_component c i = Changed c' n cr df"
  shows "wf_circuit c'"
proof (rule delete_component_Changed [OF ch])
  fix t
  assume t: "t \<in> set (components c)" "comp_id t = i"
    and c': "c' = c\<lparr>components := filter (\<lambda>x. comp_id x \<noteq> i) (components c),
            nets := filter (\<lambda>m. net_id m \<notin> netId ` set (pins t) \<or>
              (\<exists>x \<in> set (components c). comp_id x \<noteq> i \<and> net_id m \<in> netId ` set (pins x))) (nets c)\<rparr>"
  have comps: "components c' = filter (\<lambda>x. comp_id x \<noteq> i) (components c)" by (simp add: c')
  have nets': "nets c' = filter (\<lambda>m. net_id m \<notin> netId ` set (pins t) \<or>
      (\<exists>x \<in> set (components c). comp_id x \<noteq> i \<and> net_id m \<in> netId ` set (pins x))) (nets c)"
    by (simp add: c')
  show "wf_circuit c'"
  proof
    fix x assume "x \<in> set (components c')"
    then have x: "x \<in> set (components c)" "comp_id x \<noteq> i" by (simp_all add: comps)
    then have "distinct (map pinId (pins x))" and on: "netId ` set (pins x) \<subseteq> net_id ` set (nets c)"
      using wf_circuitD(5) [OF wf x(1)] by (simp_all add: wf_component_def net_ids_def)
    moreover have "netId ` set (pins x) \<subseteq> net_ids c'"
    proof
      fix m assume m: "m \<in> netId ` set (pins x)"
      then obtain w where w: "w \<in> set (nets c)" "m = net_id w" using on by blast
      then have "w \<in> set (nets c')" using x m unfolding nets' by auto
      then show "m \<in> net_ids c'" using w(2) by (simp add: net_ids_def)
    qed
    ultimately show "wf_component (net_ids c') x" by (simp add: wf_component_def)
  qed (use wf in \<open>simp_all only: comps nets' wf_circuitD distinct_map_filter\<close>)
qed

section \<open>What adding and removing do to the netlist\<close>

lemma pin_net_append:
  assumes wf: "wf_circuit (c\<lparr>components := components c @ [x], nets := ns\<rparr>)"
    and fresh: "\<forall>y \<in> set (components c). comp_id y \<noteq> comp_id x"
  shows "pin_net (c\<lparr>components := components c @ [x], nets := ns\<rparr>) r =
    (if componentId r = comp_id x then map_option netId (pin_by_id x (refPin r)) else pin_net c r)"
proof -
  have app: "find P (xs @ ys) = (case find P xs of None \<Rightarrow> find P ys | Some v \<Rightarrow> Some v)" for P :: "component \<Rightarrow> bool" and xs ys
    by (induction xs) auto
  have "find (\<lambda>y. comp_id y = comp_id x) (components c) = None"
    using fresh by (simp add: find_None_iff_set)
  then show ?thesis
    by (auto simp: pin_net_def comp_by_id_def app split: option.splits)
qed

lemma add_component_pin_net:
  assumes wf: "wf_circuit c" and ch: "add_component c spec = Changed c' n cr df"
  obtains x where "components c' = components c @ [x]" "\<forall>y \<in> set (components c). comp_id y \<noteq> comp_id x"
    "\<And>r. pin_net c' r =
       (if componentId r = comp_id x then map_option netId (pin_by_id x (refPin r)) else pin_net c r)"
    "distinct (map netId (pins x))" "distinct (map pinId (pins x))" "\<And>p. p \<in> set (pins x) \<Longrightarrow> netId p \<notin> net_ids c"
    "nets c' = nets c @ map new_net (fresh_nets c (length (pins x)))"
    "map netId (pins x) = map fst (fresh_nets c (length (pins x)))"
proof (rule add_component_Changed [OF ch])
  fix d ps
  let ?x = "built_part spec d ps (fresh_nets c (length ps))"
  assume ps: "distinct ps"
    and fresh: "\<forall>x \<in> set (components c). js_lower (designator x) \<noteq> js_lower d \<and> comp_id x \<noteq> js_lower d"
    and c': "c' = c\<lparr>components := components c @ [?x], nets := nets c @ map new_net (fresh_nets c (length ps))\<rparr>"
  have ids: "map netId (pins ?x) = map fst (fresh_nets c (length ps))" "map pinId (pins ?x) = ps"
    by (simp_all only: built_part_simps fresh_nets_facts(1))
  then have len: "length (pins ?x) = length ps" by (metis length_map)
  show ?thesis
  proof (rule that [of ?x])
    show "pin_net c' r = (if componentId r = comp_id ?x then map_option netId (pin_by_id ?x (refPin r)) else pin_net c r)" for r
      unfolding c' using add_component_wf [OF wf ch] fresh by (intro pin_net_append) (simp_all add: c')
    show "distinct (map netId (pins ?x))" by (simp only: ids fresh_nets_facts)
    show "netId p \<notin> net_ids c" if "p \<in> set (pins ?x)" for p
    proof -
      have "netId p \<in> set (map netId (pins ?x))" using that by simp
      then obtain f where "f \<in> set (fresh_nets c (length ps))" "netId p = fst f" unfolding ids by auto
      then show ?thesis using fresh_nets_facts(4) by simp
    qed
  qed (use fresh ps ids len in \<open>simp_all add: c'\<close>)
qed

lemma add_component_isolated:
  assumes wf: "wf_circuit c" and ch: "add_component c spec = Changed c' n cr df"
    and r: "componentId r = comp_id (last (components c'))" "pin_net c' r \<noteq> None"
  shows "connected c' r q \<longleftrightarrow> q = r"
proof (rule add_component_pin_net [OF wf ch])
  fix x
  assume x: "components c' = components c @ [x]"
    "\<And>r. pin_net c' r =
       (if componentId r = comp_id x then map_option netId (pin_by_id x (refPin r)) else pin_net c r)"
    "distinct (map netId (pins x))" "\<And>p. p \<in> set (pins x) \<Longrightarrow> netId p \<notin> net_ids c"
  obtain p where p: "p \<in> set (pins x)" "pinId p = refPin r" "pin_net c' r = Some (netId p)"
    using r x(1,2) by (auto dest: pin_by_id_Some)
  show ?thesis
  proof (cases "componentId q = comp_id x")
    case True
    have "q = r" if same: "pin_net c' q = Some (netId p)"
    proof -
      obtain p' where "p' \<in> set (pins x)" "pinId p' = refPin q" "netId p' = netId p"
        using same True x(2) by (auto dest: pin_by_id_Some)
      then have "p' = p" using distinct_map_eqD [OF x(3)] p(1) by blast
      then show ?thesis using True r(1) x(1) p(2) \<open>pinId p' = refPin q\<close> by (cases q; cases r) simp
    qed
    then show ?thesis using p by (auto simp: connected_def)
  next
    case False
    then have "pin_net c' q \<noteq> Some (netId p)"
      using x(2,4) p(1) pin_net_declared [OF wf] by (auto dest: sym)
    then show ?thesis using False p r(1) x(1) by (auto simp: connected_def)
  qed
qed

lemma delete_component_pin_net:
  assumes "delete_component c i = Changed c' n cr df"
  shows "pin_net c' r = (if componentId r = i then None else pin_net c r)"
proof (rule delete_component_Changed [OF assms])
  fix t N
  assume c': "c' = c\<lparr>components := filter (\<lambda>x. comp_id x \<noteq> i) (components c), nets := filter N (nets c)\<rparr>"
  have "find (\<lambda>x. comp_id x = k) (filter (\<lambda>x. comp_id x \<noteq> i) xs) =
      (if k = i then None else find (\<lambda>x. comp_id x = k) xs)" for k and xs :: "component list"
    by (induction xs) auto
  then show ?thesis by (simp add: c' pin_net_def comp_by_id_def)
qed

lemma delete_component_accepts:
  "x \<in> set (components c) \<Longrightarrow> comp_id x = i \<Longrightarrow> \<exists>c' m. delete_component c i = Changed c' m None None"
  by (cases "find (\<lambda>x. comp_id x = i) (components c)")
    (auto simp: delete_component_def Let_def find_None_iff_set)

lemma add_then_delete_id:
  assumes wf: "wf_circuit c" and ch: "add_component c spec = Changed c' n cr df"
  shows "\<exists>m. delete_component c' (comp_id (last (components c'))) = Changed c m None None"
proof (rule add_component_Changed [OF ch])
  fix d and ps :: "string list"
  define fr where "fr = fresh_nets c (length ps)"
  define x where "x = built_part spec d ps fr"
  assume fresh: "\<forall>x \<in> set (components c). js_lower (designator x) \<noteq> js_lower d \<and> comp_id x \<noteq> js_lower d"
    and "c' = c\<lparr>components := components c @ [built_part spec d ps (fresh_nets c (length ps))],
            nets := nets c @ map new_net (fresh_nets c (length ps))\<rparr>"
  then have comps: "components c' = components c @ [x]" and nets': "nets c' = nets c @ map new_net fr"
    and rest: "version c' = version c" "models c' = models c" "metadata c' = metadata c"
    by (simp_all add: x_def fr_def)
  have old: "comp_id y \<noteq> comp_id x" if "y \<in> set (components c)" for y
    using fresh that by (simp add: x_def)
  have "set (map netId (pins x)) = set (map fst fr)"
    by (simp only: x_def fr_def built_part_simps fresh_nets_facts(1))
  then have nx: "netId ` set (pins x) = fst ` set fr" by simp
  have free: "m \<notin> fst ` set fr" if "m \<in> net_ids c" for m
    using that fresh_nets_facts(4) [of _ c "length ps"] by (auto simp: fr_def)
  obtain e m where e: "delete_component c' (comp_id x) = Changed e m None None"
    using delete_component_accepts [of x c'] comps by auto
  have "e = c"
  proof (rule delete_component_Changed [OF e])
    fix t
    assume t: "t \<in> set (components c')" "comp_id t = comp_id x"
      and eq: "e = c'\<lparr>components := filter (\<lambda>y. comp_id y \<noteq> comp_id x) (components c'),
            nets := filter (\<lambda>m. net_id m \<notin> netId ` set (pins t) \<or>
              (\<exists>y \<in> set (components c'). comp_id y \<noteq> comp_id x \<and> net_id m \<in> netId ` set (pins y))) (nets c')\<rparr>"
    have tx: "t = x" using t old comps by auto
    have keep: "net_id m \<notin> netId ` set (pins x)" if "m \<in> set (nets c)" for m
      using that free nx by (auto simp: net_ids_def)
    have gone: "\<not> (net_id m \<notin> netId ` set (pins x) \<or>
        (\<exists>y \<in> set (components c'). comp_id y \<noteq> comp_id x \<and> net_id m \<in> netId ` set (pins y)))"
      if m: "m \<in> set (map new_net fr)" for m
    proof -
      have in_fr: "net_id m \<in> fst ` set fr" using m by (auto intro: rev_image_eqI)
      have "net_id m \<notin> netId ` set (pins y)" if "y \<in> set (components c)" for y
        using wf_circuitD(5) [OF wf that] free in_fr by (auto simp: wf_component_def)
      then show ?thesis using in_fr nx comps by auto
    qed
    have "filter (\<lambda>y. comp_id y \<noteq> comp_id x) (components c') = components c"
      using old comps by (simp add: filter_id_conv)
    moreover have "filter (\<lambda>m. net_id m \<notin> netId ` set (pins x) \<or>
        (\<exists>y \<in> set (components c'). comp_id y \<noteq> comp_id x \<and> net_id m \<in> netId ` set (pins y))) (nets c') = nets c"
      unfolding nets' filter_append
      using keep gone by (simp add: filter_id_conv filter_empty_conv)
    ultimately show "e = c" using eq rest by (simp add: tx)
  qed
  then show ?thesis using e comps by auto
qed

text \<open>
  \<^bold>\<open>C4.\<close> A part is born disconnected and its addition can be undone by hand. After an accepted
  \<open>addComponent\<close> every terminal that was there is on the net it was on, a terminal of the new part is
  connected to nothing but itself, and deleting the part gives back exactly the document there was.
\<close>

theorem add_component_born_alone:
  assumes wf: "wf_circuit c" and ch: "add_component c spec = Changed c' n cr df"
  shows "(\<forall>r. componentId r \<noteq> comp_id (last (components c')) \<longrightarrow> pin_net c' r = pin_net c r) \<and>
    (\<forall>r q. componentId r = comp_id (last (components c')) \<longrightarrow> pin_net c' r \<noteq> None \<longrightarrow>
       (connected c' r q \<longleftrightarrow> q = r)) \<and>
    (\<exists>m. delete_component c' (comp_id (last (components c'))) = Changed c m None None)"
proof (intro conjI allI impI)
  show "pin_net c' r = pin_net c r" if "componentId r \<noteq> comp_id (last (components c'))" for r
    by (rule add_component_pin_net [OF wf ch]) (use that in simp)
  show "connected c' r q \<longleftrightarrow> q = r"
    if "componentId r = comp_id (last (components c'))" "pin_net c' r \<noteq> None" for r q
    using that by (rule add_component_isolated [OF wf ch])
qed (rule add_then_delete_id [OF wf ch])

section \<open>The palette never refuses\<close>

lemma upper_of_lower:
  assumes "lower_char a = lower_char b" "is_upper b \<or> is_digit b"
  shows "upper_char a = b"
proof -
  have inj: "x = y" if "code x = code y" for x y :: char
    using that by (simp add: code_def)
  have low: "code (lower_char x) = (if is_upper x \<or> (192 \<le> code x \<and> code x \<le> 222 \<and> code x \<noteq> 215)
      then code x + 32 else code x)" for x
    by (auto simp: lower_char_def is_upper_def)
  have up: "code (upper_char x) = (if is_lower x \<or> (224 \<le> code x \<and> code x \<le> 254 \<and> code x \<noteq> 247)
      then code x - 32 else code x)" for x
    using code_less [of x] by (auto simp: upper_char_def is_lower_def)
  have "code (lower_char a) = code (lower_char b)" using assms(1) by simp
  then show ?thesis
    using assms(2) by (intro inj) (auto simp: low up is_upper_def is_lower_def is_digit_def split: if_splits)
qed

lemma js_upper_of_lower:
  "js_lower s = js_lower t \<Longrightarrow> list_all (\<lambda>b. is_upper b \<or> is_digit b) t \<Longrightarrow> js_upper s = t"
  unfolding js_lower_def js_upper_def
  by (induction s arbitrary: t) (auto simp: upper_of_lower)

lemma spice_prefix_upper: "list_all is_upper (spice_prefix t)"
  by (cases t; simp; code_simp)

lemma js_space_alnum: "is_upper c \<or> is_digit c \<Longrightarrow> \<not> js_space c"
  by (auto simp: js_space_def is_upper_def is_digit_def)

lemma js_trim_id: "list_all (\<lambda>b. is_upper b \<or> is_digit b) s \<Longrightarrow> js_trim s = s"
proof -
  assume "list_all (\<lambda>b. is_upper b \<or> is_digit b) s"
  then have "\<forall>c \<in> set s. \<not> js_space c" using js_space_alnum by (auto simp: list_all_iff)
  then have "dropWhile js_space s = s" "dropWhile js_space (rev s) = rev s"
    by (auto simp: dropWhile_eq_self_iff hd_rev)
  then show ?thesis by (simp add: js_trim_def)
qed

lemma designator_ok_prefix:
  assumes "list_all is_upper p" "p \<noteq> []"
  shows "designator_ok (p @ num_str i)"
proof -
  obtain c r where p: "p = c # r" using assms(2) by (cases p) auto
  have "list_all is_digit (num_str i)" by (auto simp: list_all_iff num_str_digits)
  then show ?thesis
    using assms(1) num_str_not_Nil [of i] unfolding designator_ok_lang p
    by (intro exI [of _ c] exI [of _ r] exI [of _ "num_str i"] exI [of _ "[]"])
      (auto simp: is_letter_def is_alnum_def list_all_iff)
qed

lemma next_designator_accepted:
  assumes "next_designator c t = Some d"
  shows "designator_ok d" "js_trim d = d"
    "x \<in> set (components c) \<Longrightarrow> js_lower (designator x) \<noteq> js_lower d"
    "x \<in> set (components c) \<Longrightarrow> comp_id x \<noteq> js_lower d"
proof -
  define p where "p = spice_prefix t"
  define i where "i = next_free p p (map (\<lambda>x. js_upper (designator x)) (components c)) (map comp_id (components c)) 1"
  have p: "p \<noteq> []" and d: "d = p @ num_str i"
    using assms by (auto simp: next_designator_def Let_def p_def i_def split: if_splits)
  have up: "list_all is_upper p" by (simp add: p_def spice_prefix_upper)
  then have chars: "list_all (\<lambda>b. is_upper b \<or> is_digit b) d"
    by (auto simp: d list_all_iff num_str_digits)
  show "designator_ok d" unfolding d using up p by (rule designator_ok_prefix)
  show "js_trim d = d" using chars by (rule js_trim_id)
  have free: "\<not> name_taken p p (map (\<lambda>x. js_upper (designator x)) (components c)) (map comp_id (components c)) i"
    unfolding i_def by (rule next_free_free)
  show "js_lower (designator x) \<noteq> js_lower d" if x: "x \<in> set (components c)"
  proof
    assume "js_lower (designator x) = js_lower d"
    then have "js_upper (designator x) = d" using chars by (rule js_upper_of_lower)
    then show False using free x unfolding name_taken_def d by force
  qed
  show "comp_id x \<noteq> js_lower d" if x: "x \<in> set (components c)"
    using free x unfolding name_taken_def d by force
qed

lemma component_pins_distinct: "distinct (component_pins t)"
  by (cases t) simp_all

lemma palette_accepts:
  assumes "np_designator spec = None" "np_pins spec = None"
    and "\<not> is_variable_arity (np_type spec)" "spice_prefix (np_type spec) \<noteq> []"
  shows "\<exists>c' n. add_component c spec = Changed c' n None None"
proof -
  obtain d where d: "next_designator c (np_type spec) = Some d"
    using assms(4) by (auto simp: next_designator_def Let_def)
  note ok = next_designator_accepted [OF d]
  have "d \<noteq> []" using ok(1) by auto
  moreover have "find (\<lambda>x. js_lower (designator x) = js_lower d) (components c) = None"
    using ok(3) by (simp add: find_None_iff_set)
  moreover have "\<not> (\<exists>x \<in> set (components c). comp_id x = js_lower d)" using ok(4) by blast
  ultimately show ?thesis
    using assms d ok(1,2) component_pins_distinct [of "np_type spec"]
    by (simp add: add_component_def Let_def is_variable_arity_def length_uniq_iff uniq_distinct)
qed

text \<open>
  A blank part of a type with a fixed pin list and a prefix can always be added: whatever
  designators and ids the document uses, the name the scan finds is accepted.
\<close>

theorem palette_part_added:
  assumes "np_designator spec = None" "np_pins spec = None"
    and "\<not> is_variable_arity (np_type spec)" "spice_prefix (np_type spec) \<noteq> []"
  shows "\<exists>c' n. add_component c spec = Changed c' n None None"
  using assms by (rule palette_accepts)

text \<open>
  Deleting a part removes its terminals and nothing else from the netlist, and of the declared
  nets exactly those the part was on and no other part is.
\<close>

theorem delete_component_exact:
  assumes wf: "wf_circuit c" and ch: "delete_component c i = Changed c' n cr df"
  shows "(\<forall>r. pin_net c' r = (if componentId r = i then None else pin_net c r)) \<and>
    (\<forall>m \<in> set (nets c). m \<in> set (nets c') \<longleftrightarrow>
       (\<forall>r. pin_net c r \<noteq> Some (net_id m)) \<or> (\<exists>r. componentId r \<noteq> i \<and> pin_net c r = Some (net_id m)))"
proof (intro conjI allI ballI)
  show "pin_net c' r = (if componentId r = i then None else pin_net c r)" for r
    by (rule delete_component_pin_net [OF ch])
next
  fix m assume m: "m \<in> set (nets c)"
  have on: "(\<exists>r. componentId r = j \<and> pin_net c r = Some k) \<longleftrightarrow>
      (\<exists>x \<in> set (components c). comp_id x = j \<and> k \<in> netId ` set (pins x))" for j k
  proof
    assume "\<exists>x \<in> set (components c). comp_id x = j \<and> k \<in> netId ` set (pins x)"
    then obtain x p where "x \<in> set (components c)" "comp_id x = j" "p \<in> set (pins x)" "netId p = k" by blast
    then show "\<exists>r. componentId r = j \<and> pin_net c r = Some k"
      using wf_pin_key_net [OF wf, of x p] by (intro exI [of _ "pin_key j (pinId p)"]) simp
  qed (auto simp: pin_net_Some_wf [OF wf])
  show "m \<in> set (nets c') \<longleftrightarrow>
       (\<forall>r. pin_net c r \<noteq> Some (net_id m)) \<or> (\<exists>r. componentId r \<noteq> i \<and> pin_net c r = Some (net_id m))"
  proof (rule delete_component_Changed [OF ch])
    fix t
    assume t: "t \<in> set (components c)" "comp_id t = i"
      and c': "c' = c\<lparr>components := filter (\<lambda>x. comp_id x \<noteq> i) (components c),
            nets := filter (\<lambda>m. net_id m \<notin> netId ` set (pins t) \<or>
              (\<exists>x \<in> set (components c). comp_id x \<noteq> i \<and> net_id m \<in> netId ` set (pins x))) (nets c)\<rparr>"
    have one: "x = t" if "x \<in> set (components c)" "comp_id x = i" for x
      using that t wf_circuitD(1) [OF wf] distinct_map_eqD by metis
    have "m \<in> set (nets c') \<longleftrightarrow> net_id m \<notin> netId ` set (pins t) \<or>
              (\<exists>x \<in> set (components c). comp_id x \<noteq> i \<and> net_id m \<in> netId ` set (pins x))"
      using m by (simp add: c')
    moreover have "net_id m \<in> netId ` set (pins t) \<longleftrightarrow> (\<exists>r. componentId r = i \<and> pin_net c r = Some (net_id m))"
      using on [of i "net_id m"] one t by blast
    moreover have "(\<exists>x \<in> set (components c). comp_id x \<noteq> i \<and> net_id m \<in> netId ` set (pins x)) \<longleftrightarrow>
        (\<exists>r. componentId r \<noteq> i \<and> pin_net c r = Some (net_id m))"
      using on [of _ "net_id m"] by (metis (no_types))
    ultimately show ?thesis by blast
  qed
qed

section \<open>What a copy is\<close>

text \<open>
  \<open>copied_net S F\<close> is where a copied terminal goes: a shared net stays, any other net is renamed by \<open>F\<close>.
  \<open>naming\<close> says what \<open>F\<close> and the map \<open>netFor\<close> of the loop have to do with each other.
\<close>

definition copied_net :: "string list \<Rightarrow> (string \<Rightarrow> string option) \<Rightarrow> string \<Rightarrow> string" where
  "copied_net S F w = (if w \<in> set S then w else the (F w))"

definition naming :: "string list \<Rightarrow> (string \<Rightarrow> nat) \<Rightarrow> (string \<Rightarrow> string option) \<Rightarrow>
    (string \<Rightarrow> string option) \<Rightarrow> bool" where
  "naming S ins F netFor \<longleftrightarrow>
     (\<forall>v w n. F v = Some n \<longrightarrow> F w = Some n \<longrightarrow> v = w) \<and>
     (\<forall>w. w \<notin> set S \<longrightarrow> \<not> ins w < 2 \<longrightarrow> netFor w = F w)"

lemma namingD:
  assumes "naming S ins F netFor"
  shows "F v = Some n \<Longrightarrow> F w = Some n \<Longrightarrow> v = w"
    and "w \<notin> set S \<Longrightarrow> \<not> ins w < 2 \<Longrightarrow> netFor w = F w"
  using assms by (auto simp: naming_def)

lemma naming_upd:
  assumes "naming S ins F netFor" "n \<notin> ran F"
  shows "ins w < 2 \<Longrightarrow> naming S ins (F(w \<mapsto> n)) netFor"
    and "naming S ins (F(w \<mapsto> n)) (netFor(w \<mapsto> n))"
  using assms by (auto simp: naming_def ran_def)

lemma map_le_copied: "F \<subseteq>\<^sub>m F' \<Longrightarrow> w \<in> set S \<or> w \<in> dom F \<Longrightarrow> copied_net S F' w = copied_net S F w"
  by (auto simp: copied_net_def map_le_def dom_def)

lemma copy_pins_names:
  assumes "length fs = length xs" "\<forall>x \<in> set xs. was (pinId x) = Some (netId x)"
    and "naming S ins F nf" "distinct fs" "set fs \<inter> ran F = {}"
    and "distinct (filter (\<lambda>w. w \<notin> set S \<and> ins w < 2) (map netId xs))"
    and "\<forall>x \<in> set xs. netId x \<notin> set S \<longrightarrow> ins (netId x) < 2 \<longrightarrow> F (netId x) = None"
  shows "\<exists>F' nf'. copy_pins S ins was (map2 (\<lambda>x f. \<lparr>pinId = pinId x, netId = f\<rparr>) xs fs) nf =
      (map (\<lambda>x. x\<lparr>netId := copied_net S F' (netId x)\<rparr>) xs, nf') \<and>
    naming S ins F' nf' \<and> F \<subseteq>\<^sub>m F' \<and> dom F' = dom F \<union> {w \<in> netId ` set xs. w \<notin> set S} \<and>
    ran F' \<subseteq> ran F \<union> set fs"
  using assms
proof (induction fs xs arbitrary: F nf rule: list_induct2)
  case (Cons f fs x xs)
  let ?w = "netId x"
  define F1 where "F1 = (if ?w \<in> set S \<or> (F ?w \<noteq> None) then F else F(?w \<mapsto> f))"
  define nf1 where "nf1 = (if ?w \<in> set S \<or> ins ?w < 2 \<or> (F ?w \<noteq> None) then nf else nf(?w \<mapsto> f))"
  have f: "f \<notin> ran F" "f \<notin> set fs" using Cons.prems by auto
  have priv: "F ?w = None" if "?w \<notin> set S" "ins ?w < 2" using Cons.prems(6) that by simp
  have nfw: "nf ?w = F ?w" if "?w \<notin> set S" "\<not> ins ?w < 2" using namingD(2) [OF Cons.prems(2)] that .
  have n1: "naming S ins F1 nf1"
    unfolding F1_def nf1_def using Cons.prems(2) priv f(1) naming_upd [OF Cons.prems(2) f(1)] by auto
  have le1: "F \<subseteq>\<^sub>m F1" by (auto simp: F1_def map_le_def)
  have dom1: "dom F1 = dom F \<union> {w. w = ?w \<and> w \<notin> set S}" by (auto simp: F1_def)
  have ran1: "ran F1 \<subseteq> insert f (ran F)" by (auto simp: F1_def ran_def)
  obtain F' nf' where IH:
    "copy_pins S ins was (map2 (\<lambda>x f. \<lparr>pinId = pinId x, netId = f\<rparr>) xs fs) nf1 =
      (map (\<lambda>x. x\<lparr>netId := copied_net S F' (netId x)\<rparr>) xs, nf')"
    "naming S ins F' nf'" "F1 \<subseteq>\<^sub>m F'" "dom F' = dom F1 \<union> {w \<in> netId ` set xs. w \<notin> set S}"
    "ran F' \<subseteq> ran F1 \<union> set fs"
  proof -
    have "set fs \<inter> ran F1 = {}" using Cons.prems(4) f(2) ran1 by auto
    moreover have "\<forall>y \<in> set xs. netId y \<notin> set S \<longrightarrow> ins (netId y) < 2 \<longrightarrow> F1 (netId y) = None"
      using Cons.prems(5,6) by (auto simp: F1_def) (metis imageI)
    ultimately show ?thesis using Cons.IH [OF _ n1] Cons.prems that by (auto split: if_splits)
  qed
  have "copied_net S F' ?w = copied_net S F1 ?w"
    using IH(3) dom1 by (intro map_le_copied) auto
  moreover have "copy_pins S ins was (map2 (\<lambda>x f. \<lparr>pinId = pinId x, netId = f\<rparr>) (x # xs) (f # fs)) nf =
      (x\<lparr>netId := copied_net S F1 ?w\<rparr> #
        fst (copy_pins S ins was (map2 (\<lambda>x f. \<lparr>pinId = pinId x, netId = f\<rparr>) xs fs) nf1),
       snd (copy_pins S ins was (map2 (\<lambda>x f. \<lparr>pinId = pinId x, netId = f\<rparr>) xs fs) nf1))"
    using Cons.prems(1) priv nfw
    by (cases x) (auto simp: case_prod_beta F1_def nf1_def copied_net_def map_upd_triv split: option.splits)
  ultimately have "copy_pins S ins was (map2 (\<lambda>x f. \<lparr>pinId = pinId x, netId = f\<rparr>) (x # xs) (f # fs)) nf =
      (map (\<lambda>x. x\<lparr>netId := copied_net S F' (netId x)\<rparr>) (x # xs), nf')"
    using IH(1) by simp
  moreover have "F \<subseteq>\<^sub>m F'" using le1 IH(3) by (rule map_le_trans)
  moreover have "dom F' = dom F \<union> {w \<in> netId ` set (x # xs). w \<notin> set S}"
    using IH(4) dom1 by auto
  moreover have "ran F' \<subseteq> ran F \<union> set (f # fs)" using IH(5) ran1 by auto
  ultimately show ?case using IH(2) by blast
qed (auto intro: exI [of _ F])

text \<open>The state of the loop after some of the originals have been copied.\<close>

definition copied_part :: "(string \<Rightarrow> string) \<Rightarrow> component \<Rightarrow> component \<Rightarrow> bool" where
  "copied_part G x y \<longleftrightarrow>
     y = x\<lparr>comp_id := comp_id y, designator := designator y, comp_value := comp_value y,
            pins := map (\<lambda>p. p\<lparr>netId := G (netId p)\<rparr>) (pins x)\<rparr>"

definition copying_inv :: "circuit \<Rightarrow> string list \<Rightarrow> (string \<Rightarrow> nat) \<Rightarrow> component list \<Rightarrow>
    (string \<Rightarrow> string option) \<Rightarrow> copying \<Rightarrow> bool" where
  "copying_inv c S ins done F = (\<lambda>(nxt, created, netFor).
     wf_circuit nxt \<and> naming S ins F netFor \<and>
     dom F = {w. w \<notin> set S \<and> (\<exists>x \<in> set done. w \<in> netId ` set (pins x))} \<and>
     ran F \<subseteq> net_ids nxt \<and> ran F \<inter> net_ids c = {} \<and>
     (\<exists>ns. nets nxt = nets c @ ns) \<and>
     (\<exists>copies. components nxt = components c @ copies \<and> created = map comp_id copies \<and>
        list_all2 (copied_part (copied_net S F)) done copies))"

lemma copied_part_ext:
  assumes "copied_part (copied_net S F) x y" "F \<subseteq>\<^sub>m F'"
    and "\<forall>p \<in> set (pins x). netId p \<in> set S \<or> netId p \<in> dom F"
  shows "copied_part (copied_net S F') x y"
proof -
  have eq: "map (\<lambda>p. p\<lparr>netId := copied_net S F' (netId p)\<rparr>) (pins x) =
      map (\<lambda>p. p\<lparr>netId := copied_net S F (netId p)\<rparr>) (pins x)"
    using assms(3) map_le_copied [OF assms(2)] by simp
  show ?thesis using assms(1) unfolding copied_part_def eq .
qed

lemma either_same [simp]: "either v v = v" "either None w = w"
  by (cases v) simp_all

lemma was_on_pin:
  assumes "distinct (map pinId (pins x))" "p \<in> set (pins x)"
  shows "was_on x (pinId p) = Some (netId p)"
  using assms by (auto simp: was_on_def comp_def rev_map [symmetric] intro!: map_of_is_SomeI)

lemma replace_last:
  assumes "\<forall>x \<in> set xs. comp_id x \<noteq> comp_id y"
  shows "map (\<lambda>x. if comp_id x = comp_id y then upd x else x) (xs @ [y]) = xs @ [upd y]"
  using assms by (simp add: map_idI)

lemma copy_one_inv:
  assumes wfc: "wf_circuit c" and inv: "copying_inv c S ins dn F (nxt, created, nf)"
    and x: "x \<in> set (components c)"
    and priv: "\<forall>w \<in> netId ` set (pins x). w \<notin> set S \<longrightarrow> ins w < 2 \<longrightarrow> w \<notin> dom F"
      "distinct (filter (\<lambda>w. w \<notin> set S \<and> ins w < 2) (map netId (pins x)))"
    and S: "set S \<subseteq> net_ids c"
    and one: "copy_one S ins x (nxt, created, nf) = Inr st"
  shows "\<exists>F'. copying_inv c S ins (dn @ [x]) F' st"
proof -
  from inv obtain ns copies where
    I: "wf_circuit nxt" "naming S ins F nf" 
      "dom F = {w. w \<notin> set S \<and> (\<exists>x \<in> set dn. w \<in> netId ` set (pins x))}"
      "ran F \<subseteq> net_ids nxt" "ran F \<inter> net_ids c = {}" "nets nxt = nets c @ ns"
      "components nxt = components c @ copies" "created = map comp_id copies"
      "list_all2 (copied_part (copied_net S F)) dn copies"
    unfolding copying_inv_def by auto
  have dx: "distinct (map pinId (pins x))" using wf_circuitD(5) [OF wfc x] by (simp add: wf_component_def)
  obtain added n cr df where ch: "add_component nxt (copy_spec x) = Changed added n cr df"
  proof (cases "add_component nxt (copy_spec x)")
    case (Unchanged c')
    then show ?thesis by (simp add: add_component_def Let_def split: if_splits option.splits)
  qed (use one in \<open>auto simp: copy_one_def\<close>)
  show ?thesis
  proof (rule add_component_Changed [OF ch])
    fix d and ps :: "string list"
    define fr where "fr = map fst (fresh_nets nxt (length ps))"
    define b where "b = built_part (copy_spec x) d ps (fresh_nets nxt (length ps))"
    assume ps: "ps = (case np_pins (copy_spec x) of None \<Rightarrow> component_pins (np_type (copy_spec x)) | Some ps \<Rightarrow> ps)"
      and new: "\<forall>y \<in> set (components nxt). js_lower (designator y) \<noteq> js_lower d \<and> comp_id y \<noteq> js_lower d"
      and added: "added = nxt\<lparr>components := components nxt @ [built_part (copy_spec x) d ps (fresh_nets nxt (length ps))],
            nets := nets nxt @ map new_net (fresh_nets nxt (length ps))\<rparr>"
    have ps': "ps = map pinId (pins x)" using ps by (simp add: copy_spec_def)
    have len: "length fr = length (pins x)" by (simp add: fr_def ps' fresh_nets_facts)
    have pins_b: "pins b = map2 (\<lambda>x f. \<lparr>pinId = pinId x, netId = f\<rparr>) (pins x) fr"
      using fresh_nets_facts(1) [of nxt "length ps"]
      by (simp add: b_def built_part_def fr_def ps' zip_map1 zip_map2 case_prod_beta comp_def)
    have fresh: "set fr \<inter> net_ids nxt = {}" "distinct fr"
      using fresh_nets_facts(4) [of _ nxt] fresh_nets_facts(2) [of nxt] by (auto simp: fr_def)
    obtain F' nf' where F': "copy_pins S ins (was_on x) (pins b) nf =
        (map (\<lambda>x. x\<lparr>netId := copied_net S F' (netId x)\<rparr>) (pins x), nf')"
      "naming S ins F' nf'" "F \<subseteq>\<^sub>m F'" "dom F' = dom F \<union> {w \<in> netId ` set (pins x). w \<notin> set S}"
      "ran F' \<subseteq> ran F \<union> set fr"
    proof -
      have "\<forall>y \<in> set (pins x). was_on x (pinId y) = Some (netId y)" using was_on_pin [OF dx] by blast
      moreover have "set fr \<inter> ran F = {}" using fresh(1) I(4) by blast
      moreover have "\<forall>y \<in> set (pins x). netId y \<notin> set S \<longrightarrow> ins (netId y) < 2 \<longrightarrow> F (netId y) = None"
        using priv(1) by (auto simp: domIff)
      ultimately show ?thesis
        using copy_pins_names [OF len _ I(2) fresh(2) _ priv(2)] that unfolding pins_b by blast
    qed
    define y where "y = b\<lparr>pins := map (\<lambda>p. p\<lparr>netId := copied_net S F' (netId p)\<rparr>) (pins x),
      properties := properties x\<rparr>"
    have old: "\<forall>z \<in> set (components nxt). comp_id z \<noteq> comp_id b" using new by (simp add: b_def)
    have last: "components added = components nxt @ [b]" by (simp add: added b_def)
    have carried: "carry_over x b = b\<lparr>properties := properties x\<rparr>"
      by (simp add: carry_over_def b_def built_part_def copy_spec_def)
    have st: "st = (added\<lparr>components := components nxt @ [y]\<rparr>, created @ [comp_id b], nf')"
      using one old
      by (auto simp: copy_one_def ch last replace_component_def Let_def F'(1) carried y_def map_idI)
    have part: "copied_part (copied_net S F') x y"
      unfolding copied_part_def by (simp add: y_def b_def built_part_def copy_spec_def)
    define new_nets where "new_nets = map new_net (fresh_nets nxt (length ps))"
    have nn: "net_id ` set new_nets = set fr" by (auto simp: new_nets_def fr_def image_image)
    have st': "st = (nxt\<lparr>components := components nxt @ [y], nets := nets nxt @ new_nets\<rparr>, created @ [comp_id y], nf')"
      by (simp add: st added new_nets_def y_def)
    have sub: "net_ids c \<subseteq> net_ids nxt" by (auto simp: net_ids_def I(6))
    have ran': "ran F' \<subseteq> net_ids nxt \<union> net_id ` set new_nets" using F'(5) I(4) nn by blast
    have "copied_net S F' w \<in> net_ids nxt \<union> net_id ` set new_nets" if "w \<in> netId ` set (pins x)" for w
    proof (cases "w \<in> set S")
      case False
      then obtain n where "F' w = Some n" using F'(4) \<open>w \<in> netId ` set (pins x)\<close> by auto
      then show ?thesis using False ran' ranI [of F' w n] by (auto simp: copied_net_def)
    qed (use S sub in \<open>auto simp: copied_net_def\<close>)
    then have on: "set (map netId (pins y)) \<subseteq> net_ids nxt \<union> net_id ` set new_nets"
      by (auto simp: y_def)
    have ids: "map pinId (pins y) = map pinId (pins x)" by (simp add: y_def comp_def)
    have wf': "wf_circuit (nxt\<lparr>components := components nxt @ [y], nets := nets nxt @ new_nets\<rparr>)"
    proof (rule wf_append [OF I(1) _ on])
      show "distinct (map pinId (pins y))" using dx by (simp only: ids)
      show "\<forall>z \<in> set (components nxt). js_lower (designator z) \<noteq> js_lower (designator y) \<and> comp_id z \<noteq> comp_id y"
        using new by (simp add: y_def b_def)
    qed (use distinct_add_nets [OF I(1)] in \<open>simp_all add: new_nets_def\<close>)
    have "copying_inv c S ins (dn @ [x]) F' st"
      unfolding st' copying_inv_def split
    proof (intro conjI)
      show "dom F' = {w. w \<notin> set S \<and> (\<exists>z \<in> set (dn @ [x]). w \<in> netId ` set (pins z))}"
        using F'(4) I(3) by auto
      show "ran F' \<subseteq> net_ids (nxt\<lparr>components := components nxt @ [y], nets := nets nxt @ new_nets\<rparr>)"
        using ran' by (simp add: net_ids_def image_Un)
      show "ran F' \<inter> net_ids c = {}" using F'(5) I(5) fresh(1) sub by blast
      show "\<exists>ns. nets (nxt\<lparr>components := components nxt @ [y], nets := nets nxt @ new_nets\<rparr>) = nets c @ ns"
        using I(6) by simp
      have "copied_part (copied_net S F') z w" if "copied_part (copied_net S F) z w" "z \<in> set dn" for z w
        by (rule copied_part_ext [OF that(1) F'(3)]) (use that(2) I(3) in auto)
      then have "list_all2 (copied_part (copied_net S F')) dn copies"
        using I(9) by (auto simp: list_all2_conv_all_nth)
      then show "\<exists>cps. components (nxt\<lparr>components := components nxt @ [y], nets := nets nxt @ new_nets\<rparr>) = components c @ cps \<and>
          created @ [comp_id y] = map comp_id cps \<and> list_all2 (copied_part (copied_net S F')) (dn @ [x]) cps"
        using I(7,8) part by (intro exI [of _ "copies @ [y]"]) (simp add: list_all2_appendI)
    qed (use wf' F'(2) in simp_all)
    then show ?thesis by (rule exI [of _ F'])
  qed
qed

text \<open>A net with fewer than two terminals in the selection has at most one among the copied parts.\<close>

lemma inside_lt_2:
  assumes "inside_count S (dn @ x # xs) w < 2" "w \<notin> set S" "w \<in> netId ` set (pins x)"
  shows "w \<notin> (\<Union>z \<in> set dn. netId ` set (pins z))"
    and "length (filter (\<lambda>v. v = w) (map netId (pins x))) \<le> 1"
proof -
  define N where "N ps = length (filter (\<lambda>p. netId p = w) ps)" for ps :: "pin_connection list"
  have tot: "N (concat (map pins dn)) + N (pins x) < 2"
    using assms(1,2) by (simp add: inside_count_def N_def)
  have pos: "N ps > 0" if "w \<in> netId ` set ps" for ps
    using that by (auto simp: N_def length_greater_0_conv filter_empty_conv)
  have "N (pins x) > 0" using assms(3) by (rule pos)
  then show "w \<notin> (\<Union>z \<in> set dn. netId ` set (pins z))"
    using tot pos [of "concat (map pins dn)"] by fastforce
  have "length (filter (\<lambda>v. v = w) (map netId (pins x))) = N (pins x)"
    by (simp add: N_def filter_map comp_def)
  then show "length (filter (\<lambda>v. v = w) (map netId (pins x))) \<le> 1" using tot by simp
qed

lemma distinct_filter_once:
  "(\<forall>w \<in> set xs. P w \<longrightarrow> length (filter (\<lambda>v. v = w) xs) \<le> 1) \<Longrightarrow> distinct (filter P xs)"
proof (induction xs)
  case (Cons x xs)
  have "distinct (filter P xs)"
  proof (rule Cons.IH, intro ballI impI)
    fix w assume "w \<in> set xs" "P w"
    then have "length (filter (\<lambda>v. v = w) (x # xs)) \<le> 1" using Cons.prems by simp
    then show "length (filter (\<lambda>v. v = w) xs) \<le> 1" by (cases "x = w") simp_all
  qed
  moreover have "x \<notin> set xs" if "P x"
  proof -
    have "length (filter (\<lambda>v. v = x) (x # xs)) \<le> 1" using Cons.prems that by (simp del: filter.simps)
    then show ?thesis by (auto simp: filter_empty_conv)
  qed
  ultimately show ?case by simp
qed simp

lemma copy_all_inv:
  assumes wfc: "wf_circuit c" and S: "set S \<subseteq> net_ids c"
  shows "copying_inv c S (inside_count S (dn @ xs)) dn F st \<Longrightarrow> set xs \<subseteq> set (components c) \<Longrightarrow>
    copy_all S (inside_count S (dn @ xs)) xs st = Inr st' \<Longrightarrow>
    \<exists>F'. copying_inv c S (inside_count S (dn @ xs)) (dn @ xs) F' st'"
proof (induction xs arbitrary: dn F st)
  case (Cons x xs)
  let ?ins = "inside_count S (dn @ x # xs)"
  obtain nxt created nf where st: "st = (nxt, created, nf)" by (cases st)
  obtain st1 where one: "copy_one S ?ins x st = Inr st1" and rest: "copy_all S ?ins xs st1 = Inr st'"
    using Cons.prems(3) by (cases "copy_one S ?ins x st") auto
  have x: "x \<in> set (components c)" using Cons.prems(2) by simp
  have dom: "dom F = {w. w \<notin> set S \<and> (\<exists>x \<in> set dn. w \<in> netId ` set (pins x))}"
    using Cons.prems(1) unfolding st copying_inv_def by simp
  have "\<forall>w \<in> netId ` set (pins x). w \<notin> set S \<longrightarrow> ?ins w < 2 \<longrightarrow> w \<notin> dom F"
    using inside_lt_2(1) [of S dn x xs] unfolding dom by blast
  moreover have "distinct (filter (\<lambda>w. w \<notin> set S \<and> ?ins w < 2) (map netId (pins x)))"
    by (rule distinct_filter_once) (use inside_lt_2(2) [of S dn x xs] in auto)
  ultimately obtain F1 where "copying_inv c S ?ins (dn @ [x]) F1 st1"
    using copy_one_inv [OF wfc Cons.prems(1) [unfolded st] x _ _ S one [unfolded st]] by blast
  then show ?case using Cons.IH [of "dn @ [x]" F1 st1] Cons.prems(2) rest by simp
qed auto

lemma wf_prune:
  assumes wf: "wf_circuit c" and used: "\<And>x p. x \<in> set (components c) \<Longrightarrow> p \<in> set (pins x) \<Longrightarrow> Q (netId p)"
  shows "wf_circuit (c\<lparr>nets := filter (\<lambda>n. Q (net_id n)) (nets c)\<rparr>)"
proof
  let ?c = "c\<lparr>nets := filter (\<lambda>n. Q (net_id n)) (nets c)\<rparr>"
  show "wf_component (net_ids ?c) x" if "x \<in> set (components ?c)" for x
  proof -
    have x: "x \<in> set (components c)" using that by simp
    have "netId p \<in> net_ids ?c" if "p \<in> set (pins x)" for p
      using wf_pin_declared [OF wf x that] used [OF x that] by (auto simp: net_ids_def)
    then show ?thesis using wf_circuitD(5) [OF wf x] by (auto simp: wf_component_def)
  qed
qed (use wf in \<open>simp_all add: wf_circuitD distinct_map_filter\<close>)

lemma copied_part_value: "copied_part G z (x\<lparr>comp_value := v\<rparr>) \<longleftrightarrow> copied_part G z x"
  by (cases x; cases z) (auto simp: copied_part_def)

declare rewrite_nodes.simps [simp del]

lemma rewrite_value_keeps:
  "comp_id (fst (rewrite_value S nf cr x)) = comp_id x"
  "designator (fst (rewrite_value S nf cr x)) = designator x"
  "pins (fst (rewrite_value S nf cr x)) = pins x"
  "comp_id x \<notin> set cr \<Longrightarrow> fst (rewrite_value S nf cr x) = x"
  "copied_part G z (fst (rewrite_value S nf cr x)) \<longleftrightarrow> copied_part G z x"
  by (auto simp: rewrite_value_def copied_part_value Let_def case_prod_beta split: option.splits)

lemma missing_none:
  "filter (\<lambda>(i, a). a = None) (zip ids (map f ids)) = [] \<longleftrightarrow> (\<forall>i \<in> set ids. f i \<noteq> None)"
  by (induction ids) auto

definition copied_originals :: "circuit \<Rightarrow> string list \<Rightarrow> component list" where
  "copied_originals c ids = filter is_placeable_part (map (\<lambda>i. the (comp_by_id c i)) ids)"

lemma duplicate_components_Changed:
  assumes wf: "wf_circuit c" and ch: "duplicate_components c ids = Changed c' n cr df"
  obtains G copies where
    "df = Some (map comp_id (copied_originals c ids))" "cr = Some (map comp_id copies)"
    "\<forall>i \<in> set ids. comp_by_id c i \<noteq> None"
    "components c' = components c @ copies" "\<exists>ns. nets c' = nets c @ ns" "wf_circuit c'"
    "list_all2 (copied_part G) (copied_originals c ids) copies"
    "\<And>n. n \<in> set (shared_nets c) \<Longrightarrow> G n = n"
    "\<And>x p. x \<in> set (copied_originals c ids) \<Longrightarrow> p \<in> set (pins x) \<Longrightarrow> netId p \<notin> set (shared_nets c) \<Longrightarrow>
       G (netId p) \<notin> net_ids c"
    "\<And>x p y q. x \<in> set (copied_originals c ids) \<Longrightarrow> p \<in> set (pins x) \<Longrightarrow>
       y \<in> set (copied_originals c ids) \<Longrightarrow> q \<in> set (pins y) \<Longrightarrow> G (netId p) = G (netId q) \<Longrightarrow> netId p = netId q"
proof -
  define S where "S = shared_nets c"
  define os where "os = copied_originals c ids"
  let ?ins = "inside_count S os"
  have S: "set S \<subseteq> net_ids c" by (auto simp: S_def shared_nets_def net_ids_def)
  have found: "\<forall>i \<in> set ids. comp_by_id c i \<noteq> None"
    using ch missing_none [of ids "comp_by_id c"]
    by (auto simp: duplicate_components_def Let_def comp_by_id_def [symmetric] split: if_splits)
  then have none: "filter (\<lambda>(i, a). a = None) (zip ids (map (comp_by_id c) ids)) = []"
    by (simp add: missing_none)
  have os: "set os \<subseteq> set (components c)"
    using found comp_by_id_Some [of c] by (fastforce simp: os_def copied_originals_def)
  have os': "filter is_placeable_part (map the (map (comp_by_id c) ids)) = os"
    by (simp add: os_def copied_originals_def comp_def)
  note D = ch [unfolded duplicate_components_def Let_def comp_by_id_def [symmetric] none os' S_def [symmetric]]
  have ne: "os \<noteq> []" using D by (auto split: if_splits)
  obtain nxt created nf where all: "copy_all S ?ins os (c, [], Map.empty) = Inr (nxt, created, nf)"
    using D ne by (cases "copy_all S ?ins os (c, [], Map.empty)") (auto split: prod.splits if_splits)
  have "copying_inv c S (inside_count S ([] @ os)) [] Map.empty (c, [], Map.empty)"
    using wf by (auto simp: copying_inv_def naming_def)
  from copy_all_inv [OF wf S this os] all
  obtain F where inv: "copying_inv c S ?ins os F (nxt, created, nf)" by auto
  then obtain ns copies where I: "wf_circuit nxt" "naming S ?ins F nf"
      "dom F = {w. w \<notin> set S \<and> (\<exists>x \<in> set os. w \<in> netId ` set (pins x))}"
      "ran F \<inter> net_ids c = {}" "nets nxt = nets c @ ns"
      "components nxt = components c @ copies" "created = map comp_id copies"
      "list_all2 (copied_part (copied_net S F)) os copies"
    unfolding copying_inv_def by auto
  define g where "g = (\<lambda>x. fst (rewrite_value S nf created x))"
  define nxt' where "nxt' = nxt\<lparr>components := map g (components nxt)\<rparr>"
  define refd where "refd = concat (map (\<lambda>x. map netId (pins x)) (components nxt'))"
  have c': "c' = nxt'\<lparr>nets := filter (\<lambda>n. net_id n \<in> set refd \<or> net_id n \<in> set (map net_id (nets c))) (nets nxt')\<rparr>"
    and res: "cr = Some created" "df = Some (map comp_id os)"
    using D ne all by (simp_all add: nxt'_def g_def refd_def comp_def)
  have old: "g x = x" if "x \<in> set (components c)" for x
    using that wf_circuitD(1) [OF I(1)] I(6,7) unfolding g_def
    by (intro rewrite_value_keeps(4)) auto
  have comps': "components nxt' = components c @ map g copies"
    using old by (simp add: nxt'_def I(6) map_idI)
  show ?thesis
  proof (rule that [of "map g copies" "copied_net S F"])
    show "components c' = components c @ map g copies" by (simp add: c' comps')
    show "cr = Some (map comp_id (map g copies))"
      by (simp add: res I(7) g_def comp_def rewrite_value_keeps)
    show "list_all2 (copied_part (copied_net S F)) (copied_originals c ids) (map g copies)"
      using I(8) by (simp add: os_def [symmetric] list_all2_conv_all_nth g_def rewrite_value_keeps)
    show "\<exists>ns. nets c' = nets c @ ns" by (auto simp: c' nxt'_def I(5) filter_id_conv)
    have "wf_circuit nxt'" unfolding nxt'_def
      by (rule wf_circuit_map_same [OF I(1)]) (simp add: g_def rewrite_value_keeps)
    then show "wf_circuit c'" unfolding c' by (rule wf_prune) (auto simp: refd_def)
    show "copied_net S F n = n" if "n \<in> set (shared_nets c)" for n
      using that by (simp add: copied_net_def S_def)
    have fresh: "copied_net S F w \<notin> net_ids c \<and> F w = Some (copied_net S F w)"
      if w: "w \<notin> set S" "x \<in> set os" "w \<in> netId ` set (pins x)" for x w
    proof -
      have "w \<in> dom F" using w I(3) by blast
      then obtain n where "F w = Some n" by blast
      then show ?thesis using I(4) w(1) ranI [of F w n] by (auto simp: copied_net_def)
    qed
    then show "copied_net S F (netId p) \<notin> net_ids c"
      if "x \<in> set (copied_originals c ids)" "p \<in> set (pins x)" "netId p \<notin> set (shared_nets c)" for x p
      using that unfolding os_def S_def by blast
    show "netId p = netId q"
      if *: "x \<in> set (copied_originals c ids)" "p \<in> set (pins x)" "y \<in> set (copied_originals c ids)" "q \<in> set (pins y)"
        and eq: "copied_net S F (netId p) = copied_net S F (netId q)" for x p y q
    proof -
      have p: "netId p \<in> netId ` set (pins x)" and q: "netId q \<in> netId ` set (pins y)" using * by simp_all
      show ?thesis
      proof (cases "netId p \<in> set S"; cases "netId q \<in> set S")
        assume "netId p \<in> set S" "netId q \<in> set S"
        then show ?thesis using eq by (simp add: copied_net_def)
      next
        assume a: "netId p \<notin> set S" "netId q \<notin> set S"
        show ?thesis
          using namingD(1) [OF I(2)] fresh [OF a(1) _ p] fresh [OF a(2) _ q] *(1,3) eq unfolding os_def by metis
      next
        assume a: "netId p \<in> set S" "netId q \<notin> set S"
        then show ?thesis using fresh [OF a(2) _ q] *(3) eq S unfolding os_def by (auto simp: copied_net_def)
      next
        assume a: "netId p \<notin> set S" "netId q \<in> set S"
        then show ?thesis using fresh [OF a(1) _ p] *(1) eq S unfolding os_def by (auto simp: copied_net_def)
      qed
    qed
  qed (use res found os_def in auto)
qed

lemma copied_part_pins:
  assumes "copied_part G x y"
  shows "pins y = map (\<lambda>p. p\<lparr>netId := G (netId p)\<rparr>) (pins x)"
  using arg_cong [OF assms [unfolded copied_part_def], of pins] by simp

lemma copied_pin_net:
  assumes "wf_circuit c'" "y \<in> set (components c')" "wf_circuit c" "x \<in> set (components c)"
    and "copied_part G x y"
  shows "pin_net c' (pin_key (comp_id y) p) = map_option G (pin_net c (pin_key (comp_id x) p))"
proof -
  have "comp_by_id c' (comp_id y) = Some y" "comp_by_id c (comp_id x) = Some x"
    using assms comp_by_id_wfc by blast+
  moreover have "pins y = map (\<lambda>p. p\<lparr>netId := G (netId p)\<rparr>) (pins x)"
    using assms(5) by (rule copied_part_pins)
  ultimately show ?thesis
    using find_map_key [of "pins x" pinId "\<lambda>p. p\<lparr>netId := G (netId p)\<rparr>"]
    by (simp add: pin_net_def pin_by_id_def option.map_comp comp_def)
qed

lemma duplicate_old_pin_net:
  assumes "wf_circuit c" "components c' = components c @ copies" "comp_by_id c (componentId r) \<noteq> None"
  shows "pin_net c' r = pin_net c r"
proof -
  have "find P (xs @ ys) = find P xs" if "find P xs \<noteq> None" for P and xs ys :: "component list"
    using that by (induction xs) auto
  then show ?thesis using assms by (simp add: pin_net_def comp_by_id_def)
qed

lemma shared_net_flags:
  "n \<in> set (shared_nets c) \<longleftrightarrow> (\<exists>m \<in> set (nets c). net_id m = n \<and> (flag (isGround m) \<or> flag (isPower m)))"
  by (auto simp: shared_nets_def)

text \<open>
  Copying only adds: the parts and the nets that were there are still there, in place and
  unchanged, and each new part is its original in every field but its id, its designator, the text of its
  value and the nets its pins are on; \<open>created\<close> and \<open>derivedFrom\<close> name the copies and their originals,
  the parts asked for that are not net markers, in the order they were asked for.
\<close>

theorem duplicate_only_adds:
  assumes wf: "wf_circuit c" and ch: "duplicate_components c ids = Changed c' n cr df"
  shows "\<exists>copies ns. components c' = components c @ copies \<and> nets c' = nets c @ ns \<and>
    cr = Some (map comp_id copies) \<and> df = Some (map comp_id (copied_originals c ids)) \<and>
    list_all2 (\<lambda>x y. y = x\<lparr>comp_id := comp_id y, designator := designator y, comp_value := comp_value y, pins := pins y\<rparr> \<and>
        map pinId (pins y) = map pinId (pins x)) (copied_originals c ids) copies"
proof (rule duplicate_components_Changed [OF wf ch])
  fix G copies
  assume D: "df = Some (map comp_id (copied_originals c ids))" "cr = Some (map comp_id copies)"
    "components c' = components c @ copies" "\<exists>ns. nets c' = nets c @ ns"
    "list_all2 (copied_part G) (copied_originals c ids) copies"
  have "list_all2 (\<lambda>x y. y = x\<lparr>comp_id := comp_id y, designator := designator y, comp_value := comp_value y, pins := pins y\<rparr> \<and>
        map pinId (pins y) = map pinId (pins x)) (copied_originals c ids) copies"
  proof (rule list_all2_mono [OF D(5)])
    fix x y assume xy: "copied_part G x y"
    note eq = copied_part_pins [OF xy]
    have "map pinId (pins y) = map pinId (pins x)" by (simp add: eq comp_def)
    then show "y = x\<lparr>comp_id := comp_id y, designator := designator y, comp_value := comp_value y, pins := pins y\<rparr> \<and>
        map pinId (pins y) = map pinId (pins x)"
      using xy unfolding eq copied_part_def by iprover
  qed
  then show ?thesis using D by blast
qed

text \<open>
  \<^bold>\<open>C3.\<close> Copies are wired among themselves exactly as their originals are, and to the rest of the design
  over ground and the supply rails only: a copied terminal is connected to a terminal that was there
  exactly when its original was, over a net declared ground or power. No terminal that was there moves.
\<close>

theorem duplicate_wiring:
  assumes wf: "wf_circuit c" and ch: "duplicate_components c ids = Changed c' n (Some created) (Some from)"
    and k: "k < length created" "pin_net c (pin_key (from ! k) p) \<noteq> None"
    and l: "l < length created" "pin_net c (pin_key (from ! l) q) \<noteq> None"
    and r: "pin_net c r \<noteq> None"
  shows "(connected c' (pin_key (created ! k) p) (pin_key (created ! l) q) \<longleftrightarrow>
       connected c (pin_key (from ! k) p) (pin_key (from ! l) q)) \<and>
    (connected c' (pin_key (created ! k) p) r \<longleftrightarrow> connected c (pin_key (from ! k) p) r \<and>
       (on_net_with isGround c r \<or> on_net_with isPower c r)) \<and>
    pin_net c' r = pin_net c r"
proof (rule duplicate_components_Changed [OF wf ch])
  fix G copies
  let ?os = "copied_originals c ids"
  assume D: "Some from = Some (map comp_id ?os)" "Some created = Some (map comp_id copies)"
    "\<forall>i \<in> set ids. comp_by_id c i \<noteq> None"
    "components c' = components c @ copies" "wf_circuit c'" "list_all2 (copied_part G) ?os copies"
    and shared: "\<And>n. n \<in> set (shared_nets c) \<Longrightarrow> G n = n"
    and fresh: "\<And>x p. x \<in> set ?os \<Longrightarrow> p \<in> set (pins x) \<Longrightarrow> netId p \<notin> set (shared_nets c) \<Longrightarrow> G (netId p) \<notin> net_ids c"
    and inj: "\<And>x p y q. x \<in> set ?os \<Longrightarrow> p \<in> set (pins x) \<Longrightarrow> y \<in> set ?os \<Longrightarrow> q \<in> set (pins y) \<Longrightarrow>
       G (netId p) = G (netId q) \<Longrightarrow> netId p = netId q"
  have len: "length copies = length ?os" using D(6) by (simp add: list_all2_lengthD)
  have os: "x \<in> set (components c)" if "x \<in> set ?os" for x
    using that D(3) comp_by_id_Some [of c] by (fastforce simp: copied_originals_def)
  have copy: "\<exists>x \<in> set ?os. \<exists>v \<in> set (pins x).
      pin_net c (pin_key (from ! k) p) = Some (netId v) \<and> pin_net c' (pin_key (created ! k) p) = Some (G (netId v))"
    if k: "k < length created" "pin_net c (pin_key (from ! k) p) \<noteq> None" for k p
  proof -
    have k': "k < length ?os" "k < length copies" using k(1) D(2) len by simp_all
    define x y where "x = ?os ! k" and "y = copies ! k"
    have x: "x \<in> set ?os" "from ! k = comp_id x" "created ! k = comp_id y" "copied_part G x y"
      using k' D by (auto simp: x_def y_def list_all2_conv_all_nth)
    have y: "y \<in> set (components c')" using k' D(4) by (simp add: y_def)
    have eq: "pin_net c' (pin_key (comp_id y) p) = map_option G (pin_net c (pin_key (comp_id x) p))"
      by (rule copied_pin_net [OF D(5) y wf os [OF x(1)] x(4)])
    have cx: "comp_by_id c (comp_id x) = Some x" using comp_by_id_wfc [OF wf] os [OF x(1)] by blast
    obtain v where "pin_by_id x p = Some v"
      using k(2) cx by (cases "pin_by_id x p") (auto simp: x(2) pin_net_def)
    then show ?thesis using x eq cx pin_by_id_Some [of x p v]
      by (intro bexI [of _ x] bexI [of _ v]) (auto simp: pin_net_def)
  qed
  obtain x v where v: "x \<in> set ?os" "v \<in> set (pins x)" "pin_net c (pin_key (from ! k) p) = Some (netId v)"
    "pin_net c' (pin_key (created ! k) p) = Some (G (netId v))" using copy [OF k] by blast
  obtain y w where w: "y \<in> set ?os" "w \<in> set (pins y)" "pin_net c (pin_key (from ! l) q) = Some (netId w)"
    "pin_net c' (pin_key (created ! l) q) = Some (G (netId w))" using copy [OF l] by blast
  obtain m where m: "pin_net c r = Some m" using r by blast
  then have "comp_by_id c (componentId r) \<noteq> None"
    by (cases "comp_by_id c (componentId r)") (simp_all add: pin_net_def)
  then have old: "pin_net c' r = Some m" using duplicate_old_pin_net [OF wf D(4)] m by simp
  have "G (netId v) = G (netId w) \<longleftrightarrow> netId v = netId w" using inj [OF v(1,2) w(1,2)] by auto
  moreover have "G (netId v) = m \<longleftrightarrow> netId v = m \<and> m \<in> set (shared_nets c)"
    using shared [of "netId v"] fresh [OF v(1,2)] pin_net_declared [OF wf m] by metis
  moreover have "m \<in> set (shared_nets c) \<longleftrightarrow> on_net_with isGround c r \<or> on_net_with isPower c r"
    using m by (auto simp: shared_net_flags on_net_with_def)
  ultimately show ?thesis using v w m old by (simp add: connected_def)
qed

lemma duplicate_components_wf:
  assumes "wf_circuit c" "duplicate_components c ids = Changed c' n cr df"
  shows "wf_circuit c'"
  by (rule duplicate_components_Changed [OF assms])

lemma part_edit_unchanged:
  "add_component c spec = Unchanged c' \<Longrightarrow> c' = c"
  "delete_component c i = Unchanged c' \<Longrightarrow> c' = c"
  "duplicate_components c ids = Unchanged c' \<Longrightarrow> c' = c"
  by (auto simp: add_component_def delete_component_def duplicate_components_def Let_def
      split: if_splits option.splits sum.splits prod.splits)

interpretation add_edit: edit_contract "\<lambda>c. add_component c spec" for spec
  by unfold_locales (auto intro: add_component_wf dest: part_edit_unchanged)

interpretation delete_edit: edit_contract "\<lambda>c. delete_component c i" for i
  by unfold_locales (auto intro: delete_component_wf dest: part_edit_unchanged)

interpretation duplicate_edit: edit_contract "\<lambda>c. duplicate_components c ids" for ids
  by unfold_locales (auto intro: duplicate_components_wf dest: part_edit_unchanged)

section \<open>The properties on the concrete document\<close>

definition demo_spec :: new_part where
  "demo_spec = \<lparr>np_type = Resistor, np_designator = None, np_value = Some ''10k'', np_model = None,
     np_mpn = None, np_manufacturer = None, np_footprint = None, np_tolerance = None,
     np_toleranceSource = None, np_sourcing = None, np_pins = None\<rparr>"

fun outcome_ids :: "edit_result \<Rightarrow> (string list option \<times> string list option) option" where
  "outcome_ids (Changed _ _ cr df) = Some (cr, df)"
| "outcome_ids _ = None"

lemma demo_copies:
  "outcome_ids (duplicate_components demo [''r1'', ''r2'']) =
     Some (Some [''r4'', ''r5''], Some [''r1'', ''r2''])"
  by code_simp

lemma outcome_ids_changed: "outcome_ids e \<noteq> None \<Longrightarrow> changed e"
  by (cases e) simp_all

lemma demo_part_edits:
  "changed (add_component demo demo_spec)"
  "changed (delete_component demo ''r3'')"
  "map_option (\<lambda>c. map comp_id (components c)) (accepted (add_component demo demo_spec)) =
     Some [''v1'', ''r1'', ''r2'', ''r3'', ''r4'']"
  by code_simp+

theorem add_component_born_alone_witness:
  "\<exists>c' m. accepted (add_component demo demo_spec) = Some c' \<and>
     delete_component c' ''r4'' = Changed demo m None None \<and>
     (\<forall>q. connected c' (pin_key ''r4'' ''1'') q \<longleftrightarrow> q = pin_key ''r4'' ''1'')"
proof (rule changedE [OF demo_part_edits(1)])
  fix c' n cr df
  assume *: "add_component demo demo_spec = Changed c' n cr df"
  have ids: "map comp_id (components c') = [''v1'', ''r1'', ''r2'', ''r3'', ''r4'']"
    using demo_part_edits(3) unfolding * by (simp only: accepted.simps option.map option.inject)
  then have "components c' \<noteq> []" by auto
  then have last: "comp_id (last (components c')) = ''r4''"
    using last_map [of "components c'" comp_id] unfolding ids by simp
  have "map_option (\<lambda>c. pin_net c (pin_key ''r4'' ''1'')) (accepted (add_component demo demo_spec)) = Some (Some ''n1'')"
    by code_simp
  then have at: "pin_net c' (pin_key ''r4'' ''1'') \<noteq> None" unfolding * by simp
  note P = add_component_born_alone [OF demo_wf *, unfolded last]
  then obtain m where m: "delete_component c' ''r4'' = Changed demo m None None" by blast
  have "connected c' (pin_key ''r4'' ''1'') q \<longleftrightarrow> q = pin_key ''r4'' ''1''" for q
    using P [THEN conjunct2, THEN conjunct1, rule_format, of "pin_key ''r4'' ''1''" q] at by simp
  then show ?thesis using m unfolding * by auto
qed

theorem palette_part_added_witness:
  "changed (add_component demo demo_spec)"
  using palette_part_added [of demo_spec demo]
  by (auto simp: demo_spec_def is_variable_arity_def)

theorem delete_component_exact_witness:
  "\<exists>c'. accepted (delete_component demo ''r3'') = Some c' \<and> pin_net c' (pin_key ''r3'' ''2'') = None \<and>
     pin_net c' (pin_key ''r2'' ''1'') = Some ''mid''"
proof (rule changedE [OF demo_part_edits(2)])
  fix c' n cr df
  assume *: "delete_component demo ''r3'' = Changed c' n cr df"
  have "pin_net demo (pin_key ''r2'' ''1'') = Some ''mid''" by code_simp
  then show ?thesis using * delete_component_exact [OF demo_wf *] by simp
qed

theorem duplicate_only_adds_witness:
  "\<exists>c' copies. accepted (duplicate_components demo [''r1'', ''r2'']) = Some c' \<and>
     components c' = components demo @ copies \<and> length copies = 2"
proof (rule changedE [OF outcome_ids_changed])
  show "outcome_ids (duplicate_components demo [''r1'', ''r2'']) \<noteq> None" by (simp add: demo_copies)
next
  fix c' n cr df
  assume *: "duplicate_components demo [''r1'', ''r2''] = Changed c' n cr df"
  have "length (copied_originals demo [''r1'', ''r2'']) = 2" by code_simp
  then show ?thesis using * duplicate_only_adds [OF demo_wf *] by (auto dest: list_all2_lengthD)
qed

theorem duplicate_wiring_witness:
  "\<exists>c'. accepted (duplicate_components demo [''r1'', ''r2'']) = Some c' \<and>
     connected c' (pin_key ''r4'' ''2'') (pin_key ''r5'' ''1'') \<and>
     \<not> connected c' (pin_key ''r4'' ''2'') (pin_key ''r3'' ''1'')"
proof (rule changedE [OF outcome_ids_changed])
  show "outcome_ids (duplicate_components demo [''r1'', ''r2'']) \<noteq> None" by (simp add: demo_copies)
next
  fix c' n cr df
  assume *: "duplicate_components demo [''r1'', ''r2''] = Changed c' n cr df"
  have ch: "duplicate_components demo [''r1'', ''r2''] = Changed c' n (Some [''r4'', ''r5'']) (Some [''r1'', ''r2''])"
    using demo_copies unfolding * by simp
  have "pin_net demo (pin_key ''r1'' ''2'') = Some ''mid''" "pin_net demo (pin_key ''r2'' ''1'') = Some ''mid''"
    "pin_net demo (pin_key ''r3'' ''1'') = Some ''mid''"
    "connected demo (pin_key ''r1'' ''2'') (pin_key ''r2'' ''1'')"
    "\<not> on_net_with isGround demo (pin_key ''r3'' ''1'')" "\<not> on_net_with isPower demo (pin_key ''r3'' ''1'')"
    by code_simp+
  then show ?thesis
    using * duplicate_wiring [OF demo_wf ch, of 0 "''2''" 1 "''1''" "pin_key ''r3'' ''1''"]
    by simp
qed

end
