(* ===== verification/Object_Tree.thy ===== *)
theory Object_Tree
  imports Parts
begin

text \<open>
  \<open>editor-core/src/tree/object-tree.ts\<close>: the addressable tree of a design. An address is a path of ids,
  carried as one text in which \<open>%\<close> and \<open>/\<close> are escaped; the index \<open>byPath\<close> gives an address to the
  first object that claims it and the others are reported.

  The closure \<open>add\<close> is \<open>claim\<close> on the pair of the index and the list of the ambiguous. JavaScript
  evaluates the children of a node before it adds the node, so \<open>claims\<close> lists them in that order. The
  root is added before its children are pushed onto it; the index holds the object, so its entry is the
  finished root (\<open>finish_root\<close>). Of the layout the tree reads the ids, designators and
  footprints of its components and the pads.
\<close>

section \<open>Addresses\<close>

fun escape_char :: "char \<Rightarrow> string" where
  "escape_char c = (if c = CHR ''%'' then ''%25'' else if c = CHR ''/'' then ''%2F'' else [c])"

definition escape_segment :: "string \<Rightarrow> string" where
  "escape_segment s = concat (map escape_char s)"

fun join_slash :: "string list \<Rightarrow> string" where
  "join_slash [] = []"
| "join_slash [s] = s"
| "join_slash (s # ss) = s @ ''/'' @ join_slash ss"

definition path_key :: "string list \<Rightarrow> string" where
  "path_key segments = join_slash (map escape_segment segments)"

definition component_path :: "string \<Rightarrow> string" where
  "component_path i = path_key [''root'', ''components'', i]"

definition pin_path :: "string \<Rightarrow> string \<Rightarrow> string" where
  "pin_path i p = path_key [''root'', ''components'', i, ''pins'', p]"

definition net_path :: "string \<Rightarrow> string" where
  "net_path n = path_key [''root'', ''nets'', n]"

section \<open>Nodes\<close>

datatype object_kind =
    KRoot
  | KComponents
  | KComponent
  | KPins
  | KPin
  | KFootprint
  | KPads
  | KPad
  | KNets
  | KNet

record object_ref =
  ref_kind :: object_kind
  ref_id :: string
  ref_path :: "string list"
  ref_component :: "string option"

datatype tree_node =
  Node (node_ref: object_ref) (node_label: string) (node_detail: "string option")
    (node_children: "tree_node list")

datatype unplaced_reason = NoLayoutComponent | NoCircuitComponent | NoSourcePin

record object_tree =
  tree_root :: tree_node
  by_path :: "(string \<times> tree_node) list"
  unplaced :: "(string \<times> unplaced_reason) list"
  ambiguous :: "(string \<times> string) list"

record layout_component =
  lc_id :: string
  lc_designator :: string
  lc_footprint :: "string option"

record layout_pad =
  pad_id :: string
  pad_component :: string
  pad_pin :: "string option"
  source_pin :: "string option"
  pad_net :: "string option"
  pad_at :: "rat \<times> rat"

record layout_geometry =
  layout_components :: "layout_component list"
  layout_pads :: "layout_pad list"

definition mk_ref :: "object_kind \<Rightarrow> string \<Rightarrow> string list \<Rightarrow> string option \<Rightarrow> object_ref" where
  "mk_ref k i parent owner =
     \<lparr>ref_kind = k, ref_id = i, ref_path = parent @ [i], ref_component = owner\<rparr>"

text \<open>\<open>add\<close>: the first claim of a path wins, and the loser is reported.\<close>

type_synonym index = "(string \<times> tree_node) list \<times> (string \<times> string) list"

definition claim :: "tree_node \<Rightarrow> index \<Rightarrow> index" where
  "claim n = (\<lambda>(idx, amb).
     (let path = path_key (ref_path (node_ref n)) in
      if map_of idx path \<noteq> None then (idx, amb @ [(node_label n, path)])
      else (idx @ [(path, n)], amb)))"

section \<open>The projection\<close>

definition is_drawn_on_sheet :: "component \<Rightarrow> bool" where
  "is_drawn_on_sheet x = True"

text \<open>\<open>new Map(xs.map(x => [k x, v x])).get(i)\<close>: the last entry of a key wins.\<close>

definition map_get :: "('a \<Rightarrow> string) \<Rightarrow> ('a \<Rightarrow> 'b) \<Rightarrow> 'a list \<Rightarrow> string \<Rightarrow> 'b option" where
  "map_get k v xs = map_of (rev (map (\<lambda>x. (k x, v x)) xs))"

definition root_ref :: object_ref where
  "root_ref = mk_ref KRoot ''root'' [] None"

definition nets_ref :: object_ref where
  "nets_ref = mk_ref KNets ''nets'' (ref_path root_ref) None"

definition components_ref :: object_ref where
  "components_ref = mk_ref KComponents ''components'' (ref_path root_ref) None"

definition net_node :: "net \<Rightarrow> tree_node" where
  "net_node n = Node (mk_ref KNet (net_id n) (ref_path nets_ref) None) (net_name n)
     (if flag (isGround n) then Some ''ground'' else None) []"

definition nets_node :: "circuit \<Rightarrow> tree_node" where
  "nets_node c = Node nets_ref ''Nets'' (Some (num_str (length (nets c)))) (map net_node (nets c))"

definition comp_ref :: "component \<Rightarrow> object_ref" where
  "comp_ref x = mk_ref KComponent (comp_id x) (ref_path components_ref) None"

definition pins_ref :: "component \<Rightarrow> object_ref" where
  "pins_ref x = mk_ref KPins ''pins'' (ref_path (comp_ref x)) None"

definition pin_node :: "circuit \<Rightarrow> component \<Rightarrow> nat \<Rightarrow> pin_connection \<Rightarrow> tree_node" where
  "pin_node c x i p = Node
     (mk_ref KPin (if pinId p = [] then num_str i else pinId p) (ref_path (pins_ref x)) (Some (comp_id x)))
     (if pinId p = [] then ''pin'' @ num_str (i + 1) else pinId p)
     (Some (case map_get net_id net_name (nets c) (netId p) of None \<Rightarrow> netId p | Some m \<Rightarrow> m)) []"

definition pin_nodes :: "circuit \<Rightarrow> component \<Rightarrow> tree_node list" where
  "pin_nodes c x = map (\<lambda>(i, p). pin_node c x i p) (zip [0..<length (pins x)] (pins x))"

definition pins_group :: "circuit \<Rightarrow> component \<Rightarrow> tree_node list" where
  "pins_group c x =
     (if length (pins x) > 0
      then [Node (pins_ref x) ''Pins'' (Some (num_str (length (pins x)))) (pin_nodes c x)] else [])"

definition layout_of :: "layout_geometry option \<Rightarrow> string \<Rightarrow> layout_component option" where
  "layout_of layout i =
     map_get lc_id (\<lambda>l. l) (case layout of None \<Rightarrow> [] | Some l \<Rightarrow> layout_components l) i"

definition footprint_nodes :: "layout_geometry option \<Rightarrow> component \<Rightarrow> tree_node list" where
  "footprint_nodes layout x =
     (case layout_of layout (comp_id x) of None \<Rightarrow> []
      | Some l \<Rightarrow> (case lc_footprint l of None \<Rightarrow> []
         | Some f \<Rightarrow> if f = [] then [] else [Node (mk_ref KFootprint f (ref_path (comp_ref x)) None) f None []]))"

definition pads_of :: "layout_geometry option \<Rightarrow> component \<Rightarrow> layout_pad list" where
  "pads_of layout x =
     filter (\<lambda>p. pad_component p = comp_id x) (case layout of None \<Rightarrow> [] | Some l \<Rightarrow> layout_pads l)"

definition pads_ref :: "component \<Rightarrow> object_ref" where
  "pads_ref x = mk_ref KPads ''pads'' (ref_path (comp_ref x)) None"

fun first_of :: "string option \<Rightarrow> string option \<Rightarrow> string \<Rightarrow> string" where
  "first_of (Some a) _ _ = a"
| "first_of None (Some b) _ = b"
| "first_of None None c = c"

definition pad_node :: "component \<Rightarrow> layout_pad \<Rightarrow> tree_node" where
  "pad_node x p = Node (mk_ref KPad (pad_id p) (ref_path (pads_ref x)) None)
     (first_of (source_pin p) (pad_pin p) (pad_id p))
     (Some (case pad_net p of None \<Rightarrow> ''no net'' | Some n \<Rightarrow> n)) []"

definition pads_group :: "layout_geometry option \<Rightarrow> component \<Rightarrow> tree_node list" where
  "pads_group layout x =
     (let ps = pads_of layout x in
      if length ps > 0
      then [Node (pads_ref x) ''Pads'' (Some (num_str (length ps))) (map (pad_node x) ps)] else [])"

definition off_board :: "layout_geometry option \<Rightarrow> component \<Rightarrow> bool" where
  "off_board layout x \<longleftrightarrow> layout \<noteq> None \<and> layout_of layout (comp_id x) = None"

definition component_node :: "circuit \<Rightarrow> layout_geometry option \<Rightarrow> component \<Rightarrow> tree_node" where
  "component_node c layout x =
     Node (comp_ref x) (designator x)
       (Some (if \<not> is_placeable_part x then ''net marker''
              else if off_board layout x
              then ctype_name (comp_type x) @ '' '' @ [char_of (183 :: nat)] @ '' not on the board''
              else ctype_name (comp_type x)))
       (pins_group c x @ footprint_nodes layout x @ pads_group layout x)"

text \<open>The nodes one pass of the loop adds, in order.\<close>

definition component_claims :: "circuit \<Rightarrow> layout_geometry option \<Rightarrow> component \<Rightarrow> tree_node list" where
  "component_claims c layout x =
     concat (map (\<lambda>g. node_children g @ [g]) (pins_group c x)) @
     footprint_nodes layout x @
     concat (map (\<lambda>g. node_children g @ [g]) (pads_group layout x)) @
     [component_node c layout x]"

definition component_unplaced :: "layout_geometry option \<Rightarrow> component \<Rightarrow> (string \<times> unplaced_reason) list" where
  "component_unplaced layout x =
     concat (map (\<lambda>p. if source_pin p = None
                      then [(designator x @ ''.'' @ (case pad_pin p of None \<Rightarrow> pad_id p | Some n \<Rightarrow> n), NoSourcePin)]
                      else []) (pads_of layout x)) @
     (if off_board layout x then [(designator x, NoLayoutComponent)] else [])"

definition components_node :: "circuit \<Rightarrow> layout_geometry option \<Rightarrow> tree_node" where
  "components_node c layout =
     (let drawn = filter is_drawn_on_sheet (components c);
          parts = length (filter is_placeable_part (components c));
          markers = length drawn - parts;
          counted = (if markers > 0
                     then num_str parts @ '' parts '' @ [char_of (183 :: nat)] @ '' '' @ num_str markers @ '' markers''
                     else num_str parts)
      in Node components_ref ''Components''
           (Some (if layout \<noteq> None then counted @ '' '' @ [char_of (183 :: nat)] @ '' laid out'' else counted))
           (map (component_node c layout) drawn))"

definition root_node :: "circuit \<Rightarrow> layout_geometry option \<Rightarrow> tree_node" where
  "root_node c layout = Node root_ref ''Root'' None [nets_node c, components_node c layout]"

definition claims :: "circuit \<Rightarrow> layout_geometry option \<Rightarrow> tree_node list" where
  "claims c layout =
     Node root_ref ''Root'' None [] # map net_node (nets c) @ [nets_node c] @
     concat (map (component_claims c layout) (filter is_drawn_on_sheet (components c))) @
     [components_node c layout]"

definition finish_root :: "tree_node \<Rightarrow> (string \<times> tree_node) list \<Rightarrow> (string \<times> tree_node) list" where
  "finish_root whole idx =
     map (\<lambda>(k, n). (k, if k = path_key (ref_path root_ref) then whole else n)) idx"

definition build_object_tree :: "circuit \<Rightarrow> layout_geometry option \<Rightarrow> object_tree" where
  "build_object_tree c layout =
     (let (idx, amb) = fold claim (claims c layout) ([], []); whole = root_node c layout
      in \<lparr>tree_root = whole, by_path = finish_root whole idx,
          unplaced = concat (map (component_unplaced layout) (filter is_drawn_on_sheet (components c))) @
            concat (map (\<lambda>l. if lc_id l \<notin> set (map comp_id (components c))
                             then [(lc_designator l, NoCircuitComponent)] else [])
              (case layout of None \<Rightarrow> [] | Some l \<Rightarrow> layout_components l)),
          ambiguous = amb\<rparr>)"

definition node_at :: "object_tree \<Rightarrow> string list \<Rightarrow> tree_node option" where
  "node_at t path = map_of (by_path t) (path_key path)"

section \<open>Addresses are unambiguous\<close>

lemma escape_char_inj_prefix:
  "escape_char c @ r = escape_char d @ t \<Longrightarrow> c = d \<and> r = t"
  by (auto split: if_splits)

lemma escape_char_no_slash: "CHR ''/'' \<notin> set (escape_char c)"
  by auto

lemma escape_segment_Nil [simp]: "escape_segment [] = []"
  by (simp add: escape_segment_def)

lemma escape_segment_Cons: "escape_segment (c # s) = escape_char c @ escape_segment s"
  by (simp add: escape_segment_def)

lemma escape_char_not_Nil: "escape_char c \<noteq> []"
  by simp

lemma escape_segment_inj: "escape_segment s = escape_segment t \<Longrightarrow> s = t"
proof (induction s arbitrary: t)
  case Nil
  then show ?case using escape_char_not_Nil
    by (cases t) (auto simp only: escape_segment_Nil escape_segment_Cons append_is_Nil_conv)
next
  case (Cons c s)
  show ?case
  proof (cases t)
    case Nil
    then show ?thesis using Cons.prems escape_char_not_Nil
      by (simp only: escape_segment_Nil escape_segment_Cons append_is_Nil_conv simp_thms)
  next
    case (Cons d t')
    then have "escape_char c @ escape_segment s = escape_char d @ escape_segment t'"
      using Cons.prems by (simp only: escape_segment_Cons)
    then show ?thesis using escape_char_inj_prefix Cons.IH Cons by blast
  qed
qed

lemma escape_segment_no_slash: "CHR ''/'' \<notin> set (escape_segment s)"
  unfolding escape_segment_def using escape_char_no_slash by (induction s) auto

lemma split_at_slash:
  "CHR ''/'' \<notin> set a \<Longrightarrow> CHR ''/'' \<notin> set b \<Longrightarrow> a @ CHR ''/'' # r = b @ CHR ''/'' # t \<Longrightarrow> a = b \<and> r = t"
proof (induction a arbitrary: b)
  case Nil
  then show ?case by (cases b) auto
next
  case (Cons x a)
  then show ?case by (cases b) auto
qed

lemma no_slash_neq: "CHR ''/'' \<notin> set a \<Longrightarrow> a \<noteq> b @ CHR ''/'' # r"
  by auto

lemma path_key_Cons: "path_key (s # t # ss) = escape_segment s @ CHR ''/'' # path_key (t # ss)"
  by (simp add: path_key_def)

lemma path_key_single: "path_key [s] = escape_segment s"
  by (simp add: path_key_def)

lemma path_key_inj: "path_key xs = path_key ys \<Longrightarrow> xs \<noteq> [] \<Longrightarrow> ys \<noteq> [] \<Longrightarrow> xs = ys"
proof (induction xs arbitrary: ys)
  case (Cons x xs)
  obtain y ys' where ys: "ys = y # ys'" using Cons.prems(3) by (cases ys) auto
  show ?case
  proof (cases xs; cases ys')
    assume "xs = []" "ys' = []"
    then show ?thesis using Cons.prems(1) escape_segment_inj by (auto simp: ys path_key_single)
  next
    fix z zs assume "xs = []" "ys' = z # zs"
    then show ?thesis
      using Cons.prems(1) no_slash_neq [OF escape_segment_no_slash] by (simp add: ys path_key_single path_key_Cons)
  next
    fix z zs assume "xs = z # zs" "ys' = []"
    then show ?thesis
      using Cons.prems(1) no_slash_neq [OF escape_segment_no_slash] by (metis ys path_key_single path_key_Cons)
  next
    fix z zs w ws assume *: "xs = z # zs" "ys' = w # ws"
    then have "escape_segment x @ CHR ''/'' # path_key xs = escape_segment y @ CHR ''/'' # path_key ys'"
      using Cons.prems(1) by (simp add: ys path_key_Cons)
    then have "escape_segment x = escape_segment y \<and> path_key xs = path_key ys'"
      by (intro split_at_slash escape_segment_no_slash)
    then show ?thesis using Cons.IH [of ys'] * escape_segment_inj by (simp add: ys)
  qed
qed simp

text \<open>
  An address is one text without being ambiguous: two different paths never have the same key,
  whatever characters the ids contain.
\<close>

theorem path_key_injective: "inj_on path_key {p. p \<noteq> []}"
  by (rule inj_onI) (use path_key_inj in blast)

section \<open>The index\<close>

abbreviation node_key :: "tree_node \<Rightarrow> string" where
  "node_key n \<equiv> path_key (ref_path (node_ref n))"

text \<open>One claim, and then all of them.\<close>

lemma claim_index:
  "map_of (fst (claim n st)) k =
     (case map_of (fst st) k of Some m \<Rightarrow> Some m | None \<Rightarrow> if k = node_key n then Some n else None)"
  by (cases st) (auto simp: claim_def Let_def map_add_def split: option.splits)

lemma claim_ambiguous:
  "snd (claim n st) = snd st @ (if map_of (fst st) (node_key n) = None then [] else [(node_label n, node_key n)])"
  by (cases st) (auto simp: claim_def Let_def)

lemma claims_index:
  "map_of (fst (fold claim ns st)) k =
     (case map_of (fst st) k of Some m \<Rightarrow> Some m | None \<Rightarrow> find (\<lambda>n. node_key n = k) ns)"
proof (induction ns arbitrary: st)
  case Nil
  then show ?case by (simp split: option.splits)
next
  case (Cons n ns)
  show ?case using Cons.IH [of "claim n st"] by (auto simp: claim_index split: option.splits)
qed

lemma claims_ambiguous_mono: "x \<in> set (snd st) \<Longrightarrow> x \<in> set (snd (fold claim ns st))"
  by (induction ns arbitrary: st) (auto simp: claim_ambiguous)

lemma claims_reported:
  "n \<in> set ns \<Longrightarrow> map_of (fst (fold claim ns st)) (node_key n) = Some n \<or>
   (node_label n, node_key n) \<in> set (snd (fold claim ns st))"
proof (induction ns arbitrary: st)
  case (Cons m ns)
  show ?case
  proof (cases "n \<in> set ns")
    case True
    then show ?thesis using Cons.IH [of "claim m st"] by simp
  next
    case False
    then have nm: "n = m" using Cons.prems by simp
    show ?thesis
    proof (cases "map_of (fst st) (node_key n)")
      case None
      then show ?thesis by (simp add: nm claims_index claim_index)
    next
      case (Some m')
      then have "(node_label n, node_key n) \<in> set (snd (claim n st))" by (simp add: claim_ambiguous)
      then show ?thesis using claims_ambiguous_mono by (simp add: nm)
    qed
  qed
qed simp

lemma claims_clean:
  "distinct (map node_key ns) \<Longrightarrow> \<forall>n \<in> set ns. map_of (fst st) (node_key n) = None \<Longrightarrow>
   snd (fold claim ns st) = snd st"
proof (induction ns arbitrary: st)
  case (Cons n ns)
  have "\<forall>m \<in> set ns. map_of (fst (claim n st)) (node_key m) = None"
    using Cons.prems by (auto simp: claim_index rev_image_eqI)
  then show ?case using Cons.IH [of "claim n st"] Cons.prems by (simp add: claim_ambiguous)
qed simp

fun nodes_below :: "tree_node \<Rightarrow> tree_node list" where
  "nodes_below (Node r l d cs) = Node r l d cs # concat (map nodes_below cs)"

lemma leaves_below: "(\<And>n. n \<in> set ns \<Longrightarrow> node_children n = []) \<Longrightarrow> concat (map nodes_below ns) = ns"
proof (induction ns)
  case (Cons n ns)
  then have "node_children n = []" by simp
  then have "nodes_below n = [n]" by (cases n) simp
  then show ?case using Cons by simp
qed simp

lemma below_component: "set (nodes_below (component_node c l x)) = set (component_claims c l x)"
proof -
  have "concat (map nodes_below (pin_nodes c x)) = pin_nodes c x"
    by (rule leaves_below) (auto simp: pin_nodes_def pin_node_def)
  moreover have "concat (map nodes_below (map (pad_node x) ps)) = map (pad_node x) ps" for ps
    by (rule leaves_below) (auto simp: pad_node_def)
  moreover have "concat (map nodes_below (footprint_nodes l x)) = footprint_nodes l x"
    by (rule leaves_below) (auto simp: footprint_nodes_def split: option.splits if_splits)
  ultimately show ?thesis
    by (auto simp: component_node_def component_claims_def pins_group_def pads_group_def Let_def)
qed

lemma below_root:
  "set (nodes_below (root_node c l)) = insert (root_node c l) (set (tl (claims c l)))"
proof -
  have "concat (map nodes_below (map net_node (nets c))) = map net_node (nets c)"
    by (rule leaves_below) (auto simp: net_node_def)
  then show ?thesis
    by (auto simp: root_node_def claims_def nets_node_def components_node_def Let_def below_component)
qed

lemma node_paths:
  "ref_path (node_ref (net_node n)) = [''root'', ''nets'', net_id n]"
  "ref_path (node_ref (nets_node c)) = [''root'', ''nets'']"
  "ref_path (node_ref (components_node c l)) = [''root'', ''components'']"
  "ref_path (node_ref (component_node c l x)) = [''root'', ''components'', comp_id x]"
  "ref_path (node_ref (pin_node c x i p)) =
     [''root'', ''components'', comp_id x, ''pins'', if pinId p = [] then num_str i else pinId p]"
  "ref_path (node_ref (pad_node x q)) = [''root'', ''components'', comp_id x, ''pads'', pad_id q]"
  "ref_path (pins_ref x) = [''root'', ''components'', comp_id x, ''pins'']"
  "ref_path (pads_ref x) = [''root'', ''components'', comp_id x, ''pads'']"
  "ref_path (mk_ref k f (ref_path (comp_ref x)) v) = [''root'', ''components'', comp_id x, f]"
  by (simp_all add: nets_node_def components_node_def net_node_def pin_node_def pad_node_def
      component_node_def pins_ref_def pads_ref_def comp_ref_def components_ref_def nets_ref_def
      root_ref_def mk_ref_def Let_def)

lemma component_claims_path:
  assumes "n \<in> set (component_claims c l x)"
  shows "\<exists>r. ref_path (node_ref n) = ''root'' # ''components'' # comp_id x # r"
proof -
  consider "n \<in> set (pin_nodes c x)" | "n \<in> set (pins_group c x)" | "n \<in> set (footprint_nodes l x)"
    | "n \<in> set (map (pad_node x) (pads_of l x))" | "n \<in> set (pads_group l x)" | "n = component_node c l x"
    using assms by (auto simp: component_claims_def pins_group_def pads_group_def Let_def split: if_splits)
  then show ?thesis
    by cases (auto simp: pin_nodes_def pins_group_def footprint_nodes_def pads_group_def node_paths Let_def
        split: if_splits option.splits)
qed

lemma claims_below_root:
  assumes "n \<in> set (tl (claims c l))"
  shows "\<exists>i r. ref_path (node_ref n) = ''root'' # i # r"
proof -
  consider m where "n = net_node m" | "n = nets_node c" | "n = components_node c l"
    | x where "n \<in> set (component_claims c l x)"
    using assms by (auto simp: claims_def)
  then show ?thesis by cases (auto simp: node_paths dest: component_claims_path)
qed

lemma root_key_only:
  assumes "n \<in> set (tl (claims c l))"
  shows "node_key n \<noteq> path_key (ref_path root_ref)"
proof
  assume "node_key n = path_key (ref_path root_ref)"
  moreover obtain i r where "ref_path (node_ref n) = ''root'' # i # r"
    using claims_below_root [OF assms] by blast
  ultimately show False
    using path_key_inj [of "''root'' # i # r" "[''root'']"] by (simp add: root_ref_def mk_ref_def)
qed

lemma map_of_finish_root:
  "map_of (finish_root w idx) k =
     (if k = path_key (ref_path root_ref) then map_option (\<lambda>_. w) (map_of idx k) else map_of idx k)"
  by (induction idx) (auto simp: finish_root_def)

lemma node_at_build:
  "node_at (build_object_tree c l) p =
     (if path_key p = path_key (ref_path root_ref) then Some (root_node c l)
      else find (\<lambda>n. node_key n = path_key p) (tl (claims c l)))"
proof -
  have "find (\<lambda>n. node_key n = k) (claims c l) =
      (if path_key (ref_path root_ref) = k then Some (Node root_ref ''Root'' None [])
       else find (\<lambda>n. node_key n = k) (tl (claims c l)))" for k
    by (simp add: claims_def)
  then show ?thesis
    by (simp add: node_at_def build_object_tree_def Let_def case_prod_beta map_of_finish_root claims_index)
qed

text \<open>
  Nothing in the tree loses its address silently. Every node of the built tree is what its own
  path resolves to, or its label and path are in the report of ambiguous addresses; and a path resolves
  only to a node of the tree that has this very path.
\<close>

theorem tree_addresses:
  assumes "t = build_object_tree c l"
  shows "(\<forall>n \<in> set (nodes_below (tree_root t)).
        node_at t (ref_path (node_ref n)) = Some n \<or>
        (node_label n, path_key (ref_path (node_ref n))) \<in> set (ambiguous t)) \<and>
    (\<forall>p n. node_at t p = Some n \<longrightarrow>
        n \<in> set (nodes_below (tree_root t)) \<and> (p \<noteq> [] \<longrightarrow> ref_path (node_ref n) = p))"
proof -
  have root: "tree_root t = root_node c l" and amb: "ambiguous t = snd (fold claim (claims c l) ([], []))"
    using assms by (simp_all add: build_object_tree_def Let_def case_prod_beta)
  have rk: "node_key (root_node c l) = path_key (ref_path root_ref)" by (simp add: root_node_def)
  have "node_at t (ref_path (node_ref n)) = Some n \<or> (node_label n, node_key n) \<in> set (ambiguous t)"
    if n: "n \<in> set (nodes_below (root_node c l))" for n
  proof (cases "n = root_node c l")
    case True
    then show ?thesis using assms rk by (simp add: node_at_build)
  next
    case False
    then have tl: "n \<in> set (tl (claims c l))" using n below_root by auto
    then have "n \<in> set (claims c l)" by (simp add: claims_def)
    from claims_reported [OF this, of "([], [])"] show ?thesis
      using root_key_only [OF tl]
      by (auto simp: amb assms node_at_def build_object_tree_def Let_def case_prod_beta map_of_finish_root)
  qed
  moreover have "n \<in> set (nodes_below (root_node c l)) \<and> (p \<noteq> [] \<longrightarrow> ref_path (node_ref n) = p)"
    if at: "node_at t p = Some n" for p n
  proof (cases "path_key p = path_key (ref_path root_ref)")
    case True
    then have "n = root_node c l" using at assms by (simp add: node_at_build)
    moreover have "p = ref_path root_ref" if "p \<noteq> []"
      using path_key_inj [OF True that] by (simp add: root_ref_def mk_ref_def)
    ultimately show ?thesis by (simp add: below_root) (simp add: root_node_def)
  next
    case False
    then have f: "find (\<lambda>n. node_key n = path_key p) (tl (claims c l)) = Some n"
      using at assms by (simp add: node_at_build)
    then have n: "n \<in> set (tl (claims c l))" "node_key n = path_key p" using find_SomeD by fastforce+
    moreover have "ref_path (node_ref n) = p" if "p \<noteq> []"
      using path_key_inj [OF n(2) _ that] claims_below_root [OF n(1)] by auto
    ultimately show ?thesis by (simp add: below_root)
  qed
  ultimately show ?thesis unfolding root by blast
qed

section \<open>Well-formed designs\<close>

lemma distinct_component_paths:
  assumes "distinct (map pinId (pins x))" "\<forall>p \<in> set (pins x). pinId p \<noteq> []"
  shows "distinct (map (\<lambda>n. ref_path (node_ref n)) (component_claims c None x))"
proof -
  have ids: "map (\<lambda>n. ref_path (node_ref n)) (pin_nodes c x) =
      map (\<lambda>p. [''root'', ''components'', comp_id x, ''pins'', pinId p]) (pins x)"
    using assms(2) by (auto simp: pin_nodes_def node_paths comp_def case_prod_beta in_set_zip
        intro!: nth_equalityI)
  have "distinct (map (\<lambda>p. [''root'', ''components'', comp_id x, ''pins'', pinId p]) (pins x))"
    using assms(1) by (auto simp: distinct_map inj_on_def)
  then have "distinct (map (\<lambda>n. ref_path (node_ref n)) (pin_nodes c x))" by (simp only: ids)
  moreover have "ref_path (node_ref n) = [''root'', ''components'', comp_id x, ''pins'', i] \<Longrightarrow>
      ref_path (node_ref n) \<noteq> [''root'', ''components'', comp_id x]" for n i by simp
  moreover have "\<exists>i. ref_path (node_ref n) = [''root'', ''components'', comp_id x, ''pins'', i]"
    if "n \<in> set (pin_nodes c x)" for n
    using that by (auto simp: pin_nodes_def node_paths)
  ultimately show ?thesis
    by (fastforce simp: component_claims_def pins_group_def footprint_nodes_def pads_group_def pads_of_def
        layout_of_def map_get_def node_paths)
qed

lemma distinct_concat_paths:
  assumes "distinct (map k xs)" "\<And>x. x \<in> set xs \<Longrightarrow> distinct (map f (g x))"
    and "\<And>x n. x \<in> set xs \<Longrightarrow> n \<in> set (g x) \<Longrightarrow> \<exists>r. f n = a # b # k x # r"
  shows "distinct (map f (concat (map g xs)))"
  using assms
proof (induction xs)
  case (Cons x xs)
  have "f ` set (g x) \<inter> f ` (\<Union>y \<in> set xs. set (g y)) = {}"
  proof (rule ccontr)
    assume "f ` set (g x) \<inter> f ` (\<Union>y \<in> set xs. set (g y)) \<noteq> {}"
    then obtain n m y where "n \<in> set (g x)" "y \<in> set xs" "m \<in> set (g y)" "f n = f m" by auto
    then have "k x = k y" using Cons.prems(3) [of x n] Cons.prems(3) [of y m] by auto
    then show False using Cons.prems(1) \<open>y \<in> set xs\<close> by auto
  qed
  then show ?case using Cons by auto
qed simp

lemma distinct_claims:
  assumes wf: "wf_circuit c" and named: "\<forall>x \<in> set (components c). \<forall>p \<in> set (pins x). pinId p \<noteq> []"
  shows "distinct (map node_key (claims c None))"
proof -
  let ?P = "\<lambda>n. ref_path (node_ref n)"
  have comps: "distinct (map ?P (concat (map (component_claims c None) (components c))))"
  proof (rule distinct_concat_paths [where k = comp_id])
    show "distinct (map ?P (component_claims c None x))" if "x \<in> set (components c)" for x
      using that named wf_circuitD(5) [OF wf that] by (intro distinct_component_paths) (auto simp: wf_component_def)
    show "\<exists>r. ?P n = ''root'' # ''components'' # comp_id x # r" if "n \<in> set (component_claims c None x)" for x n
      using component_claims_path [OF that] .
  qed (rule wf_circuitD(1) [OF wf])
  have nets: "distinct (map ?P (map net_node (nets c)))"
    using wf_circuitD(3) [OF wf] by (auto simp: distinct_map inj_on_def node_paths)
  have below: "\<exists>i r. ?P n = ''root'' # ''components'' # i # r"
    if "n \<in> set (concat (map (component_claims c None) (components c)))" for n
    using that by (auto dest: component_claims_path)
  have drawn: "filter is_drawn_on_sheet (components c) = components c" by (simp add: is_drawn_on_sheet_def)
  have "distinct (map ?P (claims c None))"
    using comps nets below unfolding claims_def drawn
    by (fastforce simp: node_paths root_ref_def mk_ref_def)
  moreover have "inj_on path_key (?P ` set (claims c None))"
  proof (rule inj_onI)
    have "?P n \<noteq> []" if n: "n \<in> set (claims c None)" for n
    proof -
      have "n = Node root_ref ''Root'' None [] \<or> n \<in> set (tl (claims c None))"
        using n by (simp add: claims_def)
      then show ?thesis using claims_below_root [of n c None] by (auto simp: root_ref_def mk_ref_def)
    qed
    then show "p = q" if "p \<in> ?P ` set (claims c None)" "q \<in> ?P ` set (claims c None)" "path_key p = path_key q" for p q
      using that path_key_inj by blast
  qed
  ultimately have "distinct (map path_key (map ?P (claims c None)))"
    by (simp add: distinct_map comp_inj_on)
  then show ?thesis by (simp add: comp_def)
qed

lemma wf_tree_clean:
  assumes "wf_circuit c" and "\<forall>x \<in> set (components c). \<forall>p \<in> set (pins x). pinId p \<noteq> []"
  shows "ambiguous (build_object_tree c None) = []"
  using claims_clean [OF distinct_claims [OF assms], of "([], [])"]
  by (simp add: build_object_tree_def Let_def case_prod_beta)

text \<open>
  In a well-formed design whose pins are named every object can be selected: no address is
  ambiguous, and each node of the tree is what its path resolves to.
\<close>

theorem wf_tree_unambiguous:
  assumes "wf_circuit c" and "\<forall>x \<in> set (components c). \<forall>p \<in> set (pins x). pinId p \<noteq> []"
  shows "ambiguous (build_object_tree c None) = [] \<and> unplaced (build_object_tree c None) = []"
  using wf_tree_clean [OF assms]
  by (simp add: build_object_tree_def Let_def case_prod_beta component_unplaced_def pads_of_def off_board_def
      concat_eq_Nil_conv)

lemma demo_pins_named: "\<forall>x \<in> set (components demo). \<forall>p \<in> set (pins x). pinId p \<noteq> []"
  by code_simp

theorem wf_tree_unambiguous_witness: "unplaced (build_object_tree demo None) = []"
  using wf_tree_unambiguous [OF demo_wf demo_pins_named] by blast

theorem tree_addresses_witness:
  "node_at (build_object_tree demo None) [''root'', ''nets'', ''gnd''] = Some (net_node (hd (nets demo)))"
proof -
  have "hd (nets demo) \<in> set (nets demo)" and id: "net_id (hd (nets demo)) = ''gnd''" by code_simp+
  then have "net_node (hd (nets demo)) \<in> set (nodes_below (tree_root (build_object_tree demo None)))"
    by (simp add: build_object_tree_def Let_def case_prod_beta below_root claims_def)
  from tree_addresses [OF refl, THEN conjunct1, rule_format, OF this] show ?thesis
    using wf_tree_clean [OF demo_wf demo_pins_named] by (simp add: node_paths id)
qed

end
