(* ===== verification/Library.thy ===== *)
theory Library
  imports Object_Tree
begin

text \<open>
  \<open>editor-core/src/library/generic.ts\<close>: the parts a user can place without a catalogue, and the search of
  the palette. A part carries no designator; the kernel finds one when it is placed.
\<close>

datatype part_group = Passive | SourceGroup | Semiconductor

record generic_part =
  gp_id :: string
  gp_label :: string
  gp_keywords :: "string list"
  gp_group :: part_group
  gp_part :: new_part

definition blank_part :: "ctype \<Rightarrow> string option \<Rightarrow> string option \<Rightarrow> new_part" where
  "blank_part t v m =
     \<lparr>np_type = t, np_designator = None, np_value = v, np_model = m, np_mpn = None, np_manufacturer = None,
      np_footprint = None, np_tolerance = None, np_toleranceSource = None, np_sourcing = None, np_pins = None\<rparr>"

definition generic_def :: "string \<Rightarrow> string \<Rightarrow> part_group \<Rightarrow> new_part \<Rightarrow> string list \<Rightarrow> generic_part" where
  "generic_def i l g p ks =
     \<lparr>gp_id = ''generic:'' @ i, gp_label = l, gp_keywords = ks, gp_group = g, gp_part = p\<rparr>"

definition generic_parts :: "generic_part list" where
  "generic_parts =
    [generic_def ''resistor'' ''Resistor'' Passive (blank_part Resistor (Some ''10k'') None) [''r'', ''res''],
     generic_def ''capacitor'' ''Capacitor'' Passive (blank_part Capacitor (Some ''100n'') None) [''c'', ''cap''],
     generic_def ''inductor'' ''Inductor'' Passive (blank_part Inductor (Some ''10u'') None) [''l'', ''coil''],
     generic_def ''voltage-source'' ''Voltage source'' SourceGroup (blank_part VoltageSource (Some ''DC 5'') None) [''v'', ''battery'', ''supply''],
     generic_def ''current-source'' ''Current source'' SourceGroup (blank_part CurrentSource (Some ''DC 1m'') None) [''i''],
     generic_def ''diode'' ''Diode'' Semiconductor (blank_part Diode None (Some ''DDEFAULT'')) [''d'', ''rectifier''],
     generic_def ''led-red'' ''LED (red)'' Semiconductor (blank_part Diode None (Some ''LEDRED'')) [''d'', ''led'', ''light''],
     generic_def ''zener'' ''Zener diode'' Semiconductor (blank_part Zener (Some ''5.1'') None) [''d'', ''zener'', ''regulator''],
     generic_def ''npn'' ''NPN transistor'' Semiconductor (blank_part Bjt None (Some ''QGENNPN'')) [''q'', ''bjt'', ''transistor''],
     generic_def ''pnp'' ''PNP transistor'' Semiconductor (blank_part Bjt None (Some ''QGENPNP'')) [''q'', ''bjt'', ''transistor''],
     generic_def ''nmos'' ''N-channel MOSFET'' Semiconductor (blank_part Mosfet None (Some ''MGENNMOS'')) [''q'', ''m'', ''fet'', ''mosfet''],
     generic_def ''pmos'' ''P-channel MOSFET'' Semiconductor (blank_part Mosfet None (Some ''MGENPMOS'')) [''q'', ''m'', ''fet'', ''mosfet'']]"

definition generic_part_by_id :: "string \<Rightarrow> generic_part option" where
  "generic_part_by_id i = find (\<lambda>p. gp_id p = i) generic_parts"

definition default_part_for :: "ctype \<Rightarrow> generic_part option" where
  "default_part_for t = find (\<lambda>p. np_type (gp_part p) = t) generic_parts"

fun starts_with :: "string \<Rightarrow> string \<Rightarrow> bool" where
  "starts_with s [] = True"
| "starts_with [] (_ # _) = False"
| "starts_with (c # s) (d # q) = (c = d \<and> starts_with s q)"

fun includes_text :: "string \<Rightarrow> string \<Rightarrow> bool" where
  "includes_text [] q = (q = [])"
| "includes_text (c # s) q = (starts_with (c # s) q \<or> includes_text s q)"

definition search_generic_parts :: "string \<Rightarrow> generic_part list" where
  "search_generic_parts query =
     (let q = js_lower (js_trim query) in
      if q = [] then generic_parts
      else filter (\<lambda>p. includes_text (js_lower (gp_label p)) q \<or>
             (\<exists>k \<in> set (gp_keywords p). starts_with k q)) generic_parts)"

definition is_placeable_type :: "ctype \<Rightarrow> bool" where
  "is_placeable_type t \<longleftrightarrow> length (component_pins t) > 0"

lemma generic_parts_placeable:
  assumes "p \<in> set generic_parts"
  shows "np_designator (gp_part p) = None" "np_pins (gp_part p) = None"
    "\<not> is_variable_arity (np_type (gp_part p))" "spice_prefix (np_type (gp_part p)) \<noteq> []"
    "np_value (gp_part p) \<noteq> None \<or> np_model (gp_part p) \<noteq> None"
    "is_placeable_type (np_type (gp_part p))"
  using assms
  by (auto simp: generic_parts_def generic_def_def blank_part_def is_variable_arity_def is_placeable_type_def)

text \<open>
  Every part of the library can be placed on every document, however its ids and designators
  are taken, and arrives with a value or a model.
\<close>

theorem generic_parts_place:
  assumes "p \<in> set generic_parts"
  shows "(\<exists>c' n. add_component c (gp_part p) = Changed c' n None None) \<and>
    (np_value (gp_part p) \<noteq> None \<or> np_model (gp_part p) \<noteq> None)"
  using palette_accepts generic_parts_placeable [OF assms] by blast

theorem generic_parts_place_witness:
  "changed (add_component demo (gp_part (hd generic_parts)))"
proof -
  have "hd generic_parts \<in> set generic_parts" by (simp add: generic_parts_def)
  from generic_parts_place [OF this, of demo] show ?thesis by auto
qed

lemma starts_with_iff: "starts_with s q \<longleftrightarrow> (\<exists>t. s = q @ t)"
  by (induction s q rule: starts_with.induct) auto

lemma includes_text_iff: "includes_text s q \<longleftrightarrow> (\<exists>a t. s = a @ q @ t)"
proof (induction s)
  case (Cons c s)
  have "(\<exists>a t. c # s = a @ q @ t) \<longleftrightarrow> (\<exists>t. c # s = q @ t) \<or> (\<exists>a t. s = a @ q @ t)"
    by (auto simp: Cons_eq_append_conv)
  then show ?case using Cons by (simp only: includes_text.simps starts_with_iff)
qed auto

text \<open>
  The palette search finds exactly the parts the query names, in palette order: those whose label
  contains the trimmed query in any case, or one of whose keywords begins with it.
\<close>

theorem search_finds:
  "search_generic_parts query = filter (\<lambda>p. js_trim query = [] \<or>
     (\<exists>a t. js_lower (gp_label p) = a @ js_lower (js_trim query) @ t) \<or>
     (\<exists>k \<in> set (gp_keywords p). \<exists>t. k = js_lower (js_trim query) @ t)) generic_parts"
  by (simp add: search_generic_parts_def Let_def includes_text_iff starts_with_iff)

end
