(* ===== verification/Erc.thy ===== *)
theory Erc
  imports Library
begin

text \<open>
  The electrical rule check of \<open>eda-core/src/erc/checker.ts\<close> with its codes (\<open>codes.ts\<close>,
  \<open>types/erc.ts\<close>). Each check is the function of its name. A finding carries the values its text is
  made of in place of the text, one constructor of \<open>detail\<close> per template.

  Three checks read numbers out of value texts with the parsers of \<open>models/library.ts\<close>,
  \<open>netlist/digital.ts\<close> and \<open>utils\<close>, which are not modelled here: \<open>checkComponentValues\<close>, the
  logic levels at the end of \<open>checkDigitalConnectivity\<close> and the parallel sources at the end of
  \<open>checkVoltageSourceShorts\<close>. Their findings, and the names \<open>resolveGenericModels\<close> supplies, are the
  fields of \<open>readings\<close>.
\<close>

section \<open>Codes, severities, findings\<close>

datatype erc_code =
    NoGround | MultipleGrounds | FloatingNode | FloatingInput | VoltageSourceShort
  | ParallelVoltageSources | MissingValue | InvalidValue | PinCountMismatch | MissingModel
  | ModelRequired | UnresolvedModel | NonStandardValue | DuplicateDesignatorCode | WrongValueUnit
  | UnconnectedNet | NetHasSinglePin | IsolatedSubcircuit | DigitalPinShape | FloatingDigitalInput
  | DigitalBusContention | MixedDriverConflict | MixedLogicLevels | EmptyCircuit | NoActiveComponents

datatype severity = Error | Warning | Info

fun erc_severity :: "erc_code \<Rightarrow> severity" where
  "erc_severity NoGround = Error"
| "erc_severity MultipleGrounds = Warning"
| "erc_severity FloatingNode = Warning"
| "erc_severity FloatingInput = Warning"
| "erc_severity VoltageSourceShort = Error"
| "erc_severity ParallelVoltageSources = Error"
| "erc_severity MissingValue = Error"
| "erc_severity InvalidValue = Error"
| "erc_severity PinCountMismatch = Error"
| "erc_severity MissingModel = Warning"
| "erc_severity ModelRequired = Error"
| "erc_severity UnresolvedModel = Error"
| "erc_severity NonStandardValue = Info"
| "erc_severity DuplicateDesignatorCode = Error"
| "erc_severity WrongValueUnit = Warning"
| "erc_severity UnconnectedNet = Info"
| "erc_severity NetHasSinglePin = Warning"
| "erc_severity IsolatedSubcircuit = Error"
| "erc_severity DigitalPinShape = Error"
| "erc_severity FloatingDigitalInput = Error"
| "erc_severity DigitalBusContention = Error"
| "erc_severity MixedDriverConflict = Error"
| "erc_severity MixedLogicLevels = Warning"
| "erc_severity EmptyCircuit = Error"
| "erc_severity NoActiveComponents = Warning"

datatype subject = OfComponent string | OfNet string

datatype gate_fault = StrayPins "string list" | DuplicateInputs | NeedsPins bool

datatype detail =
    NoDetail
  | OnNets "string list"
  | NamedNet string
  | OnlyConnectedTo string "string list"
  | NoDcPath string
  | PinCount string nat nat
  | GateShape string ctype gate_fault nat nat nat
  | MissingPin string ctype string
  | DuplicatePins string ctype "string list"
  | UnexpectedPins string ctype "string list"
  | DrivenBy string nat nat
  | SharedDesignator nat string
  | UndefinedModel string string
  | SameNode string
  | FloatsFree "string list"
  | OtherDetail string

record erc_issue =
  issue_code :: erc_code
  issue_severity :: severity
  related :: "subject list"
  issue_detail :: detail

record erc_result =
  passed :: bool
  issues :: "erc_issue list"
  error_count :: nat
  warning_count :: nat
  info_count :: nat

definition create_issue :: "erc_code \<Rightarrow> subject list \<Rightarrow> detail \<Rightarrow> erc_issue" where
  "create_issue k rel d =
     \<lparr>issue_code = k, issue_severity = erc_severity k, related = rel, issue_detail = d\<rparr>"

record readings =
  value_issues :: "circuit \<Rightarrow> erc_issue list"
  level_issues :: "circuit \<Rightarrow> string list \<Rightarrow> erc_issue list"
  parallel_issues :: "circuit \<Rightarrow> erc_issue list"
  generic_models :: "circuit \<Rightarrow> string list"

section \<open>The checks of the whole circuit\<close>

fun expected_pin_count :: "ctype \<Rightarrow> nat option" where
  "expected_pin_count Resistor = Some 2"
| "expected_pin_count Capacitor = Some 2"
| "expected_pin_count Inductor = Some 2"
| "expected_pin_count Transformer = Some 4"
| "expected_pin_count Tline = Some 4"
| "expected_pin_count VoltageSource = Some 2"
| "expected_pin_count CurrentSource = Some 2"
| "expected_pin_count Vcvs = Some 4"
| "expected_pin_count Vccs = Some 4"
| "expected_pin_count Bsource = Some 2"
| "expected_pin_count Switch = Some 4"
| "expected_pin_count Diode = Some 2"
| "expected_pin_count Zener = Some 2"
| "expected_pin_count Bjt = Some 3"
| "expected_pin_count Mosfet = Some 4"
| "expected_pin_count Jfet = Some 3"
| "expected_pin_count Ground = Some 1"
| "expected_pin_count _ = None"

definition check_empty_circuit :: "circuit \<Rightarrow> erc_issue list" where
  "check_empty_circuit c =
     (if length (filter (\<lambda>x. comp_type x \<noteq> Ground) (components c)) = 0
      then [create_issue EmptyCircuit [] NoDetail] else [])"

definition first_pin_net :: "component \<Rightarrow> string option" where
  "first_pin_net x =
     (case pins x of [] \<Rightarrow> None | p # _ \<Rightarrow> if netId p = [] then None else Some (netId p))"

definition check_ground :: "circuit \<Rightarrow> erc_issue list" where
  "check_ground c =
     (let gs = filter (\<lambda>x. comp_type x = Ground) (components c);
          ground_nets = filter (\<lambda>n. flag (isGround n)) (nets c);
          has_zero = (\<exists>n \<in> set (nets c). net_id n = ''0'' \<or> net_name n = ''0'');
          has_ground = (length gs > 0 \<or> length ground_nets > 0 \<or> has_zero);
          ids = uniq (List.map_filter first_pin_net gs)
      in (if has_ground then [] else [create_issue NoGround [] NoDetail]) @
         (if length gs > 1 \<and> length ids > 1
          then [create_issue MultipleGrounds (map (\<lambda>x. OfComponent (comp_id x)) gs) (OnNets ids)] else []))"

definition check_active_sources :: "circuit \<Rightarrow> erc_issue list" where
  "check_active_sources c =
     (if \<not> (\<exists>x \<in> set (components c). comp_type x = VoltageSource \<or> comp_type x = CurrentSource) \<and>
         length (components c) > 0
      then [create_issue NoActiveComponents [] NoDetail] else [])"

section \<open>Nodes\<close>

text \<open>\<open>a || b\<close> on texts.\<close>

definition text_or :: "string \<Rightarrow> string \<Rightarrow> string" where
  "text_or a b = (if a = [] then b else a)"

definition part_label :: "component \<Rightarrow> string" where
  "part_label x = text_or (designator x) (comp_id x)"

definition net_label :: "net \<Rightarrow> string" where
  "net_label n = text_or (net_name n) (net_id n)"

definition is_ground_net :: "net \<Rightarrow> bool" where
  "is_ground_net n \<longleftrightarrow> flag (isGround n) \<or> net_id n = ''0'' \<or> net_name n = ''0''"

text \<open>The three maps of \<open>checkFloatingNodes\<close>: the pins on a net with their parts, in document order.\<close>

definition pins_at :: "circuit \<Rightarrow> string \<Rightarrow> (component \<times> pin_connection) list" where
  "pins_at c i =
     concat (map (\<lambda>x. map (Pair x) (filter (\<lambda>p. netId p \<noteq> [] \<and> netId p = i) (pins x))) (components c))"

definition floating_node_issues :: "circuit \<Rightarrow> net \<Rightarrow> erc_issue list" where
  "floating_node_issues c n =
     (let here = pins_at c (net_id n); count = length here; ids = map (\<lambda>(x, p). comp_id x) here in
      if is_ground_net n then []
      else if count = 0 then [create_issue UnconnectedNet [OfNet (net_id n)] (NamedNet (net_label n))]
      else if count = 1 then
        (if digital_pin_role (comp_type (fst (hd here))) (pinId (snd (hd here))) = Some Source then []
         else [create_issue NetHasSinglePin (OfNet (net_id n) # map OfComponent ids)
                 (OnlyConnectedTo (net_label n) ids)])
      else if length here > 0 \<and>
         (\<forall>(x, p) \<in> set here. comp_type x = Capacitor \<or> comp_type x = CurrentSource)
      then [create_issue FloatingNode (OfNet (net_id n) # map OfComponent ids) (NoDcPath (net_label n))]
      else [])"

definition check_floating_nodes :: "circuit \<Rightarrow> erc_issue list" where
  "check_floating_nodes c = concat (map (floating_node_issues c) (nets c))"

definition check_net_connections :: "circuit \<Rightarrow> erc_issue list" where
  "check_net_connections c =
     (let referenced = filter (\<lambda>i. i \<noteq> []) (concat (map (\<lambda>x. map netId (pins x)) (components c))) in
      concat (map (\<lambda>n. if net_id n \<notin> set referenced \<and> \<not> flag (isGround n) \<and> net_id n \<noteq> ''0''
                       then [create_issue UnconnectedNet [OfNet (net_id n)] (NamedNet (net_label n))]
                       else []) (nets c)))"

section \<open>Parts\<close>

definition check_pin_counts :: "circuit \<Rightarrow> erc_issue list" where
  "check_pin_counts c =
     concat (map (\<lambda>x. case expected_pin_count (comp_type x) of
         None \<Rightarrow> []
       | Some k \<Rightarrow> if length (pins x) \<noteq> k
           then [create_issue PinCountMismatch [OfComponent (comp_id x)] (PinCount (part_label x) k (length (pins x)))]
           else []) (components c))"

text \<open>\<open>byKey\<close>: the ids per trimmed designator in any case, in the order the keys come up.\<close>

definition designator_key :: "component \<Rightarrow> string" where
  "designator_key x = js_lower (js_trim (designator x))"

definition check_duplicate_designators :: "circuit \<Rightarrow> erc_issue list" where
  "check_duplicate_designators c =
     (let named = filter (\<lambda>x. js_trim (designator x) \<noteq> []) (components c) in
      concat (map (\<lambda>k. let ids = map comp_id (filter (\<lambda>x. designator_key x = k) named) in
          if length ids > 1
          then [create_issue DuplicateDesignatorCode (map OfComponent ids) (SharedDesignator (length ids) k)]
          else []) (uniq (map designator_key named))))"

definition check_model_resolution :: "readings \<Rightarrow> circuit \<Rightarrow> erc_issue list" where
  "check_model_resolution rd c =
     (let defined = ''DDEFAULT'' # map model_name (case models c of None \<Rightarrow> [] | Some ms \<Rightarrow> ms) @ generic_models rd c in
      concat (map (\<lambda>x. case comp_model x of
          None \<Rightarrow> []
        | Some m \<Rightarrow> if m \<noteq> [] \<and> m \<notin> set defined
            then [create_issue UnresolvedModel [OfComponent (comp_id x)] (UndefinedModel (part_label x) m)]
            else []) (components c)))"

section \<open>Voltage sources\<close>

definition collect_ground_net_ids :: "circuit \<Rightarrow> string list" where
  "collect_ground_net_ids c =
     ''0'' # map net_id (filter is_ground_net (nets c)) @
       List.map_filter first_pin_net (filter (\<lambda>x. comp_type x = Ground) (components c))"

text \<open>\<open>/^\s*v\s*=/i\<close>\<close>

definition forces_voltage :: "string \<Rightarrow> bool" where
  "forces_voltage s =
     (case dropWhile js_space s of [] \<Rightarrow> False
      | v # r \<Rightarrow> (v = CHR ''v'' \<or> v = CHR ''V'') \<and>
          (case dropWhile js_space r of [] \<Rightarrow> False | e # _ \<Rightarrow> e = CHR ''=''))"

definition is_voltage_source :: "component \<Rightarrow> bool" where
  "is_voltage_source x \<longleftrightarrow>
     comp_type x = VoltageSource \<or> comp_type x = Vcvs \<or>
     (comp_type x = Bsource \<and> (case comp_value x of None \<Rightarrow> False | Some v \<Rightarrow> forces_voltage v))"

definition canon_net :: "circuit \<Rightarrow> string option \<Rightarrow> string option" where
  "canon_net c n =
     (case n of None \<Rightarrow> None
      | Some i \<Rightarrow> Some (if i \<in> set (collect_ground_net_ids c) then ''0'' else i))"

definition terminal_net :: "circuit \<Rightarrow> component \<Rightarrow> string \<Rightarrow> string option" where
  "terminal_net c x p = canon_net c (map_option netId (find (\<lambda>q. pinId q = p) (pins x)))"

definition check_voltage_source_shorts :: "readings \<Rightarrow> circuit \<Rightarrow> erc_issue list" where
  "check_voltage_source_shorts rd c =
     concat (map (\<lambda>x. case (terminal_net c x ''+'', terminal_net c x ''-'') of
         (Some p, Some n) \<Rightarrow>
           if p \<noteq> [] \<and> n \<noteq> [] \<and> p = n
           then [create_issue VoltageSourceShort [OfComponent (comp_id x)] (SameNode (part_label x))] else []
       | _ \<Rightarrow> []) (filter is_voltage_source (components c))) @
     parallel_issues rd c"

section \<open>Connection to ground\<close>

text \<open>
  \<open>link\<close> over the nets of each part: the pairs in the order the two loops give them. The set \<open>adj.get(x)\<close>
  is then \<open>adjacent\<close>, in insertion order.
\<close>

fun all_pairs :: "'a list \<Rightarrow> ('a \<times> 'a) list" where
  "all_pairs [] = []"
| "all_pairs (x # xs) = map (Pair x) xs @ all_pairs xs"

definition part_nets :: "component \<Rightarrow> string list" where
  "part_nets x = filter (\<lambda>i. i \<noteq> []) (map netId (pins x))"

definition links :: "circuit \<Rightarrow> (string \<times> string) list" where
  "links c = filter (\<lambda>(x, y). x \<noteq> y) (concat (map (\<lambda>x. all_pairs (part_nets x)) (components c)))"

definition adjacent :: "(string \<times> string) list \<Rightarrow> string \<Rightarrow> string list" where
  "adjacent ls cur = uniq (concat (map (\<lambda>(x, y). if x = cur then [y] else if y = cur then [x] else []) ls))"

text \<open>The flood fill: the last net of the stack is taken, its unseen neighbours are marked and pushed.\<close>

definition linked_nets :: "(string \<times> string) list \<Rightarrow> string set" where
  "linked_nets ls = fst ` set ls \<union> snd ` set ls"

lemma adjacent_linked: "set (adjacent ls cur) \<subseteq> linked_nets ls"
  by (force simp: adjacent_def linked_nets_def split: if_splits)

function flood :: "(string \<times> string) list \<Rightarrow> string list \<Rightarrow> string list \<Rightarrow> string list" where
  "flood ls reachable stack =
     (if stack = [] then reachable
      else (let new = filter (\<lambda>nb. nb \<notin> set reachable) (adjacent ls (last stack))
            in flood ls (reachable @ new) (butlast stack @ new)))"
  by pat_completeness auto
termination
proof (relation "measures [\<lambda>(ls, reachable, _). card (linked_nets ls - set reachable), \<lambda>(_, _, stack). length stack]")
  fix ls :: "(string \<times> string) list" and reachable stack new
  assume ne: "stack \<noteq> []" and new: "new = filter (\<lambda>nb. nb \<notin> set reachable) (adjacent ls (last stack))"
  have fin: "finite (linked_nets ls - set reachable)" by (simp add: linked_nets_def)
  show "((ls, reachable @ new, butlast stack @ new), ls, reachable, stack) \<in>
    measures [\<lambda>(ls, reachable, _). card (linked_nets ls - set reachable), \<lambda>(_, _, stack). length stack]"
  proof (cases "new = []")
    case True
    then show ?thesis using ne by simp
  next
    case False
    then obtain n where "n \<in> set new" by (cases new) auto
    then have "n \<in> linked_nets ls - set reachable" using new adjacent_linked by auto
    then have "linked_nets ls - set (reachable @ new) \<subset> linked_nets ls - set reachable"
      using \<open>n \<in> set new\<close> by auto
    then show ?thesis using fin by (simp add: psubset_card_mono)
  qed
qed simp

declare flood.simps [simp del]

definition ground_anchors :: "circuit \<Rightarrow> string list" where
  "ground_anchors c = uniq (map net_id (filter is_ground_net (nets c)) @
     List.map_filter first_pin_net (filter (\<lambda>x. comp_type x = Ground) (components c)))"

definition analog_pin_count :: "circuit \<Rightarrow> string \<Rightarrow> nat" where
  "analog_pin_count c i =
     length (filter (\<lambda>p. netId p \<noteq> [] \<and> netId p = i)
       (concat (map pins (filter (\<lambda>x. \<not> (is_digital (comp_type x) \<or> comp_type x = Ground)) (components c)))))"

definition check_ground_reachability :: "circuit \<Rightarrow> erc_issue list" where
  "check_ground_reachability c =
     (let anchors = ground_anchors c in
      if length anchors = 0 then []
      else (let reachable = flood (links c) anchors anchors;
                islands = filter (\<lambda>n. net_id n \<notin> set reachable \<and> 2 \<le> analog_pin_count c (net_id n)) (nets c)
            in if length islands = 0 then []
               else (let ids = map net_id islands;
                         parts = filter (\<lambda>x. \<exists>p \<in> set (pins x). netId p \<noteq> [] \<and> netId p \<in> set ids) (components c)
                     in [create_issue IsolatedSubcircuit
                           (map OfNet ids @ map OfComponent (uniq (map comp_id parts)))
                           (FloatsFree (map net_label islands))])))"

section \<open>The digital domain\<close>

text \<open>\<open>/^in\d+$/i\<close>\<close>

definition is_gate_input :: "string \<Rightarrow> bool" where
  "is_gate_input s \<longleftrightarrow>
     (case s of
        i # n # d # ds \<Rightarrow> (i = CHR ''i'' \<or> i = CHR ''I'') \<and> (n = CHR ''n'' \<or> n = CHR ''N'') \<and>
          list_all is_digit (d # ds)
      | _ \<Rightarrow> False)"

fun repeated :: "'a list \<Rightarrow> 'a list \<Rightarrow> 'a list" where
  "repeated seen [] = []"
| "repeated seen (x # xs) = (if x \<in> set seen then x # repeated seen xs else repeated (x # seen) xs)"

definition gate_shape_issues :: "component \<Rightarrow> erc_issue list" where
  "gate_shape_issues x =
     (let input_pins = map (\<lambda>p. js_lower (pinId p)) (filter (\<lambda>p. is_gate_input (pinId p)) (pins x));
          inputs = length input_pins;
          distinct_inputs = length (uniq input_pins);
          outputs = length (filter (\<lambda>p. pinId p = ''out'') (pins x));
          stray = map pinId (filter (\<lambda>p. pinId p \<noteq> ''out'' \<and> \<not> is_gate_input (pinId p)) (pins x));
          ok_inputs = (if is_single_input_gate (comp_type x) then inputs = 1 else 2 \<le> inputs)
      in if outputs \<noteq> 1 \<or> \<not> ok_inputs \<or> distinct_inputs \<noteq> inputs \<or> length stray > 0
         then [create_issue DigitalPinShape [OfComponent (comp_id x)]
                 (GateShape (part_label x) (comp_type x)
                    (if length stray > 0 then StrayPins (uniq stray)
                     else if distinct_inputs \<noteq> inputs then DuplicateInputs
                     else NeedsPins (is_single_input_gate (comp_type x)))
                    inputs distinct_inputs outputs)]
         else [])"

definition fixed_shape_issues :: "component \<Rightarrow> erc_issue list" where
  "fixed_shape_issues x =
     (let canonical = component_pins (comp_type x);
          ids = map (\<lambda>p. js_lower (pinId p)) (pins x);
          dups = uniq (repeated [] ids);
          strays = uniq (filter (\<lambda>i. js_lower i \<notin> set canonical) (map pinId (pins x)));
          part = [OfComponent (comp_id x)]
      in concat (map (\<lambda>req. if \<not> (\<exists>p \<in> set (pins x). pinId p = req)
                           then [create_issue DigitalPinShape part (MissingPin (part_label x) (comp_type x) req)]
                           else [])
                  (filter (\<lambda>p. p \<noteq> ''set'' \<and> p \<noteq> ''rst'') canonical)) @
         (if length dups > 0
          then [create_issue DigitalPinShape part (DuplicatePins (part_label x) (comp_type x) dups)] else []) @
         (if length strays > 0
          then [create_issue DigitalPinShape part (UnexpectedPins (part_label x) (comp_type x) strays)] else []))"

definition digital_shape_issues :: "component \<Rightarrow> erc_issue list" where
  "digital_shape_issues x =
     (if is_logic_gate (comp_type x) then gate_shape_issues x
      else if is_sequential (comp_type x) \<or> comp_type x = Tristate then fixed_shape_issues x
      else [])"

record tally =
  t_src :: nat
  t_sink :: nat
  t_analog :: nat
  t_analog_src :: nat
  t_tri_src :: nat

definition active_analog :: "ctype \<Rightarrow> bool" where
  "active_analog t \<longleftrightarrow> t \<in> set [VoltageSource, CurrentSource, Vcvs, Vccs, Bsource]"

definition empty_tally :: tally where
  "empty_tally = \<lparr>t_src = 0, t_sink = 0, t_analog = 0, t_analog_src = 0, t_tri_src = 0\<rparr>"

definition count_pin :: "component \<Rightarrow> pin_connection \<Rightarrow> tally \<Rightarrow> tally" where
  "count_pin x p t =
     (if is_digital (comp_type x)
      then (if digital_pin_role (comp_type x) (pinId p) = Some Source
            then t\<lparr>t_src := t_src t + 1, t_tri_src := t_tri_src t + (if comp_type x = Tristate then 1 else 0)\<rparr>
            else t\<lparr>t_sink := t_sink t + 1\<rparr>)
      else (let sense_only = ((comp_type x = Vcvs \<or> comp_type x = Vccs) \<and> (pinId p = ''c+'' \<or> pinId p = ''c-''))
            in t\<lparr>t_analog := t_analog t + 1,
                 t_analog_src := t_analog_src t + (if active_analog (comp_type x) \<and> \<not> sense_only then 1 else 0)\<rparr>))"

text \<open>\<open>tally\<close>: the pins of the parts that count, net by net in the order the nets come up.\<close>

definition tallied_pins :: "circuit \<Rightarrow> (component \<times> pin_connection) list" where
  "tallied_pins c =
     concat (map (\<lambda>x. map (Pair x) (pins x))
       (filter (\<lambda>x. \<not> (comp_type x = Ground \<or> comp_type x = Generic)) (components c)))"

definition tally_nets :: "circuit \<Rightarrow> string list" where
  "tally_nets c = uniq (map (\<lambda>(x, p). netId p) (tallied_pins c))"

definition tally_of :: "circuit \<Rightarrow> string \<Rightarrow> tally" where
  "tally_of c i =
     fold (\<lambda>(x, p). count_pin x p) (filter (\<lambda>(x, p). netId p = i) (tallied_pins c)) empty_tally"

definition driver_issues :: "circuit \<Rightarrow> string \<Rightarrow> erc_issue list" where
  "driver_issues c i =
     (let x = tally_of c i;
          n = find (\<lambda>n. net_id n = i) (nets c);
          label = (case n of None \<Rightarrow> i | Some n \<Rightarrow> text_or (net_name n) i)
      in if t_src x + t_sink x = 0 then []
         else
           (if 2 \<le> t_src x \<and> t_tri_src x < t_src x
            then [create_issue DigitalBusContention [OfNet i] (DrivenBy label (t_src x) (t_src x - t_tri_src x))]
            else []) @
           (if 1 \<le> t_src x \<and> 1 \<le> t_analog_src x
            then [create_issue MixedDriverConflict [OfNet i] (NamedNet label)] else []) @
           (if 1 \<le> t_sink x \<and> t_src x = 0 \<and> t_analog x = 0 \<and>
               \<not> (case n of None \<Rightarrow> False | Some n \<Rightarrow> flag (isGround n))
            then [create_issue FloatingDigitalInput [OfNet i] (NamedNet label)] else []))"

definition digital_nets :: "circuit \<Rightarrow> string list" where
  "digital_nets c = filter (\<lambda>i. t_src (tally_of c i) + t_sink (tally_of c i) > 0) (tally_nets c)"

definition check_digital_connectivity :: "readings \<Rightarrow> circuit \<Rightarrow> erc_issue list" where
  "check_digital_connectivity rd c =
     (if \<not> (\<exists>x \<in> set (components c). is_digital (comp_type x)) then []
      else concat (map digital_shape_issues (components c)) @
           concat (map (driver_issues c) (tally_nets c)) @
           level_issues rd c (digital_nets c))"

section \<open>The whole check\<close>

definition all_issues :: "readings \<Rightarrow> circuit \<Rightarrow> erc_issue list" where
  "all_issues rd c =
     check_empty_circuit c @ check_ground c @ check_floating_nodes c @ check_pin_counts c @
     check_duplicate_designators c @ value_issues rd c @ check_model_resolution rd c @
     check_voltage_source_shorts rd c @ check_ground_reachability c @ check_net_connections c @
     check_active_sources c @ check_digital_connectivity rd c"

definition of_severity :: "severity \<Rightarrow> erc_issue list \<Rightarrow> erc_issue list" where
  "of_severity s is = filter (\<lambda>i. issue_severity i = s) is"

definition run_erc :: "readings \<Rightarrow> circuit \<Rightarrow> erc_result" where
  "run_erc rd c =
     (let is = all_issues rd c
      in \<lparr>passed = (length (of_severity Error is) = 0), issues = is,
          error_count = length (of_severity Error is), warning_count = length (of_severity Warning is),
          info_count = length (of_severity Info is)\<rparr>)"

definition quick_check :: "readings \<Rightarrow> circuit \<Rightarrow> bool" where
  "quick_check rd c = passed (run_erc rd c)"

section \<open>The flood fill is reachability\<close>

lemma adjacent_iff: "y \<in> set (adjacent ls x) \<longleftrightarrow> (x, y) \<in> set ls \<or> (y, x) \<in> set ls"
proof -
  have "y \<in> set (adjacent ls x) \<longleftrightarrow> (\<exists>p \<in> set ls. (fst p = x \<and> snd p = y) \<or> (fst p \<noteq> x \<and> snd p = x \<and> fst p = y))"
    by (auto simp: adjacent_def case_prod_beta)
  then show ?thesis by force
qed

definition adjacency :: "(string \<times> string) list \<Rightarrow> (string \<times> string) set" where
  "adjacency ls = {(x, y). y \<in> set (adjacent ls x)}"

lemma flood_sound:
  "set reachable \<union> set stack \<subseteq> (adjacency ls)\<^sup>* `` A \<Longrightarrow> set (flood ls reachable stack) \<subseteq> (adjacency ls)\<^sup>* `` A"
proof (induction ls reachable stack rule: flood.induct)
  case (1 ls reachable stack)
  show ?case
  proof (cases "stack = []")
    case False
    let ?new = "filter (\<lambda>nb. nb \<notin> set reachable) (adjacent ls (last stack))"
    have "last stack \<in> (adjacency ls)\<^sup>* `` A" using False 1(2) by auto
    then have "set ?new \<subseteq> (adjacency ls)\<^sup>* `` A"
      by (auto simp: adjacency_def intro: rtrancl_into_rtrancl)
    then have "set (reachable @ ?new) \<union> set (butlast stack @ ?new) \<subseteq> (adjacency ls)\<^sup>* `` A"
      using 1(2) by (auto dest: in_set_butlastD)
    from 1(1) [OF False refl this] show ?thesis
      using False by (simp add: flood.simps [of ls reachable stack] Let_def)
  qed (use 1(2) in \<open>simp add: flood.simps\<close>)
qed

lemma flood_closed:
  assumes "set stack \<subseteq> set reachable"
    and "\<forall>x \<in> set reachable - set stack. set (adjacent ls x) \<subseteq> set reachable"
  shows "set reachable \<subseteq> set (flood ls reachable stack) \<and>
    (\<forall>x \<in> set (flood ls reachable stack). set (adjacent ls x) \<subseteq> set (flood ls reachable stack))"
  using assms
proof (induction ls reachable stack rule: flood.induct)
  case (1 ls reachable stack)
  show ?case
  proof (cases "stack = []")
    case False
    let ?new = "filter (\<lambda>nb. nb \<notin> set reachable) (adjacent ls (last stack))"
    have st: "set stack = insert (last stack) (set (butlast stack))"
      using False by (metis append_butlast_last_id list.simps(15) rotate1.simps(2) set_rotate1)
    have sub: "set (butlast stack @ ?new) \<subseteq> set (reachable @ ?new)"
      using 1(2) by (auto dest: in_set_butlastD)
    have cl: "\<forall>x \<in> set (reachable @ ?new) - set (butlast stack @ ?new). set (adjacent ls x) \<subseteq> set (reachable @ ?new)"
    proof
      fix x assume "x \<in> set (reachable @ ?new) - set (butlast stack @ ?new)"
      then have "x \<in> set reachable" "x \<notin> set (butlast stack)" by auto
      then show "set (adjacent ls x) \<subseteq> set (reachable @ ?new)"
        using 1(3) st by (cases "x = last stack") auto
    qed
    have "flood ls reachable stack = flood ls (reachable @ ?new) (butlast stack @ ?new)"
      using False by (simp add: flood.simps [of ls reachable stack] Let_def)
    then show ?thesis using 1(1) [OF False refl sub cl] by auto
  qed (use 1(3) in \<open>simp add: flood.simps\<close>)
qed

lemma flood_reachable: "set (flood ls as as) = (adjacency ls)\<^sup>* `` set as"
proof
  show "set (flood ls as as) \<subseteq> (adjacency ls)\<^sup>* `` set as" by (rule flood_sound) auto
  have cl: "set as \<subseteq> set (flood ls as as)" "\<forall>x \<in> set (flood ls as as). set (adjacent ls x) \<subseteq> set (flood ls as as)"
    using flood_closed [of as as ls] by auto
  show "(adjacency ls)\<^sup>* `` set as \<subseteq> set (flood ls as as)"
  proof
    fix y assume "y \<in> (adjacency ls)\<^sup>* `` set as"
    then obtain x where "(x, y) \<in> (adjacency ls)\<^sup>*" "x \<in> set as" by blast
    then show "y \<in> set (flood ls as as)"
      using cl by (induction rule: rtrancl_induct) (auto simp: adjacency_def)
  qed
qed

text \<open>Two nets are tied when one part has a pin on each.\<close>

definition tied :: "circuit \<Rightarrow> (string \<times> string) set" where
  "tied c = {(m, n). \<exists>x \<in> set (components c). m \<in> set (part_nets x) \<and> n \<in> set (part_nets x)}"

lemma all_pairs_sym:
  "x \<noteq> y \<Longrightarrow> (x, y) \<in> set (all_pairs xs) \<or> (y, x) \<in> set (all_pairs xs) \<longleftrightarrow> x \<in> set xs \<and> y \<in> set xs"
  by (induction xs) auto

lemma adjacency_links: "adjacency (links c) = tied c - Id"
proof -
  have "(x, y) \<in> adjacency (links c) \<longleftrightarrow> (x, y) \<in> tied c - Id" for x y
  proof -
    have "(x, y) \<in> adjacency (links c) \<longleftrightarrow> x \<noteq> y \<and> (\<exists>z \<in> set (components c).
        (x, y) \<in> set (all_pairs (part_nets z)) \<or> (y, x) \<in> set (all_pairs (part_nets z)))"
      by (auto simp: adjacency_def adjacent_iff links_def)
    then show ?thesis using all_pairs_sym [of x y] by (auto simp: tied_def)
  qed
  then show ?thesis by auto
qed

lemma reaches_ground: "set (flood (links c) as as) = (tied c)\<^sup>* `` set as"
  unfolding flood_reachable adjacency_links using rtrancl_r_diff_Id by metis

text \<open>
  \<^bold>\<open>C6.\<close> The reachability check reports exactly the isolated nodes. In a circuit with a ground, a declared
  net is named by a finding exactly when two analog pins sit on it and no chain of parts leads to it from a
  ground net, whatever order the flood fill visits the nets in; without a ground there is no finding.
\<close>

theorem isolated_nets_reported:
  "(\<exists>e \<in> set (check_ground_reachability c). OfNet i \<in> set (related e)) \<longleftrightarrow>
     ground_anchors c \<noteq> [] \<and> (\<exists>n \<in> set (nets c). net_id n = i) \<and> 2 \<le> analog_pin_count c i \<and>
     \<not> (\<exists>g \<in> set (ground_anchors c). (g, i) \<in> (tied c)\<^sup>*)"
proof -
  define isl where "isl = filter (\<lambda>n. net_id n \<notin> set (flood (links c) (ground_anchors c) (ground_anchors c)) \<and>
      2 \<le> analog_pin_count c (net_id n)) (nets c)"
  have isl: "i \<in> net_id ` set isl \<longleftrightarrow> (\<exists>n \<in> set (nets c). net_id n = i) \<and> 2 \<le> analog_pin_count c i \<and>
     \<not> (\<exists>g \<in> set (ground_anchors c). (g, i) \<in> (tied c)\<^sup>*)"
    unfolding isl_def reaches_ground by auto
  have "(\<exists>e \<in> set (check_ground_reachability c). OfNet i \<in> set (related e)) \<longleftrightarrow>
      ground_anchors c \<noteq> [] \<and> i \<in> net_id ` set isl"
  proof (cases "ground_anchors c = [] \<or> isl = []")
    case False
    then show ?thesis
      by (simp add: check_ground_reachability_def Let_def isl_def [symmetric] create_issue_def) auto
  qed (auto simp: check_ground_reachability_def Let_def isl_def [symmetric])
  then show ?thesis unfolding isl by blast
qed

section \<open>Designators\<close>


lemma no_duplicates_distinct:
  "(\<forall>a \<in> k ` set xs. \<not> length (filter (\<lambda>x. k x = a) xs) > 1) \<longleftrightarrow> distinct (map k xs)"
proof (induction xs)
  case (Cons x xs)
  have "(\<forall>a \<in> k ` set (x # xs). \<not> length (filter (\<lambda>x. k x = a) (x # xs)) > 1) \<longleftrightarrow>
      k x \<notin> k ` set xs \<and> (\<forall>a \<in> k ` set xs. \<not> length (filter (\<lambda>x. k x = a) xs) > 1)"
  proof -
    have "filter (\<lambda>y. k y = k x) xs = [] \<longleftrightarrow> k x \<notin> k ` set xs"
      unfolding filter_empty_conv by (metis image_iff)
    then show ?thesis by (auto split: if_splits)
  qed
  then show ?case using Cons by simp
qed simp

text \<open>
  The check for duplicate designators finds something exactly when two parts with a designator
  have the same one up to case and surrounding space.
\<close>

theorem duplicate_designators_reported:
  "check_duplicate_designators c = [] \<longleftrightarrow>
     distinct (map designator_key (filter (\<lambda>x. js_trim (designator x) \<noteq> []) (components c)))"
proof -
  define named where "named = filter (\<lambda>x. js_trim (designator x) \<noteq> []) (components c)"
  have "check_duplicate_designators c = [] \<longleftrightarrow>
      (\<forall>a \<in> designator_key ` set named. \<not> length (filter (\<lambda>x. designator_key x = a) named) > 1)"
    by (auto simp: check_duplicate_designators_def Let_def named_def [symmetric] concat_eq_Nil_conv)
  then show ?thesis unfolding no_duplicates_distinct named_def .
qed

section \<open>Drivers\<close>

definition is_source_pin :: "component \<times> pin_connection \<Rightarrow> bool" where
  "is_source_pin q \<longleftrightarrow> is_digital (comp_type (fst q)) \<and>
     digital_pin_role (comp_type (fst q)) (pinId (snd q)) = Some Source"

definition source_pins :: "circuit \<Rightarrow> string \<Rightarrow> (component \<times> pin_connection) list" where
  "source_pins c i = filter (\<lambda>q. netId (snd q) = i \<and> is_source_pin q) (tallied_pins c)"

lemma count_pin_fields:
  "t_src (count_pin x p t) = t_src t + (if is_source_pin (x, p) then 1 else 0)"
  "t_tri_src (count_pin x p t) = t_tri_src t + (if is_source_pin (x, p) \<and> comp_type x = Tristate then 1 else 0)"
  "t_sink (count_pin x p t) = t_sink t + (if is_digital (comp_type x) \<and> \<not> is_source_pin (x, p) then 1 else 0)"
  "t_analog (count_pin x p t) = t_analog t + (if is_digital (comp_type x) then 0 else 1)"
  by (auto simp: count_pin_def is_source_pin_def Let_def)

lemma fold_count:
  "t_src (fold (\<lambda>(x, p). count_pin x p) ps t) = t_src t + length (filter is_source_pin ps)"
  "t_tri_src (fold (\<lambda>(x, p). count_pin x p) ps t) = t_tri_src t +
     length (filter (\<lambda>q. is_source_pin q \<and> comp_type (fst q) = Tristate) ps)"
  "t_sink (fold (\<lambda>(x, p). count_pin x p) ps t) = t_sink t +
     length (filter (\<lambda>q. is_digital (comp_type (fst q)) \<and> \<not> is_source_pin q) ps)"
  "t_analog (fold (\<lambda>(x, p). count_pin x p) ps t) = t_analog t +
     length (filter (\<lambda>q. \<not> is_digital (comp_type (fst q))) ps)"
  by (induction ps arbitrary: t) (simp_all add: case_prod_beta count_pin_fields)

lemma tally_counts:
  "t_src (tally_of c i) = length (source_pins c i)"
  "t_tri_src (tally_of c i) = length (filter (\<lambda>q. (netId (snd q) = i \<and> is_source_pin q) \<and> comp_type (fst q) = Tristate) (tallied_pins c))"
  "t_sink (tally_of c i) = length (filter (\<lambda>q. netId (snd q) = i \<and> is_digital (comp_type (fst q)) \<and> \<not> is_source_pin q) (tallied_pins c))"
  "t_analog (tally_of c i) = length (filter (\<lambda>q. netId (snd q) = i \<and> \<not> is_digital (comp_type (fst q))) (tallied_pins c))"
  by (simp_all add: tally_of_def fold_count empty_tally_def source_pins_def case_prod_beta conj_ac)

lemma filter_length_less: "length (filter (\<lambda>x. P x \<and> Q x) xs) < length (filter P xs) \<longleftrightarrow> (\<exists>x \<in> set xs. P x \<and> \<not> Q x)"
proof -
  have "length (filter (\<lambda>x. P x \<and> Q x) xs) \<le> length (filter P xs)" by (induction xs) auto
  then show ?thesis
  proof (induction xs)
    case (Cons x xs)
    have "length (filter (\<lambda>x. P x \<and> Q x) xs) \<le> length (filter P xs)" by (induction xs) auto
    then show ?case using Cons by (auto simp: less_Suc_eq_le)
  qed simp
qed

lemma tally_tri:
  "t_tri_src (tally_of c i) < t_src (tally_of c i) \<longleftrightarrow> (\<exists>q \<in> set (source_pins c i). comp_type (fst q) \<noteq> Tristate)"
  unfolding tally_counts source_pins_def filter_length_less set_filter by blast

text \<open>
  Bus contention is reported on a net exactly when two digital outputs drive it and one of them
  can never let go: a net all of whose drivers are tristate outputs is a bus, not a conflict.
\<close>

theorem contention_reported:
  "(\<exists>e \<in> set (driver_issues c i). issue_code e = DigitalBusContention) \<longleftrightarrow>
     2 \<le> length (source_pins c i) \<and> (\<exists>q \<in> set (source_pins c i). comp_type (fst q) \<noteq> Tristate)"
proof -
  have "(\<exists>e \<in> set (driver_issues c i). issue_code e = DigitalBusContention) \<longleftrightarrow>
      2 \<le> t_src (tally_of c i) \<and> t_tri_src (tally_of c i) < t_src (tally_of c i)"
    by (auto simp: driver_issues_def Let_def create_issue_def split: if_splits)
  then show ?thesis unfolding tally_tri unfolding tally_counts .
qed

text \<open>
  A digital input is reported floating exactly when nothing can give it a level: some digital
  input pin is on the net, every counted pin on the net is a digital input, and the net is not ground.
\<close>

theorem floating_input_reported:
  "(\<exists>e \<in> set (driver_issues c i). issue_code e = FloatingDigitalInput) \<longleftrightarrow>
     (\<exists>q \<in> set (tallied_pins c). netId (snd q) = i) \<and>
     \<not> (\<exists>q \<in> set (tallied_pins c). netId (snd q) = i \<and> \<not> (is_digital (comp_type (fst q)) \<and> \<not> is_source_pin q)) \<and>
     (case find (\<lambda>n. net_id n = i) (nets c) of None \<Rightarrow> True | Some n \<Rightarrow> \<not> flag (isGround n))"
proof -
  let ?t = "tally_of c i"
  have zero: "t_src ?t = 0 \<longleftrightarrow> \<not> (\<exists>q \<in> set (tallied_pins c). netId (snd q) = i \<and> is_source_pin q)"
    "t_analog ?t = 0 \<longleftrightarrow> \<not> (\<exists>q \<in> set (tallied_pins c). netId (snd q) = i \<and> \<not> is_digital (comp_type (fst q)))"
    "1 \<le> t_sink ?t \<longleftrightarrow> (\<exists>q \<in> set (tallied_pins c). netId (snd q) = i \<and> is_digital (comp_type (fst q)) \<and> \<not> is_source_pin q)"
    unfolding tally_counts source_pins_def by (auto simp: filter_empty_conv Suc_le_eq)
  have "(\<exists>e \<in> set (driver_issues c i). issue_code e = FloatingDigitalInput) \<longleftrightarrow>
      1 \<le> t_sink ?t \<and> t_src ?t = 0 \<and> t_analog ?t = 0 \<and>
      \<not> (case find (\<lambda>n. net_id n = i) (nets c) of None \<Rightarrow> False | Some n \<Rightarrow> flag (isGround n))"
    by (simp add: driver_issues_def Let_def create_issue_def) auto
  moreover have "\<not> (case o' of None \<Rightarrow> False | Some n \<Rightarrow> flag (isGround n)) \<longleftrightarrow>
      (case o' of None \<Rightarrow> True | Some n \<Rightarrow> \<not> flag (isGround n))" for o' by (cases o') simp_all
  ultimately show ?thesis unfolding zero by blast
qed

section \<open>The report\<close>

text \<open>
  The summary counts every finding once, under its severity, and the check passes exactly when
  no finding is an error.
\<close>

theorem erc_summary:
  "error_count (run_erc rd c) + warning_count (run_erc rd c) + info_count (run_erc rd c) =
     length (issues (run_erc rd c)) \<and>
   (passed (run_erc rd c) \<longleftrightarrow> \<not> (\<exists>e \<in> set (issues (run_erc rd c)). issue_severity e = Error))"
proof -
  have "length (of_severity Error is) + length (of_severity Warning is) + length (of_severity Info is) = length is" for "is"
  proof (induction "is")
    case (Cons e es)
    then show ?case by (cases "issue_severity e") (simp_all add: of_severity_def)
  qed (simp add: of_severity_def)
  then show ?thesis by (auto simp: run_erc_def Let_def of_severity_def filter_empty_conv)
qed

section \<open>Nets with one pin and with none\<close>

lemma fresh_from_shape:
  "f \<in> set (fresh_from ids names i k) \<Longrightarrow> \<exists>j. f = (''n'' @ num_str j, ''N'' @ num_str j)"
  by (induction k arbitrary: ids names i) (auto simp: Let_def)

lemma fresh_nets_shape: "f \<in> set (fresh_nets c k) \<Longrightarrow> \<exists>j. f = (''n'' @ num_str j, ''N'' @ num_str j)"
  unfolding fresh_nets_def by (rule fresh_from_shape)

lemma in_concat_map: "n \<in> set xs \<Longrightarrow> e \<in> set (f n) \<Longrightarrow> e \<in> set (concat (map f xs))"
  by auto

lemma set_pins_at:
  "(x, p) \<in> set (pins_at c i) \<longleftrightarrow> x \<in> set (components c) \<and> p \<in> set (pins x) \<and> netId p = i \<and> i \<noteq> []"
  by (auto simp: pins_at_def)

text \<open>
  A declared net no pin names is found by \<open>checkFloatingNodes\<close> and again by \<open>checkNetConnections\<close>,
  which add the same finding to the list.
\<close>

text \<open>
  A declared net that no pin names, and that is not ground, is reported as unconnected by two of
  the checks: the list of findings holds the same finding twice.
\<close>

theorem unused_net_reported_twice:
  assumes "n \<in> set (nets c)" "\<not> is_ground_net n" "\<not> (\<exists>x \<in> set (components c). \<exists>p \<in> set (pins x). netId p = net_id n)"
  shows "create_issue UnconnectedNet [OfNet (net_id n)] (NamedNet (net_label n)) \<in> set (check_floating_nodes c) \<and>
    create_issue UnconnectedNet [OfNet (net_id n)] (NamedNet (net_label n)) \<in> set (check_net_connections c)"
proof -
  have "pins_at c (net_id n) = []"
    using assms(3) by (auto simp: pins_at_def filter_empty_conv)
  then have "create_issue UnconnectedNet [OfNet (net_id n)] (NamedNet (net_label n)) \<in> set (check_floating_nodes c)"
    using assms(1,2) by (auto simp: check_floating_nodes_def floating_node_issues_def Let_def)
  moreover have "create_issue UnconnectedNet [OfNet (net_id n)] (NamedNet (net_label n)) \<in> set (check_net_connections c)"
  proof -
    have "net_id n \<notin> set (filter (\<lambda>i. i \<noteq> []) (concat (map (\<lambda>x. map netId (pins x)) (components c))))"
      using assms(3) by force
    then show ?thesis
      unfolding check_net_connections_def Let_def
      by (intro in_concat_map [OF assms(1)]) (use assms(2) in \<open>simp add: is_ground_net_def\<close>)
  qed
  ultimately show ?thesis by blast
qed

text \<open>In a well-formed document the pins on a net are its terminals.\<close>

lemma pins_at_unique:
  assumes wf: "wf_circuit c" and x: "x \<in> set (components c)" "p \<in> set (pins x)" and i: "netId p = i" "i \<noteq> []"
    and one: "\<And>r. pin_net c r = Some i \<Longrightarrow> r = pin_key (comp_id x) (pinId p)"
  shows "pins_at c i = [(x, p)]"
proof -
  have all: "q = (x, p)" if "q \<in> set (pins_at c i)" for q
  proof -
    obtain y u where yu: "q = (y, u)" by (cases q)
    then have q: "q = (y, u)" "y \<in> set (components c)" "u \<in> set (pins y)" "netId u = i"
      using that by (simp_all add: set_pins_at)
    then have "pin_key (comp_id y) (pinId u) = pin_key (comp_id x) (pinId p)"
      using one wf_pin_key_net [OF wf q(2,3)] by simp
    then have "comp_id y = comp_id x" "pinId u = pinId p" by (simp_all add: pin_key_def)
    then have "y = x" using distinct_map_eqD [OF wf_circuitD(1) [OF wf] q(2) x(1)] by simp
    then have "u = p"
      using distinct_map_eqD [of pinId "pins x" u p] wf_circuitD(5) [OF wf x(1)] q(3) x(2) \<open>pinId u = pinId p\<close>
      by (simp add: wf_component_def)
    then show ?thesis using q(1) \<open>y = x\<close> by simp
  qed
  have keys: "map (\<lambda>(x, p). pin_key (comp_id x) (pinId p)) (pins_at c i) = pins_on c i"
  proof -
    have "(\<lambda>p. netId p \<noteq> [] \<and> netId p = i) = (\<lambda>p :: pin_connection. netId p = i)" using i(2) by auto
    then show ?thesis unfolding pins_at_def pins_on_def by (simp add: map_concat comp_def)
  qed
  have dist: "distinct (pins_at c i)"
    using distinct_pins_on [OF wf, of i] unfolding keys [symmetric] distinct_map by (rule conjunct1)
  have "(x, p) \<in> set (pins_at c i)" using x i by (simp add: set_pins_at)
  with all dist show ?thesis
  proof (cases "pins_at c i")
    case (Cons q qs)
    then have "q = (x, p)" using all by simp
    moreover have "qs = []"
    proof (cases qs)
      case (Cons r rs)
      then have "r = (x, p)" using all \<open>pins_at c i = q # qs\<close> by simp
      then show ?thesis using dist \<open>pins_at c i = q # qs\<close> \<open>q = (x, p)\<close> Cons by simp
    qed
    ultimately show ?thesis using Cons by simp
  qed simp
qed

text \<open>
  A part that has just been added is reported as unconnected, pin by pin: for every pin of a new
  part that is no digital output, the check has a finding that the net of the pin has this single pin.
\<close>

theorem new_part_reported:
  assumes wf: "wf_circuit c" and ch: "add_component c spec = Changed c' n cr df"
    and x: "x = last (components c')" and p: "p \<in> set (pins x)"
    and role: "digital_pin_role (comp_type x) (pinId p) \<noteq> Some Source"
  shows "\<exists>e \<in> set (issues (run_erc rd c')). issue_code e = NetHasSinglePin \<and>
    related e = [OfNet (netId p), OfComponent (comp_id x)]"
proof (rule add_component_pin_net [OF wf ch])
  fix y
  assume y: "components c' = components c @ [y]" "distinct (map netId (pins y))"
    and ns: "nets c' = nets c @ map new_net (fresh_nets c (length (pins y)))"
    and ids: "map netId (pins y) = map fst (fresh_nets c (length (pins y)))"
  have wf': "wf_circuit c'" by (rule add_component_wf [OF wf ch])
  have xy: "x = y" using x y by simp
  have xc: "x \<in> set (components c')" by (simp add: xy y)
  have key: "pin_net c' (pin_key (comp_id x) (pinId p)) = Some (netId p)" by (rule wf_pin_key_net [OF wf' xc p])
  have "netId p \<in> set (map fst (fresh_nets c (length (pins y))))" using p by (simp add: xy flip: ids)
  then obtain f where f: "f \<in> set (fresh_nets c (length (pins y)))" "netId p = fst f" by auto
  obtain j where j: "f = (''n'' @ num_str j, ''N'' @ num_str j)"
    using fresh_nets_shape [OF f(1)] by blast
  have "pins_at c' (netId p) = [(x, p)]"
  proof (rule pins_at_unique [OF wf' xc p refl])
    show "netId p \<noteq> []" using f(2) j by simp
    show "r = pin_key (comp_id x) (pinId p)" if "pin_net c' r = Some (netId p)" for r
      using add_component_isolated [OF wf ch, of "pin_key (comp_id x) (pinId p)" r] key that x
      by (simp add: connected_def)
  qed
  moreover have "new_net f \<in> set (nets c')" using f(1) by (simp add: ns)
  moreover have "\<not> is_ground_net (new_net f)" by (simp add: is_ground_net_def new_net_def j)
  ultimately have "create_issue NetHasSinglePin [OfNet (netId p), OfComponent (comp_id x)]
      (OnlyConnectedTo (net_label (new_net f)) [comp_id x]) \<in> set (check_floating_nodes c')"
    unfolding check_floating_nodes_def
    by (intro in_concat_map [of "new_net f"]) (use role f(2) in \<open>simp_all add: floating_node_issues_def Let_def\<close>)
  then show ?thesis
    by (intro bexI [of _ "create_issue NetHasSinglePin [OfNet (netId p), OfComponent (comp_id x)]
      (OnlyConnectedTo (net_label (new_net f)) [comp_id x])"])
      (simp_all add: create_issue_def run_erc_def Let_def all_issues_def)
qed

section \<open>The properties on the concrete document\<close>

definition no_readings :: readings where
  "no_readings = \<lparr>value_issues = (\<lambda>_. []), level_issues = (\<lambda>_ _. []), parallel_issues = (\<lambda>_. []),
     generic_models = (\<lambda>_. [])\<rparr>"

theorem unused_net_reported_twice_witness:
  "create_issue UnconnectedNet [OfNet ''x''] (NamedNet ''X'') \<in> set (check_net_connections
     (demo\<lparr>nets := nets demo @ [new_net (''x'', ''X'')]\<rparr>))"
proof -
  have "\<not> is_ground_net (new_net (''x'', ''X''))"
    "\<not> (\<exists>x \<in> set (components (demo\<lparr>nets := nets demo @ [new_net (''x'', ''X'')]\<rparr>)).
        \<exists>p \<in> set (pins x). netId p = net_id (new_net (''x'', ''X'')))"
    by code_simp+
  then show ?thesis
    using unused_net_reported_twice [of "new_net (''x'', ''X'')" "demo\<lparr>nets := nets demo @ [new_net (''x'', ''X'')]\<rparr>"]
    by (simp add: net_label_def text_or_def)
qed

theorem new_part_reported_witness:
  "\<exists>c' e. accepted (add_component demo demo_spec) = Some c' \<and> e \<in> set (issues (run_erc no_readings c')) \<and>
     issue_code e = NetHasSinglePin \<and> related e = [OfNet ''n1'', OfComponent ''r4'']"
proof (rule changedE [OF demo_part_edits(1)])
  fix c' n cr df
  assume *: "add_component demo demo_spec = Changed c' n cr df"
  let ?facts = "\<lambda>c. (comp_id (last (components c)), comp_type (last (components c)), hd (pins (last (components c))),
    pins (last (components c)) = [])"
  have "map_option ?facts (accepted (add_component demo demo_spec)) =
      Some (''r4'', Resistor, \<lparr>pinId = ''1'', netId = ''n1''\<rparr>, False)" by code_simp
  then have f: "?facts c' = (''r4'', Resistor, \<lparr>pinId = ''1'', netId = ''n1''\<rparr>, False)"
    unfolding * by (simp only: accepted.simps option.map option.inject)
  then have "hd (pins (last (components c'))) \<in> set (pins (last (components c')))"
    by (intro hd_in_set) simp
  moreover have "digital_pin_role (comp_type (last (components c'))) (pinId (hd (pins (last (components c'))))) \<noteq> Some Source"
    using f by (simp add: digital_pin_role_def is_logic_gate_def logic_gate_types_def is_sequential_def sequential_types_def)
  ultimately show ?thesis
    using new_part_reported [OF demo_wf * refl, of "hd (pins (last (components c')))" no_readings] f * by auto
qed

end
