(* ===== verification/History.thy ===== *)
theory History
  imports Parts
begin

text \<open>
  \<open>editor-core/src/document/history.ts\<close>: a commit applies a list of edits as one revision, undo and redo
  walk the revisions, and fifty of them are kept.

  The two functions of \<open>schematic/wiring.ts\<close> a commit calls (\<open>freezeDrawing\<close>, \<open>syncDrawing\<close>) and
  \<open>touchedBetween\<close>, which compares object references that values do not have, are the fields of
  \<open>kernel\<close>; nothing below depends on what they compute. \<open>document_editor\<close> is the client's side of the
  edit contract: what is proved in it holds for any set of edits that keep the contract, and it is
  interpreted on the edits of this kernel.
\<close>

section \<open>State\<close>

record editor_document =
  doc_circuit :: circuit
  doc_ui :: json

record 't revision =
  snapshot :: editor_document
  label :: string
  touched :: 't

record 't history =
  present_doc :: editor_document
  past :: "'t revision list"
  future :: "'t revision list"

record 't kernel =
  freeze_drawing :: "circuit \<Rightarrow> json \<Rightarrow> json"
  sync_drawing :: "circuit \<Rightarrow> json \<Rightarrow> json"
  touched_between :: "editor_document \<Rightarrow> editor_document \<Rightarrow> 't"

lemma revision_eta [simp]:
  "\<lparr>snapshot = snapshot r, label = label r, touched = touched r\<rparr> = (r :: 't revision)"
  by simp

definition history_limit :: nat where
  "history_limit = 50"

definition can_undo :: "'t history \<Rightarrow> bool" where
  "can_undo h \<longleftrightarrow> length (past h) > 0"

definition can_redo :: "'t history \<Rightarrow> bool" where
  "can_redo h \<longleftrightarrow> length (future h) > 0"

definition begin_history :: "editor_document \<Rightarrow> 't history" where
  "begin_history d = \<lparr>present_doc = d, past = [], future = []\<rparr>"

definition adopt :: "editor_document \<Rightarrow> 't history" where
  "adopt d = begin_history d"

text \<open>\<open>xs.slice(-HISTORY_LIMIT)\<close>\<close>

definition keep_last :: "'a list \<Rightarrow> 'a list" where
  "keep_last xs = drop (length xs - history_limit) xs"

section \<open>Commits\<close>

datatype 't commit_result =
    Committed "'t history" "edit_note list"
  | Unaltered "'t history"
  | Rejected nat refusal message

text \<open>The loop over the edits: the working copy, whether it changed, the notes and the created ids.\<close>

fun run_edits :: "nat \<Rightarrow> (circuit \<Rightarrow> edit_result) list \<Rightarrow>
    circuit \<times> bool \<times> edit_note list \<times> string list \<Rightarrow>
    (nat \<times> refusal \<times> message) + (circuit \<times> bool \<times> edit_note list \<times> string list)" where
  "run_edits index [] st = Inr st"
| "run_edits index (e # es) (c, chg, notes, created) =
     (case e c of
        Refused r m \<Rightarrow> Inl (index, r, m)
      | Unchanged _ \<Rightarrow> run_edits (Suc index) es (c, chg, notes, created)
      | Changed c' n cr _ \<Rightarrow>
          run_edits (Suc index) es
            (c', True,
             notes @ (case n of None \<Rightarrow> [] | Some n \<Rightarrow> [n]),
             created @ (case cr of None \<Rightarrow> [] | Some ids \<Rightarrow> ids)))"

definition without_orphan_positions :: "json \<Rightarrow> circuit \<Rightarrow> json" where
  "without_orphan_positions ui c =
     (case obj_get ''positions'' ui of
        JObj kvs \<Rightarrow>
          (let alive = map comp_id (components c);
               orphans = filter (\<lambda>i. i \<notin> set alive) (map fst kvs)
           in if length orphans = 0 then ui
              else obj_set ''positions'' (JObj (filter (\<lambda>kv. fst kv \<in> set alive) kvs)) ui)
      | _ \<Rightarrow> ui)"

definition commit :: "'t kernel \<Rightarrow> 't history \<Rightarrow> string \<Rightarrow> (circuit \<Rightarrow> edit_result) list \<Rightarrow>
    (json \<Rightarrow> string list \<Rightarrow> circuit \<Rightarrow> json) option \<Rightarrow> 't commit_result" where
  "commit k h lbl edits drawing =
     (case run_edits 0 edits (doc_circuit (present_doc h), False, [], []) of
        Inl (i, r, m) \<Rightarrow> Rejected i r m
      | Inr (c, chg, notes, created) \<Rightarrow>
          if \<not> chg \<and> Option.is_none drawing then Unaltered h
          else
         (let owned = freeze_drawing k (doc_circuit (present_doc h)) (doc_ui (present_doc h));
              drawn = without_orphan_positions
                (case drawing of None \<Rightarrow> owned | Some d \<Rightarrow> d owned created c) c;
              ui = sync_drawing k c drawn in
          if \<not> chg \<and> same_json ui (doc_ui (present_doc h)) then Unaltered h
          else (let nxt = \<lparr>doc_circuit = c, doc_ui = ui\<rparr>;
                    rev = \<lparr>snapshot = present_doc h, label = lbl,
                           touched = touched_between k (present_doc h) nxt\<rparr>
                in Committed \<lparr>present_doc = nxt, past = keep_last (past h @ [rev]), future = []\<rparr> notes)))"

definition commit_ui :: "'t kernel \<Rightarrow> 't history \<Rightarrow> string \<Rightarrow> json \<Rightarrow> 't commit_result" where
  "commit_ui k h lbl ui =
     (if same_json ui (doc_ui (present_doc h)) then Unaltered h
      else (let nxt = \<lparr>doc_circuit = doc_circuit (present_doc h), doc_ui = ui\<rparr>;
                rev = \<lparr>snapshot = present_doc h, label = lbl,
                       touched = touched_between k (present_doc h) nxt\<rparr>
            in Committed \<lparr>present_doc = nxt, past = keep_last (past h @ [rev]), future = []\<rparr> []))"

section \<open>Undo and redo\<close>

definition undo :: "'t history \<Rightarrow> 't history" where
  "undo h =
     (if past h = [] then h
      else (let prev = last (past h) in
        \<lparr>present_doc = snapshot prev, past = butlast (past h),
         future = \<lparr>snapshot = present_doc h, label = label prev, touched = touched prev\<rparr> # future h\<rparr>))"

definition redo :: "'t history \<Rightarrow> 't history" where
  "redo h =
     (case future h of
        [] \<Rightarrow> h
      | nxt # rest \<Rightarrow>
          \<lparr>present_doc = snapshot nxt,
           past = keep_last (past h @ [\<lparr>snapshot = present_doc h, label = label nxt, touched = touched nxt\<rparr>]),
           future = rest\<rparr>)"

lemma committed_shape:
  assumes "commit k h l es dr = Committed h' ns \<or> commit_ui k h l u = Committed h' ns"
  obtains x where "past h' = keep_last (past h @ [x])" "snapshot x = present_doc h" "future h' = []"
  using assms by (auto simp: commit_def commit_ui_def Let_def split: sum.splits if_splits)

section \<open>The bound\<close>

definition bounded :: "'t history \<Rightarrow> bool" where
  "bounded h \<longleftrightarrow> length (past h) + length (future h) \<le> history_limit"

lemma keep_last_id: "length xs \<le> history_limit \<Longrightarrow> keep_last xs = xs"
  by (simp add: keep_last_def)

lemma length_keep_last: "length (keep_last xs) \<le> history_limit"
  by (simp add: keep_last_def)

lemma keep_last_snoc: "keep_last (xs @ [x]) \<noteq> []" "last (keep_last (xs @ [x])) = x"
  by (simp_all add: keep_last_def history_limit_def)

lemma set_keep_last: "x \<in> set (keep_last xs) \<Longrightarrow> x \<in> set xs"
  by (auto simp: keep_last_def dest: in_set_dropD)

lemma bounded_begin [simp]: "bounded (begin_history d)" "bounded (adopt d)"
  by (simp_all add: bounded_def begin_history_def adopt_def)

lemma bounded_commit: "commit k h l es dr = Committed h' ns \<Longrightarrow> bounded h'"
  using length_keep_last
  by (auto simp: commit_def bounded_def Let_def split: sum.splits if_splits)

lemma bounded_commit_ui: "commit_ui k h l u = Committed h' ns \<Longrightarrow> bounded h'"
  using length_keep_last by (auto simp: commit_ui_def bounded_def Let_def split: if_splits)

lemma bounded_undo: "bounded h \<Longrightarrow> bounded (undo h)"
  by (cases "past h" rule: rev_cases) (auto simp: undo_def bounded_def Let_def)

lemma bounded_redo: "bounded h \<Longrightarrow> bounded (redo h)"
  by (auto simp: redo_def bounded_def keep_last_id split: list.splits)

section \<open>Stepping back and forth\<close>

text \<open>
  Undo and redo are inverse to each other on every history within the bound, the labels and
  touched sets of the revisions included: a step back followed by a step forward, and the other way round,
  gives the very same history.
\<close>

theorem undo_redo_inverse:
  assumes "bounded h"
  shows "(can_undo h \<longrightarrow> redo (undo h) = h) \<and> (can_redo h \<longrightarrow> undo (redo h) = h)"
proof (intro conjI impI)
  assume "can_undo h"
  then have "past h \<noteq> []" by (simp add: can_undo_def)
  then have "keep_last (butlast (past h) @ [last (past h)]) = past h"
    using assms by (simp add: keep_last_id bounded_def)
  then show "redo (undo h) = h"
    using \<open>past h \<noteq> []\<close> by (simp add: undo_def redo_def Let_def)
next
  assume "can_redo h"
  then obtain r rs where f: "future h = r # rs" by (cases "future h") (auto simp: can_redo_def)
  then have "keep_last (past h @ [x]) = past h @ [x]" for x
    using assms by (simp add: keep_last_id bounded_def)
  then show "undo (redo h) = h" using f by (simp add: undo_def redo_def Let_def)
qed

text \<open>
  A commit is one undo step: when a commit, or a commit of the drawing alone, changed the
  document, one undo gives back exactly the document there was, one redo after it the committed one, and
  the branch that could be redone before the commit is gone.
\<close>

theorem commit_undoes:
  assumes "commit k h l es dr = Committed h' ns \<or> commit_ui k h l u = Committed h' ns"
  shows "present_doc (undo h') = present_doc h \<and> redo (undo h') = h' \<and> future h' = []"
proof -
  obtain x where p: "past h' = keep_last (past h @ [x])" and x: "snapshot x = present_doc h"
    and f: "future h' = []"
    using committed_shape [OF assms] .
  have "bounded h'" using p f length_keep_last by (simp add: bounded_def)
  moreover have "can_undo h'" using p keep_last_snoc(1) [of "past h" x] by (simp add: can_undo_def)
  ultimately have "redo (undo h') = h'" using undo_redo_inverse by blast
  moreover have "present_doc (undo h') = present_doc h"
    using p x keep_last_snoc [of "past h" x] by (simp add: undo_def Let_def)
  ultimately show ?thesis using f by simp
qed

section \<open>Editors\<close>

text \<open>What holds of a history whose edits keep the contract, whichever edits they are.\<close>

locale document_editor =
  fixes allowed :: "(circuit \<Rightarrow> edit_result) \<Rightarrow> bool"
  assumes contract: "allowed e \<Longrightarrow> edit_contract e"
begin

lemma run_edits_wf:
  "run_edits i es (c, chg, ns, cr) = Inr (c', chg', ns', cr') \<Longrightarrow> \<forall>e \<in> set es. allowed e \<Longrightarrow>
   wf_circuit c \<Longrightarrow> wf_circuit c'"
proof (induction es arbitrary: i c chg ns cr)
  case (Cons e es)
  have "edit_contract e" using Cons.prems(2) contract by simp
  then show ?case
    using Cons by (auto split: edit_result.splits dest: edit_contract.keeps_wf)
qed simp

lemma commit_wf:
  assumes "commit k h l es dr = Committed h' ns" "\<forall>e \<in> set es. allowed e"
    and "wf_circuit (doc_circuit (present_doc h))"
  shows "wf_circuit (doc_circuit (present_doc h'))"
proof (cases "run_edits 0 es (doc_circuit (present_doc h), False, [], [])")
  case (Inr st)
  obtain c chg ns' cr where st: "st = (c, chg, ns', cr)" by (cases st)
  have "doc_circuit (present_doc h') = c"
    using assms(1) Inr st by (auto simp: commit_def Let_def split: if_splits)
  then show ?thesis using run_edits_wf [OF Inr [unfolded st] assms(2,3)] by simp
qed (use assms(1) in \<open>auto simp: commit_def\<close>)

inductive reachable :: "'t kernel \<Rightarrow> 't history \<Rightarrow> bool" for k where
  opened: "wf_circuit (doc_circuit d) \<Longrightarrow> reachable k (begin_history d)"
| adopted: "reachable k h \<Longrightarrow> wf_circuit (doc_circuit d) \<Longrightarrow> reachable k (adopt d)"
| committed: "reachable k h \<Longrightarrow> \<forall>e \<in> set es. allowed e \<Longrightarrow>
    commit k h l es dr = Committed h' ns \<Longrightarrow> reachable k h'"
| redrawn: "reachable k h \<Longrightarrow> commit_ui k h l u = Committed h' ns \<Longrightarrow> reachable k h'"
| undone: "reachable k h \<Longrightarrow> reachable k (undo h)"
| redone: "reachable k h \<Longrightarrow> reachable k (redo h)"

definition sound :: "'t history \<Rightarrow> bool" where
  "sound h \<longleftrightarrow> bounded h \<and> wf_circuit (doc_circuit (present_doc h)) \<and>
     (\<forall>r \<in> set (past h) \<union> set (future h). wf_circuit (doc_circuit (snapshot r)))"

lemma reachable_sound: "reachable k h \<Longrightarrow> sound h"
proof (induction rule: reachable.induct)
  case (committed h es l dr h' ns)
  have "wf_circuit (doc_circuit (present_doc h'))"
    using committed commit_wf by (auto simp: sound_def)
  moreover obtain r where "future h' = []" "past h' = keep_last (past h @ [r])" "snapshot r = present_doc h"
    using committed_shape committed.hyps(3) by blast
  ultimately show ?case
    using committed bounded_commit [OF committed.hyps(3)] by (auto simp: sound_def dest!: set_keep_last)
next
  case (redrawn h l u h' ns)
  then have "doc_circuit (present_doc h') = doc_circuit (present_doc h)"
    by (auto simp: commit_ui_def Let_def split: if_splits)
  moreover obtain r where "future h' = []" "past h' = keep_last (past h @ [r])" "snapshot r = present_doc h"
    using committed_shape redrawn.hyps(2) by blast
  ultimately show ?case
    using redrawn bounded_commit_ui [OF redrawn.hyps(2)] by (auto simp: sound_def dest!: set_keep_last)
next
  case (undone h)
  then show ?case using bounded_undo [of h]
    by (cases "past h" rule: rev_cases) (auto simp: sound_def undo_def Let_def)
next
  case (redone h)
  then show ?case using bounded_redo [of h]
    by (cases "future h") (auto simp: sound_def redo_def dest!: set_keep_last)
qed (auto simp: sound_def begin_history_def adopt_def bounded_def)

end

text \<open>The edits of the kernel.\<close>

inductive kernel_edit :: "(circuit \<Rightarrow> edit_result) \<Rightarrow> bool" where
  "kernel_edit (\<lambda>c. set_designator c i s)"
| "kernel_edit (\<lambda>c. set_value c i s)"
| "kernel_edit (\<lambda>c. set_net_name c i s)"
| "kernel_edit (\<lambda>c. connect_pins c a b)"
| "kernel_edit (\<lambda>c. disconnect_pin c a)"
| "kernel_edit (\<lambda>c. move_pin_to_net c a n)"
| "kernel_edit (\<lambda>c. split_net c n ps)"
| "kernel_edit (\<lambda>c. add_component c spec)"
| "kernel_edit (\<lambda>c. delete_component c i)"
| "kernel_edit (\<lambda>c. duplicate_components c ids)"

lemma kernel_edit_contract: "kernel_edit e \<Longrightarrow> edit_contract e"
  by (induction rule: kernel_edit.induct)
    (rule designator_edit.edit_contract_axioms value_edit.edit_contract_axioms
      net_name_edit.edit_contract_axioms connect_edit.edit_contract_axioms
      disconnect_edit.edit_contract_axioms move_edit.edit_contract_axioms
      split_edit.edit_contract_axioms add_edit.edit_contract_axioms
      delete_edit.edit_contract_axioms duplicate_edit.edit_contract_axioms)+

interpretation editor: document_editor kernel_edit
  by (rule document_editor.intro) (rule kernel_edit_contract)

text \<open>
  \<^bold>\<open>C1.\<close> However an editor is used, with any sequence of the kernel's edits, commits of the drawing,
  undo, redo and adoption of documents, every document it holds is well formed, the present one and every
  one that undo or redo can bring back, and at most fifty revisions are held.
\<close>

theorem editing_stays_well_formed:
  assumes "editor.reachable k h"
  shows "wf_circuit (doc_circuit (present_doc h)) \<and>
    (\<forall>r \<in> set (past h) \<union> set (future h). wf_circuit (doc_circuit (snapshot r))) \<and>
    length (past h) + length (future h) \<le> 50"
  using editor.reachable_sound [OF assms] by (simp add: editor.sound_def bounded_def history_limit_def)

section \<open>All or nothing\<close>

text \<open>The document after a prefix of the edits, when none of them is refused.\<close>

fun folded :: "(circuit \<Rightarrow> edit_result) list \<Rightarrow> circuit \<Rightarrow> circuit option" where
  "folded [] c = Some c"
| "folded (e # es) c = (case e c of Refused _ _ \<Rightarrow> None | Changed c' _ _ _ \<Rightarrow> folded es c' | Unchanged _ \<Rightarrow> folded es c)"

lemma run_edits_folded:
  "(case run_edits i es (c, chg, ns, cr) of
      Inr (c', _) \<Rightarrow> folded es c = Some c'
    | Inl (j, r, m) \<Rightarrow> i \<le> j \<and> j - i < length es \<and>
        (\<exists>c'. folded (take (j - i) es) c = Some c' \<and> (es ! (j - i)) c' = Refused r m))"
proof (induction es arbitrary: i c chg ns cr)
  case (Cons e es)
  have step: ?case
    if "run_edits i (e # es) (c, chg, ns, cr) = run_edits (Suc i) es st"
      and "\<And>xs. folded (e # xs) c = folded xs (fst st)" for st
  proof -
    have IH: "case run_edits (Suc i) es st of Inr (c', _) \<Rightarrow> folded es (fst st) = Some c'
      | Inl (j, r, m) \<Rightarrow> Suc i \<le> j \<and> j - Suc i < length es \<and>
        (\<exists>c'. folded (take (j - Suc i) es) (fst st) = Some c' \<and> (es ! (j - Suc i)) c' = Refused r m)"
      using Cons.IH [of "Suc i" "fst st" "fst (snd st)" "fst (snd (snd st))" "snd (snd (snd st))"] by simp
    have "j - i = Suc (j - Suc i)" if "Suc i \<le> j" for j using that by simp
    then show ?thesis
      using IH unfolding that(1)
      by (auto simp: that(2) simp del: folded.simps split: sum.splits prod.splits)
  qed
  show ?case
  proof (cases "e c")
    case (Changed c' n cr' df)
    then show ?thesis
      using step [of "(c', True, ns @ (case n of None \<Rightarrow> [] | Some n \<Rightarrow> [n]),
        cr @ (case cr' of None \<Rightarrow> [] | Some ids \<Rightarrow> ids))"] by simp
  next
    case (Unchanged c')
    then show ?thesis using step [of "(c, chg, ns, cr)"] by simp
  qed simp
qed simp

text \<open>
  A commit is all or nothing: when it is refused, the index names the first edit of the list that
  refuses the document the edits before it made, and the reason is that edit's; otherwise every edit was
  accepted and the committed design is what they make of the design in order.
\<close>

theorem commit_all_or_nothing:
  "(case commit k h l es dr of
      Rejected i r m \<Rightarrow> i < length es \<and>
        (\<exists>c. folded (take i es) (doc_circuit (present_doc h)) = Some c \<and> (es ! i) c = Refused r m)
    | Committed h' ns \<Rightarrow> folded es (doc_circuit (present_doc h)) = Some (doc_circuit (present_doc h'))
    | Unaltered h' \<Rightarrow> h' = h)"
  using run_edits_folded [of 0 es "doc_circuit (present_doc h)" False "[]" "[]"]
  by (auto simp: commit_def Let_def split: sum.splits)

section \<open>The properties on a concrete session\<close>

definition demo_kernel :: "unit kernel" where
  "demo_kernel = \<lparr>freeze_drawing = (\<lambda>_ ui. ui), sync_drawing = (\<lambda>_ ui. ui), touched_between = (\<lambda>_ _. ())\<rparr>"

definition demo_history :: "unit history" where
  "demo_history = begin_history \<lparr>doc_circuit = demo, doc_ui = JObj []\<rparr>"

definition demo_edits1 :: "(circuit \<Rightarrow> edit_result) list" where
  "demo_edits1 = [\<lambda>c. connect_pins c (pin_key ''r3'' ''2'') (pin_key ''v1'' ''neg'')]"

fun committed_to :: "'t commit_result \<Rightarrow> 't history option" where
  "committed_to (Committed h _) = Some h"
| "committed_to _ = None"

lemma demo_commit:
  "committed_to (commit demo_kernel demo_history ''join'' demo_edits1 None) \<noteq> None"
proof -
  obtain c n cr df where "connect_pins demo (pin_key ''r3'' ''2'') (pin_key ''v1'' ''neg'') = Changed c n cr df"
    by (rule changedE [OF demo_edits(1)])
  then show ?thesis
    by (simp add: commit_def demo_edits1_def demo_history_def begin_history_def Let_def)
qed

lemma demo_committed:
  obtains h ns where "commit demo_kernel demo_history ''join'' demo_edits1 None = Committed h ns"
  using demo_commit by (cases "commit demo_kernel demo_history ''join'' demo_edits1 None") auto

theorem commit_undoes_witness:
  "\<exists>h ns. commit demo_kernel demo_history ''join'' demo_edits1 None = Committed h ns \<and>
     present_doc (undo h) = present_doc demo_history"
proof (rule demo_committed)
  fix h ns assume *: "commit demo_kernel demo_history ''join'' demo_edits1 None = Committed h ns"
  then show ?thesis using commit_undoes [OF disjI1 [OF *]] by blast
qed

theorem undo_redo_inverse_witness:
  "redo (undo \<lparr>present_doc = \<lparr>doc_circuit = demo, doc_ui = JNull\<rparr>,
      past = [\<lparr>snapshot = \<lparr>doc_circuit = demo, doc_ui = JObj []\<rparr>, label = ''move'', touched = ()\<rparr>],
      future = []\<rparr>) =
   \<lparr>present_doc = \<lparr>doc_circuit = demo, doc_ui = JNull\<rparr>,
      past = [\<lparr>snapshot = \<lparr>doc_circuit = demo, doc_ui = JObj []\<rparr>, label = ''move'', touched = ()\<rparr>],
      future = []\<rparr>"
  by (rule undo_redo_inverse [THEN conjunct1, rule_format])
    (simp_all add: bounded_def history_limit_def can_undo_def)

theorem editing_stays_well_formed_witness:
  "\<exists>h ns. commit demo_kernel demo_history ''join'' demo_edits1 None = Committed h ns \<and>
     wf_circuit (doc_circuit (present_doc h)) \<and> length (past h) + length (future h) \<le> 50"
proof (rule demo_committed)
  fix h ns assume *: "commit demo_kernel demo_history ''join'' demo_edits1 None = Committed h ns"
  have "editor.reachable demo_kernel demo_history"
    unfolding demo_history_def by (rule editor.opened) (simp add: demo_wf)
  then have "editor.reachable demo_kernel h"
    by (rule editor.committed [OF _ _ *]) (simp add: demo_edits1_def kernel_edit.intros)
  then show ?thesis using * editing_stays_well_formed by blast
qed

end
