(* ===== verification/Database.thy ===== *)
theory Database
  imports Prelude "HOL-Library.Multiset"
begin

text \<open>
  The Prisma client as the services of \<open>apps/api\<close> use it. The client and PostgreSQL are not part of the
  repository: a database is a value of an arbitrary type, a table of it the record of the statements the
  services issue, and what the services rely on is the contract \<open>prisma_table\<close>. A statement without
  \<open>orderBy\<close> promises no order, so the contract speaks of the multiset of the rows. Every statement is
  atomic, and so is the callback of a \<open>$transaction\<close>, which is one function on the database.

  \<open>list_table\<close> keeps a table in a field of a record, as a list; it satisfies the contract and is what the
  concrete runs are evaluated on.
\<close>

section \<open>Tables\<close>

record ('d, 'r) table =
  rows :: "'d \<Rightarrow> 'r list"
  create_row :: "'r \<Rightarrow> 'd \<Rightarrow> 'd"
  update_rows :: "('r \<Rightarrow> bool) \<Rightarrow> ('r \<Rightarrow> 'r) \<Rightarrow> 'd \<Rightarrow> 'd"
  delete_rows :: "('r \<Rightarrow> bool) \<Rightarrow> 'd \<Rightarrow> 'd"

text \<open>
  \<open>findUnique\<close> and \<open>findFirst\<close>, \<open>count\<close>, \<open>updateMany\<close> and \<open>deleteMany\<close> with their counts, \<open>update\<close>
  and \<open>delete\<close> of a unique row (which throw when there is none), and \<open>upsert\<close>.
\<close>

definition find_first :: "('d, 'r) table \<Rightarrow> ('r \<Rightarrow> bool) \<Rightarrow> 'd \<Rightarrow> 'r option" where
  "find_first T P d = find P (rows T d)"

definition count_rows :: "('d, 'r) table \<Rightarrow> ('r \<Rightarrow> bool) \<Rightarrow> 'd \<Rightarrow> nat" where
  "count_rows T P d = length (filter P (rows T d))"

definition update_many :: "('d, 'r) table \<Rightarrow> ('r \<Rightarrow> bool) \<Rightarrow> ('r \<Rightarrow> 'r) \<Rightarrow> 'd \<Rightarrow> nat \<times> 'd" where
  "update_many T P f d = (count_rows T P d, update_rows T P f d)"

definition delete_many :: "('d, 'r) table \<Rightarrow> ('r \<Rightarrow> bool) \<Rightarrow> 'd \<Rightarrow> nat \<times> 'd" where
  "delete_many T P d = (count_rows T P d, delete_rows T P d)"

definition update_one :: "('d, 'r) table \<Rightarrow> ('r \<Rightarrow> bool) \<Rightarrow> ('r \<Rightarrow> 'r) \<Rightarrow> 'd \<Rightarrow> 'd option" where
  "update_one T P f d = (if find_first T P d = None then None else Some (update_rows T P f d))"

definition delete_one :: "('d, 'r) table \<Rightarrow> ('r \<Rightarrow> bool) \<Rightarrow> 'd \<Rightarrow> 'd option" where
  "delete_one T P d = (if find_first T P d = None then None else Some (delete_rows T P d))"

definition upsert :: "('d, 'r) table \<Rightarrow> ('r \<Rightarrow> bool) \<Rightarrow> 'r \<Rightarrow> ('r \<Rightarrow> 'r) \<Rightarrow> 'd \<Rightarrow> 'r \<times> 'd" where
  "upsert T P new f d =
     (case find_first T P d of
        None \<Rightarrow> (new, create_row T new d)
      | Some r \<Rightarrow> (f r, update_rows T P f d))"

section \<open>The contract\<close>

locale prisma_table =
  fixes T :: "('d, 'r) table"
  assumes create: "mset (rows T (create_row T r d)) = add_mset r (mset (rows T d))"
    and update: "mset (rows T (update_rows T P f d)) = image_mset (\<lambda>r. if P r then f r else r) (mset (rows T d))"
    and delete: "mset (rows T (delete_rows T P d)) = filter_mset (\<lambda>r. \<not> P r) (mset (rows T d))"
begin

lemma set_create [simp]: "set (rows T (create_row T r d)) = insert r (set (rows T d))"
  using create [of r d] by (metis set_mset_add_mset_insert set_mset_mset)

lemma set_update [simp]:
  "set (rows T (update_rows T P f d)) = (\<lambda>r. if P r then f r else r) ` set (rows T d)"
  using update [of P f d] by (metis set_image_mset set_mset_mset)

lemma set_delete [simp]: "set (rows T (delete_rows T P d)) = {r \<in> set (rows T d). \<not> P r}"
  using delete [of P d] by (metis set_mset_filter set_mset_mset)

lemma count_mset: "count_rows T P d = size (filter_mset P (mset (rows T d)))"
  unfolding count_rows_def by (metis mset_filter size_mset)

lemma count_create: "count_rows T P (create_row T r d) = count_rows T P d + (if P r then 1 else 0)"
  by (simp add: count_mset create)

lemma count_update:
  "count_rows T Q (update_rows T P f d) = count_rows T (\<lambda>r. Q (if P r then f r else r)) d"
  by (simp add: count_mset update filter_mset_image_mset)

lemma count_delete: "count_rows T Q (delete_rows T P d) = count_rows T (\<lambda>r. Q r \<and> \<not> P r) d"
  by (simp add: count_mset delete filter_filter_mset conj_commute)

end

lemma count_pos: "0 < count_rows T P d \<longleftrightarrow> (\<exists>r \<in> set (rows T d). P r)"
  by (auto simp: count_rows_def filter_empty_conv)

lemma count_zero: "count_rows T P d = 0 \<longleftrightarrow> (\<forall>r \<in> set (rows T d). \<not> P r)"
  by (simp add: count_rows_def filter_empty_conv)

lemma find_first_Some: "find_first T P d = Some r \<Longrightarrow> r \<in> set (rows T d) \<and> P r"
  unfolding find_first_def using find_SomeD by fastforce

lemma find_first_None: "find_first T P d = None \<longleftrightarrow> (\<forall>r \<in> set (rows T d). \<not> P r)"
  by (auto simp: find_first_def find_None_iff)

lemma count_cong: "(\<And>r. r \<in> set (rows T d) \<Longrightarrow> P r = Q r) \<Longrightarrow> count_rows T P d = count_rows T Q d"
  unfolding count_rows_def by (metis (mono_tags, lifting) filter_cong)

lemma length_filter_mono: "(\<And>x. x \<in> set xs \<Longrightarrow> P x \<Longrightarrow> Q x) \<Longrightarrow> length (filter P xs) \<le> length (filter Q xs)"
  by (induction xs) (auto simp: le_SucI)

lemma count_mono: "(\<And>r. r \<in> set (rows T d) \<Longrightarrow> P r \<Longrightarrow> Q r) \<Longrightarrow> count_rows T P d \<le> count_rows T Q d"
  unfolding count_rows_def by (rule length_filter_mono)

lemma count_split: "count_rows T P d = count_rows T (\<lambda>r. P r \<and> Q r) d + count_rows T (\<lambda>r. P r \<and> \<not> Q r) d"
  using sum_length_filter_compl [of Q "filter P (rows T d)"] by (simp add: count_rows_def)

text \<open>A statement on one table leaves the rows of another alone.\<close>

locale separate_tables =
  fixes T :: "('d, 'r) table" and U :: "('d, 's) table"
  assumes other_create [simp]: "mset (rows U (create_row T r d)) = mset (rows U d)"
    and other_update [simp]: "mset (rows U (update_rows T P f d)) = mset (rows U d)"
    and other_delete [simp]: "mset (rows U (delete_rows T P d)) = mset (rows U d)"
begin

lemma other_sets [simp]:
  "set (rows U (create_row T r d)) = set (rows U d)"
  "set (rows U (update_rows T P f d)) = set (rows U d)"
  "set (rows U (delete_rows T P d)) = set (rows U d)"
  using other_create other_update other_delete by (metis set_mset_mset)+

end

lemma count_same_rows: "mset (rows T d) = mset (rows T e) \<Longrightarrow> count_rows T P d = count_rows T P e"
  unfolding count_rows_def by (metis mset_filter size_mset)

section \<open>A table kept as a list\<close>

definition list_table :: "('d \<Rightarrow> 'r list) \<Rightarrow> (('r list \<Rightarrow> 'r list) \<Rightarrow> 'd \<Rightarrow> 'd) \<Rightarrow> ('d, 'r) table" where
  "list_table get upd =
     \<lparr>rows = get,
      create_row = (\<lambda>r. upd (\<lambda>rs. rs @ [r])),
      update_rows = (\<lambda>P f. upd (map (\<lambda>r. if P r then f r else r))),
      delete_rows = (\<lambda>P. upd (filter (\<lambda>r. \<not> P r)))\<rparr>"

lemma list_table_contract: "(\<And>f d. get (upd f d) = f (get d)) \<Longrightarrow> prisma_table (list_table get upd)"
  by unfold_locales (simp_all add: list_table_def)

lemma list_tables_separate: "(\<And>f d. get' (upd f d) = get' d) \<Longrightarrow>
  separate_tables (list_table get upd) (list_table get' upd')"
  by unfold_locales (simp_all add: list_table_def)

interpretation one_table: prisma_table "list_table (\<lambda>d. d) (\<lambda>f. f)"
  by (rule list_table_contract) simp

end
