(* ===== verification/Orgs.thy ===== *)
theory Orgs
  imports Database Json
begin

text \<open>
  \<open>apps/api/src/orgs/orgs.service.ts\<close> with the audit writer \<open>common/audit/audit.service.ts\<close> and the
  envelope of \<open>common/dto/pagination.dto.ts\<close>: members and their roles, the rule that an organization
  keeps an owner, and the audit trail as a tenant sees it.

  The rows are those of \<open>prisma/schema.prisma\<close>; \<open>tenancy\<close> names the tables. Role changes and removals
  read first and then write in a transaction of their own, so each is a check that plans a \<open>role_write\<close>
  and the transaction \<open>write_role\<close>; the service runs one after the other, and two requests may run both
  checks before either write. A \<open>stamp\<close> is what the database, the clock and the request supply to a
  write: new ids, the time and the correlation id.
\<close>

section \<open>Rows\<close>

datatype org_role = Owner | Admin | Member

fun role_name :: "org_role \<Rightarrow> string" where
  "role_name Owner = ''OWNER''"
| "role_name Admin = ''ADMIN''"
| "role_name Member = ''MEMBER''"

record organization =
  org_id :: string
  org_name :: string

record membership =
  mem_id :: string
  mem_org :: string
  mem_user :: string
  mem_role :: org_role
  mem_createdAt :: nat

datatype invitation_status = Pending | Accepted | Revoked | Expired

record invitation =
  inv_id :: string
  inv_org :: string
  inv_email :: string
  inv_role :: org_role
  inv_tokenHash :: string
  inv_status :: invitation_status
  inv_invitedBy :: string
  inv_expiresAt :: nat
  inv_acceptedAt :: "nat option"
  inv_acceptedBy :: "string option"
  inv_createdAt :: nat

record user_row =
  usr_id :: string
  usr_email :: string
  usr_name :: string

record audit_row =
  log_id :: string
  log_org :: "string option"
  log_user :: "string option"
  log_admin :: "string option"
  log_action :: string
  log_entityType :: string
  log_entityId :: string
  log_meta :: json
  log_createdAt :: nat

record 'd tenancy =
  orgs_of :: "('d, organization) table"
  members_of :: "('d, membership) table"
  invites_of :: "('d, invitation) table"
  users_of :: "('d, user_row) table"
  audit_of :: "('d, audit_row) table"

record stamp =
  new_id :: string
  new_audit_id :: string
  now :: nat
  request_id :: "string option"

section \<open>The audit writer\<close>

record audit_entry =
  ae_action :: string
  ae_entityType :: string
  ae_entityId :: string
  ae_org :: "string option"
  ae_user :: "string option"
  ae_admin :: "string option"
  ae_adminEmail :: "string option"
  ae_before :: json
  ae_after :: json
  ae_reason :: "string option"
  ae_extra :: "(string \<times> json) list"

text \<open>\<open>JSON.parse(JSON.stringify(v))\<close>: \<open>undefined\<close> is dropped from objects and is \<open>null\<close> in arrays.\<close>

fun json_round :: "json \<Rightarrow> json" where
  "json_round (JArr xs) = JArr (map (\<lambda>x. if x = JUndef then JNull else json_round x) xs)"
| "json_round (JObj kvs) =
     JObj (concat (map (\<lambda>(k, v). if v = JUndef then [] else [(k, json_round v)]) kvs))"
| "json_round j = j"

definition to_json :: "json \<Rightarrow> json" where
  "to_json v = json_round (if v = JUndef \<or> v = JNull then JObj [] else v)"

fun set_text :: "string \<Rightarrow> string option \<Rightarrow> (string \<times> json) list \<Rightarrow> (string \<times> json) list" where
  "set_text k None kvs = kvs"
| "set_text k (Some s) kvs = (if s = [] then kvs else assoc_set k (JStr s) kvs)"

definition audit_meta :: "string option \<Rightarrow> audit_entry \<Rightarrow> (string \<times> json) list" where
  "audit_meta request e =
     (let m1 = set_text ''requestId'' request (ae_extra e);
          m2 = set_text ''adminActorEmail'' (ae_adminEmail e) m1;
          m3 = (case ae_reason e of None \<Rightarrow> m2 | Some r \<Rightarrow> assoc_set ''reason'' (JStr r) m2);
          m4 = (if ae_before e \<noteq> JUndef then assoc_set ''before'' (ae_before e) m3 else m3)
      in if ae_after e \<noteq> JUndef then assoc_set ''after'' (ae_after e) m4 else m4)"

definition build_data :: "stamp \<Rightarrow> audit_entry \<Rightarrow> audit_row" where
  "build_data st e =
     \<lparr>log_id = new_audit_id st, log_org = ae_org e, log_user = ae_user e, log_admin = ae_admin e,
      log_action = ae_action e, log_entityType = ae_entityType e, log_entityId = ae_entityId e,
      log_meta = to_json (JObj (audit_meta (request_id st) e)), log_createdAt = now st\<rparr>"

definition entry :: "string \<Rightarrow> string \<Rightarrow> string \<Rightarrow> string \<Rightarrow> string option \<Rightarrow> audit_entry" where
  "entry action entity i o' u =
     \<lparr>ae_action = action, ae_entityType = entity, ae_entityId = i, ae_org = Some o', ae_user = u,
      ae_admin = None, ae_adminEmail = None, ae_before = JUndef, ae_after = JUndef, ae_reason = None,
      ae_extra = []\<rparr>"

section \<open>Members\<close>

datatype org_error =
    OrgNotFound
  | NotMember
  | InsufficientPermissions
  | MembershipNotFound
  | OwnerRoleForbidden
  | OwnerRemovalForbidden
  | LastOwner string
  | RecordNotFound

definition at_member :: "string \<Rightarrow> string \<Rightarrow> membership \<Rightarrow> bool" where
  "at_member o' u m \<longleftrightarrow> mem_org m = o' \<and> mem_user m = u"

definition is_owner_of :: "string \<Rightarrow> membership \<Rightarrow> bool" where
  "is_owner_of o' m \<longleftrightarrow> mem_org m = o' \<and> mem_role m = Owner"

definition find_one :: "'d tenancy \<Rightarrow> string \<Rightarrow> string \<Rightarrow> 'd \<Rightarrow> org_error + (organization \<times> org_role)" where
  "find_one db o' u d =
     (case find_first (members_of db) (at_member o' u) d of
        None \<Rightarrow> Inl OrgNotFound
      | Some m \<Rightarrow> (case find_first (orgs_of db) (\<lambda>g. org_id g = mem_org m) d of
            None \<Rightarrow> Inl OrgNotFound
          | Some g \<Rightarrow> Inr (g, mem_role m)))"

text \<open>\<open>create\<close>: the organization and its first owner, in one nested write.\<close>

definition create_org :: "'d tenancy \<Rightarrow> stamp \<Rightarrow> string \<Rightarrow> string \<Rightarrow> string \<Rightarrow> 'd \<Rightarrow> 'd" where
  "create_org db st member_id name u d =
     create_row (members_of db)
       \<lparr>mem_id = member_id, mem_org = new_id st, mem_user = u, mem_role = Owner, mem_createdAt = now st\<rparr>
       (create_row (orgs_of db) \<lparr>org_id = new_id st, org_name = name\<rparr> d)"

definition check_membership ::
  "'d tenancy \<Rightarrow> string \<Rightarrow> string \<Rightarrow> org_role list option \<Rightarrow> 'd \<Rightarrow> org_error + membership" where
  "check_membership db o' u required d =
     (case find_first (members_of db) (at_member o' u) d of
        None \<Rightarrow> Inl NotMember
      | Some m \<Rightarrow> (case required of
            None \<Rightarrow> Inr m
          | Some roles \<Rightarrow> if mem_role m \<notin> set roles then Inl InsufficientPermissions else Inr m))"

definition assert_not_last_owner :: "'d tenancy \<Rightarrow> string \<Rightarrow> string \<Rightarrow> 'd \<Rightarrow> org_error option" where
  "assert_not_last_owner db o' action d =
     (let owners = count_rows (members_of db) (is_owner_of o') d
      in if owners \<le> 1 then Some (LastOwner action) else None)"

text \<open>What the transaction of a checked request does: \<open>rw_new\<close> is \<open>None\<close> for a removal.\<close>

record role_write =
  rw_org :: string
  rw_user :: string
  rw_member :: string
  rw_old :: org_role
  rw_new :: "org_role option"
  rw_actor :: string
  rw_reason :: "string option"

definition check_role_change ::
  "'d tenancy \<Rightarrow> string \<Rightarrow> string \<Rightarrow> org_role \<Rightarrow> string \<Rightarrow> org_role \<Rightarrow> string option \<Rightarrow> 'd \<Rightarrow>
   org_error + role_write option" where
  "check_role_change db o' target new actor actor_role reason d =
     (case find_first (members_of db) (at_member o' target) d of
        None \<Rightarrow> Inl MembershipNotFound
      | Some t \<Rightarrow>
          if (new = Owner \<or> mem_role t = Owner) \<and> actor_role \<noteq> Owner then Inl OwnerRoleForbidden
          else if mem_role t = new then Inr None
          else (case (if mem_role t = Owner \<and> new \<noteq> Owner then assert_not_last_owner db o' ''demote'' d else None) of
              Some e \<Rightarrow> Inl e
            | None \<Rightarrow> Inr (Some \<lparr>rw_org = o', rw_user = target, rw_member = mem_id t, rw_old = mem_role t,
                  rw_new = Some new, rw_actor = actor, rw_reason = reason\<rparr>)))"

definition check_removal ::
  "'d tenancy \<Rightarrow> string \<Rightarrow> string \<Rightarrow> string \<Rightarrow> org_role \<Rightarrow> string option \<Rightarrow> 'd \<Rightarrow> org_error + role_write" where
  "check_removal db o' target actor actor_role reason d =
     (case find_first (members_of db) (at_member o' target) d of
        None \<Rightarrow> Inl MembershipNotFound
      | Some t \<Rightarrow>
          if mem_role t = Owner \<and> actor_role \<noteq> Owner then Inl OwnerRemovalForbidden
          else (case (if mem_role t = Owner then assert_not_last_owner db o' ''remove'' d else None) of
              Some e \<Rightarrow> Inl e
            | None \<Rightarrow> Inr \<lparr>rw_org = o', rw_user = target, rw_member = mem_id t, rw_old = mem_role t,
                  rw_new = None, rw_actor = actor, rw_reason = reason\<rparr>))"

definition role_entry :: "role_write \<Rightarrow> audit_entry" where
  "role_entry w =
     (entry (if rw_new w = None then ''org.member.remove'' else ''org.member.role_change'')
        ''OrgMembership'' (rw_member w) (rw_org w) (Some (rw_user w)))
     \<lparr>ae_reason := rw_reason w,
      ae_before := JObj [(''role'', JStr (role_name (rw_old w)))],
      ae_after := (case rw_new w of None \<Rightarrow> JNull | Some r \<Rightarrow> JObj [(''role'', JStr (role_name r))]),
      ae_extra := [(''actorUserId'', JStr (rw_actor w))]\<rparr>"

text \<open>The transaction: \<open>None\<close> when the row is gone and the client throws, which rolls it back.\<close>

definition write_role :: "'d tenancy \<Rightarrow> stamp \<Rightarrow> role_write \<Rightarrow> 'd \<Rightarrow> 'd option" where
  "write_role db st w d =
     (case (case rw_new w of
              Some r \<Rightarrow> update_one (members_of db) (at_member (rw_org w) (rw_user w)) (mem_role_update (\<lambda>_. r)) d
            | None \<Rightarrow> delete_one (members_of db) (at_member (rw_org w) (rw_user w)) d) of
        None \<Rightarrow> None
      | Some d' \<Rightarrow> Some (create_row (audit_of db) (build_data st (role_entry w)) d'))"

definition update_member_role ::
  "'d tenancy \<Rightarrow> stamp \<Rightarrow> string \<Rightarrow> string \<Rightarrow> org_role \<Rightarrow> string \<Rightarrow> org_role \<Rightarrow> string option \<Rightarrow> 'd \<Rightarrow>
   (org_error + org_role) \<times> 'd" where
  "update_member_role db st o' target new actor actor_role reason d =
     (case check_role_change db o' target new actor actor_role reason d of
        Inl e \<Rightarrow> (Inl e, d)
      | Inr None \<Rightarrow> (Inr new, d)
      | Inr (Some w) \<Rightarrow> (case write_role db st w d of
            None \<Rightarrow> (Inl RecordNotFound, d)
          | Some d' \<Rightarrow> (Inr new, d')))"

definition remove_member ::
  "'d tenancy \<Rightarrow> stamp \<Rightarrow> string \<Rightarrow> string \<Rightarrow> string \<Rightarrow> org_role \<Rightarrow> string option \<Rightarrow> 'd \<Rightarrow>
   (org_error + unit) \<times> 'd" where
  "remove_member db st o' target actor actor_role reason d =
     (case check_removal db o' target actor actor_role reason d of
        Inl e \<Rightarrow> (Inl e, d)
      | Inr w \<Rightarrow> (case write_role db st w d of
            None \<Rightarrow> (Inl RecordNotFound, d)
          | Some d' \<Rightarrow> (Inr (), d')))"

section \<open>The audit trail of a tenant\<close>

record tenant_audit_row =
  ta_id :: string
  ta_org :: "string option"
  ta_user :: "string option"
  ta_action :: string
  ta_entityType :: string
  ta_entityId :: string
  ta_createdAt :: nat
  ta_byPlatformAdmin :: bool
  ta_reason :: "string option"
  ta_before :: json
  ta_after :: json

definition sensitive_meta_keys :: "string list" where
  "sensitive_meta_keys = [''updatedByAdminId'', ''adminActorId'', ''adminActorEmail'', ''requestId'']"

fun strip_sensitive_deep :: "json \<Rightarrow> json" where
  "strip_sensitive_deep (JArr xs) = JArr (map strip_sensitive_deep xs)"
| "strip_sensitive_deep (JObj kvs) =
     JObj (concat (map (\<lambda>(k, v). if k \<in> set sensitive_meta_keys then [] else [(k, strip_sensitive_deep v)]) kvs))"
| "strip_sensitive_deep j = j"

definition nullish :: "json \<Rightarrow> bool" where
  "nullish j \<longleftrightarrow> j = JUndef \<or> j = JNull"

definition redact_audit_row :: "audit_row \<Rightarrow> tenant_audit_row" where
  "redact_audit_row r =
     (let meta = (case log_meta r of JObj kvs \<Rightarrow> JObj kvs | _ \<Rightarrow> JObj []);
          by_admin = (log_admin r \<noteq> None);
          reason_allowed = (\<not> by_admin \<or> log_action r = ''admin.org.suspend'')
      in \<lparr>ta_id = log_id r, ta_org = log_org r, ta_user = log_user r, ta_action = log_action r,
          ta_entityType = log_entityType r, ta_entityId = log_entityId r, ta_createdAt = log_createdAt r,
          ta_byPlatformAdmin = by_admin,
          ta_reason = (if reason_allowed then (case obj_get ''reason'' meta of JStr s \<Rightarrow> Some s | _ \<Rightarrow> None) else None),
          ta_before = (if nullish (obj_get ''before'' meta) then JNull else strip_sensitive_deep (obj_get ''before'' meta)),
          ta_after = (if nullish (obj_get ''after'' meta) then JNull else strip_sensitive_deep (obj_get ''after'' meta))\<rparr>)"

record 'a page =
  page_items :: "'a list"
  page_total :: nat
  page_limit :: nat
  page_offset :: nat
  has_more :: bool

definition paginated :: "'a list \<Rightarrow> nat \<Rightarrow> nat \<Rightarrow> nat \<Rightarrow> 'a page" where
  "paginated xs n limit offset =
     \<lparr>page_items = xs, page_total = n, page_limit = limit, page_offset = offset,
      has_more = (offset + length xs < n)\<rparr>"

definition given :: "string option \<Rightarrow> string option \<Rightarrow> bool" where
  "given f v \<longleftrightarrow> (case f of None \<Rightarrow> True | Some s \<Rightarrow> s = [] \<or> v = Some s)"

text \<open>\<open>ordered\<close> is the \<open>orderBy\<close> of the statement.\<close>

definition list_audit_logs ::
  "'d tenancy \<Rightarrow> (audit_row list \<Rightarrow> audit_row list) \<Rightarrow> string \<Rightarrow> nat \<Rightarrow> nat \<Rightarrow>
   string option \<Rightarrow> string option \<Rightarrow> string option \<Rightarrow> 'd \<Rightarrow> tenant_audit_row page" where
  "list_audit_logs db ordered o' limit offset action entity user d =
     (let P = (\<lambda>r. log_org r = Some o' \<and> given action (Some (log_action r)) \<and>
                 given entity (Some (log_entityType r)) \<and> given user (log_user r));
          page = take limit (drop offset (ordered (filter P (rows (audit_of db) d))))
      in paginated (map redact_audit_row page) (count_rows (audit_of db) P d) limit offset)"

section \<open>The store\<close>

text \<open>
  What the services rely on: each table keeps the contract, and a write to one of them leaves the
  members, or the invitations, alone unless it is theirs.
\<close>

locale tenancy_store =
  fixes db :: "'d tenancy"
  assumes members_table: "prisma_table (members_of db)"
    and invites_table: "prisma_table (invites_of db)"
    and audit_table: "prisma_table (audit_of db)"
    and orgs_members: "separate_tables (orgs_of db) (members_of db)"
    and audit_members: "separate_tables (audit_of db) (members_of db)"
    and invites_members: "separate_tables (invites_of db) (members_of db)"
    and orgs_invites: "separate_tables (orgs_of db) (invites_of db)"
    and audit_invites: "separate_tables (audit_of db) (invites_of db)"
    and members_invites: "separate_tables (members_of db) (invites_of db)"

text \<open>
  The schema's \<open>@@unique([orgId, userId])\<close>, and the number of owners.
\<close>

definition unique_members :: "'d tenancy \<Rightarrow> 'd \<Rightarrow> bool" where
  "unique_members db d \<longleftrightarrow> (\<forall>o' u. count_rows (members_of db) (at_member o' u) d \<le> 1)"

definition owners :: "'d tenancy \<Rightarrow> string \<Rightarrow> 'd \<Rightarrow> nat" where
  "owners db o' d = count_rows (members_of db) (is_owner_of o') d"

definition owner_rows :: "'d tenancy \<Rightarrow> 'd \<Rightarrow> membership set" where
  "owner_rows db d = {m \<in> set (rows (members_of db) d). mem_role m = Owner}"

lemma at_member_update [simp]: "at_member o' u (mem_role_update f m) = at_member o' u m"
  by (simp add: at_member_def)

lemma count_le_one:
  assumes "count_rows T P d \<le> 1" "r \<in> set (rows T d)" "s \<in> set (rows T d)" "P r" "P s"
  shows "r = s"
proof -
  have "r \<in> set (filter P (rows T d))" "s \<in> set (filter P (rows T d))" using assms by auto
  then show ?thesis using assms(1) unfolding count_rows_def
    by (cases "filter P (rows T d)"; cases "tl (filter P (rows T d))") auto
qed

lemma assert_not_last_owner_None: "assert_not_last_owner db o' a d = None \<longleftrightarrow> 2 \<le> owners db o' d"
  by (auto simp: assert_not_last_owner_def owners_def Let_def)

text \<open>
  What a check promises about the write it plans: the row it read, that a write taking an owner away
  leaves another one, and that a write of the role of an owner, or to it, is for an owner.
\<close>

definition checked :: "'d tenancy \<Rightarrow> role_write \<Rightarrow> 'd \<Rightarrow> bool" where
  "checked db w d \<longleftrightarrow>
     (case find_first (members_of db) (at_member (rw_org w) (rw_user w)) d of
        None \<Rightarrow> False
      | Some t \<Rightarrow> mem_role t = Owner \<and> rw_new w \<noteq> Some Owner \<longrightarrow> 2 \<le> owners db (rw_org w) d)"

lemma check_role_change_checked:
  assumes "check_role_change db o' target new actor actor_role reason d = Inr (Some w)"
  shows "checked db w d \<and> rw_org w = o' \<and> rw_user w = target \<and> rw_new w = Some new"
  using assms
  by (auto simp: check_role_change_def checked_def assert_not_last_owner_None split: if_splits option.splits)

lemma check_removal_checked:
  assumes "check_removal db o' target actor actor_role reason d = Inr w"
  shows "checked db w d \<and> rw_org w = o' \<and> rw_user w = target \<and> rw_new w = None"
  using assms
  by (auto simp: check_removal_def checked_def assert_not_last_owner_None split: if_splits option.splits)

text \<open>Each operation either leaves the database alone or runs a write its own check planned.\<close>

lemma update_member_role_cases:
  assumes "update_member_role db st o' target new actor actor_role reason d = (res, d')"
  obtains "d' = d"
  | w where "check_role_change db o' target new actor actor_role reason d = Inr (Some w)"
      "write_role db st w d = Some d'"
  using assms unfolding update_member_role_def by (auto split: sum.splits option.splits)

lemma remove_member_cases:
  assumes "remove_member db st o' target actor actor_role reason d = (res, d')"
  obtains "d' = d"
  | w where "check_removal db o' target actor actor_role reason d = Inr w" "write_role db st w d = Some d'"
  using assms unfolding remove_member_def by (auto split: sum.splits option.splits)

sublocale tenancy_store \<subseteq> members: prisma_table "members_of db"
  by (rule members_table)

sublocale tenancy_store \<subseteq> invites: prisma_table "invites_of db"
  by (rule invites_table)

sublocale tenancy_store \<subseteq> audit: prisma_table "audit_of db"
  by (rule audit_table)

sublocale tenancy_store \<subseteq> orgs_members: separate_tables "orgs_of db" "members_of db"
  by (rule orgs_members)

sublocale tenancy_store \<subseteq> audit_members: separate_tables "audit_of db" "members_of db"
  by (rule audit_members)

sublocale tenancy_store \<subseteq> invites_members: separate_tables "invites_of db" "members_of db"
  by (rule invites_members)

sublocale tenancy_store \<subseteq> orgs_invites: separate_tables "orgs_of db" "invites_of db"
  by (rule orgs_invites)

sublocale tenancy_store \<subseteq> audit_invites: separate_tables "audit_of db" "invites_of db"
  by (rule audit_invites)

sublocale tenancy_store \<subseteq> members_invites: separate_tables "members_of db" "invites_of db"
  by (rule members_invites)

context tenancy_store
begin

lemma members_of_writes:
  "count_rows (members_of db) P (create_row (audit_of db) a d) = count_rows (members_of db) P d"
  "count_rows (members_of db) P (create_row (orgs_of db) g d) = count_rows (members_of db) P d"
  "count_rows (members_of db) P (create_row (invites_of db) i d) = count_rows (members_of db) P d"
  "count_rows (members_of db) P (update_rows (invites_of db) Q f d) = count_rows (members_of db) P d"
  by (rule count_same_rows; simp)+

lemma write_role_SomeE:
  assumes "write_role db st w d = Some d'"
  obtains "\<exists>m \<in> set (rows (members_of db) d). at_member (rw_org w) (rw_user w) m"
    "\<And>P. count_rows (members_of db) P d' =
       count_rows (members_of db) (\<lambda>m. if at_member (rw_org w) (rw_user w) m
         then (case rw_new w of None \<Rightarrow> False | Some r \<Rightarrow> P (mem_role_update (\<lambda>_. r) m)) else P m) d"
    "set (rows (members_of db) d') = (case rw_new w of
        None \<Rightarrow> {m \<in> set (rows (members_of db) d). \<not> at_member (rw_org w) (rw_user w) m}
      | Some r \<Rightarrow> (\<lambda>m. if at_member (rw_org w) (rw_user w) m then mem_role_update (\<lambda>_. r) m else m) `
          set (rows (members_of db) d))"
proof (cases "rw_new w")
  case None
  then have *: "find_first (members_of db) (at_member (rw_org w) (rw_user w)) d \<noteq> None"
      "d' = create_row (audit_of db) (build_data st (role_entry w))
         (delete_rows (members_of db) (at_member (rw_org w) (rw_user w)) d)"
    using assms by (auto simp: write_role_def delete_one_def split: if_splits)
  show ?thesis
    by (rule that) (use * None in \<open>auto simp: find_first_None members_of_writes members.count_delete conj_commute
        intro!: count_cong\<close>)
next
  case (Some r)
  then have *: "find_first (members_of db) (at_member (rw_org w) (rw_user w)) d \<noteq> None"
      "d' = create_row (audit_of db) (build_data st (role_entry w))
         (update_rows (members_of db) (at_member (rw_org w) (rw_user w)) (mem_role_update (\<lambda>_. r)) d)"
    using assms by (auto simp: write_role_def update_one_def split: if_splits)
  show ?thesis
    by (rule that) (use * Some in \<open>auto simp: find_first_None members_of_writes members.count_update
        intro!: count_cong\<close>)
qed

lemma write_role_count:
  assumes "write_role db st w d = Some d'"
  shows "count_rows (members_of db) P d' =
       count_rows (members_of db) (\<lambda>m. if at_member (rw_org w) (rw_user w) m
         then (case rw_new w of None \<Rightarrow> False | Some r \<Rightarrow> P (mem_role_update (\<lambda>_. r) m)) else P m) d"
  by (rule write_role_SomeE [OF assms])

lemma write_role_unique:
  assumes "write_role db st w d = Some d'" "unique_members db d"
  shows "unique_members db d'"
proof (rule write_role_SomeE [OF assms(1)])
  assume c: "\<And>P. count_rows (members_of db) P d' =
       count_rows (members_of db) (\<lambda>m. if at_member (rw_org w) (rw_user w) m
         then (case rw_new w of None \<Rightarrow> False | Some r \<Rightarrow> P (mem_role_update (\<lambda>_. r) m)) else P m) d"
  have "count_rows (members_of db) (at_member o' u) d' \<le> count_rows (members_of db) (at_member o' u) d" for o' u
    unfolding c by (rule count_mono) (auto split: if_splits option.splits)
  then show ?thesis using assms(2) unfolding unique_members_def by (meson le_trans)
qed

text \<open>
  A write takes at most one owner away, and only where it was planned for an owner or against one.
\<close>

lemma write_role_owners:
  assumes w: "write_role db st w d = Some d'" and u: "unique_members db d"
  shows "owners db o' d \<le> owners db o' d' + (if rw_org w = o' \<and> rw_new w \<noteq> Some Owner then 1 else 0)"
proof (rule write_role_SomeE [OF w])
  let ?K = "at_member (rw_org w) (rw_user w)" and ?n = "count_rows (members_of db)"
  assume c: "\<And>P. ?n P d' = ?n (\<lambda>m. if ?K m
         then (case rw_new w of None \<Rightarrow> False | Some r \<Rightarrow> P (mem_role_update (\<lambda>_. r) m)) else P m) d"
  have split: "owners db o' d = ?n (\<lambda>m. is_owner_of o' m \<and> ?K m) d + ?n (\<lambda>m. is_owner_of o' m \<and> \<not> ?K m) d"
    unfolding owners_def by (rule count_split)
  have rest: "?n (\<lambda>m. is_owner_of o' m \<and> \<not> ?K m) d \<le> owners db o' d'"
    unfolding owners_def c by (rule count_mono) auto
  show ?thesis
  proof (cases "rw_org w = o' \<and> rw_new w \<noteq> Some Owner")
    case True
    have "?n (\<lambda>m. is_owner_of o' m \<and> ?K m) d \<le> ?n ?K d" by (rule count_mono) auto
    also have "\<dots> \<le> 1" using u by (simp add: unique_members_def)
    finally show ?thesis using split rest True by simp
  next
    case False
    have "owners db o' d \<le> owners db o' d'"
      unfolding owners_def c
      by (rule count_mono) (use False in \<open>auto simp: is_owner_of_def at_member_def\<close>)
    then show ?thesis by simp
  qed
qed

lemma write_role_not_owner:
  assumes w: "write_role db st w d = Some d'" and u: "unique_members db d"
    and t: "find_first (members_of db) (at_member (rw_org w) (rw_user w)) d = Some t" "mem_role t \<noteq> Owner"
  shows "owners db o' d \<le> owners db o' d'"
proof (rule write_role_SomeE [OF w])
  let ?K = "at_member (rw_org w) (rw_user w)"
  assume c: "\<And>P. count_rows (members_of db) P d' = count_rows (members_of db) (\<lambda>m. if ?K m
    then (case rw_new w of None \<Rightarrow> False | Some r \<Rightarrow> P (mem_role_update (\<lambda>_. r) m)) else P m) d"
  have "m = t" if "m \<in> set (rows (members_of db) d)" "?K m" for m
    using that count_le_one [of "members_of db" ?K d m t] find_first_Some [OF t(1)] u
    by (simp add: unique_members_def)
  then show ?thesis unfolding owners_def c
    by (intro count_mono) (use t(2) in \<open>auto simp: is_owner_of_def\<close>)
qed

lemma write_checked_keeps:
  assumes w: "write_role db st w d = Some d'" and u: "unique_members db d" and ch: "checked db w d"
    and own: "owners db o' d \<ge> 1"
  shows "owners db o' d' \<ge> 1"
proof -
  obtain t where t: "find_first (members_of db) (at_member (rw_org w) (rw_user w)) d = Some t"
    "mem_role t = Owner \<Longrightarrow> rw_new w \<noteq> Some Owner \<Longrightarrow> 2 \<le> owners db (rw_org w) d"
    using ch by (auto simp: checked_def split: option.splits)
  show ?thesis
  proof (cases "mem_role t = Owner")
    case True
    then show ?thesis using write_role_owners [OF w u, of o'] t(2) own by (auto split: if_splits)
  next
    case False
    then show ?thesis using write_role_not_owner [OF w u t(1)] own le_trans by blast
  qed
qed

lemma update_member_role_keeps:
  assumes "update_member_role db st o' target new actor actor_role reason d = (res, d')"
    and u: "unique_members db d"
  shows "unique_members db d' \<and> (owners db g d \<ge> 1 \<longrightarrow> owners db g d' \<ge> 1)"
  using assms(1)
proof (cases rule: update_member_role_cases)
  case (2 w)
  then have "checked db w d" by (intro check_role_change_checked [THEN conjunct1])
  then show ?thesis using write_role_unique [OF 2(2) u] write_checked_keeps [OF 2(2) u] by (intro conjI impI)
qed (simp add: u)

lemma remove_member_keeps:
  assumes "remove_member db st o' target actor actor_role reason d = (res, d')"
    and u: "unique_members db d"
  shows "unique_members db d' \<and> (owners db g d \<ge> 1 \<longrightarrow> owners db g d' \<ge> 1)"
  using assms(1)
proof (cases rule: remove_member_cases)
  case (2 w)
  then have "checked db w d" by (intro check_removal_checked [THEN conjunct1])
  then show ?thesis using write_role_unique [OF 2(2) u] write_checked_keeps [OF 2(2) u] by (intro conjI impI)
qed (simp add: u)

text \<open>The id of a new organization is new: no membership names it yet.\<close>

lemma create_org_keeps:
  assumes "unique_members db d" "count_rows (members_of db) (\<lambda>m. mem_org m = new_id st) d = 0"
  shows "unique_members db (create_org db st i name u d)"
    and "owners db g d \<ge> 1 \<Longrightarrow> owners db g (create_org db st i name u d) \<ge> 1"
    and "owners db (new_id st) (create_org db st i name u d) = 1"
proof -
  have z: "count_rows (members_of db) (at_member (new_id st) v) d = 0"
    "count_rows (members_of db) (is_owner_of (new_id st)) d = 0" for v
    using assms(2) by (auto simp: count_zero at_member_def is_owner_of_def)
  show "unique_members db (create_org db st i name u d)"
    using assms(1) z by (auto simp: unique_members_def create_org_def members.count_create members_of_writes at_member_def)
  show "owners db g d \<ge> 1 \<Longrightarrow> owners db g (create_org db st i name u d) \<ge> 1"
    by (simp add: owners_def create_org_def members.count_create members_of_writes)
  show "owners db (new_id st) (create_org db st i name u d) = 1"
    using z by (simp add: owners_def create_org_def members.count_create members_of_writes is_owner_of_def)
qed

text \<open>Who is not an owner leaves the owners alone.\<close>

lemma write_role_owner_rows:
  assumes w: "write_role db st w d = Some d'" and u: "unique_members db d"
    and t: "find_first (members_of db) (at_member (rw_org w) (rw_user w)) d = Some t" "mem_role t \<noteq> Owner"
    and new: "rw_new w \<noteq> Some Owner"
  shows "owner_rows db d' = owner_rows db d"
proof (rule write_role_SomeE [OF w])
  let ?K = "at_member (rw_org w) (rw_user w)"
  assume s: "set (rows (members_of db) d') = (case rw_new w of
        None \<Rightarrow> {m \<in> set (rows (members_of db) d). \<not> ?K m}
      | Some r \<Rightarrow> (\<lambda>m. if ?K m then mem_role_update (\<lambda>_. r) m else m) ` set (rows (members_of db) d))"
  have "m = t" if "m \<in> set (rows (members_of db) d)" "?K m" for m
    using that count_le_one [of "members_of db" ?K d m t] find_first_Some [OF t(1)] u
    by (simp add: unique_members_def)
  then have no: "mem_role m \<noteq> Owner" if "m \<in> set (rows (members_of db) d)" "?K m" for m
    using that t(2) by blast
  show ?thesis
  proof (cases "rw_new w")
    case None
    then show ?thesis unfolding owner_rows_def s using no by auto
  next
    case (Some r)
    then show ?thesis unfolding owner_rows_def s using no new by (force simp: image_iff)
  qed
qed

lemma update_member_role_owner_rows:
  assumes "actor_role \<noteq> Owner" "unique_members db d"
  shows "owner_rows db (snd (update_member_role db st o' target new actor actor_role reason d)) = owner_rows db d"
proof (cases "update_member_role db st o' target new actor actor_role reason d")
  case (Pair res d')
  then show ?thesis
  proof (cases rule: update_member_role_cases)
    case (2 w)
    obtain t where t: "find_first (members_of db) (at_member o' target) d = Some t" "mem_role t \<noteq> Owner" "new \<noteq> Owner"
      using 2(1) assms(1) by (auto simp: check_role_change_def split: option.splits if_splits)
    have w: "rw_org w = o'" "rw_user w = target" "rw_new w = Some new"
      using check_role_change_checked [OF 2(1)] by simp_all
    show ?thesis using write_role_owner_rows [OF 2(2) assms(2), of t] t w Pair by simp
  qed (simp add: Pair)
qed

lemma remove_member_owner_rows:
  assumes "actor_role \<noteq> Owner" "unique_members db d"
  shows "owner_rows db (snd (remove_member db st o' target actor actor_role reason d)) = owner_rows db d"
proof (cases "remove_member db st o' target actor actor_role reason d")
  case (Pair res d')
  then show ?thesis
  proof (cases rule: remove_member_cases)
    case (2 w)
    obtain t where t: "find_first (members_of db) (at_member o' target) d = Some t" "mem_role t \<noteq> Owner"
      using 2(1) assms(1) by (auto simp: check_removal_def split: option.splits if_splits)
    have w: "rw_org w = o'" "rw_user w = target" "rw_new w = None"
      using check_removal_checked [OF 2(1)] by simp_all
    show ?thesis using write_role_owner_rows [OF 2(2) assms(2), of t] t w Pair by simp
  qed (simp add: Pair)
qed

text \<open>
  Two owners of an organization with no third, each demoting the other: both checks count two owners and
  pass, and then both writes run.
\<close>

lemma demotions_race:
  assumes u: "unique_members db d" and o2: "owners db o' d = 2"
    and a: "a \<in> set (rows (members_of db) d)" "is_owner_of o' a"
    and b: "b \<in> set (rows (members_of db) d)" "is_owner_of o' b" and ab: "mem_user a \<noteq> mem_user b"
  shows "\<exists>w1 w2 d1 d2.
    check_role_change db o' (mem_user a) Admin (mem_user b) Owner None d = Inr (Some w1) \<and>
    check_role_change db o' (mem_user b) Admin (mem_user a) Owner None d = Inr (Some w2) \<and>
    write_role db st w1 d = Some d1 \<and> write_role db st w2 d1 = Some d2 \<and> owners db o' d2 = 0"
proof -
  let ?n = "count_rows (members_of db)"
  have found: "find_first (members_of db) (at_member o' (mem_user m)) d = Some m"
    if "m \<in> set (rows (members_of db) d)" "is_owner_of o' m" for m
  proof (cases "find_first (members_of db) (at_member o' (mem_user m)) d")
    case None
    then show ?thesis using that by (auto simp: find_first_None at_member_def is_owner_of_def)
  next
    case (Some t)
    then show ?thesis
      using count_le_one [of "members_of db" "at_member o' (mem_user m)" d t m] find_first_Some [OF Some] u that
      by (simp add: unique_members_def at_member_def is_owner_of_def)
  qed
  have planned: "\<exists>w. check_role_change db o' (mem_user m) Admin x Owner None d = Inr (Some w) \<and>
      rw_org w = o' \<and> rw_user w = mem_user m \<and> rw_new w = Some Admin"
    if m: "m \<in> set (rows (members_of db) d)" "is_owner_of o' m" for m x
  proof -
    have "mem_role m = Owner" using m(2) by (simp add: is_owner_of_def)
    then show ?thesis
      using o2 by (simp add: check_role_change_def found [OF m] assert_not_last_owner_def owners_def)
  qed
  obtain w1 where w1: "check_role_change db o' (mem_user a) Admin (mem_user b) Owner None d = Inr (Some w1)"
    "rw_org w1 = o'" "rw_user w1 = mem_user a" "rw_new w1 = Some Admin" using planned [OF a] by blast
  obtain w2 where w2: "check_role_change db o' (mem_user b) Admin (mem_user a) Owner None d = Inr (Some w2)"
    "rw_org w2 = o'" "rw_user w2 = mem_user b" "rw_new w2 = Some Admin" using planned [OF b] by blast
  obtain d1 where d1: "write_role db st w1 d = Some d1"
    using found [OF a] w1 by (simp add: write_role_def update_one_def)
  have c1: "?n P d1 = ?n (\<lambda>m. if at_member o' (mem_user a) m then P (mem_role_update (\<lambda>_. Admin) m) else P m) d" for P
    by (simp only: write_role_count [OF d1] w1 option.case)
  have "?n (at_member o' (mem_user b)) d1 = ?n (at_member o' (mem_user b)) d"
    unfolding c1 by (rule count_cong) auto
  also have "\<dots> \<noteq> 0" using b by (auto simp: count_zero at_member_def is_owner_of_def)
  finally obtain d2 where d2: "write_role db st w2 d1 = Some d2"
    using w2 by (auto simp: write_role_def update_one_def find_first_None count_zero split: option.splits)
  have c2: "?n P d2 = ?n (\<lambda>m. if at_member o' (mem_user b) m then P (mem_role_update (\<lambda>_. Admin) m) else P m) d1" for P
    by (simp only: write_role_count [OF d2] w2 option.case)
  have others: "owners db o' d2 = ?n (\<lambda>m. is_owner_of o' m \<and> \<not> at_member o' (mem_user a) m \<and>
      \<not> at_member o' (mem_user b) m) d"
    unfolding owners_def c2 c1 by (rule count_cong) (auto simp: is_owner_of_def)
  have "owners db o' d = ?n (\<lambda>m. is_owner_of o' m \<and> at_member o' (mem_user a) m) d +
      ?n (\<lambda>m. (is_owner_of o' m \<and> \<not> at_member o' (mem_user a) m) \<and> at_member o' (mem_user b) m) d +
      ?n (\<lambda>m. (is_owner_of o' m \<and> \<not> at_member o' (mem_user a) m) \<and> \<not> at_member o' (mem_user b) m) d"
    unfolding owners_def
    using count_split [of "members_of db" "is_owner_of o'" d "at_member o' (mem_user a)"]
      count_split [of "members_of db" "\<lambda>m. is_owner_of o' m \<and> \<not> at_member o' (mem_user a) m" d "at_member o' (mem_user b)"]
    by (simp only: add.assoc)
  moreover have "0 < ?n (\<lambda>m. is_owner_of o' m \<and> at_member o' (mem_user a) m) d"
    using a by (auto simp: count_pos at_member_def is_owner_of_def)
  moreover have "0 < ?n (\<lambda>m. (is_owner_of o' m \<and> \<not> at_member o' (mem_user a) m) \<and> at_member o' (mem_user b) m) d"
    unfolding count_pos using b ab by (intro bexI [of _ b]) (simp_all add: at_member_def is_owner_of_def)
  ultimately have "owners db o' d2 = 0" using o2 others by simp
  then show ?thesis using w1(1) w2(1) d1 d2 by (intro exI conjI)
qed

end

section \<open>Properties of the members\<close>

text \<open>
  Only an owner grants or revokes ownership: whatever an administrator or a member asks of the
  two operations, the rows of the owners are the same afterwards.
\<close>

theorem owners_untouched:
  assumes "tenancy_store db" "unique_members db d" "actor_role \<noteq> Owner"
  shows "owner_rows db (snd (update_member_role db st o' target new actor actor_role reason d)) = owner_rows db d \<and>
    owner_rows db (snd (remove_member db st o' target actor actor_role reason d)) = owner_rows db d"
  using tenancy_store.update_member_role_owner_rows [OF assms(1,3,2)]
    tenancy_store.remove_member_owner_rows [OF assms(1,3,2)] by (intro conjI)

text \<open>
  The count of \<open>assertNotLastOwner\<close> is taken outside the transaction of the write.
\<close>

text \<open>
  Two owners who demote each other at the same time leave the organization without an owner: both
  requests pass the check of the last owner, and both writes run.
\<close>

theorem concurrent_demotions_lose_owner:
  assumes "tenancy_store db" "unique_members db d" "owners db o' d = 2"
    and "a \<in> set (rows (members_of db) d)" "is_owner_of o' a"
    and "b \<in> set (rows (members_of db) d)" "is_owner_of o' b" "mem_user a \<noteq> mem_user b"
  shows "\<exists>w1 w2 d1 d2.
    check_role_change db o' (mem_user a) Admin (mem_user b) Owner None d = Inr (Some w1) \<and>
    check_role_change db o' (mem_user b) Admin (mem_user a) Owner None d = Inr (Some w2) \<and>
    write_role db st w1 d = Some d1 \<and> write_role db st w2 d1 = Some d2 \<and> owners db o' d2 = 0"
  using assms(2-8) by (rule tenancy_store.demotions_race [OF assms(1)])

section \<open>Properties of the audit trail\<close>

text \<open>The value at the end of a path into a document.\<close>

datatype step = Key string | Index nat

fun json_at :: "step list \<Rightarrow> json \<Rightarrow> json option" where
  "json_at [] j = Some j"
| "json_at (Key k # p) (JObj kvs) = (case map_of kvs k of None \<Rightarrow> None | Some v \<Rightarrow> json_at p v)"
| "json_at (Index i # p) (JArr xs) = (if i < length xs then json_at p (xs ! i) else None)"
| "json_at _ _ = None"

definition through_sensitive :: "step list \<Rightarrow> bool" where
  "through_sensitive p \<longleftrightarrow> (\<exists>k \<in> set sensitive_meta_keys. Key k \<in> set p)"

lemma map_of_concat_single:
  "map_of (concat (map (\<lambda>(k, v). if Q k v then [] else [(k, f v)]) kvs)) k' =
     (if distinct (map fst kvs) then (case map_of kvs k' of None \<Rightarrow> None | Some v \<Rightarrow> if Q k' v then None else Some (f v))
      else map_of (concat (map (\<lambda>(k, v). if Q k v then [] else [(k, f v)]) kvs)) k')"
  by (induction kvs) (auto simp: map_of_eq_None_iff [symmetric] split: option.splits)

lemma map_of_strip:
  "map_of (concat (map (\<lambda>(k, v). if k \<in> S then [] else [(k, f v)]) kvs)) k' =
     (if k' \<in> S then None else map_option f (map_of kvs k'))"
  by (induction kvs) auto

lemma json_at_strip:
  "json_at p (strip_sensitive_deep j) =
     (if through_sensitive p then None else map_option strip_sensitive_deep (json_at p j))"
proof (induction p j rule: json_at.induct)
  case (2 k p kvs)
  then show ?case by (auto simp: map_of_strip through_sensitive_def split: option.splits)
next
  case (3 i p xs)
  then show ?case by (simp add: through_sensitive_def)
qed (auto simp: through_sensitive_def)

definition meta_of :: "audit_row \<Rightarrow> string \<Rightarrow> json" where
  "meta_of r k = (case log_meta r of JObj kvs \<Rightarrow>
     (if nullish (obj_get k (JObj kvs)) then JNull else obj_get k (JObj kvs)) | _ \<Rightarrow> JNull)"

lemma redact_snapshots:
  "ta_before (redact_audit_row r) = strip_sensitive_deep (meta_of r ''before'')"
  "ta_after (redact_audit_row r) = strip_sensitive_deep (meta_of r ''after'')"
  by (auto simp: redact_audit_row_def meta_of_def Let_def nullish_def split: json.splits)

lemma redact_fields [simp]:
  "ta_id (redact_audit_row r) = log_id r" "ta_org (redact_audit_row r) = log_org r"
  by (simp_all add: redact_audit_row_def Let_def)

text \<open>
  \<^bold>\<open>C9.\<close> Every line of a tenant's audit trail is a row of its own organization, and of its snapshots it
  shows exactly the values no sensitive key leads to, at any depth, arrays included: a path through such
  a key finds nothing, and every other path finds the value of the row with the same keys left out.
\<close>

theorem audit_trail_redacted:
  assumes "\<And>xs. set (ordered xs) = set xs"
    and "t \<in> set (page_items (list_audit_logs db ordered o' limit offset action entity user d))"
  shows "\<exists>r \<in> set (rows (audit_of db) d). log_org r = Some o' \<and> ta_id t = log_id r \<and> ta_org t = Some o' \<and>
    (\<forall>p. json_at p (ta_before t) =
       (if through_sensitive p then None else map_option strip_sensitive_deep (json_at p (meta_of r ''before''))) \<and>
     json_at p (ta_after t) =
       (if through_sensitive p then None else map_option strip_sensitive_deep (json_at p (meta_of r ''after''))))"
proof -
  obtain r where "r \<in> set (ordered (filter (\<lambda>r. log_org r = Some o' \<and> given action (Some (log_action r)) \<and>
      given entity (Some (log_entityType r)) \<and> given user (log_user r)) (rows (audit_of db) d)))"
      "t = redact_audit_row r"
    using assms(2) by (auto simp: list_audit_logs_def paginated_def Let_def dest!: in_set_takeD in_set_dropD)
  then have "r \<in> set (rows (audit_of db) d)" "log_org r = Some o'" "t = redact_audit_row r"
    using assms(1) by simp_all
  then show ?thesis by (intro bexI [of _ r]) (simp_all add: redact_snapshots json_at_strip)
qed

lemma set_text_get: "k \<noteq> k' \<Longrightarrow> map_of (set_text k s kvs) k' = map_of kvs k'"
  by (cases s) auto

lemma distinct_set_text: "distinct (map fst kvs) \<Longrightarrow> distinct (map fst (set_text k s kvs))"
  by (cases s) auto

lemma distinct_audit_meta: "distinct (map fst (ae_extra e)) \<Longrightarrow> distinct (map fst (audit_meta q e))"
  by (auto simp: audit_meta_def Let_def distinct_set_text split: option.splits)

lemma json_round_get:
  assumes "distinct (map fst kvs)"
  shows "obj_get k (json_round (JObj kvs)) = json_round (obj_get k (JObj kvs))"
  using assms map_of_concat_single [of "\<lambda>_ v. v = JUndef" json_round kvs k]
  by (auto simp: split: option.splits)

lemma audit_meta_get:
  assumes "k \<noteq> ''requestId''" "k \<noteq> ''adminActorEmail''"
  shows "map_of (audit_meta q (e\<lparr>ae_admin := a, ae_adminEmail := m\<rparr>)) k =
    map_of (audit_meta q' (e\<lparr>ae_admin := a', ae_adminEmail := m'\<rparr>)) k"
proof -
  note [simp] = set_text_get [OF assms(1) [symmetric]] set_text_get [OF assms(2) [symmetric]]
  show ?thesis
    by (cases "ae_reason e"; cases "ae_before e = JUndef"; cases "ae_after e = JUndef")
      (simp_all add: audit_meta_def Let_def)
qed

text \<open>
  A tenant learns nothing of which operator acted, nor of the request: of two records of the same
  action by two operators, with any addresses and any correlation ids, the tenant sees the same line.
\<close>

theorem operator_not_disclosed:
  assumes "distinct (map fst (ae_extra e))"
  shows "redact_audit_row (build_data (st\<lparr>request_id := q\<rparr>) (e\<lparr>ae_admin := Some a, ae_adminEmail := m\<rparr>)) =
    redact_audit_row (build_data (st\<lparr>request_id := q'\<rparr>) (e\<lparr>ae_admin := Some a', ae_adminEmail := m'\<rparr>))"
proof -
  let ?e = "e\<lparr>ae_admin := Some a, ae_adminEmail := m\<rparr>" and ?e' = "e\<lparr>ae_admin := Some a', ae_adminEmail := m'\<rparr>"
  have d: "distinct (map fst (audit_meta q ?e))" "distinct (map fst (audit_meta q' ?e'))"
    using assms by (simp_all add: distinct_audit_meta)
  have get: "obj_get k (to_json (JObj (audit_meta q ?e))) = obj_get k (to_json (JObj (audit_meta q' ?e')))"
    if "k \<noteq> ''requestId''" "k \<noteq> ''adminActorEmail''" for k
  proof -
    have "obj_get k (to_json (JObj (audit_meta q ?e))) = json_round (obj_get k (JObj (audit_meta q ?e)))"
      using json_round_get [OF d(1), of k] by (simp only: to_json_def json.distinct if_False simp_thms)
    moreover have "obj_get k (to_json (JObj (audit_meta q' ?e'))) = json_round (obj_get k (JObj (audit_meta q' ?e')))"
      using json_round_get [OF d(2), of k] by (simp only: to_json_def json.distinct if_False simp_thms)
    ultimately show ?thesis
      using audit_meta_get [OF that, where q = q and q' = q' and e = e and a = "Some a" and a' = "Some a'" and m = m and m' = m'] by (simp only: obj_get.simps)
  qed
  obtain xs where xs: "to_json (JObj (audit_meta q ?e)) = JObj xs" by (simp add: to_json_def)
  obtain ys where ys: "to_json (JObj (audit_meta q' ?e')) = JObj ys" by (simp add: to_json_def)
  have "obj_get k (JObj xs) = obj_get k (JObj ys)" if "k \<noteq> ''requestId''" "k \<noteq> ''adminActorEmail''" for k
    using get [OF that] unfolding xs ys .
  then show ?thesis by (simp add: redact_audit_row_def build_data_def Let_def xs ys del: obj_get.simps)
qed

section \<open>A database of lists\<close>

record tenancy_lists =
  tl_orgs :: "organization list"
  tl_members :: "membership list"
  tl_invites :: "invitation list"
  tl_users :: "user_row list"
  tl_audit :: "audit_row list"

definition list_db :: "tenancy_lists tenancy" where
  "list_db = \<lparr>orgs_of = list_table tl_orgs tl_orgs_update, members_of = list_table tl_members tl_members_update,
     invites_of = list_table tl_invites tl_invites_update, users_of = list_table tl_users tl_users_update,
     audit_of = list_table tl_audit tl_audit_update\<rparr>"

lemma list_db_store: "tenancy_store list_db"
  by (intro tenancy_store.intro)
    (simp_all add: list_db_def list_table_contract list_tables_separate)

interpretation lists: tenancy_store list_db
  by (rule list_db_store)

definition demo_member :: "string \<Rightarrow> org_role \<Rightarrow> membership" where
  "demo_member u r = \<lparr>mem_id = ''m-'' @ u, mem_org = ''acme'', mem_user = u, mem_role = r, mem_createdAt = 1\<rparr>"

definition demo_audit :: audit_row where
  "demo_audit = \<lparr>log_id = ''l1'', log_org = Some ''acme'', log_user = None, log_admin = Some ''op'',
     log_action = ''admin.org.quota'', log_entityType = ''Organization'', log_entityId = ''acme'',
     log_meta = JObj [(''requestId'', JStr ''r9''), (''before'', JObj [(''limits'', JArr [JObj
       [(''updatedByAdminId'', JStr ''op''), (''sim'', JNum 3)]])])],
     log_createdAt = 5\<rparr>"

definition demo_tenancy :: tenancy_lists where
  "demo_tenancy =
     \<lparr>tl_orgs = [\<lparr>org_id = ''acme'', org_name = ''Acme''\<rparr>],
      tl_members = [demo_member ''ada'' Owner, demo_member ''bob'' Owner, demo_member ''cyd'' Member],
      tl_invites = [\<lparr>inv_id = ''i1'', inv_org = ''acme'', inv_email = ''dan@x'', inv_role = Member,
        inv_tokenHash = ''h1'', inv_status = Pending, inv_invitedBy = ''ada'', inv_expiresAt = 100,
        inv_acceptedAt = None, inv_acceptedBy = None, inv_createdAt = 1\<rparr>],
      tl_users = [\<lparr>usr_id = ''dan'', usr_email = ''Dan@x '', usr_name = ''Dan''\<rparr>],
      tl_audit = [demo_audit]\<rparr>"

text \<open>The same tables in a larger database, of which they are a field.\<close>

definition nested :: "('d, 'r) table \<Rightarrow> ('e \<Rightarrow> 'd) \<Rightarrow> (('d \<Rightarrow> 'd) \<Rightarrow> 'e \<Rightarrow> 'e) \<Rightarrow> ('e, 'r) table" where
  "nested T get upd = \<lparr>rows = (\<lambda>e. rows T (get e)), create_row = (\<lambda>r. upd (create_row T r)),
     update_rows = (\<lambda>P f. upd (update_rows T P f)), delete_rows = (\<lambda>P. upd (delete_rows T P))\<rparr>"

definition nested_tenancy :: "'d tenancy \<Rightarrow> ('e \<Rightarrow> 'd) \<Rightarrow> (('d \<Rightarrow> 'd) \<Rightarrow> 'e \<Rightarrow> 'e) \<Rightarrow> 'e tenancy" where
  "nested_tenancy db get upd = \<lparr>orgs_of = nested (orgs_of db) get upd, members_of = nested (members_of db) get upd,
     invites_of = nested (invites_of db) get upd, users_of = nested (users_of db) get upd,
     audit_of = nested (audit_of db) get upd\<rparr>"

definition demo_stamp :: stamp where
  "demo_stamp = \<lparr>new_id = ''n1'', new_audit_id = ''a1'', now = 50, request_id = None\<rparr>"

lemmas list_db_simps = list_db_def list_table_def demo_tenancy_def

lemma demo_unique: "unique_members list_db demo_tenancy"
  by (auto simp: unique_members_def count_rows_def list_db_simps demo_member_def at_member_def)

theorem owners_untouched_witness:
  "owner_rows list_db (snd (update_member_role list_db demo_stamp ''acme'' ''ada'' Member ''cyd'' Admin None demo_tenancy)) =
     owner_rows list_db demo_tenancy"
  using owners_untouched [OF list_db_store demo_unique, of Admin] by blast

theorem concurrent_demotions_lose_owner_witness:
  "\<exists>w1 w2 d1 d2. write_role list_db demo_stamp w1 demo_tenancy = Some d1 \<and>
     write_role list_db demo_stamp w2 d1 = Some d2 \<and> owners list_db ''acme'' d2 = 0"
proof -
  have "owners list_db ''acme'' demo_tenancy = 2"
    by (simp add: owners_def count_rows_def list_db_simps demo_member_def is_owner_of_def)
  from concurrent_demotions_lose_owner [OF list_db_store demo_unique this,
      of "demo_member ''ada'' Owner" "demo_member ''bob'' Owner" demo_stamp]
  show ?thesis by (auto simp: list_db_simps demo_member_def is_owner_of_def)
qed

theorem audit_trail_redacted_witness:
  "json_at [Key ''limits'', Index 0, Key ''updatedByAdminId'']
     (ta_before (hd (page_items (list_audit_logs list_db id ''acme'' 10 0 None None None demo_tenancy)))) = None"
proof -
  have "page_items (list_audit_logs list_db id ''acme'' 10 0 None None None demo_tenancy) = [redact_audit_row demo_audit]"
    by (simp add: list_audit_logs_def Let_def paginated_def list_db_simps demo_audit_def given_def)
  then have "hd (page_items (list_audit_logs list_db id ''acme'' 10 0 None None None demo_tenancy)) \<in>
      set (page_items (list_audit_logs list_db id ''acme'' 10 0 None None None demo_tenancy))" by simp
  from audit_trail_redacted [OF _ this] show ?thesis
    by (auto simp: through_sensitive_def sensitive_meta_keys_def)
qed

definition demo_entry :: audit_entry where
  "demo_entry = (entry ''admin.org.suspend'' ''Organization'' ''acme'' ''acme'' None)
     \<lparr>ae_reason := Some ''unpaid'', ae_extra := [(''ticket'', JNum 7)]\<rparr>"

theorem operator_not_disclosed_witness:
  "redact_audit_row (build_data (demo_stamp\<lparr>request_id := Some ''r1''\<rparr>)
     (demo_entry\<lparr>ae_admin := Some ''op1'', ae_adminEmail := Some ''op1@x''\<rparr>)) =
   redact_audit_row (build_data (demo_stamp\<lparr>request_id := None\<rparr>)
     (demo_entry\<lparr>ae_admin := Some ''op2'', ae_adminEmail := None\<rparr>))"
  by (rule operator_not_disclosed) (simp add: demo_entry_def entry_def)

end
