(* ===== verification/Invitations.thy ===== *)
theory Invitations
  imports Orgs
begin

text \<open>
  \<open>apps/api/src/invitations/invitations.service.ts\<close> and \<open>common/crypto/link-token.ts\<close>. The digest of
  Node's \<open>crypto\<close> is the argument \<open>hash\<close> and the random token the argument \<open>token\<close>.

  \<open>create\<close> and \<open>accept\<close> read before their transactions, and \<open>revoke\<close> before its own. A claim or a
  revocation is therefore a check that returns the row it read, and a transaction on that row: other
  requests may run between the two. The mail \<open>create\<close> sends after its transaction is part of its result.
\<close>

section \<open>Tokens and addresses\<close>

definition invite_ttl_ms :: nat where
  "invite_ttl_ms = 7 * 24 * 60 * 60 * 1000"

definition normalize_email :: "string \<Rightarrow> string" where
  "normalize_email e = js_lower (js_trim e)"

definition new_link_token :: "(string \<Rightarrow> string) \<Rightarrow> string \<Rightarrow> string \<times> string" where
  "new_link_token hash token = (token, hash token)"

section \<open>Operations\<close>

datatype invite_error =
    OwnerInviteForbidden
  | AlreadyMember
  | InvitationNotFound
  | NotPendingRevoke
  | NoLongerValid
  | InvitationExpired
  | DifferentEmail
  | InvitationRowGone

record invitation_view =
  iv_id :: string
  iv_email :: string
  iv_role :: org_role
  iv_status :: invitation_status
  iv_invitedBy :: string
  iv_expiresAt :: nat
  iv_createdAt :: nat

record invite_mail =
  mail_to :: string
  mail_token :: string
  mail_org :: string
  mail_inviter :: string

definition view_of :: "invitation \<Rightarrow> invitation_view" where
  "view_of i = \<lparr>iv_id = inv_id i, iv_email = inv_email i, iv_role = inv_role i, iv_status = inv_status i,
     iv_invitedBy = inv_invitedBy i, iv_expiresAt = inv_expiresAt i, iv_createdAt = inv_createdAt i\<rparr>"

definition has_member :: "'d tenancy \<Rightarrow> string \<Rightarrow> string \<Rightarrow> 'd \<Rightarrow> bool" where
  "has_member db o' email d =
     (case find_first (users_of db) (\<lambda>u. usr_email u = email) d of
        None \<Rightarrow> False
      | Some u \<Rightarrow> find_first (members_of db) (at_member o' (usr_id u)) d \<noteq> None)"

definition refreshed :: "stamp \<Rightarrow> org_role \<Rightarrow> string \<Rightarrow> string \<Rightarrow> invitation \<Rightarrow> invitation" where
  "refreshed st role h actor i = i\<lparr>inv_role := role, inv_tokenHash := h, inv_invitedBy := actor,
     inv_expiresAt := now st + invite_ttl_ms, inv_status := Pending, inv_acceptedAt := None, inv_acceptedBy := None\<rparr>"

definition put_invitation ::
  "'d tenancy \<Rightarrow> stamp \<Rightarrow> string \<Rightarrow> string \<Rightarrow> string \<Rightarrow> string \<Rightarrow> org_role \<Rightarrow> 'd \<Rightarrow> invitation \<times> 'd" where
  "put_invitation db st h o' actor email role d =
     (let (row, d1) = upsert (invites_of db) (\<lambda>i. inv_org i = o' \<and> inv_email i = email)
            \<lparr>inv_id = new_id st, inv_org = o', inv_email = email, inv_role = role, inv_tokenHash = h,
             inv_status = Pending, inv_invitedBy = actor, inv_expiresAt = now st + invite_ttl_ms,
             inv_acceptedAt = None, inv_acceptedBy = None, inv_createdAt = now st\<rparr>
            (refreshed st role h actor) d
      in (row, create_row (audit_of db) (build_data st
            ((entry ''org.member.invite'' ''OrgInvitation'' (inv_id row) o' None)
             \<lparr>ae_after := JObj [(''email'', JStr email), (''role'', JStr (role_name role))],
              ae_extra := [(''actorUserId'', JStr actor)]\<rparr>)) d1))"

definition create_invitation ::
  "'d tenancy \<Rightarrow> (string \<Rightarrow> string) \<Rightarrow> string \<Rightarrow> stamp \<Rightarrow> string \<Rightarrow> string \<Rightarrow> org_role \<Rightarrow> string \<Rightarrow> org_role \<Rightarrow>
   'd \<Rightarrow> (invite_error + (invitation_view \<times> invite_mail)) \<times> 'd" where
  "create_invitation db hash token st o' actor actor_role email role d =
     (if role = Owner \<and> actor_role \<noteq> Owner then (Inl OwnerInviteForbidden, d)
      else (let norm = normalize_email email in
        if has_member db o' norm d then (Inl AlreadyMember, d)
        else (let (tok, h) = new_link_token hash token;
                  (row, d') = put_invitation db st h o' actor norm role d;
                  name = (case find_first (orgs_of db) (\<lambda>g. org_id g = o') d' of
                            None \<Rightarrow> ''your team'' | Some g \<Rightarrow> org_name g);
                  inviter = (case find_first (users_of db) (\<lambda>u. usr_id u = actor) d' of
                            None \<Rightarrow> ''A teammate'' | Some u \<Rightarrow> usr_name u)
              in (Inr (view_of row, \<lparr>mail_to = norm, mail_token = tok, mail_org = name, mail_inviter = inviter\<rparr>), d'))))"

definition check_revoke :: "'d tenancy \<Rightarrow> string \<Rightarrow> string \<Rightarrow> 'd \<Rightarrow> invite_error + invitation" where
  "check_revoke db o' i d =
     (case find_first (invites_of db) (\<lambda>r. inv_id r = i \<and> inv_org r = o') d of
        None \<Rightarrow> Inl InvitationNotFound
      | Some r \<Rightarrow> if inv_status r \<noteq> Pending then Inl NotPendingRevoke else Inr r)"

definition write_revoke :: "'d tenancy \<Rightarrow> stamp \<Rightarrow> string \<Rightarrow> string \<Rightarrow> invitation \<Rightarrow> 'd \<Rightarrow> 'd option" where
  "write_revoke db st o' actor r d =
     (case update_one (invites_of db) (\<lambda>i. inv_id i = inv_id r) (inv_status_update (\<lambda>_. Revoked)) d of
        None \<Rightarrow> None
      | Some d' \<Rightarrow> Some (create_row (audit_of db) (build_data st
          ((entry ''org.member.invite_revoke'' ''OrgInvitation'' (inv_id r) o' None)
           \<lparr>ae_before := JObj [(''email'', JStr (inv_email r)), (''status'', JStr ''PENDING'')],
            ae_after := JObj [(''status'', JStr ''REVOKED'')],
            ae_extra := [(''actorUserId'', JStr actor)]\<rparr>)) d'))"

definition revoke :: "'d tenancy \<Rightarrow> stamp \<Rightarrow> string \<Rightarrow> string \<Rightarrow> string \<Rightarrow> 'd \<Rightarrow> (invite_error + unit) \<times> 'd" where
  "revoke db st o' i actor d =
     (case check_revoke db o' i d of
        Inl e \<Rightarrow> (Inl e, d)
      | Inr r \<Rightarrow> (case write_revoke db st o' actor r d of
            None \<Rightarrow> (Inl InvitationRowGone, d)
          | Some d' \<Rightarrow> (Inr (), d')))"

text \<open>
  The checks of \<open>accept\<close>. An expired invitation is marked so, and a failure of that statement is ignored.
\<close>

definition check_accept ::
  "'d tenancy \<Rightarrow> (string \<Rightarrow> string) \<Rightarrow> nat \<Rightarrow> string \<Rightarrow> string \<Rightarrow> 'd \<Rightarrow> (invite_error + invitation) \<times> 'd" where
  "check_accept db hash t token user d =
     (case find_first (invites_of db) (\<lambda>r. inv_tokenHash r = hash token) d of
        None \<Rightarrow> (Inl InvitationNotFound, d)
      | Some r \<Rightarrow>
          if inv_status r \<noteq> Pending then (Inl NoLongerValid, d)
          else if inv_expiresAt r < t then
            (Inl InvitationExpired,
             (case update_one (invites_of db) (\<lambda>i. inv_id i = inv_id r) (inv_status_update (\<lambda>_. Expired)) d of
                None \<Rightarrow> d | Some d' \<Rightarrow> d'))
          else (case find_first (users_of db) (\<lambda>u. usr_id u = user) d of
              None \<Rightarrow> (Inl DifferentEmail, d)
            | Some u \<Rightarrow> if normalize_email (usr_email u) \<noteq> inv_email r then (Inl DifferentEmail, d)
                        else (Inr r, d)))"

text \<open>
  The transaction: the invitation is claimed under the guard of its status, and a claim that touches no
  row aborts before a membership is made.
\<close>

definition claim_invitation ::
  "'d tenancy \<Rightarrow> stamp \<Rightarrow> invitation \<Rightarrow> string \<Rightarrow> 'd \<Rightarrow> (invite_error + (string \<times> org_role)) \<times> 'd" where
  "claim_invitation db st r user d =
     (let (n, d1) = update_many (invites_of db) (\<lambda>i. inv_id i = inv_id r \<and> inv_status i = Pending)
            (\<lambda>i. i\<lparr>inv_status := Accepted, inv_acceptedAt := Some (now st), inv_acceptedBy := Some user\<rparr>) d
      in if n \<noteq> 1 then (Inl NoLongerValid, d)
         else (let (m, d2) = upsert (members_of db) (at_member (inv_org r) user)
                 \<lparr>mem_id = new_id st, mem_org = inv_org r, mem_user = user, mem_role = inv_role r,
                  mem_createdAt = now st\<rparr> (\<lambda>m. m) d1
               in (Inr (inv_org r, mem_role m),
                   create_row (audit_of db) (build_data st
                     ((entry ''org.member.add'' ''OrgMembership'' (mem_id m) (inv_org r) (Some user))
                      \<lparr>ae_after := JObj [(''role'', JStr (role_name (mem_role m)))],
                       ae_extra := [(''via'', JStr ''invitation''), (''invitedByUserId'', JStr (inv_invitedBy r))]\<rparr>)) d2)))"

definition accept ::
  "'d tenancy \<Rightarrow> (string \<Rightarrow> string) \<Rightarrow> stamp \<Rightarrow> string \<Rightarrow> string \<Rightarrow> 'd \<Rightarrow>
   (invite_error + (string \<times> org_role)) \<times> 'd" where
  "accept db hash st token user d =
     (case check_accept db hash (now st) token user d of
        (Inl e, d') \<Rightarrow> (Inl e, d')
      | (Inr r, d') \<Rightarrow> claim_invitation db st r user d')"

section \<open>Requests in any order\<close>

text \<open>
  One step of the service: a transaction, or a check that writes. A claim and a revocation may be given any
  row an earlier check has read, so the steps contain every interleaving of the requests.
\<close>

datatype invite_event = Invited string | Claimed string string | Silent

inductive invite_step :: "'d tenancy \<Rightarrow> (string \<Rightarrow> string) \<Rightarrow> invite_event \<Rightarrow> 'd \<Rightarrow> 'd \<Rightarrow> bool"
  for db hash where
  Invite: "count_rows (invites_of db) (\<lambda>i. inv_id i = new_id st) d = 0 \<Longrightarrow>
     put_invitation db st h o' actor email role d = (row, d') \<Longrightarrow>
     invite_step db hash (Invited (inv_id row)) d d'"
| Revocation: "write_revoke db st o' actor r d = Some d' \<Longrightarrow> invite_step db hash Silent d d'"
| Check: "check_accept db hash t token user d = (res, d') \<Longrightarrow> invite_step db hash Silent d d'"
| Claim: "claim_invitation db st r user d = (Inr res, d') \<Longrightarrow>
     invite_step db hash (Claimed (inv_id r) user) d d'"

inductive invite_run :: "'d tenancy \<Rightarrow> (string \<Rightarrow> string) \<Rightarrow> invite_event list \<Rightarrow> 'd \<Rightarrow> 'd \<Rightarrow> bool"
  for db hash where
  Done: "invite_run db hash [] d d"
| Step: "invite_step db hash e d d' \<Longrightarrow> invite_run db hash es d' d'' \<Longrightarrow> invite_run db hash (e # es) d d''"

definition unique_invites :: "'d tenancy \<Rightarrow> 'd \<Rightarrow> bool" where
  "unique_invites db d \<longleftrightarrow>
     (\<forall>i. count_rows (invites_of db) (\<lambda>r. inv_id r = i) d \<le> 1) \<and>
     (\<forall>o' e. count_rows (invites_of db) (\<lambda>r. inv_org r = o' \<and> inv_email r = e) d \<le> 1)"

definition pending :: "'d tenancy \<Rightarrow> string \<Rightarrow> 'd \<Rightarrow> nat" where
  "pending db i d = count_rows (invites_of db) (\<lambda>r. inv_id r = i \<and> inv_status r = Pending) d"

fun claims_of :: "string \<Rightarrow> invite_event \<Rightarrow> nat" where
  "claims_of i (Claimed j _) = (if i = j then 1 else 0)"
| "claims_of i _ = 0"

fun invites_to :: "string \<Rightarrow> invite_event \<Rightarrow> nat" where
  "invites_to i (Invited j) = (if i = j then 1 else 0)"
| "invites_to i _ = 0"

lemma refreshed_fields [simp]:
  "inv_id (refreshed st role h actor i) = inv_id i" "inv_org (refreshed st role h actor i) = inv_org i"
  "inv_email (refreshed st role h actor i) = inv_email i" "inv_status (refreshed st role h actor i) = Pending"
  by (simp_all add: refreshed_def)

context tenancy_store
begin

lemma invites_of_writes:
  "count_rows (invites_of db) P (create_row (audit_of db) a d) = count_rows (invites_of db) P d"
  "count_rows (invites_of db) P (create_row (members_of db) m d) = count_rows (invites_of db) P d"
  "count_rows (invites_of db) P (update_rows (members_of db) Q f d) = count_rows (invites_of db) P d"
  by (rule count_same_rows; simp)+

lemma put_invitation_countE:
  assumes "put_invitation db st h o' actor email role d = (row, d')"
  obtains (fresh) "\<And>P. count_rows (invites_of db) P d' = count_rows (invites_of db) P d + (if P row then 1 else 0)"
      "inv_id row = new_id st" "inv_org row = o'" "inv_email row = email" "inv_status row = Pending"
      "\<forall>r \<in> set (rows (invites_of db) d). \<not> (inv_org r = o' \<and> inv_email r = email)"
  | (refresh) old where "old \<in> set (rows (invites_of db) d)" "inv_org old = o'" "inv_email old = email"
      "inv_id row = inv_id old"
      "\<And>P. count_rows (invites_of db) P d' = count_rows (invites_of db)
         (\<lambda>r. if inv_org r = o' \<and> inv_email r = email then P (refreshed st role h actor r) else P r) d"
proof (cases "find_first (invites_of db) (\<lambda>i. inv_org i = o' \<and> inv_email i = email) d")
  case None
  show ?thesis
    by (rule fresh; use assms None in \<open>auto simp: put_invitation_def upsert_def invites_of_writes
        invites.count_create find_first_None\<close>)
next
  case (Some old)
  have d': "d' = create_row (audit_of db) (build_data st
      ((entry ''org.member.invite'' ''OrgInvitation'' (inv_id row) o' None)
       \<lparr>ae_after := JObj [(''email'', JStr email), (''role'', JStr (role_name role))],
        ae_extra := [(''actorUserId'', JStr actor)]\<rparr>))
      (update_rows (invites_of db) (\<lambda>i. inv_org i = o' \<and> inv_email i = email) (refreshed st role h actor) d)"
    and row: "row = refreshed st role h actor old"
    using assms Some by (simp_all add: put_invitation_def upsert_def) auto
  show ?thesis
  proof (rule refresh [of old])
    show "count_rows (invites_of db) P d' = count_rows (invites_of db)
         (\<lambda>r. if inv_org r = o' \<and> inv_email r = email then P (refreshed st role h actor r) else P r) d" for P
      unfolding d' invites_of_writes invites.count_update by (rule count_cong) simp
  qed (use find_first_Some [OF Some] row in simp_all)
qed

lemma update_status_count:
  assumes "update_one (invites_of db) (\<lambda>i. inv_id i = j) (inv_status_update (\<lambda>_. st')) d = Some d'"
  shows "count_rows (invites_of db) P d' =
     count_rows (invites_of db) (\<lambda>r. if inv_id r = j then P (inv_status_update (\<lambda>_. st') r) else P r) d"
proof -
  have "d' = update_rows (invites_of db) (\<lambda>i. inv_id i = j) (inv_status_update (\<lambda>_. st')) d"
    using assms by (simp add: update_one_def split: if_splits)
  then show ?thesis by (simp only: invites.count_update) (rule count_cong, simp)
qed

lemma write_revoke_count:
  assumes "write_revoke db st o' actor r d = Some d'"
  shows "count_rows (invites_of db) P d' =
     count_rows (invites_of db) (\<lambda>i. if inv_id i = inv_id r then P (inv_status_update (\<lambda>_. Revoked) i) else P i) d"
  using assms by (auto simp: write_revoke_def invites_of_writes update_status_count split: option.splits)

lemma check_accept_countE:
  assumes "check_accept db hash t token user d = (res, d')"
  obtains "d' = d"
  | j where "\<And>P. count_rows (invites_of db) P d' =
     count_rows (invites_of db) (\<lambda>i. if inv_id i = j then P (inv_status_update (\<lambda>_. Expired) i) else P i) d"
  using assms unfolding check_accept_def
  by (auto split: option.splits if_splits dest: update_status_count)

lemma claim_invitation_countE:
  assumes "claim_invitation db st r user d = (Inr res, d')"
  obtains "pending db (inv_id r) d = 1"
    "\<And>P. count_rows (invites_of db) P d' = count_rows (invites_of db)
       (\<lambda>i. if inv_id i = inv_id r \<and> inv_status i = Pending
            then P (i\<lparr>inv_status := Accepted, inv_acceptedAt := Some (now st), inv_acceptedBy := Some user\<rparr>)
            else P i) d"
proof -
  let ?Q = "\<lambda>i. inv_id i = inv_id r \<and> inv_status i = Pending"
    and ?f = "\<lambda>i. i\<lparr>inv_status := Accepted, inv_acceptedAt := Some (now st), inv_acceptedBy := Some user\<rparr>"
  have one: "pending db (inv_id r) d = 1"
    using assms by (simp add: claim_invitation_def update_many_def pending_def split: if_splits)
  obtain m a d2 where d2: "d2 = create_row (members_of db) m (update_rows (invites_of db) ?Q ?f d) \<or>
      d2 = update_rows (members_of db) (at_member (inv_org r) user) (\<lambda>m. m) (update_rows (invites_of db) ?Q ?f d)"
    "d' = create_row (audit_of db) a d2"
    using assms
    by (auto simp: claim_invitation_def update_many_def upsert_def Let_def split: if_splits option.splits prod.splits)
  have "count_rows (invites_of db) P d' = count_rows (invites_of db) (\<lambda>i. if ?Q i then P (?f i) else P i) d" for P
  proof -
    have "count_rows (invites_of db) P d' = count_rows (invites_of db) P (update_rows (invites_of db) ?Q ?f d)"
      using d2 by (auto simp: invites_of_writes)
    also have "\<dots> = count_rows (invites_of db) (\<lambda>i. if ?Q i then P (?f i) else P i) d"
      unfolding invites.count_update by (rule count_cong) simp
    finally show ?thesis .
  qed
  with one show ?thesis by (rule that)
qed

text \<open>A step that rewrites the status of some rows keeps the keys.\<close>

lemma unique_invites_same_keys:
  assumes "unique_invites db d"
    and "\<And>P. (\<And>i. P (g i) \<longleftrightarrow> P i) \<Longrightarrow>
      count_rows (invites_of db) P d' = count_rows (invites_of db) P d"
    and "\<And>i. inv_id (g i) = inv_id i" "\<And>i. inv_org (g i) = inv_org i" "\<And>i. inv_email (g i) = inv_email i"
  shows "unique_invites db d'"
  using assms(1) unfolding unique_invites_def by (simp add: assms(2-5))

lemma invite_step_unique:
  assumes "invite_step db hash e d d'" "unique_invites db d"
  shows "unique_invites db d'"
  using assms(1)
proof cases
  case (Invite st h o' actor email role row)
  show ?thesis
  proof (rule put_invitation_countE [OF Invite(3)])
    assume "\<And>P. count_rows (invites_of db) P d' = count_rows (invites_of db) P d + (if P row then 1 else 0)"
      "inv_id row = new_id st" "inv_org row = o'" "inv_email row = email"
      "\<forall>r \<in> set (rows (invites_of db) d). \<not> (inv_org r = o' \<and> inv_email r = email)"
    then show ?thesis using assms(2) Invite(2) by (auto simp: unique_invites_def count_zero)
  next
    fix old
    assume c: "\<And>P. count_rows (invites_of db) P d' = count_rows (invites_of db)
      (\<lambda>r. if inv_org r = o' \<and> inv_email r = email then P (refreshed st role h actor r) else P r) d"
    show ?thesis
      by (rule unique_invites_same_keys [OF assms(2), of "refreshed st role h actor"]) (simp_all add: c cong: if_cong)
  qed
next
  case (Revocation st o' actor r)
  show ?thesis
    by (rule unique_invites_same_keys [OF assms(2), of "inv_status_update (\<lambda>_. Revoked)"])
      (simp_all add: write_revoke_count [OF Revocation(2)])
next
  case (Check t token user res)
  show ?thesis
  proof (rule check_accept_countE [OF Check(2)])
    fix j
    assume c: "\<And>P. count_rows (invites_of db) P d' =
     count_rows (invites_of db) (\<lambda>i. if inv_id i = j then P (inv_status_update (\<lambda>_. Expired) i) else P i) d"
    show ?thesis
      by (rule unique_invites_same_keys [OF assms(2), of "inv_status_update (\<lambda>_. Expired)"]) (simp_all add: c)
  qed (use assms(2) in simp)
next
  case (Claim st r user res)
  show ?thesis
  proof (rule claim_invitation_countE [OF Claim(2)])
    assume c: "\<And>P. count_rows (invites_of db) P d' = count_rows (invites_of db)
       (\<lambda>i. if inv_id i = inv_id r \<and> inv_status i = Pending
            then P (i\<lparr>inv_status := Accepted, inv_acceptedAt := Some (now st), inv_acceptedBy := Some user\<rparr>)
            else P i) d"
    show ?thesis
      by (rule unique_invites_same_keys [OF assms(2),
            of "\<lambda>i. i\<lparr>inv_status := Accepted, inv_acceptedAt := Some (now st), inv_acceptedBy := Some user\<rparr>"])
        (simp_all only: c if_cancel, simp_all)
  qed
qed

text \<open>A claim uses up a pending invitation, and only an invitation makes one.\<close>

lemma invite_step_pending:
  assumes "invite_step db hash e d d'" and u: "unique_invites db d"
  shows "claims_of i e + pending db i d' \<le> invites_to i e + pending db i d"
  using assms(1)
proof cases
  case (Invite st h o' actor email role row)
  show ?thesis
  proof (rule put_invitation_countE [OF Invite(3)])
    assume "\<And>P. count_rows (invites_of db) P d' = count_rows (invites_of db) P d + (if P row then 1 else 0)"
    then show ?thesis using Invite(1) by (simp add: pending_def)
  next
    fix old
    assume old: "old \<in> set (rows (invites_of db) d)" "inv_org old = o'" "inv_email old = email" "inv_id row = inv_id old"
      and c: "\<And>P. count_rows (invites_of db) P d' = count_rows (invites_of db)
      (\<lambda>r. if inv_org r = o' \<and> inv_email r = email then P (refreshed st role h actor r) else P r) d"
    have only: "r = old" if "r \<in> set (rows (invites_of db) d)" "inv_org r = o' \<and> inv_email r = email" for r
      using count_le_one [of "invites_of db" "\<lambda>r. inv_org r = o' \<and> inv_email r = email" d r old] that old u
      by (simp add: unique_invites_def)
    show ?thesis
    proof (cases "i = inv_id old")
      case True
      have "pending db i d' \<le> count_rows (invites_of db) (\<lambda>r. inv_id r = i) d"
        unfolding pending_def c by (rule count_mono) (auto split: if_splits)
      also have "\<dots> \<le> 1" using u by (simp add: unique_invites_def)
      finally show ?thesis using True Invite(1) old(4) by simp
    next
      case False
      have "pending db i d' \<le> pending db i d"
        unfolding pending_def c
      proof (rule count_mono)
        fix r
        assume "r \<in> set (rows (invites_of db) d)"
          "if inv_org r = o' \<and> inv_email r = email
           then inv_id (refreshed st role h actor r) = i \<and> inv_status (refreshed st role h actor r) = Pending
           else inv_id r = i \<and> inv_status r = Pending"
        then show "inv_id r = i \<and> inv_status r = Pending" using only [of r] False by (auto split: if_splits)
      qed
      then show ?thesis using Invite(1) by simp
    qed
  qed
next
  case (Revocation st o' actor r)
  have "pending db i d' \<le> pending db i d"
    unfolding pending_def write_revoke_count [OF Revocation(2)] by (rule count_mono) (auto split: if_splits)
  then show ?thesis using Revocation(1) by simp
next
  case (Check t token user res)
  have "pending db i d' \<le> pending db i d"
  proof (rule check_accept_countE [OF Check(2)])
    fix j
    assume c: "\<And>P. count_rows (invites_of db) P d' =
     count_rows (invites_of db) (\<lambda>i. if inv_id i = j then P (inv_status_update (\<lambda>_. Expired) i) else P i) d"
    show ?thesis unfolding pending_def c by (rule count_mono) (auto split: if_splits)
  qed simp
  then show ?thesis using Check(1) by simp
next
  case (Claim st r user res)
  show ?thesis
  proof (rule claim_invitation_countE [OF Claim(2)])
    assume one: "pending db (inv_id r) d = 1"
      and c: "\<And>P. count_rows (invites_of db) P d' = count_rows (invites_of db)
       (\<lambda>i. if inv_id i = inv_id r \<and> inv_status i = Pending
            then P (i\<lparr>inv_status := Accepted, inv_acceptedAt := Some (now st), inv_acceptedBy := Some user\<rparr>)
            else P i) d"
    show ?thesis
    proof (cases "i = inv_id r")
      case True
      have "pending db i d' = 0"
        unfolding pending_def c by (auto simp: count_zero True)
      then show ?thesis using one True Claim(1) by simp
    next
      case False
      have "pending db i d' \<le> pending db i d"
        unfolding pending_def c by (rule count_mono) (auto split: if_splits)
      then show ?thesis using False Claim(1) by simp
    qed
  qed
qed

lemma invite_run_pending:
  assumes "invite_run db hash es d d'" "unique_invites db d"
  shows "sum_list (map (claims_of i) es) + pending db i d' \<le> sum_list (map (invites_to i) es) + pending db i d"
  using assms
proof (induction rule: invite_run.induct)
  case (Step e d d' es d'')
  then show ?case
    using invite_step_pending [OF Step(1) Step(4), of i] invite_step_unique [OF Step(1,4)] by fastforce
qed simp

end

text \<open>
  \<^bold>\<open>C7.\<close> An invitation is used at most once: however the checks and transactions of any number of accepts,
  revocations and invitations follow each other, an invitation is claimed no more often than it was
  pending at the start or sent in between.
\<close>

theorem invitation_single_use:
  assumes "tenancy_store db" "unique_invites db d" "invite_run db hash es d d'"
  shows "sum_list (map (claims_of i) es) \<le> sum_list (map (invites_to i) es) + pending db i d"
  using tenancy_store.invite_run_pending [OF assms(1,3,2), of i] by linarith

text \<open>What an accept that succeeds has checked and done.\<close>

lemma check_accept_Inr:
  assumes "check_accept db hash t token user d = (Inr r, d')"
  shows "d' = d \<and> r \<in> set (rows (invites_of db) d) \<and> inv_tokenHash r = hash token \<and> inv_status r = Pending \<and>
    t \<le> inv_expiresAt r \<and> (\<exists>u \<in> set (rows (users_of db) d). usr_id u = user \<and> normalize_email (usr_email u) = inv_email r)"
  using assms unfolding check_accept_def
  by (auto split: option.splits if_splits dest!: find_first_Some)

context tenancy_store
begin

lemma claim_members:
  assumes "claim_invitation db st r user d = (Inr (o', role), d')"
  shows "o' = inv_org r \<and>
    (if \<exists>m \<in> set (rows (members_of db) d). at_member o' user m
     then set (rows (members_of db) d') = set (rows (members_of db) d) \<and>
          (\<exists>m \<in> set (rows (members_of db) d). at_member o' user m \<and> mem_role m = role)
     else role = inv_role r \<and> set (rows (members_of db) d') = insert
          \<lparr>mem_id = new_id st, mem_org = o', mem_user = user, mem_role = role, mem_createdAt = now st\<rparr>
          (set (rows (members_of db) d)))"
proof -
  let ?d1 = "update_rows (invites_of db) (\<lambda>i. inv_id i = inv_id r \<and> inv_status i = Pending)
            (\<lambda>i. i\<lparr>inv_status := Accepted, inv_acceptedAt := Some (now st), inv_acceptedBy := Some user\<rparr>) d"
  have same: "set (rows (members_of db) ?d1) = set (rows (members_of db) d)" by simp
  show ?thesis
  proof (cases "find_first (members_of db) (at_member (inv_org r) user) ?d1")
    case None
    then have "\<not> (\<exists>m \<in> set (rows (members_of db) d). at_member (inv_org r) user m)"
      unfolding find_first_None same by blast
    then show ?thesis
      using assms None
      by (auto simp: claim_invitation_def update_many_def upsert_def Let_def split: if_splits)
  next
    case (Some m)
    then have m: "m \<in> set (rows (members_of db) d)" "at_member (inv_org r) user m"
      using find_first_Some [OF Some] by simp_all
    then show ?thesis
      using assms Some
      by (auto simp: claim_invitation_def update_many_def upsert_def Let_def split: if_splits)
  qed
qed

lemma claim_keeps:
  assumes "claim_invitation db st r user d = (res, d')" "unique_members db d"
  shows "unique_members db d'" "owners db g d \<le> owners db g d'"
proof -
  let ?d1 = "update_rows (invites_of db) (\<lambda>i. inv_id i = inv_id r \<and> inv_status i = Pending)
            (\<lambda>i. i\<lparr>inv_status := Accepted, inv_acceptedAt := Some (now st), inv_acceptedBy := Some user\<rparr>) d"
    and ?new = "\<lparr>mem_id = new_id st, mem_org = inv_org r, mem_user = user, mem_role = inv_role r, mem_createdAt = now st\<rparr>"
  have same: "count_rows (members_of db) P ?d1 = count_rows (members_of db) P d" for P by (rule members_of_writes)
  consider "d' = d"
    | "count_rows (members_of db) (at_member (inv_org r) user) d = 0"
      "\<And>P. count_rows (members_of db) P d' = count_rows (members_of db) P d + (if P ?new then 1 else 0)"
    | "\<And>P. count_rows (members_of db) P d' = count_rows (members_of db) P d"
  proof (cases "find_first (members_of db) (at_member (inv_org r) user) ?d1")
    case None
    then have "count_rows (members_of db) (at_member (inv_org r) user) ?d1 = 0"
      by (simp add: find_first_None count_zero)
    then show ?thesis using that(1,2) assms None
      by (auto simp: claim_invitation_def update_many_def upsert_def Let_def members.count_create
          members_of_writes same split: if_splits)
  next
    case (Some m)
    then show ?thesis using that(1,3) assms
      by (auto simp: claim_invitation_def update_many_def upsert_def Let_def members.count_update
          members_of_writes same split: if_splits)
  qed
  then show "unique_members db d'" "owners db g d \<le> owners db g d'"
    using assms(2) by (cases; auto simp: unique_members_def owners_def at_member_def)+
qed

lemma invite_writes_members:
  "put_invitation db st h o' actor email role d = (row, d') \<Longrightarrow>
     count_rows (members_of db) P d' = count_rows (members_of db) P d"
  "write_revoke db st o' actor r d = Some d' \<Longrightarrow>
     count_rows (members_of db) P d' = count_rows (members_of db) P d"
  "check_accept db hash t token user d = (res, d') \<Longrightarrow>
     count_rows (members_of db) P d' = count_rows (members_of db) P d"
  by (auto simp: put_invitation_def upsert_def write_revoke_def update_one_def check_accept_def members_of_writes
      split: option.splits if_splits)

end

text \<open>
  An accept succeeds only with the token of a pending, unexpired invitation sent to the address of
  the caller. It makes the caller a member of the organization of the invitation with the role it offers;
  who is a member already keeps the role, and nobody else's membership changes.
\<close>

theorem accept_sound:
  assumes "tenancy_store db" and acc: "accept db hash st token user d = (Inr (o', role), d')"
  shows "\<exists>r \<in> set (rows (invites_of db) d). inv_tokenHash r = hash token \<and> inv_status r = Pending \<and>
    now st \<le> inv_expiresAt r \<and> inv_org r = o' \<and>
    (\<exists>u \<in> set (rows (users_of db) d). usr_id u = user \<and> normalize_email (usr_email u) = inv_email r) \<and>
    (if \<exists>m \<in> set (rows (members_of db) d). at_member o' user m
     then set (rows (members_of db) d') = set (rows (members_of db) d) \<and>
          (\<exists>m \<in> set (rows (members_of db) d). at_member o' user m \<and> mem_role m = role)
     else role = inv_role r \<and> set (rows (members_of db) d') = insert
          \<lparr>mem_id = new_id st, mem_org = o', mem_user = user, mem_role = role, mem_createdAt = now st\<rparr>
          (set (rows (members_of db) d)))"
proof -
  obtain r where ch: "check_accept db hash (now st) token user d = (Inr r, d)"
    and cl: "claim_invitation db st r user d = (Inr (o', role), d')"
    using acc check_accept_Inr [of db hash "now st" token user d]
    by (auto simp: accept_def split: prod.splits sum.splits)
  have r: "r \<in> set (rows (invites_of db) d)" "inv_tokenHash r = hash token" "inv_status r = Pending" "now st \<le> inv_expiresAt r"
    "\<exists>u \<in> set (rows (users_of db) d). usr_id u = user \<and> normalize_email (usr_email u) = inv_email r"
    using check_accept_Inr [OF ch] by simp_all
  note m = tenancy_store.claim_members [OF assms(1) cl]
  show ?thesis
    by (rule bexI [OF _ r(1)], intro conjI, rule r(2), rule r(3), rule r(4), rule m [THEN conjunct1, symmetric],
        rule r(5), rule m [THEN conjunct2])
qed

section \<open>The organization keeps an owner\<close>

text \<open>
  The requests of both services, each run to its end before the next begins. A new organization has a new
  id.
\<close>

inductive tenancy_op :: "'d tenancy \<Rightarrow> (string \<Rightarrow> string) \<Rightarrow> 'd \<Rightarrow> 'd \<Rightarrow> bool" for db hash where
  Create: "count_rows (members_of db) (\<lambda>m. mem_org m = new_id st) d = 0 \<Longrightarrow>
     tenancy_op db hash d (create_org db st member_id name u d)"
| Role: "update_member_role db st o' target new actor actor_role reason d = (r1, d') \<Longrightarrow> tenancy_op db hash d d'"
| Remove: "remove_member db st o' target actor actor_role reason d = (r2, d') \<Longrightarrow> tenancy_op db hash d d'"
| Invite: "create_invitation db hash token st o' actor actor_role email role d = (r3, d') \<Longrightarrow> tenancy_op db hash d d'"
| Revoke: "revoke db st o' i actor d = (r4, d') \<Longrightarrow> tenancy_op db hash d d'"
| Accept: "accept db hash st token user d = (r5, d') \<Longrightarrow> tenancy_op db hash d d'"

context tenancy_store
begin

lemma same_members_keep:
  assumes "\<And>P. count_rows (members_of db) P d' = count_rows (members_of db) P d" "unique_members db d"
  shows "unique_members db d' \<and> owners db g d' = owners db g d"
  using assms(2) by (simp add: unique_members_def owners_def assms(1))

lemma tenancy_op_keeps:
  assumes "tenancy_op db hash d d'" and u: "unique_members db d"
  shows "unique_members db d' \<and> (owners db g d \<ge> 1 \<longrightarrow> owners db g d' \<ge> 1)"
  using assms(1)
proof cases
  case (Create st member_id name v)
  then show ?thesis using create_org_keeps [OF u, where st = st] by blast
next
  case (Role st o' target new actor actor_role reason r1)
  show ?thesis by (rule update_member_role_keeps [OF Role u])
next
  case (Remove st o' target actor actor_role reason r2)
  show ?thesis by (rule remove_member_keeps [OF Remove u])
next
  case (Invite token st o' actor actor_role email role r3)
  have "count_rows (members_of db) P d' = count_rows (members_of db) P d" for P
    using Invite
    by (auto simp: create_invitation_def Let_def new_link_token_def dest: invite_writes_members(1)
        split: if_splits prod.splits)
  from same_members_keep [OF this u, where g = g] show ?thesis by simp
next
  case (Revoke st o' i actor r4)
  have "count_rows (members_of db) P d' = count_rows (members_of db) P d" for P
    using Revoke by (auto simp: revoke_def dest: invite_writes_members(2) split: sum.splits option.splits)
  from same_members_keep [OF this u, where g = g] show ?thesis by simp
next
  case (Accept st token user r5)
  obtain res d1 where ch: "check_accept db hash (now st) token user d = (res, d1)" by (cases "check_accept db hash (now st) token user d")
  have same: "count_rows (members_of db) P d1 = count_rows (members_of db) P d" for P
    by (rule invite_writes_members(3) [OF ch])
  have k: "unique_members db d1 \<and> owners db g d1 = owners db g d" by (rule same_members_keep [OF same u])
  show ?thesis
  proof (cases res)
    case (Inl e)
    then show ?thesis using Accept ch k by (simp add: accept_def)
  next
    case (Inr r)
    then have "claim_invitation db st r user d1 = (r5, d')" using Accept ch by (simp add: accept_def)
    from claim_keeps(1) [OF this] claim_keeps(2) [OF this, where g = g] k show ?thesis by simp
  qed
qed

lemma tenancy_ops_keep:
  assumes "(tenancy_op db hash)\<^sup>*\<^sup>* d d'" "unique_members db d"
  shows "unique_members db d' \<and> (owners db g d \<ge> 1 \<longrightarrow> owners db g d' \<ge> 1)"
  using assms
proof (induction rule: rtranclp_induct)
  case (step y z)
  then show ?case using tenancy_op_keeps [OF step(2)] by blast
qed simp

end

text \<open>
  \<^bold>\<open>C8.\<close> When requests are served one at a time, an organization that has an owner never loses its last
  one, whatever is asked of the two services, and no user is twice a member of one organization.
\<close>

theorem organization_keeps_owner:
  assumes "tenancy_store db" "(tenancy_op db hash)\<^sup>*\<^sup>* d d'" "unique_members db d" "owners db o' d \<ge> 1"
  shows "unique_members db d' \<and> owners db o' d' \<ge> 1"
  using tenancy_store.tenancy_ops_keep [OF assms(1-3), where g = o'] assms(4) by (intro conjI) simp_all

text \<open>
  A revocation checks the status before its transaction and writes it without a guard: an accept between the
  two is recorded as revoked, although the invitee has joined.
\<close>

lemma revocation_overwrites_accept:
  assumes "check_revoke db o' i d = Inr r" "claim_invitation db st q user d = (Inr res, d1)"
    and "write_revoke db st o' actor r d1 = Some d2" "tenancy_store db" "inv_id q = i"
  shows "\<forall>s \<in> set (rows (invites_of db) d2). inv_id s = i \<longrightarrow> inv_status s = Revoked"
    and "\<exists>m \<in> set (rows (members_of db) d2). at_member (fst res) user m"
proof -
  have i: "inv_id r = i" using assms(1) by (auto simp: check_revoke_def split: option.splits if_splits dest!: find_first_Some)
  have "count_rows (invites_of db) (\<lambda>s. inv_id s = i \<and> inv_status s \<noteq> Revoked) d2 = 0"
    unfolding tenancy_store.write_revoke_count [OF assms(4,3)] i by (auto simp: count_zero)
  then show "\<forall>s \<in> set (rows (invites_of db) d2). inv_id s = i \<longrightarrow> inv_status s = Revoked"
    by (auto simp: count_zero)
  obtain o'' role where res: "res = (o'', role)" by (cases res)
  have "\<exists>m \<in> set (rows (members_of db) d1). at_member o'' user m"
    using tenancy_store.claim_members [OF assms(4) assms(2) [unfolded res]]
    by (auto simp: at_member_def split: if_splits)
  then have "0 < count_rows (members_of db) (at_member o'' user) d1" by (simp add: count_pos)
  then have "0 < count_rows (members_of db) (at_member o'' user) d2"
    using tenancy_store.invite_writes_members(2) [OF assms(4,3)] by simp
  then show "\<exists>m \<in> set (rows (members_of db) d2). at_member (fst res) user m" by (simp add: count_pos res)
qed

section \<open>The properties on the database of lists\<close>

definition demo_hash :: "string \<Rightarrow> string" where
  "demo_hash t = (if t = ''tok'' then ''h1'' else t)"

lemma demo_accept: "fst (accept list_db demo_hash demo_stamp ''tok'' ''dan'' demo_tenancy) = Inr (''acme'', Member)"
  by code_simp

lemma demo_unique_invites: "unique_invites list_db demo_tenancy"
  by (auto simp: unique_invites_def count_rows_def list_db_simps)

theorem accept_sound_witness:
  "\<exists>m \<in> set (rows (members_of list_db) (snd (accept list_db demo_hash demo_stamp ''tok'' ''dan'' demo_tenancy))).
     mem_user m = ''dan''"
proof -
  have "accept list_db demo_hash demo_stamp ''tok'' ''dan'' demo_tenancy =
      (Inr (''acme'', Member), snd (accept list_db demo_hash demo_stamp ''tok'' ''dan'' demo_tenancy))"
    using demo_accept by (metis prod.collapse)
  from accept_sound [OF list_db_store this] show ?thesis
    by (auto simp: at_member_def split: if_splits)
qed

theorem organization_keeps_owner_witness:
  "owners list_db ''acme'' (snd (update_member_role list_db demo_stamp ''acme'' ''bob'' Admin ''ada'' Owner None demo_tenancy)) \<ge> 1"
proof -
  have "(tenancy_op list_db demo_hash)\<^sup>*\<^sup>* demo_tenancy
      (snd (update_member_role list_db demo_stamp ''acme'' ''bob'' Admin ''ada'' Owner None demo_tenancy))"
    by (rule r_into_rtranclp, rule tenancy_op.Role, rule prod.collapse [symmetric])
  moreover have "owners list_db ''acme'' demo_tenancy \<ge> 1"
    by (simp add: owners_def count_rows_def list_db_simps demo_member_def is_owner_of_def)
  ultimately show ?thesis using organization_keeps_owner [OF list_db_store _ demo_unique] by blast
qed

theorem invitation_single_use_witness:
  "\<exists>es d'. invite_run list_db demo_hash es demo_tenancy d' \<and> es = [Claimed ''i1'' ''dan''] \<and>
     sum_list (map (claims_of ''i1'') es) \<le> pending list_db ''i1'' demo_tenancy"
proof -
  let ?r = "hd (tl_invites demo_tenancy)"
  have "\<exists>res. fst (claim_invitation list_db demo_stamp ?r ''dan'' demo_tenancy) = Inr res \<and> inv_id ?r = ''i1''"
    by (rule exI [of _ "(''acme'', Member)"]) code_simp
  then obtain res where "claim_invitation list_db demo_stamp ?r ''dan'' demo_tenancy =
      (Inr res, snd (claim_invitation list_db demo_stamp ?r ''dan'' demo_tenancy))" "inv_id ?r = ''i1''"
    by (metis prod.collapse)
  then have run: "invite_run list_db demo_hash [Claimed ''i1'' ''dan''] demo_tenancy
      (snd (claim_invitation list_db demo_stamp ?r ''dan'' demo_tenancy))"
    by (metis invite_run.Done invite_run.Step invite_step.Claim)
  from invitation_single_use [OF list_db_store demo_unique_invites this, of "''i1''"] show ?thesis
    using run by (intro exI conjI) (assumption, rule refl, simp)
qed

end
