(* ===== verification/Auth.thy ===== *)
theory Auth
  imports Invitations
begin

text \<open>
  \<open>apps/api/src/auth/auth.service.ts\<close>: registration, login with its lockout, the links for verification and
  reset, and the rotation of refresh tokens. Node's \<open>crypto\<close>, \<open>argon2\<close> and the JWT library are the fields
  of \<open>crypto\<close>; random tokens and ids come with the \<open>issue\<close> of a request. The access token is stateless
  and only signed.

  Audit records are written without waiting, and a failure is swallowed; \<open>log_event\<close> is the write. A
  request is a sequence of statements, and only the claim of a refresh token is a transaction with what
  follows it. Where a property speaks of concurrent requests, the statements between the read and the
  write of a request are separate definitions.
\<close>

section \<open>State\<close>

record account =
  ac_id :: string
  ac_email :: string
  ac_passwordHash :: string
  ac_name :: string
  ac_failedLogins :: nat
  ac_lastFailedAt :: "nat option"
  ac_lockedUntil :: "nat option"
  ac_verified :: bool
  ac_verifyHash :: "string option"
  ac_verifyExpires :: "nat option"
  ac_resetHash :: "string option"
  ac_resetExpires :: "nat option"

record refresh_row =
  rt_jti :: string
  rt_user :: string
  rt_family :: string
  rt_hash :: string
  rt_expiresAt :: nat
  rt_usedAt :: "nat option"
  rt_revokedAt :: "nat option"
  rt_ip :: "string option"
  rt_userAgent :: "string option"

record 'd auth_db =
  accounts_of :: "('d, account) table"
  tokens_of :: "('d, refresh_row) table"
  events_of :: "('d, audit_row) table"
  tenants :: "'d tenancy"

record crypto =
  hash_token :: "string \<Rightarrow> string"
  hash_password :: "string \<Rightarrow> string"
  verify_password :: "string \<Rightarrow> string \<Rightarrow> bool"
  jwt_verify :: "nat \<Rightarrow> string \<Rightarrow> string option option"
  jwt_verify_any_age :: "string \<Rightarrow> string option option"
  sign_access :: "string \<Rightarrow> string \<Rightarrow> string"
  sign_refresh :: "string \<Rightarrow> string \<Rightarrow> string \<Rightarrow> string"

record auth_context =
  ctx_ip :: "string option"
  ctx_userAgent :: "string option"

text \<open>What one request draws: the time, the ids, the link token and the session ids.\<close>

record issue =
  moment :: nat
  event_id :: string
  user_id_new :: string
  org_id_new :: string
  member_id_new :: string
  link_token :: string
  jti_new :: string
  family_new :: string

definition max_failed_logins :: nat where "max_failed_logins = 5"
definition lockout_ms :: nat where "lockout_ms = 15 * 60 * 1000"
definition email_verify_ttl_ms :: nat where "email_verify_ttl_ms = 24 * 60 * 60 * 1000"
definition password_reset_ttl_ms :: nat where "password_reset_ttl_ms = 60 * 60 * 1000"
definition refresh_ttl_ms :: nat where "refresh_ttl_ms = 7 * 24 * 60 * 60 * 1000"

datatype auth_error =
    EmailRegistered
  | InvalidCredentials
  | AccountLocked nat
  | EmailNotVerified
  | InvalidVerificationLink
  | InvalidResetLink
  | InvalidRefreshToken

record tokens =
  access_token :: string
  refresh_token :: string
  token_user :: string
  token_email :: string
  token_name :: string

section \<open>Helpers\<close>

definition log_event :: "'d auth_db \<Rightarrow> issue \<Rightarrow> string \<Rightarrow> string \<Rightarrow> (string \<times> json) list \<Rightarrow> 'd \<Rightarrow> 'd" where
  "log_event db is u action meta d = create_row (events_of db)
     \<lparr>log_id = event_id is, log_org = None, log_user = Some u, log_admin = None, log_action = action,
      log_entityType = ''User'', log_entityId = u, log_meta = json_round (JObj meta), log_createdAt = moment is\<rparr> d"

definition context_meta :: "auth_context \<Rightarrow> (string \<times> json) list" where
  "context_meta ctx =
     (case ctx_ip ctx of None \<Rightarrow> [] | Some s \<Rightarrow> [(''ip'', JStr s)]) @
     (case ctx_userAgent ctx of None \<Rightarrow> [] | Some s \<Rightarrow> [(''userAgent'', JStr s)])"

definition update_account :: "'d auth_db \<Rightarrow> string \<Rightarrow> (account \<Rightarrow> account) \<Rightarrow> 'd \<Rightarrow> 'd" where
  "update_account db u f d = update_rows (accounts_of db) (\<lambda>a. ac_id a = u) f d"

definition generate_tokens ::
  "'d auth_db \<Rightarrow> crypto \<Rightarrow> issue \<Rightarrow> account \<Rightarrow> string option \<Rightarrow> auth_context \<Rightarrow> 'd \<Rightarrow> tokens \<times> 'd" where
  "generate_tokens db cr is user family ctx d =
     (let fam = (case family of None \<Rightarrow> family_new is | Some f \<Rightarrow> f);
          access = sign_access cr (ac_id user) (ac_email user);
          refresh = sign_refresh cr (ac_id user) (ac_email user) (jti_new is)
      in (\<lparr>access_token = access, refresh_token = refresh, token_user = ac_id user, token_email = ac_email user,
           token_name = ac_name user\<rparr>,
          create_row (tokens_of db)
            \<lparr>rt_jti = jti_new is, rt_user = ac_id user, rt_family = fam, rt_hash = hash_token cr refresh,
             rt_expiresAt = moment is + refresh_ttl_ms, rt_usedAt = None, rt_revokedAt = None,
             rt_ip = ctx_ip ctx, rt_userAgent = ctx_userAgent ctx\<rparr> d))"

definition revoke_family :: "'d auth_db \<Rightarrow> nat \<Rightarrow> string \<Rightarrow> 'd \<Rightarrow> 'd" where
  "revoke_family db t fam d =
     update_rows (tokens_of db) (\<lambda>r. rt_family r = fam \<and> rt_revokedAt r = None) (rt_revokedAt_update (\<lambda>_. Some t)) d"

definition revoke_user :: "'d auth_db \<Rightarrow> nat \<Rightarrow> string \<Rightarrow> 'd \<Rightarrow> 'd" where
  "revoke_user db t u d =
     update_rows (tokens_of db) (\<lambda>r. rt_user r = u \<and> rt_revokedAt r = None) (rt_revokedAt_update (\<lambda>_. Some t)) d"

text \<open>\<open>Math.max(1, Math.ceil(ms / 1000))\<close>\<close>

definition locked_error :: "nat \<Rightarrow> nat \<Rightarrow> auth_error" where
  "locked_error until t = AccountLocked (max 1 ((until - t + 999) div 1000))"

section \<open>Accounts\<close>

definition register ::
  "'d auth_db \<Rightarrow> crypto \<Rightarrow> issue \<Rightarrow> string \<Rightarrow> string \<Rightarrow> string \<Rightarrow> auth_context \<Rightarrow> 'd \<Rightarrow>
   (auth_error + (tokens \<times> string \<times> string)) \<times> 'd" where
  "register db cr is email password name ctx d =
     (let norm = normalize_email email in
      if find_first (accounts_of db) (\<lambda>a. ac_email a = norm) d \<noteq> None then (Inl EmailRegistered, d)
      else (let (tok, h) = new_link_token (hash_token cr) (link_token is);
                user = \<lparr>ac_id = user_id_new is, ac_email = norm, ac_passwordHash = hash_password cr password,
                  ac_name = name, ac_failedLogins = 0, ac_lastFailedAt = None, ac_lockedUntil = None,
                  ac_verified = False, ac_verifyHash = Some h, ac_verifyExpires = Some (moment is + email_verify_ttl_ms),
                  ac_resetHash = None, ac_resetExpires = None\<rparr>;
                d1 = create_row (accounts_of db) user d;
                d2 = create_org (tenants db)
                       \<lparr>new_id = org_id_new is, new_audit_id = event_id is, now = moment is, request_id = None\<rparr>
                       (member_id_new is) (name @ [CHR 0x27] @ ''s Workspace'') (ac_id user) d1;
                d3 = log_event db is (ac_id user) ''auth.register'' (context_meta ctx) d2;
                (ts, d4) = generate_tokens db cr is user None ctx d3
            in (Inr (ts, norm, tok), d4)))"

definition record_failed_login ::
  "'d auth_db \<Rightarrow> issue \<Rightarrow> string \<Rightarrow> nat \<Rightarrow> auth_context \<Rightarrow> 'd \<Rightarrow> 'd" where
  "record_failed_login db is u current ctx d =
     (let n = current + 1;
          locked = (max_failed_logins \<le> n);
          d1 = update_account db u (\<lambda>a.
                 (if locked then a\<lparr>ac_failedLogins := 0, ac_lastFailedAt := Some (moment is),
                     ac_lockedUntil := Some (moment is + lockout_ms)\<rparr>
                  else a\<lparr>ac_failedLogins := n, ac_lastFailedAt := Some (moment is)\<rparr>)) d
      in if locked then log_event db is u ''auth.account_locked'' (context_meta ctx) d1 else d1)"

text \<open>
  What follows the read of the account in \<open>login\<close>. The rows that have long expired are dropped without
  waiting.
\<close>

definition login_with ::
  "'d auth_db \<Rightarrow> crypto \<Rightarrow> bool \<Rightarrow> issue \<Rightarrow> account \<Rightarrow> string \<Rightarrow> auth_context \<Rightarrow> 'd \<Rightarrow>
   (auth_error + tokens) \<times> 'd" where
  "login_with db cr require_verified is user password ctx d =
     (if (case ac_lockedUntil user of None \<Rightarrow> False | Some w \<Rightarrow> moment is < w)
      then (Inl (locked_error (the (ac_lockedUntil user)) (moment is)), d)
      else if \<not> verify_password cr (ac_passwordHash user) password
      then (Inl InvalidCredentials,
            log_event db is (ac_id user) ''auth.login_failed'' (context_meta ctx)
              (record_failed_login db is (ac_id user) (ac_failedLogins user) ctx d))
      else if \<not> ac_verified user \<and> require_verified then (Inl EmailNotVerified, d)
      else (let d1 = (if 0 < ac_failedLogins user \<or> ac_lockedUntil user \<noteq> None
                      then update_account db (ac_id user) (\<lambda>a. a\<lparr>ac_failedLogins := 0, ac_lockedUntil := None\<rparr>) d
                      else d);
                d2 = delete_rows (tokens_of db) (\<lambda>r. rt_user r = ac_id user \<and> rt_expiresAt r < moment is) d1;
                d3 = log_event db is (ac_id user) ''auth.login'' (context_meta ctx) d2;
                (ts, d4) = generate_tokens db cr is user None ctx d3
            in (Inr ts, d4)))"

definition login ::
  "'d auth_db \<Rightarrow> crypto \<Rightarrow> bool \<Rightarrow> issue \<Rightarrow> string \<Rightarrow> string \<Rightarrow> auth_context \<Rightarrow> 'd \<Rightarrow>
   (auth_error + tokens) \<times> 'd" where
  "login db cr require_verified is email password ctx d =
     (case find_first (accounts_of db) (\<lambda>a. ac_email a = normalize_email email) d of
        None \<Rightarrow> (Inl InvalidCredentials, d)
      | Some user \<Rightarrow> login_with db cr require_verified is user password ctx d)"

definition live_until :: "nat \<Rightarrow> nat option \<Rightarrow> bool" where
  "live_until t w \<longleftrightarrow> (case w of None \<Rightarrow> False | Some e \<Rightarrow> t < e)"

definition verify_email :: "'d auth_db \<Rightarrow> crypto \<Rightarrow> issue \<Rightarrow> string \<Rightarrow> 'd \<Rightarrow> auth_error option \<times> 'd" where
  "verify_email db cr is token d =
     (case find_first (accounts_of db) (\<lambda>a. ac_verifyHash a = Some (hash_token cr token) \<and>
             live_until (moment is) (ac_verifyExpires a)) d of
        None \<Rightarrow> (Some InvalidVerificationLink, d)
      | Some user \<Rightarrow> (None, log_event db is (ac_id user) ''auth.email_verified'' []
          (update_account db (ac_id user)
             (\<lambda>a. a\<lparr>ac_verified := True, ac_verifyHash := None, ac_verifyExpires := None\<rparr>) d)))"

definition resend_verification ::
  "'d auth_db \<Rightarrow> crypto \<Rightarrow> issue \<Rightarrow> string \<Rightarrow> 'd \<Rightarrow> (string \<times> string) option \<times> 'd" where
  "resend_verification db cr is email d =
     (case find_first (accounts_of db) (\<lambda>a. ac_email a = normalize_email email) d of
        None \<Rightarrow> (None, d)
      | Some user \<Rightarrow> if ac_verified user then (None, d)
          else (let (tok, h) = new_link_token (hash_token cr) (link_token is)
                in (Some (ac_email user, tok), update_account db (ac_id user)
                      (\<lambda>a. a\<lparr>ac_verifyHash := Some h, ac_verifyExpires := Some (moment is + email_verify_ttl_ms)\<rparr>) d)))"

definition forgot_password ::
  "'d auth_db \<Rightarrow> crypto \<Rightarrow> issue \<Rightarrow> string \<Rightarrow> 'd \<Rightarrow> (string \<times> string) option \<times> 'd" where
  "forgot_password db cr is email d =
     (case find_first (accounts_of db) (\<lambda>a. ac_email a = normalize_email email) d of
        None \<Rightarrow> (None, d)
      | Some user \<Rightarrow> (let (tok, h) = new_link_token (hash_token cr) (link_token is)
          in (Some (ac_email user, tok),
              log_event db is (ac_id user) ''auth.password_reset_requested'' [] (update_account db (ac_id user)
                (\<lambda>a. a\<lparr>ac_resetHash := Some h, ac_resetExpires := Some (moment is + password_reset_ttl_ms)\<rparr>) d))))"

text \<open>\<open>resetPassword\<close>: the read, and what follows it.\<close>

definition reset_account :: "'d auth_db \<Rightarrow> crypto \<Rightarrow> nat \<Rightarrow> string \<Rightarrow> 'd \<Rightarrow> account option" where
  "reset_account db cr t token d =
     find_first (accounts_of db) (\<lambda>a. ac_resetHash a = Some (hash_token cr token) \<and> live_until t (ac_resetExpires a)) d"

definition reset_with :: "'d auth_db \<Rightarrow> crypto \<Rightarrow> issue \<Rightarrow> account \<Rightarrow> string \<Rightarrow> 'd \<Rightarrow> 'd" where
  "reset_with db cr is user password d =
     log_event db is (ac_id user) ''auth.password_reset_completed'' []
       (revoke_user db (moment is) (ac_id user)
          (update_account db (ac_id user)
             (\<lambda>a. a\<lparr>ac_passwordHash := hash_password cr password, ac_resetHash := None, ac_resetExpires := None,
                  ac_failedLogins := 0, ac_lockedUntil := None\<rparr>) d))"

definition reset_password ::
  "'d auth_db \<Rightarrow> crypto \<Rightarrow> issue \<Rightarrow> string \<Rightarrow> string \<Rightarrow> 'd \<Rightarrow> auth_error option \<times> 'd" where
  "reset_password db cr is token password d =
     (case reset_account db cr (moment is) token d of
        None \<Rightarrow> (Some InvalidResetLink, d)
      | Some user \<Rightarrow> (None, reset_with db cr is user password d))"

definition validate_user :: "'d auth_db \<Rightarrow> string \<Rightarrow> 'd \<Rightarrow> (string \<times> string \<times> string) option" where
  "validate_user db u d =
     map_option (\<lambda>a. (ac_id a, ac_email a, ac_name a)) (find_first (accounts_of db) (\<lambda>a. ac_id a = u) d)"

section \<open>Sessions\<close>

text \<open>The checks of \<open>refresh\<close>: the row and its user, or a refusal that may revoke the family.\<close>

definition check_refresh ::
  "'d auth_db \<Rightarrow> crypto \<Rightarrow> issue \<Rightarrow> string \<Rightarrow> auth_context \<Rightarrow> 'd \<Rightarrow>
   (auth_error + (refresh_row \<times> account)) \<times> 'd" where
  "check_refresh db cr is token ctx d =
     (case jwt_verify cr (moment is) token of
        None \<Rightarrow> (Inl InvalidRefreshToken, d)
      | Some None \<Rightarrow> (Inl InvalidRefreshToken, d)
      | Some (Some jti) \<Rightarrow>
          if jti = [] then (Inl InvalidRefreshToken, d)
          else (case find_first (tokens_of db) (\<lambda>r. rt_jti r = jti) d of
              None \<Rightarrow> (Inl InvalidRefreshToken, d)
            | Some row \<Rightarrow>
                if rt_hash row \<noteq> hash_token cr token \<or> rt_revokedAt row \<noteq> None \<or> rt_expiresAt row \<le> moment is
                then (Inl InvalidRefreshToken, d)
                else if rt_usedAt row \<noteq> None then
                  (Inl InvalidRefreshToken,
                   log_event db is (rt_user row) ''auth.refresh_reuse_detected''
                     ((''familyId'', JStr (rt_family row)) # context_meta ctx) (revoke_family db (moment is) (rt_family row) d))
                else (case find_first (accounts_of db) (\<lambda>a. ac_id a = rt_user row) d of
                    None \<Rightarrow> (Inl InvalidRefreshToken, d)
                  | Some user \<Rightarrow> (Inr (row, user), d))))"

definition claim_refresh ::
  "'d auth_db \<Rightarrow> crypto \<Rightarrow> issue \<Rightarrow> refresh_row \<Rightarrow> account \<Rightarrow> auth_context \<Rightarrow> 'd \<Rightarrow>
   (auth_error + tokens) \<times> 'd" where
  "claim_refresh db cr is row user ctx d =
     (let (n, d1) = update_many (tokens_of db) (\<lambda>r. rt_jti r = rt_jti row \<and> rt_usedAt r = None)
            (rt_usedAt_update (\<lambda>_. Some (moment is))) d
      in if n \<noteq> 1 then (Inl InvalidRefreshToken, d)
         else (let (ts, d2) = generate_tokens db cr is user (Some (rt_family row)) ctx d1 in (Inr ts, d2)))"

definition refresh ::
  "'d auth_db \<Rightarrow> crypto \<Rightarrow> issue \<Rightarrow> string \<Rightarrow> auth_context \<Rightarrow> 'd \<Rightarrow> (auth_error + tokens) \<times> 'd" where
  "refresh db cr is token ctx d =
     (case check_refresh db cr is token ctx d of
        (Inl e, d') \<Rightarrow> (Inl e, d')
      | (Inr (row, user), d') \<Rightarrow> claim_refresh db cr is row user ctx d')"

definition logout ::
  "'d auth_db \<Rightarrow> crypto \<Rightarrow> issue \<Rightarrow> string option \<Rightarrow> bool \<Rightarrow> auth_context \<Rightarrow> 'd \<Rightarrow> 'd" where
  "logout db cr is token all_devices ctx d =
     (case token of None \<Rightarrow> d
      | Some tok \<Rightarrow> if tok = [] then d else
         (case jwt_verify_any_age cr tok of None \<Rightarrow> d | Some None \<Rightarrow> d
          | Some (Some jti) \<Rightarrow> if jti = [] then d else
             (case find_first (tokens_of db) (\<lambda>r. rt_jti r = jti) d of
                None \<Rightarrow> d
              | Some row \<Rightarrow>
                  if rt_hash row \<noteq> hash_token cr tok then d
                  else log_event db is (rt_user row) ''auth.logout''
                         ((''allDevices'', JBool all_devices) # context_meta ctx)
                         (if all_devices then revoke_user db (moment is) (rt_user row) d
                          else revoke_family db (moment is) (rt_family row) d))))"

section \<open>The store\<close>

locale session_store =
  fixes db :: "'d auth_db"
  assumes accounts_table: "prisma_table (accounts_of db)"
    and tokens_table: "prisma_table (tokens_of db)"
    and events_tokens: "separate_tables (events_of db) (tokens_of db)"
    and events_accounts: "separate_tables (events_of db) (accounts_of db)"
    and tokens_accounts: "separate_tables (tokens_of db) (accounts_of db)"
    and accounts_tokens: "separate_tables (accounts_of db) (tokens_of db)"

sublocale session_store \<subseteq> accounts: prisma_table "accounts_of db"
  by (rule accounts_table)

sublocale session_store \<subseteq> tokens: prisma_table "tokens_of db"
  by (rule tokens_table)

sublocale session_store \<subseteq> events_tokens: separate_tables "events_of db" "tokens_of db"
  by (rule events_tokens)

sublocale session_store \<subseteq> events_accounts: separate_tables "events_of db" "accounts_of db"
  by (rule events_accounts)

sublocale session_store \<subseteq> tokens_accounts: separate_tables "tokens_of db" "accounts_of db"
  by (rule tokens_accounts)

sublocale session_store \<subseteq> accounts_tokens: separate_tables "accounts_of db" "tokens_of db"
  by (rule accounts_tokens)

section \<open>Rotation\<close>

definition unused :: "'d auth_db \<Rightarrow> string \<Rightarrow> 'd \<Rightarrow> nat" where
  "unused db j d = count_rows (tokens_of db) (\<lambda>r. rt_jti r = j \<and> rt_usedAt r = None) d"

datatype session_event = Issued string | Rotated string string | Quiet

text \<open>
  The steps that touch the sessions, in any order and for any rows earlier reads returned: a login issues,
  a claim rotates, logouts, resets and reuse revoke, housekeeping deletes. A new session id is new.
\<close>

inductive session_step :: "'d auth_db \<Rightarrow> crypto \<Rightarrow> session_event \<Rightarrow> 'd \<Rightarrow> 'd \<Rightarrow> bool" for db cr where
  Issue: "count_rows (tokens_of db) (\<lambda>r. rt_jti r = jti_new is) d = 0 \<Longrightarrow>
     generate_tokens db cr is user None ctx d = (ts, d') \<Longrightarrow> session_step db cr (Issued (jti_new is)) d d'"
| Rotate: "count_rows (tokens_of db) (\<lambda>r. rt_jti r = jti_new is) d = 0 \<Longrightarrow>
     claim_refresh db cr is row user ctx d = (Inr ts, d') \<Longrightarrow>
     session_step db cr (Rotated (rt_jti row) (jti_new is)) d d'"
| Family: "session_step db cr Quiet d (revoke_family db t fam d)"
| User: "session_step db cr Quiet d (revoke_user db t u d)"
| Refusal: "check_refresh db cr is token ctx d = (res, d') \<Longrightarrow> session_step db cr Quiet d d'"
| Cleanup: "session_step db cr Quiet d (delete_rows (tokens_of db) P d)"

inductive session_run :: "'d auth_db \<Rightarrow> crypto \<Rightarrow> session_event list \<Rightarrow> 'd \<Rightarrow> 'd \<Rightarrow> bool" for db cr where
  Done: "session_run db cr [] d d"
| Step: "session_step db cr e d d' \<Longrightarrow> session_run db cr es d' d'' \<Longrightarrow> session_run db cr (e # es) d d''"

fun rotations_of :: "string \<Rightarrow> session_event \<Rightarrow> nat" where
  "rotations_of j (Rotated i _) = (if j = i then 1 else 0)"
| "rotations_of j _ = 0"

fun issues_of :: "string \<Rightarrow> session_event \<Rightarrow> nat" where
  "issues_of j (Issued i) = (if j = i then 1 else 0)"
| "issues_of j (Rotated _ i) = (if j = i then 1 else 0)"
| "issues_of j Quiet = 0"

lemma check_refresh_state:
  assumes "check_refresh db cr is token ctx d = (res, d')"
  shows "d' = d \<or> (\<exists>row :: refresh_row. d' = log_event db is (rt_user row) ''auth.refresh_reuse_detected''
    ((''familyId'', JStr (rt_family row)) # context_meta ctx) (revoke_family db (moment is) (rt_family row) d))"
  using assms unfolding check_refresh_def
  by (simp split: option.splits if_splits; blast)

context session_store
begin

lemma tokens_of_event: "count_rows (tokens_of db) P (log_event db is u action meta d) = count_rows (tokens_of db) P d"
  unfolding log_event_def by (rule count_same_rows) simp

lemma set_tokens_of_event: "set (rows (tokens_of db) (log_event db is u action meta d)) = set (rows (tokens_of db) d)"
  by (simp add: log_event_def)

lemma generate_count:
  assumes "generate_tokens db cr is user fam ctx d = (ts, d')"
  shows "unused db j d' = unused db j d + (if j = jti_new is then 1 else 0)"
  using assms by (auto simp: generate_tokens_def Let_def unused_def tokens.count_create)

lemma revoke_unused:
  "unused db j (revoke_family db t fam d) = unused db j d" "unused db j (revoke_user db t u d) = unused db j d"
  by (simp_all add: unused_def revoke_family_def revoke_user_def tokens.count_update if_distrib cong: if_cong)

lemma session_step_unused:
  assumes "session_step db cr e d d'"
  shows "rotations_of j e + unused db j d' \<le> issues_of j e + unused db j d"
  using assms
proof (induction rule: session_step.induct)
  case (Issue "is" d user ctx ts d')
  then show ?case using generate_count [OF Issue(2), of j] by simp
next
  case (Rotate "is" d row user ctx ts d')
  let ?d1 = "update_rows (tokens_of db) (\<lambda>r. rt_jti r = rt_jti row \<and> rt_usedAt r = None)
       (rt_usedAt_update (\<lambda>_. Some (moment is))) d"
  have one: "unused db (rt_jti row) d = 1" and g: "generate_tokens db cr is user (Some (rt_family row)) ctx ?d1 = (ts, d')"
    using Rotate(2)
    by (auto simp: claim_refresh_def update_many_def unused_def Let_def split: if_splits prod.splits)
  have "unused db j ?d1 = (if j = rt_jti row then 0 else unused db j d)"
  proof (cases "j = rt_jti row")
    case True
    then show ?thesis by (auto simp: unused_def tokens.count_update count_zero)
  next
    case False
    have "unused db j ?d1 = unused db j d"
      unfolding unused_def tokens.count_update by (rule count_cong) (use False in auto)
    then show ?thesis using False by simp
  qed
  then show ?case using generate_count [OF g, of j] one by simp
next
  case (Refusal "is" token ctx d res d')
  note check_refresh_state [OF Refusal]
  moreover have "unused db j (log_event db is u a m (revoke_family db t fam d)) = unused db j d" for u a m t fam
    using revoke_unused(1) tokens_of_event by (simp add: unused_def)
  ultimately show ?case by auto
next
  case (Cleanup d P)
  show ?case unfolding unused_def tokens.count_delete by (auto intro: count_mono)
qed (simp_all add: revoke_unused)

lemma session_run_unused:
  "session_run db cr es d d' \<Longrightarrow>
   sum_list (map (rotations_of j) es) + unused db j d' \<le> sum_list (map (issues_of j) es) + unused db j d"
proof (induction rule: session_run.induct)
  case (Step e d d' es d'')
  then show ?case using session_step_unused [OF Step(1), of j] by fastforce
qed simp

end

text \<open>
  \<^bold>\<open>C11.\<close> A refresh token is rotated at most once: over every interleaving of logins, claims, logouts, resets
  and housekeeping, a session id is exchanged for a successor no more often than it was issued.
\<close>

theorem refresh_rotates_once:
  assumes "session_store db" "session_run db cr es d d'"
  shows "sum_list (map (rotations_of j) es) \<le> sum_list (map (issues_of j) es) + unused db j d"
  using session_store.session_run_unused [OF assms, of j] by linarith

lemma revoked_row_refused:
  assumes "\<forall>r \<in> set (rows (tokens_of db) d). rt_jti r = jti \<longrightarrow> rt_revokedAt r \<noteq> None"
    and "jwt_verify cr (moment is) token = Some (Some jti)"
  shows "refresh db cr is token ctx d = (Inl InvalidRefreshToken, d)"
proof (cases "find_first (tokens_of db) (\<lambda>r. rt_jti r = jti) d")
  case None
  then show ?thesis using assms(2) by (simp add: refresh_def check_refresh_def)
next
  case (Some r)
  then have "rt_revokedAt r \<noteq> None" using assms(1) find_first_Some by fast
  then show ?thesis using assms(2) Some by (simp add: refresh_def check_refresh_def)
qed

text \<open>
  \<^bold>\<open>C12.\<close> A token that is presented again after its rotation ends its session: the request is refused, and from
  then on so is every token of the same family, the successor included, without changing anything.
\<close>

theorem reuse_ends_family:
  assumes "session_store db" "count_rows (tokens_of db) (\<lambda>r. rt_jti r = jti) d = 1"
    and "r \<in> set (rows (tokens_of db) d)" "rt_jti r = jti" "jti \<noteq> []" "jwt_verify cr (moment is) token = Some (Some jti)"
    and "rt_hash r = hash_token cr token" "rt_revokedAt r = None" "moment is < rt_expiresAt r" "rt_usedAt r \<noteq> None"
    and other: "\<forall>s \<in> set (rows (tokens_of db) d). rt_jti s = jti' \<longrightarrow> rt_family s = rt_family r"
    and "jwt_verify cr (moment is') token' = Some (Some jti')"
  shows "\<exists>d'. refresh db cr is token ctx d = (Inl InvalidRefreshToken, d') \<and>
    refresh db cr is' token' ctx' d' = (Inl InvalidRefreshToken, d')"
proof -
  have f: "find_first (tokens_of db) (\<lambda>s. rt_jti s = jti) d = Some r"
  proof (cases "find_first (tokens_of db) (\<lambda>s. rt_jti s = jti) d")
    case None
    then show ?thesis using assms(3,4) by (simp add: find_first_None)
  next
    case (Some s)
    have "s = r"
      by (rule count_le_one [of "tokens_of db" "\<lambda>s. rt_jti s = jti" d])
        (use assms(2-4) find_first_Some [OF Some] in simp_all)
    then show ?thesis using Some by simp
  qed
  let ?d' = "log_event db is (rt_user r) ''auth.refresh_reuse_detected''
       ((''familyId'', JStr (rt_family r)) # context_meta ctx) (revoke_family db (moment is) (rt_family r) d)"
  have first: "refresh db cr is token ctx d = (Inl InvalidRefreshToken, ?d')"
    using assms(5-10) by (simp add: refresh_def check_refresh_def f)
  have "\<forall>s \<in> set (rows (tokens_of db) ?d'). rt_jti s = jti' \<longrightarrow> rt_revokedAt s \<noteq> None"
    unfolding session_store.set_tokens_of_event [OF assms(1)] revoke_family_def
      prisma_table.set_update [OF session_store.tokens_table [OF assms(1)]]
    using other by auto
  from revoked_row_refused [OF this assms(12)] first show ?thesis by blast
qed

text \<open>
  The claim guards on the use of the row and not on its revocation: a logout or a reset between the checks of
  a refresh and its claim revokes the old row, and the claim still issues a live successor.
\<close>

lemma refresh_outlives_revocation:
  assumes "session_store db" "unused db (rt_jti row) d = 1"
  shows "\<exists>ts d' s. claim_refresh db cr is row user ctx (revoke_user db t (ac_id user) d) = (Inr ts, d') \<and>
    s \<in> set (rows (tokens_of db) d') \<and> rt_user s = ac_id user \<and> rt_revokedAt s = None \<and> rt_usedAt s = None"
proof -
  have "unused db (rt_jti row) (revoke_user db t (ac_id user) d) = 1"
    using session_store.revoke_unused(2) [OF assms(1)] assms(2) by simp
  then have one: "count_rows (tokens_of db) (\<lambda>r. rt_jti r = rt_jti row \<and> rt_usedAt r = None)
      (revoke_user db t (ac_id user) d) = 1" by (simp only: unused_def)
  let ?s = "\<lparr>rt_jti = jti_new is, rt_user = ac_id user, rt_family = rt_family row,
      rt_hash = hash_token cr (sign_refresh cr (ac_id user) (ac_email user) (jti_new is)),
      rt_expiresAt = moment is + refresh_ttl_ms, rt_usedAt = None, rt_revokedAt = None,
      rt_ip = ctx_ip ctx, rt_userAgent = ctx_userAgent ctx\<rparr>"
  obtain ts where "claim_refresh db cr is row user ctx (revoke_user db t (ac_id user) d) =
      (Inr ts, create_row (tokens_of db) ?s (update_rows (tokens_of db)
        (\<lambda>r. rt_jti r = rt_jti row \<and> rt_usedAt r = None) (rt_usedAt_update (\<lambda>_. Some (moment is)))
        (revoke_user db t (ac_id user) d)))"
    by (simp add: claim_refresh_def update_many_def one generate_tokens_def Let_def)
  moreover have "?s \<in> set (rows (tokens_of db) (create_row (tokens_of db) ?s e))" for e
    by (simp add: prisma_table.set_create [OF session_store.tokens_table [OF assms(1)]])
  ultimately show ?thesis by (intro exI [of _ ts] exI [of _ ?s] exI conjI) (assumption | simp)+
qed

section \<open>Lockout\<close>

text \<open>The account of an address, when address and id are unique.\<close>

definition account_at :: "'d auth_db \<Rightarrow> string \<Rightarrow> account \<Rightarrow> 'd \<Rightarrow> bool" where
  "account_at db email a d \<longleftrightarrow> ac_email a = email \<and> a \<in> set (rows (accounts_of db) d) \<and>
     count_rows (accounts_of db) (\<lambda>b. ac_email b = email) d = 1 \<and>
     count_rows (accounts_of db) (\<lambda>b. ac_id b = ac_id a) d = 1"

lemma account_at_find: "account_at db email a d \<Longrightarrow> find_first (accounts_of db) (\<lambda>b. ac_email b = email) d = Some a"
proof (cases "find_first (accounts_of db) (\<lambda>b. ac_email b = email) d")
  case None
  then show "account_at db email a d \<Longrightarrow> ?thesis" by (auto simp: find_first_None account_at_def)
next
  case (Some b)
  assume a: "account_at db email a d"
  have "b = a"
    by (rule count_le_one [of "accounts_of db" "\<lambda>b. ac_email b = email" d])
      (use a find_first_Some [OF Some] in \<open>simp_all add: account_at_def\<close>)
  then show ?thesis using Some by simp
qed

definition failed :: "account \<Rightarrow> nat \<Rightarrow> account" where
  "failed a t = (if max_failed_logins \<le> ac_failedLogins a + 1
     then a\<lparr>ac_failedLogins := 0, ac_lastFailedAt := Some t, ac_lockedUntil := Some (t + lockout_ms)\<rparr>
     else a\<lparr>ac_failedLogins := ac_failedLogins a + 1, ac_lastFailedAt := Some t\<rparr>)"

context session_store
begin

lemma accounts_of_event:
  "count_rows (accounts_of db) P (log_event db is u action meta d) = count_rows (accounts_of db) P d"
  "set (rows (accounts_of db) (log_event db is u action meta d)) = set (rows (accounts_of db) d)"
  unfolding log_event_def by (rule count_same_rows) simp_all

lemma account_at_event [simp]:
  "account_at db email a (log_event db is u action meta d) = account_at db email a d"
  by (simp add: account_at_def accounts_of_event)

lemma account_at_update:
  assumes "account_at db email a d" "\<And>b. ac_id (f b) = ac_id b" "\<And>b. ac_email (f b) = ac_email b"
  shows "account_at db email (f a) (update_account db (ac_id a) f d)"
proof -
  have "count_rows (accounts_of db) (\<lambda>b. ac_email b = email) (update_account db (ac_id a) f d) =
      count_rows (accounts_of db) (\<lambda>b. ac_email b = email) d"
    "count_rows (accounts_of db) (\<lambda>b. ac_id b = ac_id a) (update_account db (ac_id a) f d) =
      count_rows (accounts_of db) (\<lambda>b. ac_id b = ac_id a) d"
    unfolding update_account_def accounts.count_update by (rule count_cong; simp add: assms(2,3))+
  moreover have "f a \<in> set (rows (accounts_of db) (update_account db (ac_id a) f d))"
    using assms(1) by (auto simp: update_account_def account_at_def)
  ultimately show ?thesis using assms by (simp add: account_at_def)
qed

lemma record_failed_login_account:
  assumes "account_at db email a d"
  shows "account_at db email (failed a (moment is)) (record_failed_login db is (ac_id a) (ac_failedLogins a) ctx d)"
proof -
  let ?f = "\<lambda>b. (if max_failed_logins \<le> ac_failedLogins a + 1
      then b\<lparr>ac_failedLogins := 0, ac_lastFailedAt := Some (moment is), ac_lockedUntil := Some (moment is + lockout_ms)\<rparr>
      else b\<lparr>ac_failedLogins := ac_failedLogins a + 1, ac_lastFailedAt := Some (moment is)\<rparr>)"
  have "account_at db email (?f a) (update_account db (ac_id a) ?f d)"
    by (rule account_at_update [OF assms]) simp_all
  then show ?thesis
    by (cases "max_failed_logins \<le> ac_failedLogins a + 1") (simp_all add: record_failed_login_def Let_def failed_def)
qed

lemma login_fails:
  assumes "account_at db (normalize_email email) a d" "\<not> live_until (moment is) (ac_lockedUntil a)"
    and "\<not> verify_password cr (ac_passwordHash a) pw"
  shows "\<exists>d'. login db cr rv is email pw ctx d = (Inl InvalidCredentials, d') \<and>
    account_at db (normalize_email email) (failed a (moment is)) d'"
  using assms record_failed_login_account [OF assms(1), of "is" ctx]
  by (simp add: login_def account_at_find login_with_def live_until_def)

end

fun failing_logins ::
  "'d auth_db \<Rightarrow> crypto \<Rightarrow> bool \<Rightarrow> string \<Rightarrow> auth_context \<Rightarrow> (issue \<times> string) list \<Rightarrow> 'd \<Rightarrow> 'd" where
  "failing_logins db cr rv email ctx [] d = d"
| "failing_logins db cr rv email ctx ((i, pw) # es) d =
     failing_logins db cr rv email ctx es (snd (login db cr rv i email pw ctx d))"

lemma failed_fields [simp]:
  "ac_passwordHash (failed a t) = ac_passwordHash a" "ac_email (failed a t) = ac_email a"
  by (simp_all add: failed_def)

context session_store
begin

lemma failing_logins_lock:
  assumes "account_at db (normalize_email email) a d" "ac_lockedUntil a = None"
    and "ac_failedLogins a + length es = max_failed_logins" "es \<noteq> []"
    and "\<forall>e \<in> set es. \<not> verify_password cr (ac_passwordHash a) (snd e)"
  shows "\<exists>b. account_at db (normalize_email email) b (failing_logins db cr rv email ctx es d) \<and>
    ac_lockedUntil b = Some (moment (fst (last es)) + lockout_ms)"
  using assms
proof (induction es arbitrary: a d)
  case (Cons e es)
  obtain i pw where e: "e = (i, pw)" by (cases e)
  have "\<not> live_until (moment i) (ac_lockedUntil a)" "\<not> verify_password cr (ac_passwordHash a) pw"
    using Cons.prems(2,5) by (simp_all add: live_until_def e)
  from login_fails [OF Cons.prems(1) this, of rv ctx]
  obtain d' where d': "login db cr rv i email pw ctx d = (Inl InvalidCredentials, d')"
    "account_at db (normalize_email email) (failed a (moment i)) d'" by blast
  show ?case
  proof (cases "es = []")
    case True
    have "ac_lockedUntil (failed a (moment i)) = Some (moment i + lockout_ms)"
      using Cons.prems(3) True by (simp add: failed_def)
    then show ?thesis using d' True by (auto simp: e)
  next
    case False
    then have "ac_lockedUntil (failed a (moment i)) = None"
      "ac_failedLogins (failed a (moment i)) + length es = max_failed_logins"
      using Cons.prems(2,3) by (cases es; simp add: failed_def)+
    from Cons.IH [OF d'(2) this False] Cons.prems(5) show ?thesis using False d'(1) by (simp add: e)
  qed
qed simp

end

text \<open>
  Five wrong passwords in a row lock an account: for a quarter of an hour after the fifth every login
  is refused, with the right password too, and changes nothing.
\<close>

theorem lockout_after_five:
  assumes "session_store db" "account_at db (normalize_email email) a d" "ac_lockedUntil a = None" "ac_failedLogins a = 0"
    and "length es = 5" "\<forall>e \<in> set es. \<not> verify_password cr (ac_passwordHash a) (snd e)"
    and "moment i' < moment (fst (last es)) + 15 * 60 * 1000"
  shows "\<exists>n. login db cr rv i' email pw ctx' (failing_logins db cr rv email ctx es d) =
    (Inl (AccountLocked n), failing_logins db cr rv email ctx es d)"
proof -
  have "es \<noteq> []" "ac_failedLogins a + length es = max_failed_logins"
    using assms(4,5) by (auto simp: max_failed_logins_def)
  from session_store.failing_logins_lock [OF assms(1,2,3) this(2,1) assms(6), of rv ctx]
  obtain b where "account_at db (normalize_email email) b (failing_logins db cr rv email ctx es d)"
    "ac_lockedUntil b = Some (moment (fst (last es)) + lockout_ms)" by blast
  then show ?thesis
    using assms(7) by (simp add: login_def account_at_find login_with_def locked_error_def lockout_ms_def)
qed

text \<open>
  The counter is written from the value that was read: any number of wrong passwords tried at the same time,
  each of them having read the same account, counts as one.
\<close>

fun concurrent_failures ::
  "'d auth_db \<Rightarrow> crypto \<Rightarrow> bool \<Rightarrow> account \<Rightarrow> auth_context \<Rightarrow> (issue \<times> string) list \<Rightarrow> 'd \<Rightarrow> 'd" where
  "concurrent_failures db cr rv a ctx [] d = d"
| "concurrent_failures db cr rv a ctx ((i, pw) # es) d =
     concurrent_failures db cr rv a ctx es (snd (login_with db cr rv i a pw ctx d))"

definition counted_once :: "account \<Rightarrow> account \<Rightarrow> bool" where
  "counted_once a b \<longleftrightarrow> ac_id b = ac_id a \<and> ac_lockedUntil b = None \<and> ac_failedLogins b = ac_failedLogins a + 1"

lemma concurrent_failures_count_once:
  assumes "session_store db" "account_at db email b d" "b = a \<or> counted_once a b" "ac_failedLogins a + 1 < 5"
    and "ac_lockedUntil a = None" "es \<noteq> []" "\<forall>e \<in> set es. \<not> verify_password cr (ac_passwordHash a) (snd e)"
  shows "\<exists>c. account_at db email c (concurrent_failures db cr rv a ctx es d) \<and> counted_once a c"
  using assms(2,3,6,7)
proof (induction es arbitrary: b d)
  case (Cons e es)
  obtain i pw where e: "e = (i, pw)" by (cases e)
  let ?f = "\<lambda>c. c\<lparr>ac_failedLogins := ac_failedLogins a + 1, ac_lastFailedAt := Some (moment i)\<rparr>"
  have id: "ac_id b = ac_id a" using Cons.prems(2) by (auto simp: counted_once_def)
  have "account_at db email (?f b) (update_account db (ac_id b) ?f d)"
    by (rule session_store.account_at_update [OF assms(1) Cons.prems(1)]) simp_all
  moreover have "snd (login_with db cr rv i a pw ctx d) =
      log_event db i (ac_id a) ''auth.login_failed'' (context_meta ctx) (update_account db (ac_id a) ?f d)"
    using assms(4,5) Cons.prems(4)
    by (simp add: login_with_def record_failed_login_def max_failed_logins_def e)
  ultimately have at: "account_at db email (?f b) (snd (login_with db cr rv i a pw ctx d))"
    by (simp add: id session_store.account_at_event [OF assms(1)])
  have once: "counted_once a (?f b)" using Cons.prems(2) assms(5) by (auto simp: counted_once_def)
  show ?case
  proof (cases "es = []")
    case True
    then show ?thesis using at once by (auto simp: e)
  next
    case False
    from Cons.IH [OF at _ False] once Cons.prems(4) show ?thesis by (simp add: e)
  qed
qed simp

section \<open>The properties on a database of lists\<close>

record auth_lists =
  al_accounts :: "account list"
  al_tokens :: "refresh_row list"
  al_events :: "audit_row list"
  al_tenants :: tenancy_lists

definition auth_list_db :: "auth_lists auth_db" where
  "auth_list_db = \<lparr>accounts_of = list_table al_accounts al_accounts_update,
     tokens_of = list_table al_tokens al_tokens_update, events_of = list_table al_events al_events_update,
     tenants = nested_tenancy list_db al_tenants al_tenants_update\<rparr>"

lemma auth_list_store: "session_store auth_list_db"
  by (intro session_store.intro) (simp_all add: auth_list_db_def list_table_contract list_tables_separate)

interpretation sessions: session_store auth_list_db
  by (rule auth_list_store)

definition demo_crypto :: crypto where
  "demo_crypto = \<lparr>hash_token = (\<lambda>t. ''#'' @ t), hash_password = (\<lambda>p. ''pw:'' @ p),
     verify_password = (\<lambda>h p. h = ''pw:'' @ p), jwt_verify = (\<lambda>_ t. Some (Some t)),
     jwt_verify_any_age = (\<lambda>t. Some (Some t)), sign_access = (\<lambda>u _. u), sign_refresh = (\<lambda>_ _ j. j)\<rparr>"

definition demo_issue :: "nat \<Rightarrow> string \<Rightarrow> issue" where
  "demo_issue t j = \<lparr>moment = t, event_id = ''e'', user_id_new = ''u'', org_id_new = ''g'', member_id_new = ''m'',
     link_token = ''l'', jti_new = j, family_new = ''f'' @ j\<rparr>"

definition demo_ctx :: auth_context where
  "demo_ctx = \<lparr>ctx_ip = None, ctx_userAgent = None\<rparr>"

definition demo_account :: account where
  "demo_account = \<lparr>ac_id = ''ada'', ac_email = ''ada@x'', ac_passwordHash = ''pw:right'', ac_name = ''Ada'',
     ac_failedLogins = 0, ac_lastFailedAt = None, ac_lockedUntil = None, ac_verified = True, ac_verifyHash = None,
     ac_verifyExpires = None, ac_resetHash = None, ac_resetExpires = None\<rparr>"

definition demo_row :: "string \<Rightarrow> nat option \<Rightarrow> refresh_row" where
  "demo_row j used = \<lparr>rt_jti = j, rt_user = ''ada'', rt_family = ''f1'', rt_hash = ''#'' @ j, rt_expiresAt = 1000,
     rt_usedAt = used, rt_revokedAt = None, rt_ip = None, rt_userAgent = None\<rparr>"

definition demo_auth :: auth_lists where
  "demo_auth = \<lparr>al_accounts = [demo_account], al_tokens = [demo_row ''j1'' (Some 5), demo_row ''j2'' None],
     al_events = [], al_tenants = demo_tenancy\<rparr>"

lemmas auth_list_simps = auth_list_db_def list_table_def demo_auth_def

theorem reuse_ends_family_witness:
  "\<exists>d'. refresh auth_list_db demo_crypto (demo_issue 10 ''j3'') ''j1'' demo_ctx demo_auth = (Inl InvalidRefreshToken, d') \<and>
     refresh auth_list_db demo_crypto (demo_issue 11 ''j4'') ''j2'' demo_ctx d' = (Inl InvalidRefreshToken, d')"
  by (rule reuse_ends_family [OF auth_list_store, where jti = "''j1''" and jti' = "''j2''" and r = "demo_row ''j1'' (Some 5)"])
    (simp_all add: auth_list_simps count_rows_def demo_row_def demo_crypto_def demo_issue_def)

theorem refresh_rotates_once_witness:
  "\<exists>es d'. es = [Rotated ''j2'' ''j3''] \<and> session_run auth_list_db demo_crypto es demo_auth d' \<and>
     sum_list (map (rotations_of ''j2'') es) \<le> sum_list (map (issues_of ''j2'') es) + unused auth_list_db ''j2'' demo_auth"
proof -
  let ?c = "claim_refresh auth_list_db demo_crypto (demo_issue 10 ''j3'') (demo_row ''j2'' None) demo_account demo_ctx demo_auth"
  have "\<exists>ts. fst ?c = Inr ts"
    by (simp add: claim_refresh_def update_many_def count_rows_def auth_list_simps demo_row_def generate_tokens_def Let_def)
  then obtain ts where ts: "?c = (Inr ts, snd ?c)" by (metis prod.collapse)
  have "count_rows (tokens_of auth_list_db) (\<lambda>r. rt_jti r = jti_new (demo_issue 10 ''j3'')) demo_auth = 0"
    by (simp add: count_rows_def auth_list_simps demo_row_def demo_issue_def)
  from session_step.Rotate [OF this ts]
  have "session_step auth_list_db demo_crypto (Rotated ''j2'' ''j3'') demo_auth (snd ?c)"
    by (simp add: demo_row_def demo_issue_def)
  then have run: "session_run auth_list_db demo_crypto [Rotated ''j2'' ''j3''] demo_auth (snd ?c)"
    by (rule session_run.Step [OF _ session_run.Done])
  from refresh_rotates_once [OF auth_list_store run, of "''j2''"] run show ?thesis by blast
qed

theorem lockout_after_five_witness:
  "\<exists>n. fst (login auth_list_db demo_crypto False (demo_issue 20 ''j'') '' ADA@x'' ''right'' demo_ctx
     (failing_logins auth_list_db demo_crypto False '' ADA@x'' demo_ctx (replicate 5 (demo_issue 10 ''i'', ''wrong'')) demo_auth)) =
     Inl (AccountLocked n)"
proof -
  have "account_at auth_list_db (normalize_email '' ADA@x'') demo_account demo_auth"
    by code_simp
  from lockout_after_five [OF auth_list_store this, where es = "replicate 5 (demo_issue 10 ''i'', ''wrong'')"
      and cr = demo_crypto and i' = "demo_issue 20 ''j''" and pw = "''right''" and rv = False and ctx = demo_ctx and ctx' = demo_ctx]
  show ?thesis by (force simp: demo_account_def demo_crypto_def demo_issue_def)
qed

end
