(* ===== verification/Js_Values.thy ===== *)
theory Js_Values
  imports Complex_Main Prelude
begin

text \<open>
  Two parts of the JavaScript library the services use: \<open>Number(text)\<close>, with what \<open>Number.isFinite\<close>
  says of it, and the months of \<open>Date\<close> in UTC.
\<close>

section \<open>Numbers\<close>

text \<open>
  \<open>js_number s\<close> is the value of \<open>Number(s)\<close> when it is finite. A value no double holds exactly is
  kept as it is written; one that rounds to infinity is not finite.
\<close>

definition digit_value :: "char \<Rightarrow> nat" where
  "digit_value c =
     (if is_digit c then code c - 48
      else if 97 \<le> code c \<and> code c \<le> 102 then code c - 87
      else if 65 \<le> code c \<and> code c \<le> 70 then code c - 55 else 99)"

definition based_literal :: "nat \<Rightarrow> string \<Rightarrow> rat option" where
  "based_literal b s =
     (if s = [] \<or> (\<exists>c \<in> set s. b \<le> digit_value c) then None
      else Some (of_nat (foldl (\<lambda>a c. b * a + digit_value c) 0 s)))"

definition exponent :: "string \<Rightarrow> int option" where
  "exponent s =
     (case s of
        [] \<Rightarrow> Some 0
      | e # r \<Rightarrow> if e \<noteq> CHR ''e'' \<and> e \<noteq> CHR ''E'' then None
          else (let neg = (r \<noteq> [] \<and> hd r = CHR ''-'');
                    ds = (if r \<noteq> [] \<and> (hd r = CHR ''-'' \<or> hd r = CHR ''+'') then tl r else r)
                in if ds = [] \<or> \<not> list_all is_digit ds then None
                   else Some ((if neg then -1 else 1) * int (num_val ds))))"

definition unsigned_decimal :: "string \<Rightarrow> rat option" where
  "unsigned_decimal s =
     (let a = takeWhile is_digit s;
          r = dropWhile is_digit s;
          (f, r') = (case r of [] \<Rightarrow> ([], [])
                     | c # cs \<Rightarrow> if c = CHR ''.'' then (takeWhile is_digit cs, dropWhile is_digit cs) else ([], r))
      in if a = [] \<and> f = [] then None
         else (case exponent r' of None \<Rightarrow> None
               | Some e \<Rightarrow> Some (of_nat (num_val (a @ f)) * 10 powi (e - int (length f)))))"

definition finite_double :: "rat \<Rightarrow> bool" where
  "finite_double x \<longleftrightarrow> \<bar>x\<bar> < 2 ^ 1024 - 2 ^ 970"

definition js_number :: "string \<Rightarrow> rat option" where
  "js_number s =
     (let t = js_trim s;
          based = (case t of
            z # b # ds \<Rightarrow> if z = CHR ''0'' \<and> b \<in> {CHR ''x'', CHR ''X''} then Some (based_literal 16 ds)
              else if z = CHR ''0'' \<and> b \<in> {CHR ''o'', CHR ''O''} then Some (based_literal 8 ds)
              else if z = CHR ''0'' \<and> b \<in> {CHR ''b'', CHR ''B''} then Some (based_literal 2 ds)
              else None
          | _ \<Rightarrow> None);
          value = (if t = [] then Some 0
            else (case based of Some v \<Rightarrow> v
                  | None \<Rightarrow> if hd t = CHR ''-'' then map_option uminus (unsigned_decimal (tl t))
                            else if hd t = CHR ''+'' then unsigned_decimal (tl t)
                            else unsigned_decimal t))
      in case value of None \<Rightarrow> None | Some v \<Rightarrow> if finite_double v then Some v else None)"

lemma finite_small: "\<bar>x\<bar> \<le> 1000 \<Longrightarrow> finite_double x"
  unfolding finite_double_def by simp

lemmas js_number_simps = js_number_def unsigned_decimal_def exponent_def js_trim_def js_space_def is_digit_def
  num_val_def code_def Let_def finite_small power_int_minus

section \<open>Months\<close>

definition leap :: "nat \<Rightarrow> bool" where
  "leap y \<longleftrightarrow> y mod 4 = 0 \<and> y mod 100 \<noteq> 0 \<or> y mod 400 = 0"

definition month_len :: "nat \<Rightarrow> nat \<Rightarrow> nat" where
  "month_len y m = (if m = 1 then (if leap y then 29 else 28) else if m \<in> {3, 5, 8, 10} then 30 else 31)"

definition ms_per_day :: nat where
  "ms_per_day = 24 * 60 * 60 * 1000"

definition next_month :: "nat \<times> nat \<Rightarrow> nat \<times> nat" where
  "next_month = (\<lambda>(y, m). if m < 11 then (y, m + 1) else (y + 1, 0))"

lemma month_len_pos: "0 < month_len y m"
  by (simp add: month_len_def)

text \<open>\<open>getUTCFullYear\<close> and \<open>getUTCMonth\<close> of the day \<open>d\<close> after the first of a month.\<close>

function month_of_day :: "nat \<Rightarrow> nat \<times> nat \<Rightarrow> nat \<times> nat" where
  "month_of_day d ym = (if d < month_len (fst ym) (snd ym) then ym
     else month_of_day (d - month_len (fst ym) (snd ym)) (next_month ym))"
  by pat_completeness auto
termination
proof (relation "measure fst")
  fix d :: nat and ym :: "nat \<times> nat"
  assume "\<not> d < month_len (fst ym) (snd ym)"
  then show "((d - month_len (fst ym) (snd ym), next_month ym), d, ym) \<in> measure fst"
    using month_len_pos [of "fst ym" "snd ym"] by simp
qed simp

declare month_of_day.simps [simp del]

definition utc_month :: "nat \<Rightarrow> nat \<times> nat" where
  "utc_month t = month_of_day (t div ms_per_day) (1970, 0)"

text \<open>\<open>Date.UTC(y, m, 1)\<close>; a month past December is one of the next year.\<close>

definition year_len :: "nat \<Rightarrow> nat" where
  "year_len y = sum_list (map (month_len y) [0..<12])"

definition day_of_month_start :: "nat \<times> nat \<Rightarrow> nat" where
  "day_of_month_start = (\<lambda>(y, m). sum_list (map year_len [1970..<y]) + sum_list (map (month_len y) [0..<m]))"

definition date_utc :: "nat \<Rightarrow> nat \<Rightarrow> nat" where
  "date_utc y m = ms_per_day * day_of_month_start (y + m div 12, m mod 12)"

lemma day_of_next_month:
  assumes "m < 12" "1970 \<le> y"
  shows "day_of_month_start (next_month (y, m)) = day_of_month_start (y, m) + month_len y m"
proof (cases "m < 11")
  case False
  then have "m = 11" using assms by simp
  moreover have "year_len y = sum_list (map (month_len y) [0..<11]) + month_len y 11"
    using upt_Suc_append [of 0 11] by (simp add: year_len_def numeral_eq_Suc del: upt_Suc)
  ultimately show ?thesis using assms(2)
    by (simp add: next_month_def day_of_month_start_def)
qed (simp add: next_month_def day_of_month_start_def)

lemma month_of_day_start:
  "snd ym < 12 \<Longrightarrow> 1970 \<le> fst ym \<Longrightarrow>
   snd (month_of_day d ym) < 12 \<and> 1970 \<le> fst (month_of_day d ym) \<and>
   day_of_month_start (month_of_day d ym) \<le> day_of_month_start ym + d \<and>
   day_of_month_start ym + d < day_of_month_start (next_month (month_of_day d ym))"
proof (induction d ym rule: month_of_day.induct)
  case (1 d ym)
  obtain y m where ym: "ym = (y, m)" by (cases ym)
  note next_day = day_of_next_month [of m y]
  show ?case
  proof (cases "d < month_len y m")
    case True
    then have eq: "month_of_day d (y, m) = (y, m)" by (subst month_of_day.simps) simp
    show ?thesis using True "1.prems" next_day by (simp add: eq ym)
  next
    case False
    have eq: "month_of_day d (y, m) = month_of_day (d - month_len y m) (next_month (y, m))"
      using False by (subst month_of_day.simps) simp
    have "snd (next_month ym) < 12" "1970 \<le> fst (next_month ym)"
      using "1.prems" by (simp_all add: ym next_month_def)
    from "1.IH" [OF _ this] show ?thesis
      using False next_day "1.prems" by (simp add: eq ym)
  qed
qed

lemma date_utc_next: "m < 12 \<Longrightarrow> date_utc y (m + 1) = ms_per_day * day_of_month_start (next_month (y, m))"
  by (cases "m = 11") (auto simp: date_utc_def next_month_def)

text \<open>A moment lies in its own month: on or after its first instant, and before the next month's.\<close>

lemma utc_month_contains:
  assumes "utc_month t = (y, m)"
  shows "date_utc y m \<le> t" "t < date_utc y (m + 1)" "m < 12"
proof -
  have b: "m < 12" "1970 \<le> y" "day_of_month_start (y, m) \<le> t div ms_per_day"
    "t div ms_per_day < day_of_month_start (next_month (y, m))"
    using month_of_day_start [of "(1970, 0)" "t div ms_per_day"] assms
    by (simp_all add: utc_month_def day_of_month_start_def)
  show "m < 12" by (rule b(1))
  have pos: "0 < ms_per_day" by (simp add: ms_per_day_def)
  show "date_utc y m \<le> t"
    using b(1,3) pos by (simp add: date_utc_def less_eq_div_iff_mult_less_eq mult.commute)
  show "t < date_utc y (m + 1)"
    using b(1,4) pos by (simp only: date_utc_next div_less_iff_less_mult mult.commute)
qed

end
