(* ===== verification/Usage.thy ===== *)
theory Usage
  imports Database Json Js_Values
begin

text \<open>
  \<open>apps/api/src/usage/usage.service.ts\<close>: metering, limits and the guarded creates. The environment is a
  function from the names of the variables, \<open>t\<close> is the clock in milliseconds, and the create callback is
  an argument. A guarded create re-checks its quota and runs the callback under the advisory lock of its
  domain and organization, in one transaction: one function on the database.
\<close>

section \<open>Rows\<close>

datatype job_status = Queued | Running | Succeeded | Failed | Canceled | TimedOut

record job_row =
  job_org :: string
  job_status :: job_status
  job_createdAt :: nat

record sim_row = job_row +
  sim_metrics :: json
  sim_s3Key :: "string option"

record asset_row =
  as_org :: string
  as_sizeBytes :: int

record quota_override =
  qo_org :: string
  qo_simConcurrent :: "int option"
  qo_simJobsPerMonth :: "int option"
  qo_simRuntimeMsPerMonth :: "int option"
  qo_designConcurrent :: "int option"
  qo_designJobsPerMonth :: "int option"
  qo_storageBytes :: "int option"
  qo_partsCallsPerMonth :: "int option"
  qo_updatedByAdminId :: "string option"
  qo_updatedAt :: nat

record org_state =
  os_id :: string
  os_suspendedAt :: "nat option"
  os_suspendReason :: "string option"

record usage_record =
  ur_scope :: string
  ur_scopeId :: string
  ur_metric :: string
  ur_period :: string
  ur_amount :: int

record 'd usage_db =
  sims_of :: "('d, sim_row) table"
  designs_of :: "('d, job_row) table"
  layouts_of :: "('d, job_row) table"
  assets_of :: "('d, asset_row) table"
  overrides_of :: "('d, quota_override) table"
  org_states_of :: "('d, org_state) table"
  usage_of :: "('d, usage_record) table"

type_synonym env = "string \<Rightarrow> string option"

section \<open>Periods and limits\<close>

definition pad_two :: "string \<Rightarrow> string" where
  "pad_two s = replicate (2 - length s) CHR ''0'' @ s"

definition period :: "nat \<Rightarrow> string" where
  "period t = (let (y, m) = utc_month t in num_str y @ ''-'' @ pad_two (num_str (m + 1)))"

definition month_range :: "nat \<Rightarrow> nat \<times> nat" where
  "month_range t = (let (y, m) = utc_month t in (date_utc y m, date_utc y (m + 1)))"

definition limit :: "env \<Rightarrow> string \<Rightarrow> int option" where
  "limit env key =
     (case env key of
        None \<Rightarrow> None
      | Some raw \<Rightarrow> if raw = [] then None
          else (case js_number raw of
              None \<Rightarrow> None
            | Some n \<Rightarrow> if n \<le> 0 then None else Some \<lfloor>n\<rfloor>))"

definition effective :: "env \<Rightarrow> string \<Rightarrow> int option \<Rightarrow> int option" where
  "effective env key ov =
     (case ov of None \<Rightarrow> limit env key | Some n \<Rightarrow> if 0 < n then Some n else limit env key)"

datatype usage_error =
    QuotaExceeded string rat int string
  | OrgSuspended nat "string option"

definition enforce :: "nat \<Rightarrow> string \<Rightarrow> rat \<Rightarrow> int option \<Rightarrow> usage_error option" where
  "enforce t metric used cap =
     (case cap of None \<Rightarrow> None
      | Some l \<Rightarrow> if of_int l \<le> used then Some (QuotaExceeded metric used l (period t)) else None)"

fun or_else :: "'e option \<Rightarrow> 'e option \<Rightarrow> 'e option" where
  "or_else (Some e) _ = Some e"
| "or_else None r = r"

section \<open>Counting\<close>

definition concurrent_staleness_ms :: nat where
  "concurrent_staleness_ms = 24 * 60 * 60 * 1000"

definition default_layout_concurrent :: int where
  "default_layout_concurrent = 2"

definition in_flight_job :: "string \<Rightarrow> nat \<Rightarrow> ('a job_row_scheme) \<Rightarrow> bool" where
  "in_flight_job g t j \<longleftrightarrow> job_org j = g \<and> (job_status j = Queued \<or> job_status j = Running) \<and>
     t - concurrent_staleness_ms \<le> job_createdAt j"

definition created_this_month :: "string \<Rightarrow> nat \<Rightarrow> ('a job_row_scheme) \<Rightarrow> bool" where
  "created_this_month g t j \<longleftrightarrow> job_org j = g \<and> fst (month_range t) \<le> job_createdAt j \<and>
     job_createdAt j < snd (month_range t)"

definition sum_rows :: "('d, 'r) table \<Rightarrow> ('r \<Rightarrow> bool) \<Rightarrow> ('r \<Rightarrow> rat) \<Rightarrow> 'd \<Rightarrow> rat" where
  "sum_rows T P f d = sum_list (map f (filter P (rows T d)))"

fun json_num :: "json \<Rightarrow> rat option" where
  "json_num (JNum r) = Some r"
| "json_num _ = None"

definition runtime_ms :: "sim_row \<Rightarrow> rat" where
  "runtime_ms j = (case json_num (obj_get ''runtimeMs'' (sim_metrics j)) of Some r \<Rightarrow> r | None \<Rightarrow> 0)"

definition stored_bytes :: "sim_row \<Rightarrow> rat" where
  "stored_bytes j =
     (case json_num (obj_get ''storedResultBytes'' (sim_metrics j)) of Some r \<Rightarrow> r
      | None \<Rightarrow> (case json_num (obj_get ''outputSizeBytes'' (sim_metrics j)) of Some r \<Rightarrow> r | None \<Rightarrow> 0))"

definition sim_usage_this_month :: "'d usage_db \<Rightarrow> nat \<Rightarrow> string \<Rightarrow> 'd \<Rightarrow> nat \<times> rat" where
  "sim_usage_this_month db t g d =
     (count_rows (sims_of db) (created_this_month g t) d,
      sum_rows (sims_of db) (created_this_month g t) runtime_ms d)"

definition sim_concurrent :: "'d usage_db \<Rightarrow> nat \<Rightarrow> string \<Rightarrow> 'd \<Rightarrow> nat" where
  "sim_concurrent db t g d = count_rows (sims_of db) (in_flight_job g t) d"

definition design_jobs_this_month :: "'d usage_db \<Rightarrow> nat \<Rightarrow> string \<Rightarrow> 'd \<Rightarrow> nat" where
  "design_jobs_this_month db t g d = count_rows (designs_of db) (created_this_month g t) d"

definition design_concurrent :: "'d usage_db \<Rightarrow> nat \<Rightarrow> string \<Rightarrow> 'd \<Rightarrow> nat" where
  "design_concurrent db t g d = count_rows (designs_of db) (in_flight_job g t) d"

definition layout_jobs_this_month :: "'d usage_db \<Rightarrow> nat \<Rightarrow> string \<Rightarrow> 'd \<Rightarrow> nat" where
  "layout_jobs_this_month db t g d = count_rows (layouts_of db) (created_this_month g t) d"

definition layout_concurrent :: "'d usage_db \<Rightarrow> nat \<Rightarrow> string \<Rightarrow> 'd \<Rightarrow> nat" where
  "layout_concurrent db t g d = count_rows (layouts_of db) (in_flight_job g t) d"

definition storage_bytes :: "'d usage_db \<Rightarrow> string \<Rightarrow> 'd \<Rightarrow> rat \<times> rat" where
  "storage_bytes db g d =
     (sum_rows (assets_of db) (\<lambda>a. as_org a = g) (\<lambda>a. of_int (as_sizeBytes a)) d,
      sum_rows (sims_of db) (\<lambda>j. job_org j = g \<and> sim_s3Key j \<noteq> None) stored_bytes d)"

section \<open>The gates\<close>

definition load_override :: "'d usage_db \<Rightarrow> string \<Rightarrow> 'd \<Rightarrow> quota_override option" where
  "load_override db g d = find_first (overrides_of db) (\<lambda>q. qo_org q = g) d"

record org_gate =
  gate_suspendedAt :: "nat option"
  gate_suspendReason :: "string option"
  gate_override :: "quota_override option"

definition load_org_gate :: "'d usage_db \<Rightarrow> string \<Rightarrow> 'd \<Rightarrow> org_gate" where
  "load_org_gate db g d =
     (case find_first (org_states_of db) (\<lambda>s. os_id s = g) d of
        None \<Rightarrow> \<lparr>gate_suspendedAt = None, gate_suspendReason = None, gate_override = None\<rparr>
      | Some s \<Rightarrow> \<lparr>gate_suspendedAt = os_suspendedAt s, gate_suspendReason = os_suspendReason s,
                  gate_override = load_override db g d\<rparr>)"

definition throw_if_suspended :: "org_gate \<Rightarrow> usage_error option" where
  "throw_if_suspended gate =
     (case gate_suspendedAt gate of None \<Rightarrow> None | Some w \<Rightarrow> Some (OrgSuspended w (gate_suspendReason gate)))"

definition assert_org_not_suspended :: "'d usage_db \<Rightarrow> string \<Rightarrow> 'd \<Rightarrow> usage_error option" where
  "assert_org_not_suspended db g d = throw_if_suspended (load_org_gate db g d)"

text \<open>\<open>ov?.field\<close>\<close>

definition over :: "quota_override option \<Rightarrow> (quota_override \<Rightarrow> int option) \<Rightarrow> int option" where
  "over ov f = (case ov of None \<Rightarrow> None | Some q \<Rightarrow> f q)"

definition sim_override_active :: "quota_override option \<Rightarrow> bool" where
  "sim_override_active ov \<longleftrightarrow>
     over ov qo_simConcurrent \<noteq> None \<or> over ov qo_simJobsPerMonth \<noteq> None \<or> over ov qo_simRuntimeMsPerMonth \<noteq> None"

definition design_override_active :: "quota_override option \<Rightarrow> bool" where
  "design_override_active ov \<longleftrightarrow> over ov qo_designConcurrent \<noteq> None \<or> over ov qo_designJobsPerMonth \<noteq> None"

definition storage_override_active :: "quota_override option \<Rightarrow> bool" where
  "storage_override_active ov \<longleftrightarrow> over ov qo_storageBytes \<noteq> None"

definition has_sim_quota :: "env \<Rightarrow> bool" where
  "has_sim_quota env \<longleftrightarrow>
     limit env ''QUOTA_SIM_CONCURRENT_PER_ORG'' \<noteq> None \<or> limit env ''QUOTA_SIM_JOBS_PER_MONTH'' \<noteq> None \<or>
     limit env ''QUOTA_SIM_RUNTIME_MS_PER_MONTH'' \<noteq> None"

definition has_design_quota :: "env \<Rightarrow> bool" where
  "has_design_quota env \<longleftrightarrow>
     limit env ''QUOTA_DESIGN_CONCURRENT_PER_ORG'' \<noteq> None \<or> limit env ''QUOTA_DESIGN_JOBS_PER_MONTH'' \<noteq> None"

definition layout_concurrent_limit :: "env \<Rightarrow> int option" where
  "layout_concurrent_limit env =
     (case env ''QUOTA_LAYOUT_CONCURRENT_PER_ORG'' of
        None \<Rightarrow> Some default_layout_concurrent
      | Some raw \<Rightarrow>
          if raw = [] then Some default_layout_concurrent
          else if js_trim raw = ''0'' then None
          else (case limit env ''QUOTA_LAYOUT_CONCURRENT_PER_ORG'' of
              None \<Rightarrow> Some default_layout_concurrent | Some n \<Rightarrow> Some n))"

definition has_layout_quota :: "env \<Rightarrow> bool" where
  "has_layout_quota env \<longleftrightarrow>
     layout_concurrent_limit env \<noteq> None \<or> limit env ''QUOTA_LAYOUT_JOBS_PER_MONTH'' \<noteq> None"

section \<open>The quotas\<close>

text \<open>A count that is not needed is not made: a limit that is not set enforces nothing.\<close>

definition assert_sim_quota :: "'d usage_db \<Rightarrow> env \<Rightarrow> nat \<Rightarrow> string \<Rightarrow> 'd \<Rightarrow> usage_error option" where
  "assert_sim_quota db env t g d =
     (let ov = load_override db g d;
          concurrent_limit = effective env ''QUOTA_SIM_CONCURRENT_PER_ORG'' (over ov qo_simConcurrent);
          jobs_limit = effective env ''QUOTA_SIM_JOBS_PER_MONTH'' (over ov qo_simJobsPerMonth);
          runtime_limit = effective env ''QUOTA_SIM_RUNTIME_MS_PER_MONTH'' (over ov qo_simRuntimeMsPerMonth);
          in_flight = (if concurrent_limit \<noteq> None then Some (sim_concurrent db t g d) else None);
          monthly = (if jobs_limit \<noteq> None \<or> runtime_limit \<noteq> None then Some (sim_usage_this_month db t g d) else None)
      in or_else (case in_flight of None \<Rightarrow> None | Some n \<Rightarrow> enforce t ''sim_concurrent'' (of_nat n) concurrent_limit)
           (case monthly of None \<Rightarrow> None
            | Some (jobs, runtime) \<Rightarrow> or_else (enforce t ''sim_jobs'' (of_nat jobs) jobs_limit)
                (enforce t ''sim_runtime_ms'' runtime runtime_limit)))"

definition assert_design_quota :: "'d usage_db \<Rightarrow> env \<Rightarrow> nat \<Rightarrow> string \<Rightarrow> 'd \<Rightarrow> usage_error option" where
  "assert_design_quota db env t g d =
     (let ov = load_override db g d;
          concurrent_limit = effective env ''QUOTA_DESIGN_CONCURRENT_PER_ORG'' (over ov qo_designConcurrent);
          jobs_limit = effective env ''QUOTA_DESIGN_JOBS_PER_MONTH'' (over ov qo_designJobsPerMonth);
          in_flight = (if concurrent_limit \<noteq> None then Some (design_concurrent db t g d) else None);
          monthly = (if jobs_limit \<noteq> None then Some (design_jobs_this_month db t g d) else None)
      in or_else (case in_flight of None \<Rightarrow> None | Some n \<Rightarrow> enforce t ''design_concurrent'' (of_nat n) concurrent_limit)
           (case monthly of None \<Rightarrow> None | Some n \<Rightarrow> enforce t ''design_jobs'' (of_nat n) jobs_limit))"

definition assert_layout_quota :: "'d usage_db \<Rightarrow> env \<Rightarrow> nat \<Rightarrow> string \<Rightarrow> 'd \<Rightarrow> usage_error option" where
  "assert_layout_quota db env t g d =
     (let concurrent_limit = layout_concurrent_limit env;
          jobs_limit = limit env ''QUOTA_LAYOUT_JOBS_PER_MONTH'';
          in_flight = (if concurrent_limit \<noteq> None then Some (layout_concurrent db t g d) else None);
          monthly = (if jobs_limit \<noteq> None then Some (layout_jobs_this_month db t g d) else None)
      in or_else (case in_flight of None \<Rightarrow> None | Some n \<Rightarrow> enforce t ''layout_concurrent'' (of_nat n) concurrent_limit)
           (case monthly of None \<Rightarrow> None | Some n \<Rightarrow> enforce t ''layout_jobs'' (of_nat n) jobs_limit))"

definition assert_storage_quota ::
  "'d usage_db \<Rightarrow> env \<Rightarrow> nat \<Rightarrow> string \<Rightarrow> int \<Rightarrow> 'd \<Rightarrow> usage_error option" where
  "assert_storage_quota db env t g add d =
     (case effective env ''QUOTA_STORAGE_BYTES_PER_ORG'' (over (load_override db g d) qo_storageBytes) of
        None \<Rightarrow> None
      | Some cap \<Rightarrow> (let (assets, results) = storage_bytes db g d;
                         projected = assets + results + of_int (max 0 add)
                     in if of_int cap < projected
                        then Some (QuotaExceeded ''storage_bytes'' projected cap (period t)) else None))"

section \<open>Guarded creates\<close>

definition guarded ::
  "'d usage_db \<Rightarrow> string \<Rightarrow> (org_gate \<Rightarrow> bool) \<Rightarrow> ('d \<Rightarrow> usage_error option) \<Rightarrow> ('d \<Rightarrow> 'd) \<Rightarrow> 'd \<Rightarrow>
   usage_error option \<times> 'd" where
  "guarded db g metered check create d =
     (let gate = load_org_gate db g d in
      case throw_if_suspended gate of
        Some e \<Rightarrow> (Some e, d)
      | None \<Rightarrow>
          if \<not> metered gate then (None, create d)
          else (case check d of Some e \<Rightarrow> (Some e, d) | None \<Rightarrow> (None, create d)))"

definition create_sim_guarded ::
  "'d usage_db \<Rightarrow> env \<Rightarrow> nat \<Rightarrow> string \<Rightarrow> ('d \<Rightarrow> 'd) \<Rightarrow> 'd \<Rightarrow> usage_error option \<times> 'd" where
  "create_sim_guarded db env t g create =
     guarded db g (\<lambda>gate. has_sim_quota env \<or> sim_override_active (gate_override gate))
       (assert_sim_quota db env t g) create"

definition create_design_guarded ::
  "'d usage_db \<Rightarrow> env \<Rightarrow> nat \<Rightarrow> string \<Rightarrow> ('d \<Rightarrow> 'd) \<Rightarrow> 'd \<Rightarrow> usage_error option \<times> 'd" where
  "create_design_guarded db env t g create =
     guarded db g (\<lambda>gate. has_design_quota env \<or> design_override_active (gate_override gate))
       (assert_design_quota db env t g) create"

definition create_layout_guarded ::
  "'d usage_db \<Rightarrow> env \<Rightarrow> nat \<Rightarrow> string \<Rightarrow> ('d \<Rightarrow> 'd) \<Rightarrow> 'd \<Rightarrow> usage_error option \<times> 'd" where
  "create_layout_guarded db env t g create =
     guarded db g (\<lambda>gate. has_layout_quota env) (assert_layout_quota db env t g) create"

definition create_asset_guarded ::
  "'d usage_db \<Rightarrow> env \<Rightarrow> nat \<Rightarrow> string \<Rightarrow> int \<Rightarrow> ('d \<Rightarrow> 'd) \<Rightarrow> 'd \<Rightarrow> usage_error option \<times> 'd" where
  "create_asset_guarded db env t g add create =
     guarded db g (\<lambda>gate. limit env ''QUOTA_STORAGE_BYTES_PER_ORG'' \<noteq> None \<or>
         storage_override_active (gate_override gate))
       (assert_storage_quota db env t g add) create"

section \<open>The counter of catalogue calls\<close>

definition parts_key :: "string \<Rightarrow> string \<Rightarrow> usage_record \<Rightarrow> bool" where
  "parts_key user p r \<longleftrightarrow> ur_scope r = ''user'' \<and> ur_scopeId r = user \<and> ur_metric r = ''parts_calls'' \<and> ur_period r = p"

definition parts_row :: "string \<Rightarrow> string \<Rightarrow> usage_record" where
  "parts_row user p =
     \<lparr>ur_scope = ''user'', ur_scopeId = user, ur_metric = ''parts_calls'', ur_period = p, ur_amount = 1\<rparr>"

definition count_one_more :: "usage_record \<Rightarrow> usage_record" where
  "count_one_more r = r\<lparr>ur_amount := ur_amount r + 1\<rparr>"

text \<open>
  \<open>INSERT ... ON CONFLICT DO UPDATE ... WHERE amount < limit RETURNING amount\<close>, one statement: it returns a row
  when it inserts or updates one.
\<close>

definition insert_or_count ::
  "('d, usage_record) table \<Rightarrow> string \<Rightarrow> string \<Rightarrow> int \<Rightarrow> 'd \<Rightarrow> int list \<times> 'd" where
  "insert_or_count T user p cap d =
     (case find_first T (parts_key user p) d of
        None \<Rightarrow> ([1], create_row T (parts_row user p) d)
      | Some r \<Rightarrow> if ur_amount r < cap
          then ([ur_amount r + 1], update_rows T (parts_key user p) count_one_more d)
          else ([], d))"

definition assert_and_count_parts_call ::
  "'d usage_db \<Rightarrow> env \<Rightarrow> nat \<Rightarrow> string \<Rightarrow> 'd \<Rightarrow> usage_error option \<times> 'd" where
  "assert_and_count_parts_call db env t user d =
     (case limit env ''QUOTA_PARTS_CALLS_PER_MONTH'' of
        None \<Rightarrow> (None, snd (upsert (usage_of db) (parts_key user (period t)) (parts_row user (period t)) count_one_more d))
      | Some cap \<Rightarrow>
          (let (returned, d') = insert_or_count (usage_of db) user (period t) cap d in
           if length returned > 0 then (None, d')
           else (Some (QuotaExceeded ''parts_calls''
                  (case find_first (usage_of db) (parts_key user (period t)) d' of
                     None \<Rightarrow> of_int cap | Some r \<Rightarrow> of_int (ur_amount r)) cap (period t)), d')))"

section \<open>Reports\<close>

record sim_report =
  sr_jobs :: nat
  sr_runtimeMs :: rat
  sr_concurrent :: nat
  sr_jobsLimit :: "int option"
  sr_runtimeLimit :: "int option"
  sr_concurrentLimit :: "int option"

record job_report =
  jr_jobs :: nat
  jr_concurrent :: nat
  jr_jobsLimit :: "int option"
  jr_concurrentLimit :: "int option"

record storage_report =
  st_assetBytes :: rat
  st_resultBytes :: rat
  st_totalBytes :: rat
  st_bytesLimit :: "int option"

record org_usage =
  ou_period :: string
  ou_sim :: sim_report
  ou_design :: job_report
  ou_layout :: job_report
  ou_storage :: storage_report
  ou_partsCalls :: int
  ou_partsLimit :: "int option"

record quota_override_view =
  qv_simConcurrent :: "int option"
  qv_simJobsPerMonth :: "int option"
  qv_simRuntimeMsPerMonth :: "int option"
  qv_designConcurrent :: "int option"
  qv_designJobsPerMonth :: "int option"
  qv_storageBytes :: "int option"
  qv_partsCallsPerMonth :: "int option"
  qv_updatedByAdminId :: "string option"
  qv_updatedAt :: nat

record admin_org_usage =
  au_orgId :: string
  au_period :: string
  au_sim :: sim_report
  au_design :: job_report
  au_layout :: job_report
  au_storage :: storage_report
  au_override :: "quota_override_view option"

definition to_quota_override_view :: "quota_override option \<Rightarrow> quota_override_view option" where
  "to_quota_override_view ov =
     map_option (\<lambda>q. \<lparr>qv_simConcurrent = qo_simConcurrent q, qv_simJobsPerMonth = qo_simJobsPerMonth q,
       qv_simRuntimeMsPerMonth = qo_simRuntimeMsPerMonth q, qv_designConcurrent = qo_designConcurrent q,
       qv_designJobsPerMonth = qo_designJobsPerMonth q, qv_storageBytes = qo_storageBytes q,
       qv_partsCallsPerMonth = qo_partsCallsPerMonth q, qv_updatedByAdminId = qo_updatedByAdminId q,
       qv_updatedAt = qo_updatedAt q\<rparr>) ov"

definition layout_report :: "'d usage_db \<Rightarrow> env \<Rightarrow> nat \<Rightarrow> string \<Rightarrow> 'd \<Rightarrow> job_report" where
  "layout_report db env t g d =
     \<lparr>jr_jobs = layout_jobs_this_month db t g d, jr_concurrent = layout_concurrent db t g d,
      jr_jobsLimit = limit env ''QUOTA_LAYOUT_JOBS_PER_MONTH'', jr_concurrentLimit = layout_concurrent_limit env\<rparr>"

definition get_org_usage :: "'d usage_db \<Rightarrow> env \<Rightarrow> nat \<Rightarrow> string \<Rightarrow> string \<Rightarrow> 'd \<Rightarrow> org_usage" where
  "get_org_usage db env t g user d =
     (let (jobs, runtime) = sim_usage_this_month db t g d; (assets, results) = storage_bytes db g d
      in \<lparr>ou_period = period t,
          ou_sim = \<lparr>sr_jobs = jobs, sr_runtimeMs = runtime, sr_concurrent = sim_concurrent db t g d,
            sr_jobsLimit = limit env ''QUOTA_SIM_JOBS_PER_MONTH'',
            sr_runtimeLimit = limit env ''QUOTA_SIM_RUNTIME_MS_PER_MONTH'',
            sr_concurrentLimit = limit env ''QUOTA_SIM_CONCURRENT_PER_ORG''\<rparr>,
          ou_design = \<lparr>jr_jobs = design_jobs_this_month db t g d, jr_concurrent = design_concurrent db t g d,
            jr_jobsLimit = limit env ''QUOTA_DESIGN_JOBS_PER_MONTH'',
            jr_concurrentLimit = limit env ''QUOTA_DESIGN_CONCURRENT_PER_ORG''\<rparr>,
          ou_layout = layout_report db env t g d,
          ou_storage = \<lparr>st_assetBytes = assets, st_resultBytes = results, st_totalBytes = assets + results,
            st_bytesLimit = limit env ''QUOTA_STORAGE_BYTES_PER_ORG''\<rparr>,
          ou_partsCalls = (case find_first (usage_of db) (parts_key user (period t)) d of None \<Rightarrow> 0 | Some r \<Rightarrow> ur_amount r),
          ou_partsLimit = limit env ''QUOTA_PARTS_CALLS_PER_MONTH''\<rparr>)"

definition get_org_usage_for_admin :: "'d usage_db \<Rightarrow> env \<Rightarrow> nat \<Rightarrow> string \<Rightarrow> 'd \<Rightarrow> admin_org_usage" where
  "get_org_usage_for_admin db env t g d =
     (let (jobs, runtime) = sim_usage_this_month db t g d; (assets, results) = storage_bytes db g d;
          ov = load_override db g d
      in \<lparr>au_orgId = g, au_period = period t,
          au_sim = \<lparr>sr_jobs = jobs, sr_runtimeMs = runtime, sr_concurrent = sim_concurrent db t g d,
            sr_jobsLimit = effective env ''QUOTA_SIM_JOBS_PER_MONTH'' (over ov qo_simJobsPerMonth),
            sr_runtimeLimit = effective env ''QUOTA_SIM_RUNTIME_MS_PER_MONTH'' (over ov qo_simRuntimeMsPerMonth),
            sr_concurrentLimit = effective env ''QUOTA_SIM_CONCURRENT_PER_ORG'' (over ov qo_simConcurrent)\<rparr>,
          au_design = \<lparr>jr_jobs = design_jobs_this_month db t g d, jr_concurrent = design_concurrent db t g d,
            jr_jobsLimit = effective env ''QUOTA_DESIGN_JOBS_PER_MONTH'' (over ov qo_designJobsPerMonth),
            jr_concurrentLimit = effective env ''QUOTA_DESIGN_CONCURRENT_PER_ORG'' (over ov qo_designConcurrent)\<rparr>,
          au_layout = layout_report db env t g d,
          au_storage = \<lparr>st_assetBytes = assets, st_resultBytes = results, st_totalBytes = assets + results,
            st_bytesLimit = effective env ''QUOTA_STORAGE_BYTES_PER_ORG'' (over ov qo_storageBytes)\<rparr>,
          au_override = to_quota_override_view ov\<rparr>)"

section \<open>Within the limits\<close>

lemma or_else_None: "or_else a b = None \<longleftrightarrow> a = None \<and> b = None"
  by (cases a) auto

lemma or_else_Some: "or_else a b = Some e \<longleftrightarrow> a = Some e \<or> (a = None \<and> b = Some e)"
  by (cases a) auto

lemma enforce_None: "enforce t m u l = None \<longleftrightarrow> (case l of None \<Rightarrow> True | Some c \<Rightarrow> u < of_int c)"
  by (auto simp: enforce_def split: option.splits)

lemma enforce_Some: "enforce t m u l = Some e \<longleftrightarrow> (\<exists>c. l = Some c \<and> of_int c \<le> u \<and> e = QuotaExceeded m u c (period t))"
  by (auto simp: enforce_def split: option.splits)

lemma guarded_accepts:
  assumes "guarded db g metered check create d = (None, d')"
  shows "d' = create d \<and> (metered (load_org_gate db g d) \<longrightarrow> check d = None)"
  using assms by (auto simp: guarded_def Let_def split: option.splits if_splits)

lemma guarded_refuses:
  assumes "guarded db g metered check create d = (Some e, d')"
  shows "d' = d \<and> (throw_if_suspended (load_org_gate db g d) = Some e \<or> check d = Some e)"
  using assms by (auto simp: guarded_def Let_def split: option.splits if_splits)

lemma effective_unset: "effective env k ov = Some c \<Longrightarrow> limit env k \<noteq> None \<or> ov \<noteq> None"
  by (auto simp: effective_def split: option.splits)

lemma sum_rows_mset: "sum_rows T P f d = sum_mset (image_mset f (filter_mset P (mset (rows T d))))"
  unfolding sum_rows_def by (metis mset_filter mset_map sum_mset_sum_list)

context prisma_table
begin

lemma sum_rows_create: "sum_rows T P f (create_row T r d) = sum_rows T P f d + (if P r then f r else 0)"
  by (simp add: sum_rows_mset create)

end

text \<open>
  An organization with a gate row has the override the gate reads; the relation of the schema gives an
  override only to an organization that exists.
\<close>

definition gate_row :: "'d usage_db \<Rightarrow> string \<Rightarrow> 'd \<Rightarrow> bool" where
  "gate_row db g d \<longleftrightarrow> (load_override db g d \<noteq> None \<longrightarrow> find_first (org_states_of db) (\<lambda>s. os_id s = g) d \<noteq> None)"

lemma gate_override_row: "gate_row db g d \<Longrightarrow> gate_override (load_org_gate db g d) = load_override db g d"
  by (auto simp: gate_row_def load_org_gate_def split: option.splits)

definition effective_sim :: "'d usage_db \<Rightarrow> env \<Rightarrow> string \<Rightarrow> 'd \<Rightarrow> int option \<times> int option \<times> int option" where
  "effective_sim db env g d =
     (effective env ''QUOTA_SIM_CONCURRENT_PER_ORG'' (over (load_override db g d) qo_simConcurrent),
      effective env ''QUOTA_SIM_JOBS_PER_MONTH'' (over (load_override db g d) qo_simJobsPerMonth),
      effective env ''QUOTA_SIM_RUNTIME_MS_PER_MONTH'' (over (load_override db g d) qo_simRuntimeMsPerMonth))"

definition inside_limit :: "rat \<Rightarrow> int option \<Rightarrow> bool" where
  "inside_limit u l = (case l of None \<Rightarrow> True | Some c \<Rightarrow> u \<le> of_int c)"

lemma effective_sim_metered:
  assumes "gate_row db g d" "effective_sim db env g d = (c, j, r)" "c \<noteq> None \<or> j \<noteq> None \<or> r \<noteq> None"
  shows "has_sim_quota env \<or> sim_override_active (gate_override (load_org_gate db g d))"
  using assms(2,3) effective_unset
  by (fastforce simp: effective_sim_def has_sim_quota_def sim_override_active_def gate_override_row [OF assms(1)])

lemma assert_sim_quota_None:
  assumes "assert_sim_quota db env t g d = None" "effective_sim db env g d = (c, j, r)"
  shows "(case c of None \<Rightarrow> True | Some l \<Rightarrow> (of_nat (sim_concurrent db t g d) :: rat) < of_int l)"
    "(case j of None \<Rightarrow> True | Some l \<Rightarrow> (of_nat (fst (sim_usage_this_month db t g d)) :: rat) < of_int l)"
    "(case r of None \<Rightarrow> True | Some l \<Rightarrow> snd (sim_usage_this_month db t g d) < of_int l)"
  using assms
  by (auto simp: assert_sim_quota_def effective_sim_def Let_def or_else_None enforce_None case_prod_beta
      split: if_splits option.splits)

lemma assert_sim_quota_Some:
  "assert_sim_quota db env t g d = Some e \<Longrightarrow> \<exists>m u l. e = QuotaExceeded m u l (period t) \<and> of_int l \<le> u"
  by (auto simp: assert_sim_quota_def Let_def or_else_Some enforce_Some case_prod_beta split: if_splits)

lemma moment_in_month: "fst (month_range t) \<le> t" "t < snd (month_range t)"
  using utc_month_contains [of t] by (auto simp: month_range_def split: prod.splits)

lemma of_nat_less_of_int: "(of_nat n :: rat) < of_int l \<Longrightarrow> (of_nat (n + 1) :: rat) \<le> of_int l"
proof -
  assume "(of_nat n :: rat) < of_int l"
  then have "(of_int (int n) :: rat) < of_int l" by simp
  then have "int n < l" by (simp only: of_int_less_iff)
  then have "int (n + 1) \<le> l" by simp
  then have "(of_int (int (n + 1)) :: rat) \<le> of_int l" by (simp only: of_int_le_iff)
  then show ?thesis by simp
qed

text \<open>
  A simulation is enqueued only within the limits of its organization, override or environment:
  afterwards the jobs in flight, the jobs of the month and the runtime of the month are within them, and
  the new job counts. A request that is refused changes nothing, and a quota it is refused for is used up.
\<close>

theorem sims_within_quota:
  assumes "prisma_table (sims_of db)" "gate_row db g d"
    and j: "job_org j = g" "job_status j = Queued" "job_createdAt j = t" "sim_metrics j = JNull"
    and lims: "effective_sim db env g d = (c, m, r)"
  shows "case create_sim_guarded db env t g (create_row (sims_of db) j) d of
      (None, d') \<Rightarrow>
        inside_limit (of_nat (sim_concurrent db t g d')) c \<and>
        inside_limit (of_nat (fst (sim_usage_this_month db t g d'))) m \<and>
        inside_limit (snd (sim_usage_this_month db t g d')) r \<and>
        sim_concurrent db t g d' = sim_concurrent db t g d + 1 \<and>
        fst (sim_usage_this_month db t g d') = fst (sim_usage_this_month db t g d) + 1
    | (Some e, d') \<Rightarrow> d' = d \<and>
        ((\<exists>w. e = OrgSuspended w (gate_suspendReason (load_org_gate db g d))) \<or>
         (\<exists>q u l. e = QuotaExceeded q u l (period t) \<and> of_int l \<le> u))"
proof (cases "create_sim_guarded db env t g (create_row (sims_of db) j) d")
  case (Pair res d')
  show ?thesis
  proof (cases res)
    case None
    note acc = guarded_accepts [OF Pair [unfolded create_sim_guarded_def None]]
    have d': "d' = create_row (sims_of db) j d" using acc by simp
    have conc: "sim_concurrent db t g d' = sim_concurrent db t g d + 1"
      using j by (simp add: sim_concurrent_def d' prisma_table.count_create [OF assms(1)] in_flight_job_def)
    have mon: "fst (sim_usage_this_month db t g d') = fst (sim_usage_this_month db t g d) + 1"
      using j moment_in_month
      by (simp add: sim_usage_this_month_def d' prisma_table.count_create [OF assms(1)] created_this_month_def)
    have run: "snd (sim_usage_this_month db t g d') = snd (sim_usage_this_month db t g d)"
      using j by (simp add: sim_usage_this_month_def d' prisma_table.sum_rows_create [OF assms(1)] runtime_ms_def)
    have "inside_limit (of_nat (sim_concurrent db t g d')) c \<and>
        inside_limit (of_nat (fst (sim_usage_this_month db t g d'))) m \<and>
        inside_limit (snd (sim_usage_this_month db t g d')) r"
    proof (cases "c \<noteq> None \<or> m \<noteq> None \<or> r \<noteq> None")
      case True
      then have ok: "assert_sim_quota db env t g d = None"
        using acc effective_sim_metered [OF assms(2) lims] by blast
      show ?thesis
        using assert_sim_quota_None [OF ok lims] conc mon run of_nat_less_of_int
        by (auto simp: inside_limit_def split: option.splits)
    qed (simp add: inside_limit_def)
    then show ?thesis using conc mon by (simp add: Pair None)
  next
    case (Some e)
    note ref = guarded_refuses [OF Pair [unfolded create_sim_guarded_def Some]]
    then show ?thesis using assert_sim_quota_Some [of db env t g d e]
      by (auto simp: Pair Some throw_if_suspended_def split: option.splits)
  qed
qed

text \<open>
  The layouts of an organization over time: enqueues through the guard, the worker that moves jobs on, and
  the clock. The worker never puts a finished job back into flight.
\<close>

inductive layout_step :: "'d usage_db \<Rightarrow> env \<Rightarrow> nat \<times> 'd \<Rightarrow> nat \<times> 'd \<Rightarrow> bool" for db env where
  Enqueue: "create_layout_guarded db env t g (create_row (layouts_of db) j) d = (res, d') \<Longrightarrow>
     job_org j = g \<Longrightarrow> layout_step db env (t, d) (t, d')"
| Work: "(\<And>j. job_org (f j) = job_org j \<and> job_createdAt (f j) = job_createdAt j) \<Longrightarrow>
     (\<And>j. job_status (f j) = Queued \<or> job_status (f j) = Running \<Longrightarrow> job_status j = Queued \<or> job_status j = Running) \<Longrightarrow>
     layout_step db env (t, d) (t, update_rows (layouts_of db) P f d)"
| Tick: "t \<le> t' \<Longrightarrow> layout_step db env (t, d) (t', d)"

lemma assert_layout_quota_None:
  assumes "assert_layout_quota db env t g d = None" "layout_concurrent_limit env = Some l"
  shows "(of_nat (layout_concurrent db t g d) :: rat) < of_int l"
  using assms by (auto simp: assert_layout_quota_def Let_def or_else_None enforce_None)

lemma layout_step_within:
  assumes "layout_step db env s s'" and T: "prisma_table (layouts_of db)"
    and l: "layout_concurrent_limit env = Some l" and "int (layout_concurrent db (fst s) g (snd s)) \<le> l"
  shows "int (layout_concurrent db (fst s') g (snd s')) \<le> l"
  using assms(1,4)
proof (induction rule: layout_step.induct)
  case (Enqueue t h j d res d')
  show ?case
  proof (cases res)
    case None
    note acc = guarded_accepts [OF Enqueue(1) [unfolded create_layout_guarded_def None]]
    have d': "d' = create_row (layouts_of db) j d" using acc by simp
    show ?thesis
    proof (cases "h = g")
      case True
      have "assert_layout_quota db env t g d = None" using acc True l by (simp add: has_layout_quota_def)
      then have "(of_nat (layout_concurrent db t g d + 1) :: rat) \<le> of_int l"
        by (intro of_nat_less_of_int assert_layout_quota_None [OF _ l])
      then have "(of_int (int (layout_concurrent db t g d + 1)) :: rat) \<le> of_int l" by simp
      then have "int (layout_concurrent db t g d + 1) \<le> l" by (simp only: of_int_le_iff)
      moreover have "layout_concurrent db t g d' \<le> layout_concurrent db t g d + 1"
        by (simp add: layout_concurrent_def d' prisma_table.count_create [OF T])
      ultimately show ?thesis by simp
    next
      case False
      then have "layout_concurrent db t g d' = layout_concurrent db t g d"
        using Enqueue(2) by (simp add: layout_concurrent_def d' prisma_table.count_create [OF T] in_flight_job_def)
      then show ?thesis using Enqueue(3) by simp
    qed
  next
    case (Some e)
    then show ?thesis
      using guarded_refuses [OF Enqueue(1) [unfolded create_layout_guarded_def Some]] Enqueue(3) by simp
  qed
next
  case (Work f t d P)
  have "layout_concurrent db t g (update_rows (layouts_of db) P f d) \<le> layout_concurrent db t g d"
    unfolding layout_concurrent_def prisma_table.count_update [OF T]
    by (rule count_mono) (use Work(1,2) in \<open>auto simp: in_flight_job_def split: if_splits\<close>)
  then show ?case using Work(3) by simp
next
  case (Tick t t' d)
  have "layout_concurrent db t' g d \<le> layout_concurrent db t g d"
    unfolding layout_concurrent_def by (rule count_mono) (use Tick(1) in \<open>auto simp: in_flight_job_def\<close>)
  then show ?case using Tick(2) by simp
qed


text \<open>
  An upload is committed only if the bytes of the organization stay within its limit, results that
  spilled into storage included.
\<close>

theorem storage_within_quota:
  assumes "prisma_table (assets_of db)" "separate_tables (assets_of db) (sims_of db)" "gate_row db g d"
    and "as_org a = g" "as_sizeBytes a \<le> add"
    and "effective env ''QUOTA_STORAGE_BYTES_PER_ORG'' (over (load_override db g d) qo_storageBytes) = Some l"
    and "create_asset_guarded db env t g add (create_row (assets_of db) a) d = (None, d')"
  shows "fst (storage_bytes db g d') + snd (storage_bytes db g d') \<le> of_int l"
proof -
  note acc = guarded_accepts [OF assms(7) [unfolded create_asset_guarded_def]]
  have d': "d' = create_row (assets_of db) a d" using acc by simp
  have "limit env ''QUOTA_STORAGE_BYTES_PER_ORG'' \<noteq> None \<or>
      storage_override_active (gate_override (load_org_gate db g d))"
    using effective_unset [OF assms(6)] by (simp add: storage_override_active_def gate_override_row [OF assms(3)])
  then have "assert_storage_quota db env t g add d = None" using acc by blast
  then have "fst (storage_bytes db g d) + snd (storage_bytes db g d) + of_int (max 0 add) \<le> of_int l"
    by (auto simp: assert_storage_quota_def assms(6) Let_def case_prod_beta not_less split: if_splits)
  moreover have "fst (storage_bytes db g d') = fst (storage_bytes db g d) + of_int (as_sizeBytes a)"
    using assms(4) by (simp add: storage_bytes_def d' prisma_table.sum_rows_create [OF assms(1)])
  moreover have "snd (storage_bytes db g d') = snd (storage_bytes db g d)"
    by (simp add: storage_bytes_def d' sum_rows_mset separate_tables.other_create [OF assms(2)])
  moreover have "(of_int (as_sizeBytes a) :: rat) \<le> of_int (max 0 add)" using assms(5) by (simp only: of_int_le_iff)
  ultimately show ?thesis by linarith
qed

section \<open>Catalogue calls\<close>

text \<open>\<open>n\<close> calls of one user in one period, one after the other: how many were counted.\<close>

fun parts_calls :: "'d usage_db \<Rightarrow> env \<Rightarrow> nat \<Rightarrow> string \<Rightarrow> nat \<Rightarrow> 'd \<Rightarrow> nat \<times> 'd" where
  "parts_calls db env t user 0 d = (0, d)"
| "parts_calls db env t user (Suc n) d =
     (let (k, d1) = parts_calls db env t user n d; (e, d2) = assert_and_count_parts_call db env t user d1
      in (if e = None then k + 1 else k, d2))"

lemma parts_calls_count:
  assumes T: "prisma_table (usage_of db)" and c: "limit env ''QUOTA_PARTS_CALLS_PER_MONTH'' = Some l" and l: "1 \<le> l"
    and fresh: "find_first (usage_of db) (parts_key user (period t)) d = None"
    and run: "parts_calls db env t user n d = (k, d')"
  shows "k = min n (nat l) \<and> count_rows (usage_of db) (parts_key user (period t)) d' = (if n = 0 then 0 else 1) \<and>
    (\<forall>r \<in> set (rows (usage_of db) d'). parts_key user (period t) r \<longrightarrow> ur_amount r = int k)"
  using run
proof (induction n arbitrary: k d')
  case 0
  then show ?case using fresh by (auto simp: find_first_None count_zero)
next
  case (Suc n)
  let ?K = "parts_key user (period t)"
  have key: "?K (parts_row user (period t))" "\<And>r. ?K (count_one_more r) = ?K r"
    by (simp_all add: parts_key_def parts_row_def count_one_more_def)
  obtain k1 d1 where r1: "parts_calls db env t user n d = (k1, d1)" by (cases "parts_calls db env t user n d")
  note IH = Suc.IH [OF r1]
  show ?case
  proof (cases "n = 0")
    case True
    then have d1: "k1 = 0" "d1 = d" using r1 by simp_all
    have "k = 1" "d' = create_row (usage_of db) (parts_row user (period t)) d"
      using Suc.prems fresh by (simp_all add: r1 d1 assert_and_count_parts_call_def c insert_or_count_def)
    then show ?thesis
      using fresh key l True
      by (auto simp: prisma_table.count_create [OF T] prisma_table.set_create [OF T] find_first_None count_zero parts_row_def)
  next
    case False
    then have "0 < count_rows (usage_of db) ?K d1" using IH by simp
    then obtain r where r: "find_first (usage_of db) ?K d1 = Some r"
      using find_first_None by (metis count_pos option.exhaust)
    then have amount: "ur_amount r = int k1" using IH find_first_Some by fast
    show ?thesis
    proof (cases "int k1 < l")
      case True
      have k: "k = k1 + 1" "d' = update_rows (usage_of db) ?K count_one_more d1"
        using Suc.prems True amount by (simp_all add: r1 assert_and_count_parts_call_def c insert_or_count_def r)
      have "k1 = n" using IH True l by linarith
      moreover have "count_rows (usage_of db) ?K d' = 1"
        using IH False by (simp add: k prisma_table.count_update [OF T] key if_distrib cong: if_cong)
      moreover have "\<forall>s \<in> set (rows (usage_of db) d'). ?K s \<longrightarrow> ur_amount s = int k"
      proof (intro ballI impI)
        fix s
        assume "s \<in> set (rows (usage_of db) d')" "?K s"
        then obtain u where "u \<in> set (rows (usage_of db) d1)" "s = (if ?K u then count_one_more u else u)"
          by (auto simp: k prisma_table.set_update [OF T])
        then show "ur_amount s = int k"
          using IH \<open>?K s\<close> k(1) by (cases "?K u") (simp_all add: count_one_more_def)
      qed
      ultimately show ?thesis using True k(1) l by simp
    next
      case False
      then have "k = k1" "d' = d1"
        using Suc.prems amount by (simp_all add: r1 assert_and_count_parts_call_def c insert_or_count_def r)
      moreover have "min (Suc n) (nat l) = min n (nat l)" using IH False by linarith
      ultimately show ?thesis using IH \<open>n \<noteq> 0\<close> by simp
    qed
  qed
qed

text \<open>
  Of any number of catalogue calls of a user in a month exactly the first ones up to the limit are
  counted and let through: the counter never passes the limit, and no call below it is refused.
\<close>

theorem parts_calls_exact:
  assumes "prisma_table (usage_of db)" "limit env ''QUOTA_PARTS_CALLS_PER_MONTH'' = Some l" "1 \<le> l"
    and "find_first (usage_of db) (parts_key user (period t)) d = None"
  shows "fst (parts_calls db env t user n d) = min n (nat l)"
  using parts_calls_count [OF assms, of n "fst (parts_calls db env t user n d)" "snd (parts_calls db env t user n d)"]
  by simp

section \<open>Where the limits go wrong\<close>

text \<open>
  \<open>limit\<close> floors what it has compared with zero: a setting between 0 and 1 is neither unlimited nor
  ignored, but a limit of zero, and every enqueue is refused.
\<close>

lemma fraction_refuses_everything:
  assumes "env ''QUOTA_SIM_CONCURRENT_PER_ORG'' = Some ''0.5''" "load_override db g d = None"
  shows "limit env ''QUOTA_SIM_CONCURRENT_PER_ORG'' = Some 0"
    and "assert_sim_quota db env t g d = Some (QuotaExceeded ''sim_concurrent'' (of_nat (sim_concurrent db t g d)) 0 (period t))"
proof -
  have "js_number ''0.5'' = Some (1 / 2)" by (simp add: js_number_simps)
  moreover have "\<lfloor>1 / 2 :: rat\<rfloor> = 0" by (simp add: floor_eq_iff)
  ultimately show l: "limit env ''QUOTA_SIM_CONCURRENT_PER_ORG'' = Some 0" by (simp add: limit_def assms(1))
  show "assert_sim_quota db env t g d = Some (QuotaExceeded ''sim_concurrent'' (of_nat (sim_concurrent db t g d)) 0 (period t))"
    using l by (simp add: assert_sim_quota_def Let_def assms(2) over_def effective_def enforce_def)
qed

text \<open>
  The report a tenant sees takes its limits from the environment, the guard from the override: with no
  setting and an override of one simulation the report says unlimited while the second is refused.
\<close>

lemma report_ignores_override:
  assumes "limit env ''QUOTA_SIM_CONCURRENT_PER_ORG'' = None" "load_override db g d = Some q" "qo_simConcurrent q = Some n"
    and "0 < n" "n \<le> int (sim_concurrent db t g d)"
  shows "sr_concurrentLimit (ou_sim (get_org_usage db env t g user d)) = None"
    and "assert_sim_quota db env t g d = Some (QuotaExceeded ''sim_concurrent'' (of_nat (sim_concurrent db t g d)) n (period t))"
proof -
  have "(of_int n :: rat) \<le> of_int (int (sim_concurrent db t g d))" using assms(5) by (simp only: of_int_le_iff)
  then have "(of_int n :: rat) \<le> of_nat (sim_concurrent db t g d)" by simp
  then show "assert_sim_quota db env t g d = Some (QuotaExceeded ''sim_concurrent'' (of_nat (sim_concurrent db t g d)) n (period t))"
    using assms(2-4) by (simp add: assert_sim_quota_def Let_def over_def effective_def enforce_def)
  show "sr_concurrentLimit (ou_sim (get_org_usage db env t g user d)) = None"
    using assms(1) by (simp add: get_org_usage_def case_prod_beta Let_def)
qed

section \<open>The properties on a database of lists\<close>

record usage_lists =
  ul_sims :: "sim_row list"
  ul_designs :: "job_row list"
  ul_layouts :: "job_row list"
  ul_assets :: "asset_row list"
  ul_overrides :: "quota_override list"
  ul_states :: "org_state list"
  ul_usage :: "usage_record list"

definition usage_list_db :: "usage_lists usage_db" where
  "usage_list_db = \<lparr>sims_of = list_table ul_sims ul_sims_update, designs_of = list_table ul_designs ul_designs_update,
     layouts_of = list_table ul_layouts ul_layouts_update, assets_of = list_table ul_assets ul_assets_update,
     overrides_of = list_table ul_overrides ul_overrides_update, org_states_of = list_table ul_states ul_states_update,
     usage_of = list_table ul_usage ul_usage_update\<rparr>"

lemma usage_list_db_laws:
  "prisma_table (sims_of usage_list_db)" "prisma_table (layouts_of usage_list_db)"
  "prisma_table (assets_of usage_list_db)" "prisma_table (usage_of usage_list_db)"
  "separate_tables (assets_of usage_list_db) (sims_of usage_list_db)"
  by (simp_all add: usage_list_db_def list_table_contract list_tables_separate)

interpretation layouts: prisma_table "layouts_of usage_list_db"
  by (rule usage_list_db_laws)

definition idle :: usage_lists where
  "idle = \<lparr>ul_sims = [], ul_designs = [], ul_layouts = [], ul_assets = [],
     ul_overrides = [\<lparr>qo_org = ''acme'', qo_simConcurrent = Some 1, qo_simJobsPerMonth = None,
       qo_simRuntimeMsPerMonth = None, qo_designConcurrent = None, qo_designJobsPerMonth = None,
       qo_storageBytes = Some 100, qo_partsCallsPerMonth = None, qo_updatedByAdminId = None, qo_updatedAt = 1\<rparr>],
     ul_states = [\<lparr>os_id = ''acme'', os_suspendedAt = None, os_suspendReason = None\<rparr>], ul_usage = []\<rparr>"

definition demo_sim :: "nat \<Rightarrow> sim_row" where
  "demo_sim t = \<lparr>job_org = ''acme'', job_status = Queued, job_createdAt = t, sim_metrics = JNull, sim_s3Key = None\<rparr>"

definition demo_env :: env where
  "demo_env k = (if k = ''QUOTA_PARTS_CALLS_PER_MONTH'' then Some '' 2.9'' else None)"

lemmas usage_list_simps = usage_list_db_def list_table_def idle_def

lemma idle_gate: "gate_row usage_list_db ''acme'' idle"
  by (simp add: gate_row_def load_override_def find_first_def usage_list_simps)

lemma demo_env_parts: "limit demo_env ''QUOTA_PARTS_CALLS_PER_MONTH'' = Some 2"
proof -
  have "js_number '' 2.9'' = Some (29 / 10)" by (simp add: js_number_simps)
  then show ?thesis by (simp add: limit_def demo_env_def floor_eq_iff)
qed

theorem parts_calls_exact_witness:
  "fst (parts_calls usage_list_db demo_env 0 ''ada'' 5 idle) = 2"
proof -
  have "find_first (usage_of usage_list_db) (parts_key ''ada'' (period 0)) idle = None"
    by (simp add: find_first_def usage_list_simps)
  from parts_calls_exact [OF usage_list_db_laws(4) demo_env_parts _ this, of 5] show ?thesis by simp
qed

theorem sims_within_quota_witness:
  "snd (create_sim_guarded usage_list_db demo_env 7 ''acme'' (create_row (sims_of usage_list_db) (demo_sim 7))
     (idle\<lparr>ul_sims := [demo_sim 5]\<rparr>)) = idle\<lparr>ul_sims := [demo_sim 5]\<rparr>"
proof -
  let ?d = "idle\<lparr>ul_sims := [demo_sim 5]\<rparr>"
  let ?r = "create_sim_guarded usage_list_db demo_env 7 ''acme'' (create_row (sims_of usage_list_db) (demo_sim 7)) ?d"
  have g: "gate_row usage_list_db ''acme'' ?d"
    by (simp add: gate_row_def load_override_def find_first_def usage_list_simps)
  have e: "effective_sim usage_list_db demo_env ''acme'' ?d = (Some 1, None, None)"
    by (simp add: effective_sim_def load_override_def find_first_def usage_list_simps over_def effective_def
        limit_def demo_env_def)
  have one: "sim_concurrent usage_list_db 7 ''acme'' ?d = 1"
    by (simp add: sim_concurrent_def count_rows_def usage_list_simps in_flight_job_def demo_sim_def
        concurrent_staleness_ms_def)
  have j: "job_org (demo_sim 7) = ''acme''" "job_status (demo_sim 7) = Queued" "job_createdAt (demo_sim 7) = 7"
    "sim_metrics (demo_sim 7) = JNull" by (simp_all add: demo_sim_def)
  note sims_within_quota [OF usage_list_db_laws(1) g j e]
  then show ?thesis
    by (cases "fst ?r"; cases ?r) (auto simp: inside_limit_def one)
qed

theorem storage_within_quota_witness:
  "\<exists>d'. create_asset_guarded usage_list_db demo_env 7 ''acme'' 60
     (create_row (assets_of usage_list_db) \<lparr>as_org = ''acme'', as_sizeBytes = 60\<rparr>) idle = (None, d') \<and>
     fst (storage_bytes usage_list_db ''acme'' d') + snd (storage_bytes usage_list_db ''acme'' d') \<le> 100"
proof -
  let ?a = "\<lparr>as_org = ''acme'', as_sizeBytes = 60\<rparr>"
  have l: "effective demo_env ''QUOTA_STORAGE_BYTES_PER_ORG''
      (over (load_override usage_list_db ''acme'' idle) qo_storageBytes) = Some 100"
    by (simp add: load_override_def find_first_def usage_list_simps over_def effective_def)
  have "throw_if_suspended (load_org_gate usage_list_db ''acme'' idle) = None"
    by (simp add: throw_if_suspended_def load_org_gate_def find_first_def usage_list_simps)
  moreover have "assert_storage_quota usage_list_db demo_env 7 ''acme'' 60 idle = None"
    unfolding assert_storage_quota_def l option.case
    by (simp add: storage_bytes_def sum_rows_def usage_list_simps)
  ultimately have "create_asset_guarded usage_list_db demo_env 7 ''acme'' 60 (create_row (assets_of usage_list_db) ?a) idle =
      (None, create_row (assets_of usage_list_db) ?a idle)"
    by (simp add: create_asset_guarded_def guarded_def Let_def)
  moreover from storage_within_quota [OF usage_list_db_laws(3,5) idle_gate _ _ l this]
  have "fst (storage_bytes usage_list_db ''acme'' (create_row (assets_of usage_list_db) ?a idle)) +
      snd (storage_bytes usage_list_db ''acme'' (create_row (assets_of usage_list_db) ?a idle)) \<le> 100" by simp
  ultimately show ?thesis by blast
qed

definition demo_layout :: job_row where
  "demo_layout = \<lparr>job_org = ''acme'', job_status = Queued, job_createdAt = 7\<rparr>"


end
