(* ===== verification/Job_Queue.thy ===== *)
theory Job_Queue
  imports Usage
begin

text \<open>
  What the design and the layout queue share. A job is a row; BullMQ only transports its id, so the row is
  what the client polls. The API inserts it \<open>QUEUED\<close> and may cancel it, a worker claims it with a
  conditional update and writes the outcome, and the reaper (\<open>pcb-worker/src/layout/reaper.ts\<close>, the same
  text as \<open>worker-sim/src/design/reaper.ts\<close>) fails the rows the queue has lost. Each statement is one
  function on the database; \<open>j\<close> is the id of a job and \<open>t\<close> the clock.

  The locale \<open>job_store\<close> states the contract of a table of jobs; the layouts and the designs interpret it.
\<close>

datatype job_error =
    HungWorker
  | ResultNeverWritten
  | QueueJobFailed
  | OrphanedBeforeQueue
  | WorkerGone
  | EnqueueFailed
  | JobMessage string

record queue_job =
  qj_id :: string
  qj_org :: string
  qj_user :: string
  qj_status :: job_status
  qj_abort :: bool
  qj_error :: "job_error option"
  qj_createdAt :: nat
  qj_startedAt :: "nat option"
  qj_finishedAt :: "nat option"

definition terminal :: "job_status \<Rightarrow> bool" where
  "terminal s \<longleftrightarrow> s \<noteq> Queued \<and> s \<noteq> Running"

section \<open>The statements\<close>

definition claim_job :: "('d, 'a queue_job_scheme) table \<Rightarrow> string \<Rightarrow> nat \<Rightarrow> 'd \<Rightarrow> nat \<times> 'd" where
  "claim_job T j t d = update_many T (\<lambda>r. qj_id r = j \<and> qj_status r = Queued)
     (\<lambda>r. r\<lparr>qj_status := Running, qj_startedAt := Some t\<rparr>) d"

text \<open>The write of the API when the queue did not take the job.\<close>

definition fail_unqueued :: "('d, 'a queue_job_scheme) table \<Rightarrow> string \<Rightarrow> nat \<Rightarrow> 'd \<Rightarrow> nat \<times> 'd" where
  "fail_unqueued T j t d = update_many T (\<lambda>r. qj_id r = j \<and> qj_status r = Queued)
     (\<lambda>r. r\<lparr>qj_status := Failed, qj_error := Some EnqueueFailed, qj_finishedAt := Some t\<rparr>) d"

text \<open>
  The write of a cancel whose read found the status \<open>s\<close>: \<open>None\<close> when the row is gone and the client throws.
  It goes by the id alone.
\<close>

definition cancel_write ::
  "('d, 'a queue_job_scheme) table \<Rightarrow> string \<Rightarrow> job_status \<Rightarrow> nat \<Rightarrow> 'd \<Rightarrow> (job_status \<times> 'd) option" where
  "cancel_write T j s t d =
     (case s of
        Queued \<Rightarrow> map_option (Pair Canceled) (update_one T (\<lambda>r. qj_id r = j)
          (\<lambda>r. r\<lparr>qj_status := Canceled, qj_abort := True, qj_finishedAt := Some t\<rparr>) d)
      | Running \<Rightarrow> map_option (Pair Running) (update_one T (\<lambda>r. qj_id r = j) (qj_abort_update (\<lambda>_. True)) d)
      | _ \<Rightarrow> Some (s, d))"

section \<open>The reaper\<close>

datatype reap_decision = Keep | Reap job_error

definition decide_reap :: "'a queue_job_scheme \<Rightarrow> string \<Rightarrow> nat \<Rightarrow> nat \<Rightarrow> reap_decision" where
  "decide_reap row state now deadline =
     (if state \<in> {''waiting'', ''waiting-children'', ''delayed'', ''prioritized''} then Keep
      else if state = ''active''
      then (let started = (case qj_startedAt row of None \<Rightarrow> qj_createdAt row | Some s \<Rightarrow> s)
            in if started + deadline < now then Reap HungWorker else Keep)
      else if state = ''completed'' then Reap ResultNeverWritten
      else if state = ''failed'' then Reap QueueJobFailed
      else Reap (if qj_status row = Queued then OrphanedBeforeQueue else WorkerGone))"

text \<open>What the queue says of an id: the call throws, there is no such job, or its state.\<close>

datatype lookup = Lookup_failed | No_job | In_state string

definition reap_state :: "lookup \<Rightarrow> string option" where
  "reap_state l = (case l of Lookup_failed \<Rightarrow> None | No_job \<Rightarrow> Some ''missing'' | In_state s \<Rightarrow> Some s)"

definition reaped :: "nat \<Rightarrow> job_error \<Rightarrow> 'a queue_job_scheme \<Rightarrow> 'a queue_job_scheme" where
  "reaped now e r = r\<lparr>qj_status := Failed, qj_error := Some e, qj_finishedAt := Some now\<rparr>"

definition reap_row ::
  "('d, 'a queue_job_scheme) table \<Rightarrow> 'a queue_job_scheme \<Rightarrow> lookup \<Rightarrow> nat \<Rightarrow> nat \<Rightarrow> 'd \<Rightarrow> nat \<times> 'd" where
  "reap_row T row l now deadline d =
     (case reap_state l of
        None \<Rightarrow> (0, d)
      | Some s \<Rightarrow> (case decide_reap row s now deadline of
            Keep \<Rightarrow> (0, d)
          | Reap e \<Rightarrow> update_many T (\<lambda>r. qj_id r = qj_id row \<and> \<not> terminal (qj_status r)) (reaped now e) d))"

fun reap_rows ::
  "('d, 'a queue_job_scheme) table \<Rightarrow> (string \<Rightarrow> lookup) \<Rightarrow> nat \<Rightarrow> nat \<Rightarrow> 'a queue_job_scheme list \<Rightarrow> 'd \<Rightarrow> nat \<times> 'd" where
  "reap_rows T queue now deadline [] d = (0, d)"
| "reap_rows T queue now deadline (row # rest) d =
     (let (n, d1) = reap_row T row (queue (qj_id row)) now deadline d;
          (m, d2) = reap_rows T queue now deadline rest d1
      in (n + m, d2))"

definition stale :: "nat \<Rightarrow> nat \<Rightarrow> 'a queue_job_scheme \<Rightarrow> bool" where
  "stale now grace r \<longleftrightarrow> \<not> terminal (qj_status r) \<and> qj_createdAt r + grace < now"

definition reap_stale ::
  "('d, 'a queue_job_scheme) table \<Rightarrow> (string \<Rightarrow> lookup) \<Rightarrow> nat \<Rightarrow> nat \<Rightarrow> nat \<Rightarrow> 'd \<Rightarrow> (nat \<times> nat) \<times> 'd" where
  "reap_stale T queue now grace deadline d =
     (let found = filter (stale now grace) (rows T d);
          (n, d') = reap_rows T queue now deadline found d
      in ((length found, n), d'))"

section \<open>Runs\<close>

text \<open>
  The abstract machine of a job, and the statements in any interleaving. A guarded finish applies \<open>f\<close>, which
  writes a final status, to a running row.

  A cancel is two statements: the read that sees a status, and later a write by the id alone that depends on
  what was seen. So the state of a run is the database with the cancels that have read and not yet written, each
  as the id and the status it saw. A cancel that is refused after its read is one whose write never comes.
\<close>

inductive moves :: "job_status \<Rightarrow> job_status \<Rightarrow> bool" where
  "moves Queued Running"
| "moves Queued Canceled"
| "moves Queued Failed"
| "terminal s \<Longrightarrow> moves Running s"

inductive_cases movesE: "moves s s'"

definition finish_running ::
  "('d, 'a queue_job_scheme) table \<Rightarrow> string \<Rightarrow> ('a queue_job_scheme \<Rightarrow> 'a queue_job_scheme) \<Rightarrow> 'd \<Rightarrow> nat \<times> 'd" where
  "finish_running T j f d = update_many T (\<lambda>r. qj_id r = j \<and> qj_status r = Running) f d"

definition finishes :: "('a queue_job_scheme \<Rightarrow> 'a queue_job_scheme) \<Rightarrow> bool" where
  "finishes f \<longleftrightarrow> (\<forall>r. qj_id (f r) = qj_id r \<and> terminal (qj_status (f r)))"

definition unique_jobs :: "('d, 'a queue_job_scheme) table \<Rightarrow> 'd \<Rightarrow> bool" where
  "unique_jobs T d \<longleftrightarrow> (\<forall>j. count_rows T (\<lambda>r. qj_id r = j) d \<le> 1)"

type_synonym cancels = "(string \<times> job_status) list"

inductive job_step :: "('d, 'a queue_job_scheme) table \<Rightarrow> 'd \<times> cancels \<Rightarrow> 'd \<times> cancels \<Rightarrow> bool" for T where
  Insert: "qj_status r = Queued \<Longrightarrow> count_rows T (\<lambda>s. qj_id s = qj_id r) d = 0 \<Longrightarrow>
    job_step T (d, C) (create_row T r d, C)"
| Unqueued: "fail_unqueued T j t d = (n, d') \<Longrightarrow> job_step T (d, C) (d', C)"
| Claim: "claim_job T j t d = (n, d') \<Longrightarrow> job_step T (d, C) (d', C)"
| Finish: "finishes f \<Longrightarrow> finish_running T j f d = (n, d') \<Longrightarrow> job_step T (d, C) (d', C)"
| Reaper: "reap_row T row l now deadline d = (n, d') \<Longrightarrow> job_step T (d, C) (d', C)"
| Read_cancel: "find_first T (\<lambda>r. qj_id r = j) d = Some r \<Longrightarrow> job_step T (d, C) (d, (j, qj_status r) # C)"
| Write_cancel: "(j, s) \<in> set C \<Longrightarrow> cancel_write T j s t d = Some (s', d') \<Longrightarrow>
    job_step T (d, C) (d', remove1 (j, s) C)"

text \<open>What a step did to a row: nothing, or a move of the abstract machine from a status that is not final.\<close>

definition row_moved :: "'a queue_job_scheme \<Rightarrow> 'a queue_job_scheme \<Rightarrow> bool" where
  "row_moved r r' \<longleftrightarrow> r' = r \<or> qj_id r' = qj_id r \<and> \<not> terminal (qj_status r) \<and> moves\<^sup>*\<^sup>* (qj_status r) (qj_status r')"

lemma row_moved_refl [simp]: "row_moved r r"
  by (simp add: row_moved_def)

lemma row_moved_trans: "row_moved r s \<Longrightarrow> row_moved s u \<Longrightarrow> row_moved r u"
  unfolding row_moved_def by (metis rtranclp_trans)

lemma row_moved_terminal: "row_moved r r' \<Longrightarrow> terminal (qj_status r) \<Longrightarrow> r' = r"
  by (simp add: row_moved_def)

lemma row_moved_id: "row_moved r r' \<Longrightarrow> qj_id r' = qj_id r"
  by (auto simp: row_moved_def)

lemma row_movedI:
  "qj_id r' = qj_id r \<Longrightarrow> \<not> terminal (qj_status r) \<Longrightarrow> moves (qj_status r) (qj_status r') \<or> qj_status r' = qj_status r \<Longrightarrow>
   row_moved r r'"
  by (auto simp: row_moved_def)

locale job_store = prisma_table T for T :: "('d, 'a queue_job_scheme) table"
begin

lemma update_moved:
  assumes "\<And>r. r \<in> set (rows T d) \<Longrightarrow> P r \<Longrightarrow> row_moved r (f r)"
  shows "\<exists>g. set (rows T (update_rows T P f d)) = g ` set (rows T d) \<and> (\<forall>r \<in> set (rows T d). row_moved r (g r))"
  by (rule exI [of _ "\<lambda>r. if P r then f r else r"]) (use assms in simp)

lemma update_unique:
  assumes "unique_jobs T d" "\<And>r. qj_id (f r) = qj_id r"
  shows "unique_jobs T (update_rows T P f d)"
  unfolding unique_jobs_def count_update
  using assms count_cong [of T d "\<lambda>r. qj_id (if P r then f r else r) = j" "\<lambda>r. qj_id r = j" for j]
  by (simp add: unique_jobs_def)

end


definition followed :: "('d, 'a queue_job_scheme) table \<Rightarrow> 'd \<Rightarrow> 'd \<Rightarrow> bool" where
  "followed T d d' \<longleftrightarrow> unique_jobs T d' \<and> (\<forall>r \<in> set (rows T d). \<exists>r' \<in> set (rows T d'). row_moved r r')"

lemma followed_refl: "unique_jobs T d \<Longrightarrow> followed T d d"
  unfolding followed_def using row_moved_refl by blast

lemma followed_trans:
  assumes "followed T d d'" "followed T d' d''"
  shows "followed T d d''"
  unfolding followed_def
proof (intro conjI ballI)
  show "unique_jobs T d''" using assms(2) by (simp add: followed_def)
  fix r assume "r \<in> set (rows T d)"
  then obtain r' where r': "r' \<in> set (rows T d')" "row_moved r r'" using assms(1) by (auto simp: followed_def)
  then obtain r'' where "r'' \<in> set (rows T d'')" "row_moved r' r''" using assms(2) by (auto simp: followed_def)
  then show "\<exists>r' \<in> set (rows T d''). row_moved r r'" using row_moved_trans [OF r'(2)] by blast
qed

lemma only_job:
  assumes "unique_jobs T d" "r \<in> set (rows T d)" "s \<in> set (rows T d)" "qj_id r = qj_id s"
  shows "r = s"
proof -
  have "r \<in> set (filter (\<lambda>x. qj_id x = qj_id s) (rows T d))" "s \<in> set (filter (\<lambda>x. qj_id x = qj_id s) (rows T d))"
    using assms by simp_all
  moreover have "length (filter (\<lambda>x. qj_id x = qj_id s) (rows T d)) \<le> 1"
    using assms(1) unfolding unique_jobs_def count_rows_def by blast
  ultimately show ?thesis
    by (cases "filter (\<lambda>x. qj_id x = qj_id s) (rows T d)") auto
qed

context job_store
begin

lemma update_followed:
  assumes "unique_jobs T d" "\<And>r. qj_id (f r) = qj_id r" "\<And>r. r \<in> set (rows T d) \<Longrightarrow> P r \<Longrightarrow> row_moved r (f r)"
  shows "followed T d (update_rows T P f d)"
  unfolding followed_def
proof (intro conjI ballI)
  show "unique_jobs T (update_rows T P f d)" using assms(1,2) by (rule update_unique)
  fix r assume r: "r \<in> set (rows T d)"
  then have "(if P r then f r else r) \<in> set (rows T (update_rows T P f d))" unfolding set_update by (rule imageI)
  moreover have "row_moved r (if P r then f r else r)" using assms(3) [OF r] by simp
  ultimately show "\<exists>r' \<in> set (rows T (update_rows T P f d)). row_moved r r'" by (rule bexI [rotated])
qed

lemma update_many_followed:
  assumes "update_many T P f d = (n, d')" "unique_jobs T d" "\<And>r. qj_id (f r) = qj_id r"
    "\<And>r. P r \<Longrightarrow> \<not> terminal (qj_status r) \<and> moves (qj_status r) (qj_status (f r))"
  shows "followed T d d'"
proof -
  have "followed T d (update_rows T P f d)"
    by (rule update_followed [OF assms(2,3)], rule row_movedI) (use assms(3,4) in blast)+
  then show ?thesis using assms(1) by (simp add: update_many_def)
qed

lemma claim_followed: "claim_job T j t d = (n, d') \<Longrightarrow> unique_jobs T d \<Longrightarrow> followed T d d'"
  unfolding claim_job_def by (erule update_many_followed) (auto simp: terminal_def intro: moves.intros)

lemma unqueued_followed: "fail_unqueued T j t d = (n, d') \<Longrightarrow> unique_jobs T d \<Longrightarrow> followed T d d'"
  unfolding fail_unqueued_def by (erule update_many_followed) (auto simp: terminal_def intro: moves.intros)

lemma finish_followed: "finish_running T j f d = (n, d') \<Longrightarrow> finishes f \<Longrightarrow> unique_jobs T d \<Longrightarrow> followed T d d'"
  unfolding finish_running_def finishes_def
  by (erule update_many_followed) (auto simp: terminal_def intro: moves.intros)

lemma reaped_moved: "\<not> terminal (qj_status r) \<Longrightarrow> row_moved r (reaped now e r)"
  by (cases "qj_status r = Queued")
    (auto simp: reaped_def terminal_def intro!: row_movedI moves.intros)

lemma reap_row_followed:
  assumes "unique_jobs T d" "reap_row T row l now deadline d = (n, d')"
  shows "followed T d d'"
proof -
  have "followed T d (update_rows T (\<lambda>r. qj_id r = qj_id row \<and> \<not> terminal (qj_status r)) (reaped now e) d)" for e
    by (rule update_followed [OF assms(1)]) (simp_all add: reaped_moved, simp add: reaped_def)
  then show ?thesis using assms followed_refl [OF assms(1)]
    by (auto simp: reap_row_def update_many_def split: option.splits reap_decision.splits)
qed

lemma insert_followed:
  assumes "unique_jobs T d" "count_rows T (\<lambda>s. qj_id s = qj_id r) d = 0"
  shows "followed T d (create_row T r d)"
  unfolding followed_def
proof (intro conjI ballI)
  show "unique_jobs T (create_row T r d)"
    unfolding unique_jobs_def count_create using assms by (auto simp: unique_jobs_def)
  fix s assume "s \<in> set (rows T d)"
  then show "\<exists>s' \<in> set (rows T (create_row T r d)). row_moved s s'" by (intro bexI [of _ s]) simp_all
qed

end

text \<open>
  What a run may do to a row. An open row moves by the machine. Of a final row a run changes nothing, unless a
  cancel was under way that had read it open: one that saw it queued may still turn the status into canceled,
  with the abort flag and the time of the cancel, and one that saw it running may set the abort flag.
\<close>

definition flagged :: "'a queue_job_scheme \<Rightarrow> 'a queue_job_scheme \<Rightarrow> bool" where
  "flagged r r' \<longleftrightarrow> (\<exists>a. r' = r\<lparr>qj_abort := a\<rparr>)"

definition canceled_over :: "'a queue_job_scheme \<Rightarrow> 'a queue_job_scheme \<Rightarrow> bool" where
  "canceled_over r r' \<longleftrightarrow> (\<exists>a t. r' = r\<lparr>qj_status := Canceled, qj_abort := a, qj_finishedAt := t\<rparr>)"

definition cancels_only :: "cancels \<Rightarrow> 'a queue_job_scheme \<Rightarrow> 'a queue_job_scheme \<Rightarrow> bool" where
  "cancels_only C r r' \<longleftrightarrow>
     r' = r \<or> ((qj_id r, Queued) \<in> set C \<or> (qj_id r, Running) \<in> set C) \<and> flagged r r' \<or>
     (qj_id r, Queued) \<in> set C \<and> canceled_over r r'"

definition progressed :: "cancels \<Rightarrow> cancels \<Rightarrow> 'a queue_job_scheme \<Rightarrow> 'a queue_job_scheme \<Rightarrow> bool" where
  "progressed C C' r r' \<longleftrightarrow> qj_id r' = qj_id r \<and>
     (if terminal (qj_status r)
      then terminal (qj_status r') \<and> cancels_only C r r' \<and>
        (\<forall>s. (qj_id r, s) \<in> set C' \<longrightarrow> \<not> terminal s \<longrightarrow> (qj_id r, s) \<in> set C)
      else moves\<^sup>*\<^sup>* (qj_status r) (qj_status r'))"

definition run_progressed :: "('d, 'a queue_job_scheme) table \<Rightarrow> 'd \<times> cancels \<Rightarrow> 'd \<times> cancels \<Rightarrow> bool" where
  "run_progressed T p p' \<longleftrightarrow> unique_jobs T (fst p') \<and>
     (\<forall>r \<in> set (rows T (fst p)). \<exists>r' \<in> set (rows T (fst p')). progressed (snd p) (snd p') r r')"

lemma flagged_trans: "flagged r r' \<Longrightarrow> flagged r' r'' \<Longrightarrow> flagged r r''"
  unfolding flagged_def by (elim exE) (rule exI, simp)

lemma canceled_flagged:
  assumes "canceled_over r r'" "flagged r' r''"
  shows "canceled_over r r''"
proof -
  obtain a t b where "r' = r\<lparr>qj_status := Canceled, qj_abort := a, qj_finishedAt := t\<rparr>" "r'' = r'\<lparr>qj_abort := b\<rparr>"
    using assms unfolding flagged_def canceled_over_def by blast
  then have "r'' = r\<lparr>qj_status := Canceled, qj_abort := b, qj_finishedAt := t\<rparr>" by simp
  then show ?thesis unfolding canceled_over_def by blast
qed

lemma flagged_canceled: "flagged r r' \<Longrightarrow> canceled_over r' r'' \<Longrightarrow> canceled_over r r''"
  unfolding flagged_def canceled_over_def by (elim exE) ((rule exI)+, simp)

lemma canceled_trans: "canceled_over r r' \<Longrightarrow> canceled_over r' r'' \<Longrightarrow> canceled_over r r''"
  unfolding canceled_over_def by (elim exE) ((rule exI)+, simp)

lemma flagged_fields: "flagged r r' \<Longrightarrow> qj_id r' = qj_id r \<and> qj_status r' = qj_status r"
  unfolding flagged_def by (elim exE) simp

lemma canceled_fields: "canceled_over r r' \<Longrightarrow> qj_id r' = qj_id r \<and> qj_status r' = Canceled"
  unfolding canceled_over_def by (elim exE) simp

lemma cancels_only_refl [simp]: "cancels_only C r r"
  by (simp add: cancels_only_def)

lemma cancels_only_fields:
  "cancels_only C r r' \<Longrightarrow> qj_id r' = qj_id r \<and> (qj_status r' = qj_status r \<or> qj_status r' = Canceled)"
  using flagged_fields canceled_fields unfolding cancels_only_def by blast

lemma cancels_only_trans:
  assumes "cancels_only C r r'" "cancels_only C' r' r''"
    and "\<And>s. \<not> terminal s \<Longrightarrow> (qj_id r, s) \<in> set C' \<Longrightarrow> (qj_id r, s) \<in> set C"
  shows "cancels_only C r r''"
proof -
  have "(qj_id r', Queued) \<in> set C' \<Longrightarrow> (qj_id r, Queued) \<in> set C"
    "(qj_id r', Running) \<in> set C' \<Longrightarrow> (qj_id r, Running) \<in> set C"
    using assms(3) cancels_only_fields [OF assms(1)] by (simp_all add: terminal_def)
  then show ?thesis
    using assms(1,2) flagged_trans [of r r' r''] canceled_flagged [of r r' r''] flagged_canceled [of r r' r'']
      canceled_trans [of r r' r'']
    unfolding cancels_only_def by blast
qed

lemma moves_then_canceled: "\<not> terminal s \<Longrightarrow> moves\<^sup>*\<^sup>* s Canceled"
  by (auto simp: terminal_def intro!: r_into_rtranclp moves.intros)

lemma progressed_trans:
  assumes "progressed C C' r r'" "progressed C' C'' r' r''"
  shows "progressed C C'' r r''"
proof (cases "terminal (qj_status r)")
  case True
  then have "terminal (qj_status r')" "cancels_only C r r'" "qj_id r' = qj_id r"
    "\<And>s. \<not> terminal s \<Longrightarrow> (qj_id r, s) \<in> set C' \<Longrightarrow> (qj_id r, s) \<in> set C"
    using assms(1) by (simp_all add: progressed_def)
  moreover from this have "terminal (qj_status r'')" "cancels_only C' r' r''" "qj_id r'' = qj_id r'"
    "\<And>s. \<not> terminal s \<Longrightarrow> (qj_id r, s) \<in> set C'' \<Longrightarrow> (qj_id r, s) \<in> set C'"
    using assms(2) by (simp_all add: progressed_def)
  ultimately show ?thesis using True cancels_only_trans [of C r r' C' r''] by (simp add: progressed_def)
next
  case False
  then have first: "moves\<^sup>*\<^sup>* (qj_status r) (qj_status r')" "qj_id r' = qj_id r" "qj_id r'' = qj_id r'"
    using assms by (simp_all add: progressed_def)
  have "moves\<^sup>*\<^sup>* (qj_status r) (qj_status r'')"
  proof (cases "terminal (qj_status r')")
    case True
    then have "qj_status r'' = qj_status r' \<or> qj_status r'' = Canceled"
      using assms(2) cancels_only_fields by (auto simp: progressed_def)
    then show ?thesis using first(1) moves_then_canceled [OF False] by auto
  next
    case False
    then show ?thesis using assms(2) first(1) by (auto simp: progressed_def intro: rtranclp_trans)
  qed
  then show ?thesis using False first by (simp add: progressed_def)
qed

lemma row_moved_progressed: "row_moved r r' \<Longrightarrow> progressed C C r r'"
  by (cases "terminal (qj_status r)") (auto simp: progressed_def row_moved_def)

lemma followed_progressed: "followed T d d' \<Longrightarrow> run_progressed T (d, C) (d', C)"
  unfolding followed_def run_progressed_def using row_moved_progressed by fastforce

lemma run_progressed_trans:
  assumes "run_progressed T p p'" "run_progressed T p' p''"
  shows "run_progressed T p p''"
  unfolding run_progressed_def
proof (intro conjI ballI)
  show "unique_jobs T (fst p'')" using assms(2) by (simp add: run_progressed_def)
  fix r assume "r \<in> set (rows T (fst p))"
  then obtain r' where r': "r' \<in> set (rows T (fst p'))" "progressed (snd p) (snd p') r r'"
    using assms(1) by (auto simp: run_progressed_def)
  then obtain r'' where "r'' \<in> set (rows T (fst p''))" "progressed (snd p') (snd p'') r' r''"
    using assms(2) by (auto simp: run_progressed_def)
  then show "\<exists>r'' \<in> set (rows T (fst p'')). progressed (snd p) (snd p'') r r''"
    using progressed_trans [OF r'(2)] by blast
qed

context job_store
begin

lemma read_progressed:
  assumes "unique_jobs T d" "find_first T (\<lambda>r. qj_id r = j) d = Some r"
  shows "run_progressed T (d, C) (d, (j, qj_status r) # C)"
proof -
  have r: "r \<in> set (rows T d)" "qj_id r = j" using find_first_Some [OF assms(2)] by simp_all
  have "progressed C ((j, qj_status r) # C) x x" if "x \<in> set (rows T d)" for x
    using only_job [OF assms(1) that r(1)] r(2) by (auto simp: progressed_def)
  then show ?thesis using assms(1) by (auto simp: run_progressed_def)
qed

text \<open>The write of a cancel that saw \<open>s\<close>, on whatever the row has become since.\<close>

lemma write_row_progressed:
  assumes "(qj_id r, s) \<in> set C" "set C' \<subseteq> set C"
  shows "s = Queued \<Longrightarrow> progressed C C' r (r\<lparr>qj_status := Canceled, qj_abort := True, qj_finishedAt := Some t\<rparr>)"
    and "s = Running \<Longrightarrow> progressed C C' r (r\<lparr>qj_abort := True\<rparr>)"
proof -
  have C': "\<And>u. (qj_id r, u) \<in> set C' \<Longrightarrow> (qj_id r, u) \<in> set C" using assms(2) by blast
  have final: "terminal Canceled" by (simp add: terminal_def)
  show "progressed C C' r (r\<lparr>qj_status := Canceled, qj_abort := True, qj_finishedAt := Some t\<rparr>)" if "s = Queued"
  proof (cases "terminal (qj_status r)")
    case True
    have "cancels_only C r (r\<lparr>qj_status := Canceled, qj_abort := True, qj_finishedAt := Some t\<rparr>)"
      using assms(1) that unfolding cancels_only_def canceled_over_def by blast
    then show ?thesis using True C' final by (simp add: progressed_def)
  next
    case False
    then show ?thesis using moves_then_canceled [OF False] by (simp add: progressed_def)
  qed
  show "progressed C C' r (r\<lparr>qj_abort := True\<rparr>)" if "s = Running"
  proof (cases "terminal (qj_status r)")
    case True
    have "cancels_only C r (r\<lparr>qj_abort := True\<rparr>)" using assms(1) that unfolding cancels_only_def flagged_def by blast
    then show ?thesis using True C' by (simp add: progressed_def)
  next
    case False
    then show ?thesis by (simp add: progressed_def)
  qed
qed

lemma progressed_refl: "set C' \<subseteq> set C \<Longrightarrow> progressed C C' r r"
  by (auto simp: progressed_def)

lemma update_progressed:
  assumes "unique_jobs T d" "\<And>r. qj_id (f r) = qj_id r" "set C' \<subseteq> set C"
    "\<And>r. r \<in> set (rows T d) \<Longrightarrow> P r \<Longrightarrow> progressed C C' r (f r)"
  shows "run_progressed T (d, C) (update_rows T P f d, C')"
  unfolding run_progressed_def fst_conv snd_conv
proof (intro conjI ballI)
  show "unique_jobs T (update_rows T P f d)" using assms(1,2) by (rule update_unique)
  fix r assume r: "r \<in> set (rows T d)"
  then have "(if P r then f r else r) \<in> set (rows T (update_rows T P f d))" unfolding set_update by (rule imageI)
  moreover have "progressed C C' r (if P r then f r else r)" using assms(4) [OF r] progressed_refl [OF assms(3), of r] by simp
  ultimately show "\<exists>r' \<in> set (rows T (update_rows T P f d)). progressed C C' r r'" by (rule bexI [rotated])
qed

lemma write_progressed:
  assumes "unique_jobs T d" "(j, s) \<in> set C" "cancel_write T j s t d = Some (s', d')"
  shows "run_progressed T (d, C) (d', remove1 (j, s) C)"
proof -
  have sub: "set (remove1 (j, s) C) \<subseteq> set C" by (rule set_remove1_subset)
  have same: "run_progressed T (d, C) (d, remove1 (j, s) C)"
    unfolding run_progressed_def using assms(1) progressed_refl [OF sub] by auto
  have "run_progressed T (d, C) (update_rows T (\<lambda>r. qj_id r = j)
      (\<lambda>r. r\<lparr>qj_status := Canceled, qj_abort := True, qj_finishedAt := Some t\<rparr>) d, remove1 (j, s) C)" if "s = Queued"
    by (rule update_progressed [OF assms(1) _ sub]) (use assms(2) sub that write_row_progressed(1) in auto)
  moreover have "run_progressed T (d, C) (update_rows T (\<lambda>r. qj_id r = j) (qj_abort_update (\<lambda>_. True)) d, remove1 (j, s) C)"
    if "s = Running"
    by (rule update_progressed [OF assms(1) _ sub]) (use assms(2) sub that write_row_progressed(2) in auto)
  ultimately show ?thesis using assms(3) same
    by (cases s) (auto simp: cancel_write_def update_one_def split: if_splits option.splits)
qed

lemma step_progressed: "job_step T p p' \<Longrightarrow> unique_jobs T (fst p) \<Longrightarrow> run_progressed T p p'"
  by (induction rule: job_step.induct)
    (auto intro: followed_progressed insert_followed unqueued_followed claim_followed finish_followed reap_row_followed
      read_progressed write_progressed)

lemma run_progressed: "(job_step T)\<^sup>*\<^sup>* p p' \<Longrightarrow> unique_jobs T (fst p) \<Longrightarrow> run_progressed T p p'"
proof (induction rule: rtranclp_induct)
  case base
  then show ?case unfolding run_progressed_def using progressed_refl [OF subset_refl] by blast
next
  case (step p' p'')
  then have "run_progressed T p p'" by simp
  then have "run_progressed T p' p''" using step_progressed [OF step.hyps(2)] by (simp add: run_progressed_def)
  then show ?case using run_progressed_trans [OF \<open>run_progressed T p p'\<close>] by simp
qed

end

text \<open>A sweep fails exactly the stale rows whose decision is to reap.\<close>

definition verdict :: "(string \<Rightarrow> lookup) \<Rightarrow> nat \<Rightarrow> nat \<Rightarrow> 'a queue_job_scheme \<Rightarrow> 'a queue_job_scheme" where
  "verdict queue now deadline r =
     (case reap_state (queue (qj_id r)) of
        None \<Rightarrow> r
      | Some s \<Rightarrow> (case decide_reap r s now deadline of Keep \<Rightarrow> r | Reap e \<Rightarrow> reaped now e r))"

lemma verdict_id [simp]: "qj_id (verdict queue now deadline r) = qj_id r"
  by (simp add: verdict_def reaped_def split: option.split reap_decision.split)

lemma distinct_if_counts: "\<forall>j. length (filter (\<lambda>r. f r = j) xs) \<le> 1 \<Longrightarrow> distinct (map f xs)"
proof (induction xs)
  case (Cons x xs)
  have "length (filter (\<lambda>r. f r = j) xs) \<le> 1" for j using Cons.prems [rule_format, of j] by (auto split: if_splits)
  moreover have "filter (\<lambda>r. f r = f x) xs = []" using Cons.prems [rule_format, of "f x"] by simp
  ultimately show ?case using Cons.IH by (auto simp: filter_empty_conv image_iff)
qed simp

lemma unique_jobs_distinct: "unique_jobs T d \<Longrightarrow> distinct (map qj_id (rows T d))"
  by (rule distinct_if_counts) (simp add: unique_jobs_def count_rows_def)

context job_store
begin

lemma reap_row_rows:
  assumes "unique_jobs T d" "row \<in> set (rows T d)" "\<not> terminal (qj_status row)"
  shows "set (rows T (snd (reap_row T row (queue (qj_id row)) now deadline d))) =
    (\<lambda>r. if r = row then verdict queue now deadline r else r) ` set (rows T d)"
proof -
  have only: "qj_id r = qj_id row \<longleftrightarrow> r = row" if "r \<in> set (rows T d)" for r
    using only_job [OF assms(1) that assms(2)] by auto
  have "(\<lambda>r. if qj_id r = qj_id row \<and> \<not> terminal (qj_status r) then reaped now e r else r) ` set (rows T d) =
      (\<lambda>r. if r = row then reaped now e r else r) ` set (rows T d)" for e
    by (rule image_cong [OF refl]) (use only assms(3) in auto)
  moreover have "(\<lambda>r. if r = row then r else r) ` set (rows T d) = set (rows T d)" by simp
  ultimately show ?thesis
    by (cases "reap_state (queue (qj_id row))")
      (auto simp: reap_row_def verdict_def update_many_def split: reap_decision.split)
qed

lemma reap_rows_all:
  assumes "unique_jobs T d" "set xs \<subseteq> set (rows T d)" "distinct (map qj_id xs)" "\<forall>r \<in> set xs. \<not> terminal (qj_status r)"
  shows "set (rows T (snd (reap_rows T queue now deadline xs d))) =
    (\<lambda>r. if r \<in> set xs then verdict queue now deadline r else r) ` set (rows T d)"
  using assms
proof (induction xs arbitrary: d)
  case (Cons x xs)
  obtain n d1 where d1: "reap_row T x (queue (qj_id x)) now deadline d = (n, d1)" by fastforce
  have x: "x \<in> set (rows T d)" "\<not> terminal (qj_status x)" using Cons.prems by simp_all
  have S: "set (rows T d1) = (\<lambda>r. if r = x then verdict queue now deadline r else r) ` set (rows T d)"
    using reap_row_rows [OF Cons.prems(1) x, of queue now deadline] d1 by simp
  have sub: "set xs \<subseteq> set (rows T d1)"
  proof
    fix r assume r: "r \<in> set xs"
    then have "r \<noteq> x" using Cons.prems(3) by auto
    moreover have "r \<in> set (rows T d)" using r Cons.prems(2) by auto
    ultimately show "r \<in> set (rows T d1)" unfolding S by (intro image_eqI [of _ _ r]) simp_all
  qed
  have "unique_jobs T d1" using reap_row_followed [OF Cons.prems(1) d1] by (simp add: followed_def)
  from Cons.IH [OF this sub] Cons.prems(3,4)
  have "set (rows T (snd (reap_rows T queue now deadline xs d1))) =
      (\<lambda>r. if r \<in> set xs then verdict queue now deadline r else r) ` set (rows T d1)" by simp
  also have "\<dots> = (\<lambda>r. if r \<in> set (x # xs) then verdict queue now deadline r else r) ` set (rows T d)"
    unfolding S image_image
  proof (rule image_cong [OF refl])
    fix r assume "r \<in> set (rows T d)"
    have new: "verdict queue now deadline x \<notin> set xs"
      using Cons.prems(3) verdict_id [of queue now deadline x] by (auto simp: image_iff)
    show "(if (if r = x then verdict queue now deadline r else r) \<in> set xs
        then verdict queue now deadline (if r = x then verdict queue now deadline r else r)
        else (if r = x then verdict queue now deadline r else r)) =
      (if r \<in> set (x # xs) then verdict queue now deadline r else r)"
      by (cases "r = x") (simp_all add: new)
  qed
  finally show ?case by (simp add: d1 split_beta)
qed simp

lemma reap_stale_all:
  assumes "unique_jobs T d"
  shows "set (rows T (snd (reap_stale T queue now grace deadline d))) =
    (\<lambda>r. if stale now grace r then verdict queue now deadline r else r) ` set (rows T d)"
proof -
  have "distinct (map qj_id (filter (stale now grace) (rows T d)))"
    using unique_jobs_distinct [OF assms] by (rule distinct_map_filter)
  then have "set (rows T (snd (reap_rows T queue now deadline (filter (stale now grace) (rows T d)) d))) =
      (\<lambda>r. if r \<in> set (filter (stale now grace) (rows T d)) then verdict queue now deadline r else r) ` set (rows T d)"
    by (intro reap_rows_all [OF assms]) (auto simp: stale_def)
  also have "\<dots> = (\<lambda>r. if stale now grace r then verdict queue now deadline r else r) ` set (rows T d)"
    by (rule image_cong [OF refl]) simp
  finally show ?thesis by (simp add: reap_stale_def split_beta Let_def)
qed

end

end
