(* ===== verification/Projects.thy ===== *)
theory Projects
  imports Invitations
begin

text \<open>
  \<open>apps/api/src/projects/projects.service.ts\<close>, \<open>versions/versions.service.ts\<close> and
  \<open>working-copy/working-copy.service.ts\<close>: the projects of an organization, their numbered versions and
  the one draft of each.

  Every operation first finds the project and checks the membership, and then writes in one statement or
  transaction. The writes are definitions of their own, because other requests may run between the two. A
  write whose project is gone fails on its foreign key. Deleting a project cascades to its versions and its
  draft, as the schema declares. Times are milliseconds, and \<open>t\<close> is the clock of the write.
\<close>

section \<open>Rows\<close>

record project =
  pj_id :: string
  pj_org :: string
  pj_name :: string
  pj_description :: "string option"
  pj_createdAt :: nat
  pj_updatedAt :: nat

record version_row =
  ver_id :: string
  ver_project :: string
  ver_number :: nat
  ver_createdBy :: string
  ver_circuit :: json
  ver_ui :: json
  ver_createdAt :: nat

record draft =
  wc_project :: string
  wc_circuit :: json
  wc_ui :: json
  wc_base :: "string option"
  wc_updatedBy :: string
  wc_createdAt :: nat
  wc_updatedAt :: nat

record 'd project_db =
  projects_of :: "('d, project) table"
  versions_of :: "('d, version_row) table"
  drafts_of :: "('d, draft) table"
  members_db :: "'d tenancy"

datatype project_error =
    ProjectNotFound
  | ProjectDenied org_error
  | ProjectNameTaken
  | ProjectGone
  | VersionNotFound
  | VersionTaken
  | BaseVersionForeign
  | TimestampInvalid
  | DraftConflict "nat option" "string option"
  | NoWorkingCopy

section \<open>Projects\<close>

definition find_project :: "'d project_db \<Rightarrow> string \<Rightarrow> string \<Rightarrow> 'd \<Rightarrow> project_error + project" where
  "find_project db p user d =
     (case find_first (projects_of db) (\<lambda>r. pj_id r = p) d of
        None \<Rightarrow> Inl ProjectNotFound
      | Some r \<Rightarrow> (case check_membership (members_db db) (pj_org r) user None d of
            Inl e \<Rightarrow> Inl (ProjectDenied e)
          | Inr _ \<Rightarrow> Inr r))"

definition list_projects ::
  "'d project_db \<Rightarrow> (project list \<Rightarrow> project list) \<Rightarrow> string \<Rightarrow> string \<Rightarrow> nat \<Rightarrow> nat \<Rightarrow> 'd \<Rightarrow>
   project_error + project page" where
  "list_projects db ordered g user limit offset d =
     (case check_membership (members_db db) g user None d of
        Inl e \<Rightarrow> Inl (ProjectDenied e)
      | Inr _ \<Rightarrow> (let P = (\<lambda>r. pj_org r = g)
          in Inr (paginated (take limit (drop offset (ordered (filter P (rows (projects_of db) d)))))
               (count_rows (projects_of db) P d) limit offset)))"

definition create_project ::
  "'d project_db \<Rightarrow> string \<Rightarrow> nat \<Rightarrow> string \<Rightarrow> string \<Rightarrow> string option \<Rightarrow> string \<Rightarrow> 'd \<Rightarrow>
   (project_error + project) \<times> 'd" where
  "create_project db new_p t g name description user d =
     (case check_membership (members_db db) g user None d of
        Inl e \<Rightarrow> (Inl (ProjectDenied e), d)
      | Inr _ \<Rightarrow>
          if 0 < count_rows (projects_of db) (\<lambda>r. pj_org r = g \<and> pj_name r = name) d then (Inl ProjectNameTaken, d)
          else (let r = \<lparr>pj_id = new_p, pj_org = g, pj_name = name, pj_description = description,
                         pj_createdAt = t, pj_updatedAt = t\<rparr>
                in (Inr r, create_row (projects_of db) r d)))"

text \<open>An absent or empty name, and an absent description, leave the field alone.\<close>

definition renamed :: "nat \<Rightarrow> string option \<Rightarrow> string option \<Rightarrow> project \<Rightarrow> project" where
  "renamed t name description r =
     r\<lparr>pj_name := (case name of None \<Rightarrow> pj_name r | Some s \<Rightarrow> if s = [] then pj_name r else s),
       pj_description := (case description of None \<Rightarrow> pj_description r | Some s \<Rightarrow> Some s),
       pj_updatedAt := t\<rparr>"

definition write_project ::
  "'d project_db \<Rightarrow> nat \<Rightarrow> project \<Rightarrow> string option \<Rightarrow> string option \<Rightarrow> 'd \<Rightarrow> (project_error + unit) \<times> 'd" where
  "write_project db t r name description d =
     (let r' = renamed t name description r in
      if 0 < count_rows (projects_of db) (\<lambda>s. pj_org s = pj_org r \<and> pj_name s = pj_name r' \<and> pj_id s \<noteq> pj_id r) d
      then (Inl ProjectNameTaken, d)
      else (case update_one (projects_of db) (\<lambda>s. pj_id s = pj_id r) (renamed t name description) d of
          None \<Rightarrow> (Inl ProjectGone, d)
        | Some d' \<Rightarrow> (Inr (), d')))"

definition update_project ::
  "'d project_db \<Rightarrow> nat \<Rightarrow> string \<Rightarrow> string option \<Rightarrow> string option \<Rightarrow> string \<Rightarrow> 'd \<Rightarrow>
   (project_error + unit) \<times> 'd" where
  "update_project db t p name description user d =
     (case find_project db p user d of
        Inl e \<Rightarrow> (Inl e, d)
      | Inr r \<Rightarrow> write_project db t r name description d)"

definition remove_project :: "'d project_db \<Rightarrow> string \<Rightarrow> 'd \<Rightarrow> (project_error + unit) \<times> 'd" where
  "remove_project db p d =
     (case delete_one (projects_of db) (\<lambda>r. pj_id r = p) d of
        None \<Rightarrow> (Inl ProjectGone, d)
      | Some d' \<Rightarrow> (Inr (), delete_rows (drafts_of db) (\<lambda>w. wc_project w = p)
          (delete_rows (versions_of db) (\<lambda>v. ver_project v = p) d')))"

definition delete_project :: "'d project_db \<Rightarrow> string \<Rightarrow> string \<Rightarrow> 'd \<Rightarrow> (project_error + unit) \<times> 'd" where
  "delete_project db p user d =
     (case find_project db p user d of
        Inl e \<Rightarrow> (Inl e, d)
      | Inr r \<Rightarrow> (case check_membership (members_db db) (pj_org r) user (Some [Owner, Admin]) d of
            Inl e \<Rightarrow> (Inl (ProjectDenied e), d)
          | Inr _ \<Rightarrow> remove_project db (pj_id r) d))"

section \<open>Versions\<close>

definition find_version :: "'d project_db \<Rightarrow> string \<Rightarrow> string \<Rightarrow> 'd \<Rightarrow> project_error + version_row" where
  "find_version db v user d =
     (case find_first (versions_of db) (\<lambda>r. ver_id r = v) d of
        None \<Rightarrow> Inl VersionNotFound
      | Some r \<Rightarrow> (case find_project db (ver_project r) user d of Inl e \<Rightarrow> Inl e | Inr _ \<Rightarrow> Inr r))"

definition list_versions ::
  "'d project_db \<Rightarrow> string \<Rightarrow> string \<Rightarrow> nat \<Rightarrow> nat \<Rightarrow> 'd \<Rightarrow> project_error + version_row page" where
  "list_versions db p user limit offset d =
     (case find_project db p user d of
        Inl e \<Rightarrow> Inl e
      | Inr _ \<Rightarrow> (let P = (\<lambda>r. ver_project r = p)
          in Inr (paginated (take limit (drop offset (rev (sort_key ver_number (filter P (rows (versions_of db) d))))))
               (count_rows (versions_of db) P d) limit offset)))"

definition version_numbers :: "'d project_db \<Rightarrow> string \<Rightarrow> 'd \<Rightarrow> nat list" where
  "version_numbers db p d = map ver_number (filter (\<lambda>r. ver_project r = p) (rows (versions_of db) d))"

definition last_version :: "'d project_db \<Rightarrow> string \<Rightarrow> 'd \<Rightarrow> nat option" where
  "last_version db p d = (case version_numbers db p d of [] \<Rightarrow> None | n # ns \<Rightarrow> Some (foldl max n ns))"

text \<open>The transaction under the advisory lock of the project.\<close>

definition insert_version ::
  "'d project_db \<Rightarrow> string \<Rightarrow> nat \<Rightarrow> string \<Rightarrow> json \<Rightarrow> json \<Rightarrow> string \<Rightarrow> 'd \<Rightarrow>
   (project_error + version_row) \<times> 'd" where
  "insert_version db new_v t p circuit ui user d =
     (let n = (case last_version db p d of None \<Rightarrow> 0 | Some m \<Rightarrow> m) + 1;
          r = \<lparr>ver_id = new_v, ver_project = p, ver_number = n, ver_createdBy = user,
               ver_circuit = circuit, ver_ui = ui, ver_createdAt = t\<rparr>
      in if 0 < count_rows (versions_of db) (\<lambda>s. ver_project s = p \<and> ver_number s = n) d then (Inl VersionTaken, d)
         else if find_first (projects_of db) (\<lambda>s. pj_id s = p) d = None then (Inl ProjectGone, d)
         else (Inr r, create_row (versions_of db) r d))"

definition create_version ::
  "'d project_db \<Rightarrow> string \<Rightarrow> nat \<Rightarrow> string \<Rightarrow> json \<Rightarrow> json \<Rightarrow> string \<Rightarrow> 'd \<Rightarrow>
   (project_error + version_row) \<times> 'd" where
  "create_version db new_v t p circuit ui user d =
     (case find_project db p user d of
        Inl e \<Rightarrow> (Inl e, d)
      | Inr _ \<Rightarrow> insert_version db new_v t p circuit ui user d)"

section \<open>Drafts\<close>

text \<open>\<open>expectedUpdatedAt\<close> as it arrives: absent, no date, or the date \<open>new Date\<close> reads.\<close>

datatype expected = Unconditional | NotADate | At_time nat

record save_dto =
  sd_circuit :: json
  sd_ui :: json
  sd_base :: "string option"
  sd_expected :: expected

definition at_project :: "string \<Rightarrow> draft \<Rightarrow> bool" where
  "at_project p w \<longleftrightarrow> wc_project w = p"

definition seen :: "string \<Rightarrow> nat \<Rightarrow> draft \<Rightarrow> bool" where
  "seen p t w \<longleftrightarrow> wc_project w = p \<and> wc_updatedAt w = t"

definition overwritten :: "nat \<Rightarrow> save_dto \<Rightarrow> string \<Rightarrow> draft \<Rightarrow> draft" where
  "overwritten t dto user w =
     w\<lparr>wc_circuit := sd_circuit dto, wc_ui := sd_ui dto, wc_updatedBy := user, wc_updatedAt := t,
       wc_base := (case sd_base dto of None \<Rightarrow> wc_base w | Some b \<Rightarrow> Some b)\<rparr>"

definition first_draft :: "nat \<Rightarrow> string \<Rightarrow> save_dto \<Rightarrow> string \<Rightarrow> draft" where
  "first_draft t p dto user =
     \<lparr>wc_project = p, wc_circuit = sd_circuit dto, wc_ui = sd_ui dto, wc_base = sd_base dto,
      wc_updatedBy = user, wc_createdAt = t, wc_updatedAt = t\<rparr>"

definition conflict :: "'d project_db \<Rightarrow> string \<Rightarrow> 'd \<Rightarrow> project_error" where
  "conflict db p d =
     (let current = find_first (drafts_of db) (at_project p) d
      in DraftConflict (map_option wc_updatedAt current) (map_option wc_updatedBy current))"

definition write_draft ::
  "'d project_db \<Rightarrow> nat \<Rightarrow> string \<Rightarrow> save_dto \<Rightarrow> string \<Rightarrow> 'd \<Rightarrow> (project_error + draft) \<times> 'd" where
  "write_draft db t p dto user d =
     (case sd_expected dto of
        NotADate \<Rightarrow> (Inl TimestampInvalid, d)
      | At_time e \<Rightarrow>
          (let (n, d') = update_many (drafts_of db) (seen p e) (overwritten t dto user) d
           in if n = 0 then (Inl (conflict db p d'), d')
              else (case find_first (drafts_of db) (at_project p) d' of
                  None \<Rightarrow> (Inl NoWorkingCopy, d')
                | Some w \<Rightarrow> (Inr w, d')))
      | Unconditional \<Rightarrow>
          if find_first (projects_of db) (\<lambda>r. pj_id r = p) d = None then (Inl ProjectGone, d)
          else (let (w, d') = upsert (drafts_of db) (at_project p) (first_draft t p dto user) (overwritten t dto user) d
                in (Inr w, d')))"

definition save_draft ::
  "'d project_db \<Rightarrow> nat \<Rightarrow> string \<Rightarrow> save_dto \<Rightarrow> string \<Rightarrow> 'd \<Rightarrow> (project_error + draft) \<times> 'd" where
  "save_draft db t p dto user d =
     (case find_project db p user d of
        Inl e \<Rightarrow> (Inl e, d)
      | Inr _ \<Rightarrow>
          if (case sd_base dto of None \<Rightarrow> False
              | Some b \<Rightarrow> b \<noteq> [] \<and> (case find_first (versions_of db) (\<lambda>v. ver_id v = b) d of
                    None \<Rightarrow> True | Some v \<Rightarrow> ver_project v \<noteq> p))
          then (Inl BaseVersionForeign, d)
          else write_draft db t p dto user d)"

definition get_draft :: "'d project_db \<Rightarrow> string \<Rightarrow> string \<Rightarrow> 'd \<Rightarrow> project_error + draft" where
  "get_draft db p user d =
     (case find_project db p user d of
        Inl e \<Rightarrow> Inl e
      | Inr _ \<Rightarrow> (case find_first (drafts_of db) (at_project p) d of
            None \<Rightarrow> Inl NoWorkingCopy
          | Some w \<Rightarrow> Inr w))"

text \<open>A value that is no date is not tested for here: the client throws, and nothing is written.\<close>

definition drop_draft :: "'d project_db \<Rightarrow> string \<Rightarrow> expected \<Rightarrow> 'd \<Rightarrow> (project_error + unit) \<times> 'd" where
  "drop_draft db p e d =
     (case e of
        Unconditional \<Rightarrow> (Inr (), delete_rows (drafts_of db) (at_project p) d)
      | NotADate \<Rightarrow> (Inl TimestampInvalid, d)
      | At_time t \<Rightarrow>
          (let (n, d') = delete_many (drafts_of db) (seen p t) d
           in if 0 < n then (Inr (), d')
              else if find_first (drafts_of db) (at_project p) d' = None then (Inr (), d')
              else (Inl (conflict db p d'), d')))"

definition discard_draft ::
  "'d project_db \<Rightarrow> string \<Rightarrow> string \<Rightarrow> expected \<Rightarrow> 'd \<Rightarrow> (project_error + unit) \<times> 'd" where
  "discard_draft db p user e d =
     (case find_project db p user d of
        Inl err \<Rightarrow> (Inl err, d)
      | Inr _ \<Rightarrow> drop_draft db p e d)"


section \<open>The store\<close>

locale project_store =
  fixes db :: "'d project_db"
  assumes versions_table: "prisma_table (versions_of db)"
    and drafts_table: "prisma_table (drafts_of db)"
    and drafts_versions: "separate_tables (drafts_of db) (versions_of db)"
    and projects_versions: "separate_tables (projects_of db) (versions_of db)"
    and projects_drafts: "separate_tables (projects_of db) (drafts_of db)"
    and versions_drafts: "separate_tables (versions_of db) (drafts_of db)"
    and drafts_projects: "separate_tables (drafts_of db) (projects_of db)"
    and versions_projects: "separate_tables (versions_of db) (projects_of db)"

sublocale project_store \<subseteq> versions: prisma_table "versions_of db"
  by (rule versions_table)

sublocale project_store \<subseteq> drafts: prisma_table "drafts_of db"
  by (rule drafts_table)

sublocale project_store \<subseteq> drafts_versions: separate_tables "drafts_of db" "versions_of db"
  by (rule drafts_versions)

sublocale project_store \<subseteq> projects_versions: separate_tables "projects_of db" "versions_of db"
  by (rule projects_versions)

sublocale project_store \<subseteq> projects_drafts: separate_tables "projects_of db" "drafts_of db"
  by (rule projects_drafts)

sublocale project_store \<subseteq> versions_drafts: separate_tables "versions_of db" "drafts_of db"
  by (rule versions_drafts)

text \<open>
  The writes of the services, in any interleaving; \<open>late\<close> bounds the clock from below.
\<close>

inductive project_step :: "'d project_db \<Rightarrow> nat \<Rightarrow> 'd \<Rightarrow> 'd \<Rightarrow> bool" for db late where
  Create: "create_project db new_p t g name description user d = (res, d') \<Longrightarrow> project_step db late d d'"
| Rename: "write_project db t r name description d = (res, d') \<Longrightarrow> project_step db late d d'"
| Remove: "remove_project db p d = (res, d') \<Longrightarrow> project_step db late d d'"
| Version: "insert_version db new_v t p circuit ui user d = (res, d') \<Longrightarrow> project_step db late d d'"
| Save: "late < t \<Longrightarrow> write_draft db t p dto user d = (res, d') \<Longrightarrow> project_step db late d d'"
| Discard: "drop_draft db p e d = (res, d') \<Longrightarrow> project_step db late d d'"

inductive project_run :: "'d project_db \<Rightarrow> nat \<Rightarrow> 'd \<Rightarrow> 'd \<Rightarrow> bool" for db late where
  Done: "project_run db late d d"
| Step: "project_step db late d d' \<Longrightarrow> project_run db late d' d'' \<Longrightarrow> project_run db late d d''"

text \<open>The numbers of the versions of a project are 1 to their number.\<close>

definition gapless :: "'d project_db \<Rightarrow> string \<Rightarrow> 'd \<Rightarrow> bool" where
  "gapless db p d \<longleftrightarrow> mset (version_numbers db p d) = mset [1..<Suc (length (version_numbers db p d))]"

lemma foldl_max: "foldl max (n :: nat) ns = Max (set (n # ns))"
  unfolding Max.set_eq_fold foldl_conv_fold by (simp add: max.commute)

lemma gapless_last:
  assumes "gapless db p d"
  shows "(case last_version db p d of None \<Rightarrow> 0 | Some m \<Rightarrow> m) = length (version_numbers db p d)"
proof (cases "version_numbers db p d")
  case Nil
  then show ?thesis by (simp add: last_version_def)
next
  case (Cons n ns)
  have "set (version_numbers db p d) = set [1..<Suc (length (version_numbers db p d))]"
    using assms unfolding gapless_def by (rule mset_eq_setD)
  then have "set (n # ns) = {1..length (n # ns)}" by (simp add: Cons atLeastLessThanSuc_atLeastAtMost del: upt_Suc)
  then have "Max (set (n # ns)) = Max {1..length (n # ns)}" by (rule arg_cong)
  also have "\<dots> = length (n # ns)" by (rule Max_eqI) auto
  finally show ?thesis by (simp only: last_version_def Cons list.case option.case foldl_max)
qed

lemma numbers_mset:
  "mset (version_numbers db p d) = image_mset ver_number (filter_mset (\<lambda>r. ver_project r = p) (mset (rows (versions_of db) d)))"
  by (simp add: version_numbers_def)

lemma numbers_cong:
  "mset (rows (versions_of db) d') = mset (rows (versions_of db) d) \<Longrightarrow>
   mset (version_numbers db p d') = mset (version_numbers db p d)"
  by (simp add: numbers_mset)

lemma gapless_cong: "mset (version_numbers db p d') = mset (version_numbers db p d) \<Longrightarrow> gapless db p d' = gapless db p d"
  using size_mset [of "version_numbers db p d"] size_mset [of "version_numbers db p d'"] by (simp add: gapless_def)

lemma gapless_same:
  assumes "mset (rows (versions_of db) d') = mset (rows (versions_of db) d)" "gapless db p d"
  shows "gapless db p d'"
  using gapless_cong [OF numbers_cong [OF assms(1)], of p] assms(2) by simp

lemma numbers_free:
  assumes "gapless db p d"
  shows "count_rows (versions_of db) (\<lambda>s. ver_project s = p \<and> ver_number s = length (version_numbers db p d) + 1) d = 0"
proof -
  have "set (version_numbers db p d) = set [1..<Suc (length (version_numbers db p d))]"
    using assms unfolding gapless_def by (rule mset_eq_setD)
  then have free: "length (version_numbers db p d) + 1 \<notin> set (version_numbers db p d)" by simp
  have "ver_number s \<in> set (version_numbers db p d)" if "s \<in> set (rows (versions_of db) d)" "ver_project s = p" for s
    using that by (auto simp: version_numbers_def)
  then show ?thesis using free unfolding count_zero by metis
qed

context project_store
begin

lemma insert_version_gapless:
  assumes "gapless db p d" "find_first (projects_of db) (\<lambda>s. pj_id s = p) d \<noteq> None"
  shows "\<exists>r d'. insert_version db new_v t p circuit ui user d = (Inr r, d') \<and>
    ver_number r = length (version_numbers db p d) + 1 \<and> r \<in> set (rows (versions_of db) d')"
proof -
  let ?r = "\<lparr>ver_id = new_v, ver_project = p, ver_number = length (version_numbers db p d) + 1, ver_createdBy = user,
     ver_circuit = circuit, ver_ui = ui, ver_createdAt = t\<rparr>"
  have "insert_version db new_v t p circuit ui user d = (Inr ?r, create_row (versions_of db) ?r d)"
    using assms(2) unfolding insert_version_def gapless_last [OF assms(1)] Let_def numbers_free [OF assms(1)] by simp
  then show ?thesis by (intro exI [of _ ?r] exI [of _ "create_row (versions_of db) ?r d"]) simp
qed

lemma insert_version_keeps:
  assumes "gapless db q d" "insert_version db new_v t p circuit ui user d = (res, d')"
  shows "gapless db q d'"
proof (cases "d' = d")
  case True
  then show ?thesis using assms(1) by simp
next
  case False
  let ?n = "(case last_version db p d of None \<Rightarrow> 0 | Some m \<Rightarrow> m) + 1"
  let ?r = "\<lparr>ver_id = new_v, ver_project = p, ver_number = ?n, ver_createdBy = user, ver_circuit = circuit,
     ver_ui = ui, ver_createdAt = t\<rparr>"
  have d': "d' = create_row (versions_of db) ?r d"
    using assms(2) False by (auto simp: insert_version_def Let_def split: if_splits)
  have new: "mset (version_numbers db q d') = (if p = q then add_mset ?n else id) (mset (version_numbers db q d))"
    by (simp add: numbers_mset d' versions.create)
  show ?thesis
  proof (cases "p = q")
    case True
    have "size (mset (version_numbers db q d')) = Suc (size (mset (version_numbers db q d)))" using new True by simp
    then have "length (version_numbers db q d') = Suc (length (version_numbers db q d))" by simp
    then show ?thesis using new True assms(1) gapless_last [OF assms(1)] by (simp add: gapless_def)
  next
    case False
    then show ?thesis using new assms(1) gapless_cong [of db q d' d] by simp
  qed
qed

lemma remove_project_keeps:
  assumes "gapless db q d" "remove_project db p d = (res, d')"
  shows "gapless db q d'"
proof (cases "d' = d")
  case False
  then have d': "d' = delete_rows (drafts_of db) (\<lambda>w. wc_project w = p)
      (delete_rows (versions_of db) (\<lambda>v. ver_project v = p) (delete_rows (projects_of db) (\<lambda>r. pj_id r = p) d))"
    using assms(2) by (auto simp: remove_project_def delete_one_def split: if_splits)
  have "mset (version_numbers db q d') = (if p = q then {#} else mset (version_numbers db q d))"
    by (simp add: numbers_mset d' versions.delete filter_filter_mset)
      (rule impI, rule arg_cong, rule filter_mset_cong, auto)
  then show ?thesis using assms(1) gapless_cong [of db q d' d] by (auto simp: gapless_def split: if_splits)
qed (use assms(1) in simp)

end


text \<open>What the writes do to the rows of the drafts, and that they leave the versions alone.\<close>

lemma write_draft_cases:
  assumes "write_draft db t p dto user d = (res, d')"
  obtains "d' = d"
  | e where "sd_expected dto = At_time e" "d' = update_rows (drafts_of db) (seen p e) (overwritten t dto user) d"
  | "d' = update_rows (drafts_of db) (at_project p) (overwritten t dto user) d"
  | "d' = create_row (drafts_of db) (first_draft t p dto user) d"
  using assms unfolding write_draft_def upsert_def update_many_def Let_def
  by (auto split: expected.splits if_splits option.splits)

lemma drop_draft_cases:
  assumes "drop_draft db p e d = (res, d')"
  obtains "d' = d" | P where "d' = delete_rows (drafts_of db) P d"
  using assms unfolding drop_draft_def delete_many_def Let_def
  by (auto split: expected.splits if_splits)

lemma project_write_cases:
  assumes "create_project db new_p t g name description user d = (res, d') \<or>
    write_project db t r name' description' d = (res', d')"
  obtains "d' = d" | r' where "d' = create_row (projects_of db) r' d"
  | P f where "d' = update_rows (projects_of db) P f d"
  using assms unfolding create_project_def write_project_def update_one_def Let_def
  by (auto split: sum.splits if_splits option.splits)

definition kept_or_later :: "'d project_db \<Rightarrow> string \<Rightarrow> draft \<Rightarrow> nat \<Rightarrow> 'd \<Rightarrow> bool" where
  "kept_or_later db p w late d \<longleftrightarrow>
     (\<forall>x \<in> set (rows (drafts_of db) d). wc_project x = p \<longrightarrow> x = w \<or> late < wc_updatedAt x)"

lemma overwritten_fields [simp]:
  "wc_project (overwritten t dto user w) = wc_project w" "wc_updatedAt (overwritten t dto user w) = t"
  "wc_project (first_draft t p dto user) = p" "wc_updatedAt (first_draft t p dto user) = t"
  by (simp_all add: overwritten_def first_draft_def)

context project_store
begin

lemma step_gapless:
  assumes "project_step db late d d'" "gapless db q d"
  shows "gapless db q d'"
  using assms
proof (induction rule: project_step.induct)
  case (Create new_p t g name description user d res d')
  then have "mset (rows (versions_of db) d') = mset (rows (versions_of db) d)"
    by (elim project_write_cases [OF disjI1]) simp_all
  then show ?case using Create(2) by (rule gapless_same)
next
  case (Rename t r name description d res d')
  then have "mset (rows (versions_of db) d') = mset (rows (versions_of db) d)"
    by (elim project_write_cases [OF disjI2]) simp_all
  then show ?case using Rename(2) by (rule gapless_same)
next
  case (Remove p d res d')
  then show ?case using remove_project_keeps by blast
next
  case (Version new_v t p circuit ui user d res d')
  then show ?case using insert_version_keeps by blast
next
  case (Save t p dto user d res d')
  from Save(2) have "mset (rows (versions_of db) d') = mset (rows (versions_of db) d)"
    by (elim write_draft_cases) simp_all
  then show ?case using Save(3) by (rule gapless_same)
next
  case (Discard p e d res d')
  from Discard(1) have "mset (rows (versions_of db) d') = mset (rows (versions_of db) d)"
    by (elim drop_draft_cases) simp_all
  then show ?case using Discard(2) by (rule gapless_same)
qed

lemma step_kept_or_later:
  assumes "project_step db late d d'" "kept_or_later db q w late d"
  shows "kept_or_later db q w late d'"
  using assms
proof (induction rule: project_step.induct)
  case (Create new_p t g name description user d res d')
  then show ?case by (elim project_write_cases [OF disjI1]) (simp_all add: kept_or_later_def)
next
  case (Rename t r name description d res d')
  then show ?case by (elim project_write_cases [OF disjI2]) (simp_all add: kept_or_later_def)
next
  case (Remove p d res d')
  then show ?case
    by (auto simp: remove_project_def delete_one_def kept_or_later_def split: if_splits)
next
  case (Version new_v t p circuit ui user d res d')
  then show ?case by (auto simp: insert_version_def Let_def kept_or_later_def split: if_splits)
next
  case (Save t p dto user d res d')
  from Save(2) show ?case
  proof (cases rule: write_draft_cases)
    case (2 e)
    then show ?thesis using Save(1,3) by (auto simp: kept_or_later_def)
  next
    case 3
    then show ?thesis using Save(1,3) by (auto simp: kept_or_later_def)
  next
    case 4
    then show ?thesis using Save(1,3) by (auto simp: kept_or_later_def)
  qed (use Save(3) in simp)
next
  case (Discard p e d res d')
  from Discard(1) show ?case
    using Discard(2) by (cases rule: drop_draft_cases) (auto simp: kept_or_later_def)
qed

lemma run_gapless: "project_run db late d d' \<Longrightarrow> gapless db q d \<Longrightarrow> gapless db q d'"
  by (induction rule: project_run.induct) (auto intro: step_gapless)

lemma run_kept_or_later: "project_run db late d d' \<Longrightarrow> kept_or_later db q w late d \<Longrightarrow> kept_or_later db q w late d'"
  by (induction rule: project_run.induct) (auto intro: step_kept_or_later)

lemma overwritten_found:
  assumes "x \<in> set (rows (drafts_of db) d)" "seen p e x"
  shows "find_first (drafts_of db) (at_project p)
    (update_rows (drafts_of db) (seen p e) (overwritten t dto user) d) \<noteq> None"
proof -
  have "overwritten t dto user x \<in>
      set (rows (drafts_of db) (update_rows (drafts_of db) (seen p e) (overwritten t dto user) d))"
    unfolding drafts.set_update by (rule image_eqI [OF _ assms(1)]) (simp add: assms(2))
  moreover have "at_project p (overwritten t dto user x)" using assms(2) by (simp add: at_project_def seen_def)
  ultimately show ?thesis unfolding find_first_None by blast
qed

lemma guarded_save_stale:
  assumes "sd_expected dto = At_time e" "\<forall>x \<in> set (rows (drafts_of db) d). \<not> seen p e x"
  shows "\<exists>d'. write_draft db t p dto user d = (Inl (conflict db p d'), d') \<and>
    set (rows (drafts_of db) d') = set (rows (drafts_of db) d)"
proof (intro exI conjI)
  show "write_draft db t p dto user d =
      (Inl (conflict db p (update_rows (drafts_of db) (seen p e) (overwritten t dto user) d)),
       update_rows (drafts_of db) (seen p e) (overwritten t dto user) d)"
    using assms by (simp add: write_draft_def update_many_def count_zero)
  show "set (rows (drafts_of db) (update_rows (drafts_of db) (seen p e) (overwritten t dto user) d)) =
      set (rows (drafts_of db) d)"
    using assms(2) by simp
qed

lemma guarded_save_fresh:
  assumes "sd_expected dto = At_time e" "x \<in> set (rows (drafts_of db) d)" "seen p e x"
  shows "\<exists>r d'. write_draft db t p dto user d = (Inr r, d')"
proof -
  let ?d' = "update_rows (drafts_of db) (seen p e) (overwritten t dto user) d"
  have "count_rows (drafts_of db) (seen p e) d \<noteq> 0" unfolding count_zero using assms(2,3) by blast
  moreover obtain r where "find_first (drafts_of db) (at_project p) ?d' = Some r"
    using overwritten_found [OF assms(2,3), of t dto user] unfolding not_None_eq by (elim exE)
  ultimately have "write_draft db t p dto user d = (Inr r, ?d')"
    using assms(1) by (simp add: write_draft_def update_many_def)
  then show ?thesis by blast
qed

end


section \<open>Properties\<close>

text \<open>
  \<^bold>\<open>C14.\<close> The versions of a project are numbered 1, 2, 3, ... without a gap or a repetition, whatever runs in
  between: a member who saves a version is never told that the number is taken, and gets the next one.
\<close>

theorem versions_numbered:
  assumes "project_store db" "project_run db late d d'" "gapless db p d" "find_project db p user d' = Inr pj"
  shows "\<exists>r d''. create_version db new_v t p circuit ui user d' = (Inr r, d'') \<and>
    ver_number r = length (version_numbers db p d') + 1 \<and> r \<in> set (rows (versions_of db) d'') \<and> gapless db p d''"
proof -
  have g: "gapless db p d'" by (rule project_store.run_gapless [OF assms(1-3)])
  have "find_first (projects_of db) (\<lambda>s. pj_id s = p) d' \<noteq> None"
    using assms(4) by (auto simp: find_project_def split: option.splits)
  from project_store.insert_version_gapless [OF assms(1) g this]
  obtain r d'' where r: "insert_version db new_v t p circuit ui user d' = (Inr r, d'')"
    "ver_number r = length (version_numbers db p d') + 1" "r \<in> set (rows (versions_of db) d'')" by blast
  moreover have "create_version db new_v t p circuit ui user d' = (Inr r, d'')"
    using assms(4) r(1) by (simp add: create_version_def)
  ultimately show ?thesis using project_store.insert_version_keeps [OF assms(1) g r(1)] by blast
qed

lemma save_draft_cases:
  "save_draft db t p dto user d = write_draft db t p dto user d \<or> (\<exists>e. save_draft db t p dto user d = (Inl e, d))"
  unfolding save_draft_def by (simp split: sum.split)

lemma later_seen:
  "kept_or_later db p w (wc_updatedAt w) d \<Longrightarrow> x \<in> set (rows (drafts_of db) d) \<Longrightarrow> seen p (wc_updatedAt w) x \<Longrightarrow> x = w"
  by (auto simp: kept_or_later_def seen_def)

context project_store
begin

lemma save_unseen:
  assumes "kept_or_later db p w (wc_updatedAt w) d" "sd_expected dto = At_time (wc_updatedAt w)"
  shows "case save_draft db t p dto user d of
      (Inr r, d') \<Rightarrow> w \<in> set (rows (drafts_of db) d)
    | (Inl e, d') \<Rightarrow> set (rows (drafts_of db) d') = set (rows (drafts_of db) d)"
proof (cases "\<exists>x \<in> set (rows (drafts_of db) d). seen p (wc_updatedAt w) x")
  case True
  then have w: "w \<in> set (rows (drafts_of db) d)" "seen p (wc_updatedAt w) w" using later_seen [OF assms(1)] by fast+
  from guarded_save_fresh [OF assms(2) this, of t user]
  obtain r d' where "write_draft db t p dto user d = (Inr r, d')" by (elim exE)
  then show ?thesis using w(1) save_draft_cases [of db t p dto user d] by (elim disjE exE) simp_all
next
  case False
  then have "\<forall>x \<in> set (rows (drafts_of db) d). \<not> seen p (wc_updatedAt w) x" by simp
  from guarded_save_stale [OF assms(2) this, of t user]
  obtain d' where "write_draft db t p dto user d = (Inl (conflict db p d'), d')"
    "set (rows (drafts_of db) d') = set (rows (drafts_of db) d)" by (elim exE conjE)
  then show ?thesis using save_draft_cases [of db t p dto user d] by (elim disjE exE) simp_all
qed

lemma discard_unseen:
  assumes "kept_or_later db p w (wc_updatedAt w) d"
  shows "set (rows (drafts_of db) d) - {w} \<subseteq>
    set (rows (drafts_of db) (snd (discard_draft db p user (At_time (wc_updatedAt w)) d)))"
proof -
  have "snd (discard_draft db p user (At_time (wc_updatedAt w)) d) \<in>
      {d, delete_rows (drafts_of db) (seen p (wc_updatedAt w)) d}"
    by (simp add: discard_draft_def drop_draft_def delete_many_def split: sum.split)
  then show ?thesis using later_seen [OF assms] by auto
qed

end

text \<open>
  \<^bold>\<open>C13.\<close> No work is overwritten unseen: when a client that read a draft sends its timestamp back, after any
  number of other requests, a save goes through only if the stored draft is still the one it read, a refused
  save leaves the drafts as they are, and a discard removes nothing but that draft. The clocks of the other
  saves are past that timestamp.
\<close>

theorem draft_not_lost:
  assumes "project_store db" "\<forall>x \<in> set (rows (drafts_of db) d). wc_project x = p \<longrightarrow> x = w"
    and "project_run db (wc_updatedAt w) d d'" "sd_expected dto = At_time (wc_updatedAt w)"
  shows "(case save_draft db t p dto user d' of
        (Inr r, d'') \<Rightarrow> w \<in> set (rows (drafts_of db) d')
      | (Inl e, d'') \<Rightarrow> set (rows (drafts_of db) d'') = set (rows (drafts_of db) d')) \<and>
    set (rows (drafts_of db) d') - {w} \<subseteq>
      set (rows (drafts_of db) (snd (discard_draft db p user (At_time (wc_updatedAt w)) d')))"
proof -
  have "kept_or_later db p w (wc_updatedAt w) d" using assms(2) by (simp add: kept_or_later_def)
  then have "kept_or_later db p w (wc_updatedAt w) d'" by (rule project_store.run_kept_or_later [OF assms(1,3)])
  then show ?thesis
    by (intro conjI project_store.save_unseen [OF assms(1) _ assms(4)] project_store.discard_unseen [OF assms(1)])
qed

section \<open>The properties on a database of lists\<close>

record project_lists =
  pl_projects :: "project list"
  pl_versions :: "version_row list"
  pl_drafts :: "draft list"
  pl_tenants :: tenancy_lists

definition project_list_db :: "project_lists project_db" where
  "project_list_db = \<lparr>projects_of = list_table pl_projects pl_projects_update,
     versions_of = list_table pl_versions pl_versions_update, drafts_of = list_table pl_drafts pl_drafts_update,
     members_db = nested_tenancy list_db pl_tenants pl_tenants_update\<rparr>"

interpretation project_lists: project_store project_list_db
  by unfold_locales (simp_all add: project_list_db_def list_table_def)

definition demo_draft :: draft where
  "demo_draft = \<lparr>wc_project = ''p1'', wc_circuit = JObj [], wc_ui = JObj [], wc_base = None,
     wc_updatedBy = ''cyd'', wc_createdAt = 5, wc_updatedAt = 7\<rparr>"

definition demo_projects :: project_lists where
  "demo_projects = \<lparr>pl_projects = [\<lparr>pj_id = ''p1'', pj_org = ''acme'', pj_name = ''Amp'', pj_description = None,
       pj_createdAt = 1, pj_updatedAt = 1\<rparr>],
     pl_versions = [], pl_drafts = [demo_draft], pl_tenants = demo_tenancy\<rparr>"

definition demo_save :: save_dto where
  "demo_save = \<lparr>sd_circuit = JObj [(''nets'', JArr [])], sd_ui = JObj [], sd_base = None, sd_expected = At_time 7\<rparr>"

lemmas project_list_simps = project_list_db_def list_table_def demo_projects_def

lemma demo_project_found: "\<exists>pj. find_project project_list_db ''p1'' ''cyd'' demo_projects = Inr pj"
  by (rule exI [of _ "hd (pl_projects demo_projects)"]) code_simp

theorem versions_numbered_witness:
  "\<exists>r d''. create_version project_list_db ''v1'' 9 ''p1'' (JObj []) (JObj []) ''cyd'' demo_projects = (Inr r, d'') \<and>
     ver_number r = 1"
proof -
  have none: "version_numbers project_list_db ''p1'' demo_projects = []"
    by (simp add: version_numbers_def project_list_simps)
  then have "gapless project_list_db ''p1'' demo_projects" by (simp add: gapless_def)
  from versions_numbered [OF project_lists.project_store_axioms project_run.Done this] demo_project_found
  show ?thesis by (metis none list.size(3) add_0)
qed

theorem draft_not_lost_witness:
  "\<exists>d'. write_draft project_list_db 8 ''p1'' (demo_save\<lparr>sd_expected := Unconditional\<rparr>) ''ada'' demo_projects =
       (Inr (overwritten 8 (demo_save\<lparr>sd_expected := Unconditional\<rparr>) ''ada'' demo_draft), d') \<and>
     (\<exists>e. fst (save_draft project_list_db 9 ''p1'' demo_save ''cyd'' d') = Inl e)"
proof -
  let ?s = "demo_save\<lparr>sd_expected := Unconditional\<rparr>"
  define d' where "d' = snd (write_draft project_list_db 8 ''p1'' ?s ''ada'' demo_projects)"
  have w: "write_draft project_list_db 8 ''p1'' ?s ''ada'' demo_projects = (Inr (overwritten 8 ?s ''ada'' demo_draft), d')"
    unfolding d'_def by code_simp
  have "project_step project_list_db (wc_updatedAt demo_draft) demo_projects d'"
    by (rule project_step.Save [OF _ w]) (simp add: demo_draft_def)
  then have run: "project_run project_list_db (wc_updatedAt demo_draft) demo_projects d'"
    by (rule project_run.Step [OF _ project_run.Done])
  have only: "\<forall>x \<in> set (rows (drafts_of project_list_db) demo_projects). wc_project x = ''p1'' \<longrightarrow> x = demo_draft"
    by (simp add: project_list_simps)
  have "demo_draft \<notin> set (rows (drafts_of project_list_db) d')"
    unfolding d'_def by code_simp
  with draft_not_lost [OF project_lists.project_store_axioms only run, of demo_save 9 "''cyd''"]
  have "\<exists>e. fst (save_draft project_list_db 9 ''p1'' demo_save ''cyd'' d') = Inl e"
    by (simp add: demo_save_def demo_draft_def split: prod.splits sum.splits)
  with w show ?thesis by blast
qed

end
