(* ===== verification/Drc.thy ===== *)
theory Drc
  imports Object_Tree Json
begin

text \<open>
  \<open>packages/pcb-core/src/drc.ts\<close> and the delivery gate \<open>apps/pcb-worker/src/layout/outcome.ts\<close>: what of a
  KiCad report blocks a board, where its findings lie on the board, and the connections still to be routed.

  A report has the fields the code reads; a field that may be absent is an option. Points are those of the
  pads of the geometry (\<open>Object_Tree\<close>), as pairs. The two regular expressions that read a description are
  written out: each of their repetitions stops at the first character it cannot take, so neither backtracks.
\<close>

section \<open>Reports\<close>

record drc_entry =
  de_type :: string
  de_severity :: "string option"
  de_description :: string
  de_items :: "string list option"

text \<open>\<open>None\<close> for a list that is absent or no array.\<close>

record raw_report =
  raw_violations :: "drc_entry list option"
  raw_unconnected :: "drc_entry list option"

record parsed_drc =
  drc_clean :: bool
  drc_violations :: "drc_entry list"
  drc_warnings :: "drc_entry list"
  drc_unconnected :: "drc_entry list"

definition non_blocking_severities :: "string list" where
  "non_blocking_severities = [''warning'', ''ignore'', ''exclusion'', ''info'']"

definition non_blocking :: "drc_entry \<Rightarrow> bool" where
  "non_blocking v \<longleftrightarrow>
     js_lower (case de_severity v of None \<Rightarrow> ''undefined'' | Some s \<Rightarrow> s) \<in> set non_blocking_severities"

definition parse_drc_report :: "raw_report option \<Rightarrow> parsed_drc" where
  "parse_drc_report json =
     (let entries = (\<lambda>f. case json of None \<Rightarrow> [] | Some j \<Rightarrow> (case f j of None \<Rightarrow> [] | Some es \<Rightarrow> es));
          all = entries raw_violations;
          unconnected = entries raw_unconnected;
          violations = filter (\<lambda>v. \<not> non_blocking v) all
      in \<lparr>drc_clean = (violations = [] \<and> unconnected = []), drc_violations = violations,
          drc_warnings = filter non_blocking all, drc_unconnected = unconnected\<rparr>)"

definition category_table :: "(string \<times> string) list" where
  "category_table =
     [(''unconnected_items'', ''unconnected''), (''clearance'', ''clearance''), (''hole_clearance'', ''clearance''),
      (''tracks_crossing'', ''clearance''), (''track_dangling'', ''dangling''), (''via_dangling'', ''dangling''),
      (''annular_width'', ''via_drill''), (''via_diameter'', ''via_drill''), (''drill_out_of_range'', ''via_drill''),
      (''hole_to_hole'', ''via_drill''), (''copper_overlap'', ''copper''), (''copper_sliver'', ''copper''),
      (''zone_has_empty_net'', ''copper''), (''isolated_copper'', ''copper''), (''courtyards_overlap'', ''placement''),
      (''silk_over_copper'', ''silk''), (''silk_overlap'', ''silk''), (''silk_edge_clearance'', ''silk''),
      (''missing_footprint'', ''footprint''), (''lib_footprint_issues'', ''footprint''),
      (''text_height'', ''text''), (''text_thickness'', ''text'')]"

definition drc_category :: "string \<Rightarrow> string" where
  "drc_category ty = (case map_of category_table ty of None \<Rightarrow> ''other'' | Some c \<Rightarrow> c)"

section \<open>Descriptions\<close>

definition spaces :: "string \<Rightarrow> string option" where
  "spaces s = (if s \<noteq> [] \<and> js_space (hd s) then Some (dropWhile js_space s) else None)"

definition word :: "string \<Rightarrow> (string \<times> string) option" where
  "word s = (if s \<noteq> [] \<and> \<not> js_space (hd s)
     then Some (takeWhile (\<lambda>c. \<not> js_space c) s, dropWhile (\<lambda>c. \<not> js_space c) s) else None)"

fun literal :: "string \<Rightarrow> string \<Rightarrow> string option" where
  "literal [] s = Some s"
| "literal (c # cs) [] = None"
| "literal (c # cs) (d # s) = (if c = d then literal cs s else None)"

text \<open>\<open>\[([^\]]*)\]\s+of\s+(\S+)\<close>, at the head of a text\<close>

definition net_of_part :: "string \<Rightarrow> (string \<times> string) option" where
  "net_of_part s =
     Option.bind (literal ''['' s) (\<lambda>r.
     Option.bind (literal '']'' (dropWhile (\<lambda>c. c \<noteq> CHR '']'') r)) (\<lambda>r2.
     Option.bind (spaces r2) (\<lambda>r3.
     Option.bind (literal ''of'' r3) (\<lambda>r4.
     Option.bind (spaces r4) (\<lambda>r5.
     Option.bind (word r5) (\<lambda>(d, _).
     Some (takeWhile (\<lambda>c. c \<noteq> CHR '']'') r, d)))))))"

definition word_char :: "char \<Rightarrow> bool" where
  "word_char c \<longleftrightarrow> is_digit c \<or> 65 \<le> code c \<and> code c \<le> 90 \<or> 97 \<le> code c \<and> code c \<le> 122 \<or> c = CHR ''_''"

text \<open>\<open>Pad\s+(\S+)\s+\[\<close>\<close>

definition pad_name :: "string \<Rightarrow> string option" where
  "pad_name s =
     Option.bind (literal ''Pad'' s) (\<lambda>r.
     Option.bind (spaces r) (\<lambda>r2.
     Option.bind (word r2) (\<lambda>(p, r3).
     Option.bind (spaces r3) (\<lambda>r4.
     Option.bind (literal ''['' r4) (\<lambda>_.
     Some p)))))"

fun first_net :: "string \<Rightarrow> (string \<times> string) option" where
  "first_net [] = None"
| "first_net (c # s) = (case net_of_part (c # s) of Some m \<Rightarrow> Some m | None \<Rightarrow> first_net s)"

text \<open>\<open>\b\<close>: the match starts the text or follows a character that is no word character.\<close>

fun first_pad :: "bool \<Rightarrow> string \<Rightarrow> string option" where
  "first_pad inside [] = None"
| "first_pad inside (c # s) =
     (case (if inside then None else pad_name (c # s)) of Some p \<Rightarrow> Some p | None \<Rightarrow> first_pad (word_char c) s)"

record item_desc =
  it_pad :: "string option"
  it_net :: string
  it_designator :: string

definition parse_item_desc :: "string \<Rightarrow> item_desc option" where
  "parse_item_desc s =
     map_option (\<lambda>(n, d). \<lparr>it_pad = first_pad False s, it_net = n, it_designator = d\<rparr>) (first_net s)"

section \<open>Locations\<close>

type_synonym point = "rat \<times> rat"

definition designator_of :: "layout_geometry \<Rightarrow> string \<rightharpoonup> string" where
  "designator_of geo = foldl (\<lambda>m c. m(lc_id c \<mapsto> lc_designator c)) Map.empty (layout_components geo)"

text \<open>The two indexes; the key \<open>d|p\<close> is kept as text.\<close>

definition index_key :: "string \<Rightarrow> string \<Rightarrow> string" where
  "index_key d p = d @ ''|'' @ p"

definition truthy :: "string option \<Rightarrow> string option" where
  "truthy s = (case s of None \<Rightarrow> None | Some x \<Rightarrow> if x = [] then None else Some x)"

definition pad_index :: "(layout_pad \<Rightarrow> string option) \<Rightarrow> layout_geometry \<Rightarrow> string \<rightharpoonup> point" where
  "pad_index f geo = foldl (\<lambda>m p.
     (case (truthy (designator_of geo (pad_component p)), truthy (f p)) of
        (Some d, Some k) \<Rightarrow> m(index_key d k \<mapsto> pad_at p)
      | _ \<Rightarrow> m)) Map.empty (layout_pads geo)"

definition locate :: "layout_geometry \<Rightarrow> item_desc \<Rightarrow> string \<Rightarrow> point option" where
  "locate geo it net =
     (case Option.bind (it_pad it) (\<lambda>p. pad_index pad_pin geo (index_key (it_designator it) p)) of
        Some pt \<Rightarrow> Some pt
      | None \<Rightarrow> pad_index pad_net geo (index_key (it_designator it) net))"

record drc_check =
  dc_category :: string
  dc_type :: string
  dc_severity :: "string option"
  dc_message :: string
  dc_location :: "point option"
  dc_refs :: "string list"

definition items_of :: "drc_entry \<Rightarrow> item_desc option list" where
  "items_of v = map parse_item_desc (case de_items v of None \<Rightarrow> [] | Some its \<Rightarrow> its)"

fun first_some :: "'a option list \<Rightarrow> 'a option" where
  "first_some [] = None"
| "first_some (None # xs) = first_some xs"
| "first_some (Some x # xs) = Some x"

definition drc_check_of :: "layout_geometry option \<Rightarrow> drc_entry \<Rightarrow> drc_check" where
  "drc_check_of geo v =
     \<lparr>dc_category = drc_category (de_type v), dc_type = de_type v, dc_severity = de_severity v,
      dc_message = de_description v,
      dc_location = (case geo of None \<Rightarrow> None
         | Some g \<Rightarrow> first_some (map (\<lambda>p. Option.bind p (\<lambda>it. locate g it (it_net it))) (items_of v))),
      dc_refs = uniq (filter (\<lambda>d. d \<noteq> [])
         (map it_designator (concat (map (\<lambda>p. case p of None \<Rightarrow> [] | Some it \<Rightarrow> [it]) (items_of v)))))\<rparr>"

definition drc_to_checks :: "parsed_drc \<Rightarrow> layout_geometry option \<Rightarrow> drc_check list" where
  "drc_to_checks report geo = map (drc_check_of geo) (drc_violations report @ drc_warnings report)"

record airwire =
  aw_net :: string
  aw_from :: point
  aw_to :: point

text \<open>One unconnected entry: its airwire, or \<open>None\<close> and it is counted as unmatched.\<close>

definition airwire_of :: "layout_geometry \<Rightarrow> drc_entry \<Rightarrow> airwire option" where
  "airwire_of geo e =
     (let parsed = items_of e;
          net = (case first_some (map (\<lambda>p. Option.bind p (\<lambda>it. truthy (Some (it_net it)))) parsed) of
                   None \<Rightarrow> [] | Some n \<Rightarrow> n)
      in case parsed of
           Some a # Some b # _ \<Rightarrow>
             if net = [] then None
             else (case (locate geo a net, locate geo b net) of
                 (Some x, Some y) \<Rightarrow> Some \<lparr>aw_net = net, aw_from = x, aw_to = y\<rparr>
               | _ \<Rightarrow> None)
         | _ \<Rightarrow> None)"

fun airwires_from_drc :: "layout_geometry \<Rightarrow> drc_entry list \<Rightarrow> airwire list \<times> nat" where
  "airwires_from_drc geo [] = ([], 0)"
| "airwires_from_drc geo (e # es) =
     (let (ws, n) = airwires_from_drc geo es
      in case airwire_of geo e of Some w \<Rightarrow> (w # ws, n) | None \<Rightarrow> (ws, n + 1))"

section \<open>The delivery gate\<close>

text \<open>The reason carries the two counts of its message.\<close>

record verdict =
  manufacturable :: bool
  n_violations :: nat
  n_unrouted :: nat
  reason :: "(nat \<times> nat) option"

definition assess_manufacturability :: "parsed_drc \<Rightarrow> verdict" where
  "assess_manufacturability parsed =
     (let v = length (drc_violations parsed); u = length (drc_unconnected parsed); ok = (v = 0 \<and> u = 0)
      in \<lparr>manufacturable = ok, n_violations = v, n_unrouted = u, reason = (if ok then None else Some (v, u))\<rparr>)"


section \<open>Where the findings lie\<close>

lemma pad_index_cases:
  "pad_index f geo k = Some pt \<Longrightarrow> \<exists>p \<in> set (layout_pads geo). pad_at p = pt \<and>
     (\<exists>d x. designator_of geo (pad_component p) = Some d \<and> d \<noteq> [] \<and> k = index_key d x)"
proof -
  define step where "step = (\<lambda>(m :: string \<rightharpoonup> point) p.
     (case (truthy (designator_of geo (pad_component p)), truthy (f p)) of
        (Some d, Some x) \<Rightarrow> m(index_key d x \<mapsto> pad_at p) | _ \<Rightarrow> m))"
  have "\<exists>p \<in> set ps. pad_at p = pt \<and> (\<exists>d x. designator_of geo (pad_component p) = Some d \<and> d \<noteq> [] \<and> k = index_key d x)"
    if "foldl step m ps k = Some pt" "m k \<noteq> Some pt" for m ps
    using that
  proof (induction ps arbitrary: m)
    case (Cons p ps)
    show ?case
    proof (cases "step m p k = Some pt")
      case True
      then show ?thesis using Cons.prems(2)
        by (auto simp: step_def truthy_def split: option.splits if_splits)
    next
      case False
      then show ?thesis using Cons.IH [of "step m p"] Cons.prems(1) by auto
    qed
  qed simp
  then show "pad_index f geo k = Some pt \<Longrightarrow> ?thesis" by (simp add: pad_index_def step_def)
qed

lemma index_key_inj: "CHR ''|'' \<notin> set d \<Longrightarrow> CHR ''|'' \<notin> set e \<Longrightarrow> index_key d x = index_key e y \<Longrightarrow> d = e"
  unfolding index_key_def by (induction d arbitrary: e) (auto simp: Cons_eq_append_conv)

definition plain :: "string \<Rightarrow> bool" where
  "plain d \<longleftrightarrow> CHR ''|'' \<notin> set d"

lemma plain_key: "plain d \<Longrightarrow> plain e \<Longrightarrow> index_key d x = index_key e y \<Longrightarrow> d = e"
  unfolding plain_def by (rule index_key_inj)

lemma designator_fold:
  "foldl (\<lambda>m c. m(lc_id c \<mapsto> lc_designator c)) m cs i = Some d \<Longrightarrow> m i \<noteq> Some d \<Longrightarrow> \<exists>c \<in> set cs. lc_designator c = d"
proof (induction cs arbitrary: m)
  case (Cons c cs)
  then show ?case by (cases "lc_id c = i \<and> lc_designator c = d") (auto split: if_splits)
qed simp

lemma designator_component:
  "designator_of geo i = Some d \<Longrightarrow> \<exists>c \<in> set (layout_components geo). lc_designator c = d"
  unfolding designator_of_def by (erule designator_fold) simp

lemma locate_pad:
  assumes "locate geo it net = Some pt"
  shows "\<exists>p \<in> set (layout_pads geo). pad_at p = pt \<and>
    (\<exists>d x y. designator_of geo (pad_component p) = Some d \<and> d \<noteq> [] \<and> index_key (it_designator it) x = index_key d y)"
  using assms unfolding locate_def
  by (auto split: option.splits bind_splits dest!: pad_index_cases)

lemma first_some_in: "first_some xs = Some x \<Longrightarrow> Some x \<in> set xs"
  by (induction xs rule: first_some.induct) auto

lemma airwire_count: "length (fst (airwires_from_drc geo es)) + snd (airwires_from_drc geo es) = length es"
  by (induction es) (auto simp: split_beta Let_def split: option.split)

lemma airwire_in:
  "w \<in> set (fst (airwires_from_drc geo es)) \<Longrightarrow> \<exists>e \<in> set es. airwire_of geo e = Some w"
  by (induction es) (auto simp: split_beta Let_def split: option.splits)

lemma airwire_ends:
  assumes "airwire_of geo e = Some w"
  shows "aw_from w \<in> pad_at ` set (layout_pads geo) \<and> aw_to w \<in> pad_at ` set (layout_pads geo)"
proof -
  from assms obtain a b where "locate geo a (aw_net w) = Some (aw_from w)" "locate geo b (aw_net w) = Some (aw_to w)"
    by (auto simp: airwire_of_def Let_def split: list.splits option.splits if_splits)
  then obtain p q where "p \<in> set (layout_pads geo)" "pad_at p = aw_from w" "q \<in> set (layout_pads geo)" "pad_at q = aw_to w"
    using locate_pad by meson
  then show ?thesis by (auto intro: rev_image_eqI)
qed

definition named_plainly :: "parsed_drc \<Rightarrow> layout_geometry \<Rightarrow> bool" where
  "named_plainly report geo \<longleftrightarrow> (\<forall>c \<in> set (layout_components geo). plain (lc_designator c)) \<and>
     (\<forall>v \<in> set (drc_violations report @ drc_warnings report). \<forall>it \<in> set (items_of v).
        case it of None \<Rightarrow> True | Some i \<Rightarrow> plain (it_designator i))"

lemma check_location:
  assumes "named_plainly report geo" "c \<in> set (drc_to_checks report (Some geo))" "dc_location c = Some pt"
  shows "\<exists>p \<in> set (layout_pads geo). pad_at p = pt \<and> (\<exists>d \<in> set (dc_refs c). designator_of geo (pad_component p) = Some d)"
proof -
  from assms(2) obtain v where v: "v \<in> set (drc_violations report @ drc_warnings report)" and c: "c = drc_check_of (Some geo) v"
    unfolding drc_to_checks_def by auto
  have v': "dc_location c = first_some (map (\<lambda>p. Option.bind p (\<lambda>it. locate geo it (it_net it))) (items_of v))"
    "dc_refs c = uniq (filter (\<lambda>d. d \<noteq> []) (map it_designator (concat (map (\<lambda>p. case p of None \<Rightarrow> [] | Some it \<Rightarrow> [it]) (items_of v)))))"
    by (simp_all add: c drc_check_of_def)
  have "Some pt \<in> set (map (\<lambda>p. Option.bind p (\<lambda>it. locate geo it (it_net it))) (items_of v))"
    using v'(1) assms(3) by (intro first_some_in) simp
  then obtain p where p: "p \<in> set (items_of v)" "Option.bind p (\<lambda>it. locate geo it (it_net it)) = Some pt" by auto
  from p(2) obtain it where "p = Some it" "locate geo it (it_net it) = Some pt" by (auto split: bind_splits)
  then have it: "Some it \<in> set (items_of v)" "locate geo it (it_net it) = Some pt" using p(1) by simp_all
  from locate_pad [OF it(2)] obtain p d x y where p: "p \<in> set (layout_pads geo)" "pad_at p = pt"
    "designator_of geo (pad_component p) = Some d" "d \<noteq> []" "index_key (it_designator it) x = index_key d y" by blast
  have "plain (it_designator it)" using assms(1) v it(1) unfolding named_plainly_def by fastforce
  moreover have "plain d" using assms(1) designator_component [OF p(3)] by (auto simp: named_plainly_def)
  ultimately have "it_designator it = d" using p(5) by (rule plain_key)
  then have "d \<in> set (dc_refs c)" using it(1) p(4) by (force simp: v'(2))
  then show ?thesis using p by blast
qed

text \<open>
  A finding is never drawn at a wrong place: the location of a check is the point of a pad of a
  component the finding names, an airwire runs between two pads, and each unconnected entry is an airwire or
  is counted as unmatched. Designators hold no bar, the separator of the keys.
\<close>

theorem drc_points_are_pads:
  assumes "named_plainly report geo"
  shows "(\<forall>c \<in> set (drc_to_checks report (Some geo)). \<forall>pt. dc_location c = Some pt \<longrightarrow>
      (\<exists>p \<in> set (layout_pads geo). pad_at p = pt \<and> (\<exists>d \<in> set (dc_refs c). designator_of geo (pad_component p) = Some d))) \<and>
    (\<forall>w \<in> set (fst (airwires_from_drc geo (drc_unconnected report))).
      aw_from w \<in> pad_at ` set (layout_pads geo) \<and> aw_to w \<in> pad_at ` set (layout_pads geo)) \<and>
    length (fst (airwires_from_drc geo (drc_unconnected report))) + snd (airwires_from_drc geo (drc_unconnected report)) =
      length (drc_unconnected report)"
  using check_location [OF assms] airwire_in airwire_ends airwire_count by blast

definition demo_geometry :: layout_geometry where
  "demo_geometry = \<lparr>layout_components = [\<lparr>lc_id = ''c1'', lc_designator = ''LED1'', lc_footprint = None\<rparr>,
       \<lparr>lc_id = ''c2'', lc_designator = ''R2'', lc_footprint = None\<rparr>],
     layout_pads = [\<lparr>pad_id = ''a'', pad_component = ''c1'', pad_pin = Some ''1'', source_pin = None, pad_net = Some ''A'', pad_at = (1, 2)\<rparr>,
       \<lparr>pad_id = ''b'', pad_component = ''c2'', pad_pin = Some ''2'', source_pin = None, pad_net = Some ''A'', pad_at = (3, 4)\<rparr>]\<rparr>"

definition demo_report :: raw_report where
  "demo_report = \<lparr>raw_violations = Some [\<lparr>de_type = ''clearance'', de_severity = Some ''Error'', de_description = ''too close'',
       de_items = Some [''Pad 1 [A] of LED1 on F.Cu'']\<rparr>],
     raw_unconnected = Some [\<lparr>de_type = ''unconnected_items'', de_severity = Some ''error'', de_description = ''missing'',
       de_items = Some [''Pad 1 [A] of LED1 on F.Cu'', ''Track [A] of R2'']\<rparr>]\<rparr>"

lemma demo_checks:
  "map dc_location (drc_to_checks (parse_drc_report (Some demo_report)) (Some demo_geometry)) = [Some (1, 2)]"
  "airwires_from_drc demo_geometry (drc_unconnected (parse_drc_report (Some demo_report))) =
     ([\<lparr>aw_net = ''A'', aw_from = (1, 2), aw_to = (3, 4)\<rparr>], 0)"
  by code_simp+

theorem drc_points_are_pads_witness:
  "\<exists>c \<in> set (drc_to_checks (parse_drc_report (Some demo_report)) (Some demo_geometry)). dc_location c = Some (1, 2) \<and>
     (\<exists>p \<in> set (layout_pads demo_geometry). pad_at p = (1, 2) \<and>
        (\<exists>d \<in> set (dc_refs c). designator_of demo_geometry (pad_component p) = Some d))"
proof -
  have "named_plainly (parse_drc_report (Some demo_report)) demo_geometry" by code_simp
  from drc_points_are_pads [OF this] have *: "\<forall>c \<in> set (drc_to_checks (parse_drc_report (Some demo_report)) (Some demo_geometry)).
      \<forall>pt. dc_location c = Some pt \<longrightarrow> (\<exists>p \<in> set (layout_pads demo_geometry). pad_at p = pt \<and>
        (\<exists>d \<in> set (dc_refs c). designator_of demo_geometry (pad_component p) = Some d))" by (rule conjunct1)
  have "Some (1, 2) \<in> set (map dc_location (drc_to_checks (parse_drc_report (Some demo_report)) (Some demo_geometry)))"
    unfolding demo_checks by simp
  then obtain c where "c \<in> set (drc_to_checks (parse_drc_report (Some demo_report)) (Some demo_geometry))"
    "dc_location c = Some (1, 2)" by auto
  then show ?thesis using * by blast
qed

end
