(* ===== verification/Delivery_Frame.thy ===== *)
theory Delivery_Frame
  imports Library Js_Values
begin

text \<open>
  \<open>packages/pcb-core/src/delivery-frame.ts\<close>: do the placements of a bundle lie on the board its copper
  describes? The outline is read from the Edge.Cuts gerber, the placements from the position file of KiCad,
  both as text. The numbers are kept exactly; the code computes them with doubles. Of a message the
  constructor keeps what it is about, and whether it names a shift of the whole file.
\<close>

record extent =
  minX :: rat
  minY :: rat
  maxX :: rat
  maxY :: rat

record placement =
  pl_ref :: string
  pl_x :: rat
  pl_y :: rat

datatype frame_check =
    Frame_ok nat extent
  | No_outline_geometry
  | No_placements
  | Off_board "placement list" bool

definition edge_slack_mm :: rat where "edge_slack_mm = 5"

section \<open>Lines\<close>

text \<open>\<open>split(/\r?\n/)\<close>\<close>

definition drop_cr :: "string \<Rightarrow> string" where
  "drop_cr s = (if s \<noteq> [] \<and> code (last s) = 13 then butlast s else s)"

fun js_lines_from :: "string \<Rightarrow> string \<Rightarrow> string list" where
  "js_lines_from acc [] = [rev acc]"
| "js_lines_from acc (c # s) =
     (if code c = 10 then drop_cr (rev acc) # js_lines_from [] s else js_lines_from (c # acc) s)"

definition js_lines :: "string \<Rightarrow> string list" where
  "js_lines s = js_lines_from [] s"

section \<open>The outline\<close>

fun after :: "string \<Rightarrow> string \<Rightarrow> string option" where
  "after [] s = Some s"
| "after (c # cs) [] = None"
| "after (c # cs) (d # s) = (if c = d then after cs s else None)"

text \<open>\<open>%FSLAX(\d)(\d)Y(\d)(\d)\*%\<close>: the second digit.\<close>

definition format_here :: "string \<Rightarrow> nat option" where
  "format_here s =
     Option.bind (after ''%FSLAX'' s) (\<lambda>r. case r of
        a # b # y # c # d # star # percent # _ \<Rightarrow>
          if is_digit a \<and> is_digit b \<and> y = CHR ''Y'' \<and> is_digit c \<and> is_digit d \<and> star = CHR ''*'' \<and> percent = CHR ''%''
          then Some (code b - 48) else None
      | _ \<Rightarrow> None)"

fun format_digits :: "string \<Rightarrow> nat option" where
  "format_digits [] = None"
| "format_digits (c # s) = (case format_here (c # s) of Some n \<Rightarrow> Some n | None \<Rightarrow> format_digits s)"

text \<open>\<open>(?:X(-?\d+))?\<close> with the letter of an axis: the number if the group matches, and the rest.\<close>

definition axis_number :: "char \<Rightarrow> string \<Rightarrow> int option \<times> string" where
  "axis_number a s =
     (case s of
        [] \<Rightarrow> (None, s)
      | c # r \<Rightarrow> if c \<noteq> a then (None, s)
          else (let neg = (r \<noteq> [] \<and> hd r = CHR ''-'');
                    r' = (if neg then tl r else r);
                    ds = takeWhile is_digit r'
                in if ds = [] then (None, s)
                   else (Some ((if neg then -1 else 1) * int (num_val ds)), dropWhile is_digit r')))"

text \<open>\<open>^(?:X(-?\d+))?(?:Y(-?\d+))?D0[123]\*$\<close>\<close>

definition coordinate_block :: "string \<Rightarrow> (int option \<times> int option) option" where
  "coordinate_block s =
     (let (x, r) = axis_number CHR ''X'' s;
          (y, r') = axis_number CHR ''Y'' r
      in if r' \<in> {''D01*'', ''D02*'', ''D03*''} then Some (x, y) else None)"

fun plot_points ::
  "rat \<Rightarrow> rat option \<Rightarrow> rat option \<Rightarrow> string list \<Rightarrow> (rat \<times> rat) list" where
  "plot_points scale x y [] = []"
| "plot_points scale x y (line # rest) =
     (case coordinate_block (js_trim line) of
        None \<Rightarrow> plot_points scale x y rest
      | Some (mx, my) \<Rightarrow>
          (let x' = (case mx of None \<Rightarrow> x | Some n \<Rightarrow> Some (of_int n * scale));
               y' = (case my of None \<Rightarrow> y | Some n \<Rightarrow> Some (of_int n * scale))
           in (case (x', y') of (Some a, Some b) \<Rightarrow> [(a, b)] | _ \<Rightarrow> []) @ plot_points scale x' y' rest))"

definition box :: "(rat \<times> rat) list \<Rightarrow> extent" where
  "box ps = \<lparr>minX = Min (fst ` set ps), minY = Min (snd ` set ps), maxX = Max (fst ` set ps), maxY = Max (snd ` set ps)\<rparr>"

definition gerber_extent :: "string \<Rightarrow> extent option" where
  "gerber_extent gerber =
     (case format_digits gerber of
        None \<Rightarrow> None
      | Some n \<Rightarrow> (let pts = plot_points (1 / 10 ^ n) None None (js_lines gerber)
                   in if pts = [] then None else Some (box pts)))"

section \<open>The placements\<close>

text \<open>
  The cells of a line. A quoted cell ends at the first quote that is not doubled, if a comma or the end
  follows; in every other case the cell goes up to the next comma. Each match takes its comma along, and the
  code drops the last match.
\<close>

fun quoted_cell :: "string \<Rightarrow> string \<Rightarrow> (string \<times> string) option" where
  "quoted_cell acc [] = None"
| "quoted_cell acc (c # s) =
     (if c \<noteq> CHR 0x22 then quoted_cell (c # acc) s
      else (case s of
          [] \<Rightarrow> Some (rev (c # acc), [])
        | d # s' \<Rightarrow> if d = CHR 0x22 then quoted_cell (d # c # acc) s'
            else if d = CHR '','' then Some (rev (c # acc), s) else None))"

definition cell_here :: "string \<Rightarrow> string \<times> string" where
  "cell_here s =
     (case (if s \<noteq> [] \<and> hd s = CHR 0x22 then quoted_cell [CHR 0x22] (tl s) else None) of
        Some m \<Rightarrow> m
      | None \<Rightarrow> (takeWhile (\<lambda>c. c \<noteq> CHR '','') s, dropWhile (\<lambda>c. c \<noteq> CHR '','') s))"

text \<open>
  The texts of the matches without the comma. After a match that ends the line with no comma there is one
  more, empty, unless that match was empty itself.
\<close>

fun cell_matches :: "nat \<Rightarrow> string \<Rightarrow> string list" where
  "cell_matches 0 s = []"
| "cell_matches (Suc n) s =
     (let (m, r) = cell_here s in
      case r of
        [] \<Rightarrow> if m = [] then [[]] else [m, []]
      | _ # r' \<Rightarrow> m # cell_matches n r')"

fun single_quotes :: "string \<Rightarrow> string" where
  "single_quotes (a # b # s) =
     (if a = CHR 0x22 \<and> b = CHR 0x22 then a # single_quotes s else a # single_quotes (b # s))"
| "single_quotes s = s"

definition clean_cell :: "string \<Rightarrow> string" where
  "clean_cell m =
     (let t = js_trim m;
          t1 = (if t \<noteq> [] \<and> hd t = CHR 0x22 then tl t else t);
          t2 = (if t1 \<noteq> [] \<and> last t1 = CHR 0x22 then butlast t1 else t1)
      in single_quotes t2)"

definition csv_cells :: "string \<Rightarrow> string list" where
  "csv_cells line = butlast (map clean_cell (cell_matches (length line + 1) line))"

definition header_key :: "string \<Rightarrow> string" where
  "header_key h = filter (\<lambda>c. is_lower c \<or> is_digit c) (js_lower h)"

fun find_index :: "('a \<Rightarrow> bool) \<Rightarrow> 'a list \<Rightarrow> nat option" where
  "find_index P [] = None"
| "find_index P (x # xs) = (if P x then Some 0 else map_option Suc (find_index P xs))"

text \<open>\<open>Number(c[i])\<close> when it is finite; an absent cell is no number.\<close>

definition cell_number :: "string list \<Rightarrow> nat \<Rightarrow> rat option" where
  "cell_number c i = (if i < length c then js_number (c ! i) else None)"

fun read_placements :: "nat \<Rightarrow> nat \<Rightarrow> nat \<Rightarrow> string list \<Rightarrow> placement list option" where
  "read_placements ir ix iy [] = Some []"
| "read_placements ir ix iy (line # rest) =
     (let c = csv_cells line in
      case (cell_number c ix, cell_number c iy) of
        (Some x, Some y) \<Rightarrow> map_option (\<lambda>ps. \<lparr>pl_ref = (if ir < length c then c ! ir else []), pl_x = x, pl_y = y\<rparr> # ps)
                              (read_placements ir ix iy rest)
      | _ \<Rightarrow> None)"

definition parse_position_csv :: "string \<Rightarrow> placement list option" where
  "parse_position_csv csv =
     (case filter (\<lambda>l. js_trim l \<noteq> []) (js_lines csv) of
        header_line # row # rows \<Rightarrow>
          (let header = map header_key (csv_cells header_line) in
           case (find_index (\<lambda>h. h \<in> {''ref'', ''refdes'', ''designator''}) header,
                 find_index (\<lambda>h. h \<in> {''posx'', ''x''} \<or> starts_with h ''midx'') header,
                 find_index (\<lambda>h. h \<in> {''posy'', ''y''} \<or> starts_with h ''midy'') header) of
             (Some ir, Some ix, Some iy) \<Rightarrow> read_placements ir ix iy (row # rows)
           | _ \<Rightarrow> None)
      | _ \<Rightarrow> None)"

section \<open>The check\<close>

definition off_board :: "extent \<Rightarrow> placement \<Rightarrow> bool" where
  "off_board e p \<longleftrightarrow>
     pl_x p < minX e - edge_slack_mm \<or> maxX e + edge_slack_mm < pl_x p \<or>
     pl_y p < minY e - edge_slack_mm \<or> maxY e + edge_slack_mm < pl_y p"

definition translated :: "extent \<Rightarrow> placement list \<Rightarrow> bool" where
  "translated e ps =
     (let cloud = box (map (\<lambda>p. (pl_x p, pl_y p)) ps) in
      list_all (off_board e) ps \<and> 1 < length ps \<and>
      maxX cloud - minX cloud \<le> maxX e - minX e + 2 * edge_slack_mm \<and>
      maxY cloud - minY cloud \<le> maxY e - minY e + 2 * edge_slack_mm)"

definition check_delivery_frame :: "string \<Rightarrow> string \<Rightarrow> frame_check" where
  "check_delivery_frame gerber csv =
     (case gerber_extent gerber of
        None \<Rightarrow> No_outline_geometry
      | Some e \<Rightarrow> (case parse_position_csv csv of
            None \<Rightarrow> No_placements
          | Some ps \<Rightarrow> (let off = filter (off_board e) ps
                       in if off \<noteq> [] then Off_board off (translated e ps) else Frame_ok (length ps) e)))"


section \<open>What the check promises\<close>

definition shifted :: "rat \<Rightarrow> rat \<Rightarrow> placement \<Rightarrow> placement" where
  "shifted dx dy p = p\<lparr>pl_x := pl_x p + dx, pl_y := pl_y p + dy\<rparr>"

lemma frame_ok_iff:
  "check_delivery_frame g csv = Frame_ok n e \<longleftrightarrow>
     gerber_extent g = Some e \<and> (\<exists>ps. parse_position_csv csv = Some ps \<and> n = length ps \<and> (\<forall>p \<in> set ps. \<not> off_board e p))"
  by (auto simp: check_delivery_frame_def Let_def filter_empty_conv split: option.splits)

lemma shifted_off:
  assumes "\<not> off_board e p"
    and "maxX e - minX e + 2 * edge_slack_mm < \<bar>dx\<bar> \<or> maxY e - minY e + 2 * edge_slack_mm < \<bar>dy\<bar>"
  shows "off_board e (shifted dx dy p)"
  using assms by (auto simp: off_board_def shifted_def abs_if not_less split: if_splits)

lemma box_in:
  assumes "ps \<noteq> []" "\<forall>p \<in> set ps. a \<le> fst p \<and> fst p \<le> b \<and> c \<le> snd p \<and> snd p \<le> d"
  shows "a \<le> minX (box ps)" "maxX (box ps) \<le> b" "c \<le> minY (box ps)" "maxY (box ps) \<le> d"
  using assms by (auto simp: box_def)

lemma read_placements_nonempty: "read_placements ir ix iy (row # rows) = Some ps \<Longrightarrow> ps \<noteq> []"
  by (auto simp: Let_def split: option.splits)

lemma parse_nonempty: "parse_position_csv csv = Some ps \<Longrightarrow> ps \<noteq> []"
  unfolding parse_position_csv_def Let_def
  by (auto simp del: read_placements.simps dest: read_placements_nonempty split: list.splits option.splits)

definition on_board :: "extent \<Rightarrow> placement \<Rightarrow> bool" where
  "on_board e p \<longleftrightarrow> minX e - 5 \<le> pl_x p \<and> pl_x p \<le> maxX e + 5 \<and> minY e - 5 \<le> pl_y p \<and> pl_y p \<le> maxY e + 5"

lemma off_board_iff: "off_board e p \<longleftrightarrow> \<not> on_board e p"
  by (auto simp: off_board_def on_board_def edge_slack_mm_def not_less)

lemma off_board_fun: "off_board e = (\<lambda>p. \<not> on_board e p)"
  by (rule ext) (rule off_board_iff)

lemma shifted_cloud_fits:
  assumes "ps \<noteq> []" "\<forall>p \<in> set ps. \<not> off_board e p"
  shows "translated e (map (shifted dx dy) ps) \<longleftrightarrow> list_all (off_board e) (map (shifted dx dy) ps) \<and> 1 < length ps"
proof -
  let ?pts = "map (\<lambda>p. (pl_x p, pl_y p)) (map (shifted dx dy) ps)"
  have "\<forall>p \<in> set ?pts. minX e - edge_slack_mm + dx \<le> fst p \<and> fst p \<le> maxX e + edge_slack_mm + dx \<and>
      minY e - edge_slack_mm + dy \<le> snd p \<and> snd p \<le> maxY e + edge_slack_mm + dy"
    using assms(2) by (auto simp: off_board_def shifted_def not_less)
  from box_in [OF _ this] have "minX e - edge_slack_mm + dx \<le> minX (box ?pts)" "maxX (box ?pts) \<le> maxX e + edge_slack_mm + dx"
    "minY e - edge_slack_mm + dy \<le> minY (box ?pts)" "maxY (box ?pts) \<le> maxY e + edge_slack_mm + dy"
    using assms(1) by simp_all
  then show ?thesis by (auto simp: translated_def Let_def)
qed


text \<open>An empty cell reads as the number 0, so a row without its coordinates is placed at the origin.\<close>

lemma js_number_texts:
  "js_number [] = Some 0" "js_number ''5'' = Some 5" "js_number ''6'' = Some 6" "js_number ''105'' = Some 105"
  "js_number ''-94'' = Some (-94)" "js_number ''9'' = Some 9" "js_number ''109'' = Some 109" "js_number ''-91'' = Some (-91)"
  by (simp_all add: js_number_simps)

lemma demo_cells:
  "csv_cells ''R1,,6'' = [''R1'', [], ''6'']" "csv_cells ''R1,5,6'' = [''R1'', ''5'', ''6'']"
  "csv_cells ''C2,9,9'' = [''C2'', ''9'', ''9'']" "csv_cells ''R1,105,-94'' = [''R1'', ''105'', ''-94'']"
  "csv_cells ''C2,109,-91'' = [''C2'', ''109'', ''-91'']" "csv_cells ''Ref,Mid X,PosY'' = [''Ref'', ''Mid X'', ''PosY'']"
  by code_simp+

definition with_newlines :: "string list \<Rightarrow> string" where
  "with_newlines ls = concat (map (\<lambda>l. l @ [CHR 0x0A]) ls)"

definition demo_outline :: string where
  "demo_outline = with_newlines [''%FSLAX40Y40*%'', ''%ADD10C,0.1*%'', ''X0Y0D02*'', ''X20D01*'', ''Y20D01*'']"

definition demo_csv :: "string list \<Rightarrow> string" where
  "demo_csv ls = with_newlines (''Ref,Mid X,PosY'' # ls)"

lemma demo_extent: "gerber_extent demo_outline = Some \<lparr>minX = 0, minY = 0, maxX = 20, maxY = 20\<rparr>"
  by code_simp

lemma demo_lines:
  "filter (\<lambda>l. js_trim l \<noteq> []) (js_lines (demo_csv [''R1,,6''])) = [''Ref,Mid X,PosY'', ''R1,,6'']"
  "filter (\<lambda>l. js_trim l \<noteq> []) (js_lines (demo_csv [''R1,5,6'', ''C2,9,9''])) = [''Ref,Mid X,PosY'', ''R1,5,6'', ''C2,9,9'']"
  "filter (\<lambda>l. js_trim l \<noteq> []) (js_lines (demo_csv [''R1,105,-94'', ''C2,109,-91''])) =
     [''Ref,Mid X,PosY'', ''R1,105,-94'', ''C2,109,-91'']"
  "map header_key [''Ref'', ''Mid X'', ''PosY''] = [''ref'', ''midx'', ''posy'']"
  by code_simp+

lemma demo_placements:
  "parse_position_csv (demo_csv [''R1,,6'']) = Some [\<lparr>pl_ref = ''R1'', pl_x = 0, pl_y = 6\<rparr>]"
  "parse_position_csv (demo_csv [''R1,5,6'', ''C2,9,9'']) =
     Some [\<lparr>pl_ref = ''R1'', pl_x = 5, pl_y = 6\<rparr>, \<lparr>pl_ref = ''C2'', pl_x = 9, pl_y = 9\<rparr>]"
  "parse_position_csv (demo_csv [''R1,105,-94'', ''C2,109,-91'']) =
     Some [\<lparr>pl_ref = ''R1'', pl_x = 105, pl_y = -94\<rparr>, \<lparr>pl_ref = ''C2'', pl_x = 109, pl_y = -91\<rparr>]"
  unfolding parse_position_csv_def demo_lines
  by (simp_all add: demo_cells demo_lines(4) [simplified] cell_number_def js_number_texts Let_def)

lemma blank_coordinate_passes:
  "\<exists>n. check_delivery_frame demo_outline (demo_csv [''R1,,6'']) = Frame_ok n \<lparr>minX = 0, minY = 0, maxX = 20, maxY = 20\<rparr>"
  by (simp add: frame_ok_iff demo_extent demo_placements off_board_def edge_slack_mm_def)


end
