(* ===== verification/Layout_Jobs.thy ===== *)
theory Layout_Jobs
  imports Job_Queue Projects Drc Delivery_Frame
begin

text \<open>
  The layout of a board as a long-running job: \<open>apps/api/src/layout/layout.service.ts\<close>, which inserts and
  enqueues it, cancels it and shows it, and \<open>apps/pcb-worker/src/layout/processor.ts\<close>, which runs it.

  The layout engine and the tools around it (\<open>layoutCircuit\<close>, kicad-cli, the 3D models, the object store) are
  the fields of \<open>tools\<close>; each of them gives a value or throws a message, \<open>Inl\<close>. What the worker makes of their
  answers is \<open>run_job\<close>, a function of the row: the database is written by the claim before it and by \<open>finish\<close>
  after it. A cancel is polled for while the engine runs; \<open>abort_seen\<close> is whether a poll found it. The two
  messages the worker itself throws are abbreviated.
\<close>

section \<open>Rows\<close>

record diagnostic =
  dg_code :: string
  dg_severity :: string
  dg_message :: string

text \<open>What the worker stores: the fields it computes, and the rest of what the engine gave, as JSON, without the scope manifest.\<close>

record inspection =
  in_geometry :: layout_geometry
  in_checks :: "drc_check list"
  in_airwires :: "airwire list"
  in_manufacturable :: bool
  in_reason :: "(nat \<times> nat) option"
  in_drcClean :: bool
  in_diagnostics :: "diagnostic list"
  in_engine :: json

datatype layout_result =
    Refused_layout "diagnostic list"
  | Withheld inspection
  | Delivered inspection "json option" "string option" string bool

record layout_job = queue_job +
  lj_project :: "string option"
  lj_version :: "string option"
  lj_circuit :: json
  lj_options :: json
  lj_result :: "layout_result option"
  lj_glb :: "string option"
  lj_gerbers :: "string option"

record 'd layout_db =
  layout_table :: "('d, layout_job) table"
  layout_projects :: "'d project_db"
  layout_usage :: "'d usage_db"

section \<open>The worker\<close>

record board_files =
  kicad_pcb :: string
  kicad_pro :: string
  bom_csv :: string

record engine_result =
  en_ok :: bool
  en_outputs :: "board_files option"
  en_diagnostics :: "diagnostic list"
  en_geometry :: layout_geometry
  en_rest :: json

datatype blob = Manufacturing "string \<rightharpoonup> string" string string | Model string

record tools =
  run_layout :: "json \<Rightarrow> json \<Rightarrow> string + engine_result"
  drc_report :: "string \<Rightarrow> string \<Rightarrow> string + raw_report option"
  export_gerbers :: "string \<Rightarrow> string + (string \<rightharpoonup> string)"
  export_pos :: "string \<Rightarrow> string + string"
  export_glb :: "string \<Rightarrow> string + (json \<times> string)"
  upload_file :: "string \<Rightarrow> blob \<Rightarrow> string + unit"

record finish_data =
  fd_status :: job_status
  fd_result :: "layout_result option"
  fd_glb :: "string option"
  fd_gerbers :: "string option"
  fd_error :: "string option"

definition sum_bind :: "'e + 'a \<Rightarrow> ('a \<Rightarrow> 'e + 'b) \<Rightarrow> 'e + 'b" where
  "sum_bind x f = (case x of Inl e \<Rightarrow> Inl e | Inr a \<Rightarrow> f a)"

fun join :: "string \<Rightarrow> string list \<Rightarrow> string" where
  "join sep [] = []"
| "join sep [s] = s"
| "join sep (s # ss) = s @ sep @ join sep ss"

text \<open>The options of \<open>layoutCircuit\<close> the worker forwards or decides.\<close>

definition or_object :: "json \<Rightarrow> json" where
  "or_object j = (if nullish j then JObj [] else j)"

definition engine_options :: "json \<Rightarrow> json" where
  "engine_options stored =
     (let o' = or_object stored;
          placer = (if nullish (obj_get ''placer'' o') then JStr ''auto'' else obj_get ''placer'' o')
      in JObj [(''router'', JStr ''quality''), (''fabProfile'', obj_get ''fabProfile'' o'),
               (''netCurrentsA'', obj_get ''netCurrentsA'' o'), (''fixedPlacements'', obj_get ''fixedPlacements'' o'),
               (''placer'', placer)])"

definition inspect :: "engine_result \<Rightarrow> parsed_drc \<Rightarrow> inspection" where
  "inspect q parsed =
     (let v = assess_manufacturability parsed in
      \<lparr>in_geometry = en_geometry q, in_checks = drc_to_checks parsed (Some (en_geometry q)),
       in_airwires = fst (airwires_from_drc (en_geometry q) (drc_unconnected parsed)),
       in_manufacturable = manufacturable v, in_reason = reason v, in_drcClean = drc_clean parsed,
       in_diagnostics = en_diagnostics q, in_engine = en_rest q\<rparr>)"

definition layer :: "(string \<rightharpoonup> string) \<Rightarrow> string \<Rightarrow> string" where
  "layer layers n = (case layers n of None \<Rightarrow> [] | Some s \<Rightarrow> s)"

definition pour_injected :: "engine_result \<Rightarrow> bool" where
  "pour_injected q \<longleftrightarrow> (\<exists>d \<in> set (en_diagnostics q). dg_code d = ''PCB032'')"

definition gerbers_key :: "string \<Rightarrow> string" where
  "gerbers_key j = ''layouts/'' @ j @ ''/manufacturing.json''"

definition glb_key :: "string \<Rightarrow> string" where
  "glb_key j = ''layouts/'' @ j @ ''/board.glb''"

text \<open>
  The render is best effort. Its key is set before the upload, so a failed upload leaves it set.
\<close>

definition render :: "tools \<Rightarrow> string \<Rightarrow> string \<Rightarrow> string option \<times> json option" where
  "render tools j pcb =
     (case export_glb tools pcb of
        Inl e \<Rightarrow> (None, None)
      | Inr (bodies, glb) \<Rightarrow> (case upload_file tools (glb_key j) (Model glb) of
            Inl e \<Rightarrow> (Some (glb_key j), None)
          | Inr _ \<Rightarrow> (Some (glb_key j), Some bodies)))"

definition deliver :: "tools \<Rightarrow> string \<Rightarrow> engine_result \<Rightarrow> board_files \<Rightarrow> inspection \<Rightarrow> string + finish_data" where
  "deliver tools j q files insp =
     sum_bind (export_gerbers tools (kicad_pcb files)) (\<lambda>layers.
       let gnd_plane = (pour_injected q \<and> includes_text (layer layers ''B_Cu'') ''G36'') in
       if pour_injected q \<and> \<not> gnd_plane then Inl ''GND pour injected but not filled''
       else sum_bind (export_pos tools (kicad_pcb files)) (\<lambda>pnp.
         case check_delivery_frame (layer layers ''Edge_Cuts'') pnp of
           Frame_ok _ _ \<Rightarrow>
             sum_bind (upload_file tools (gerbers_key j) (Manufacturing layers (bom_csv files) pnp)) (\<lambda>_.
               let (glb, bodies) = render tools j (kicad_pcb files) in
               Inr \<lparr>fd_status = Succeeded,
                    fd_result = Some (Delivered insp bodies glb (gerbers_key j) gnd_plane),
                    fd_glb = glb, fd_gerbers = Some (gerbers_key j), fd_error = None\<rparr>)
         | _ \<Rightarrow> Inl ''Delivery bundle is not self-consistent''))"

definition engine_errors :: "engine_result \<Rightarrow> string" where
  "engine_errors q =
     (let errs = join '' | '' (map (\<lambda>d. dg_code d @ '' '' @ dg_message d) (filter (\<lambda>d. dg_severity d = ''error'') (en_diagnostics q)))
      in take 500 (if errs = [] then ''layout failed'' else errs))"

definition run_pipeline :: "tools \<Rightarrow> layout_job \<Rightarrow> string + finish_data" where
  "run_pipeline tools row =
     sum_bind (run_layout tools (lj_circuit row) (engine_options (lj_options row))) (\<lambda>q.
       case (if en_ok q then en_outputs q else None) of
         None \<Rightarrow> Inr \<lparr>fd_status = Failed, fd_result = Some (Refused_layout (en_diagnostics q)), fd_glb = None,
                      fd_gerbers = None, fd_error = Some (engine_errors q)\<rparr>
       | Some files \<Rightarrow>
           sum_bind (drc_report tools (kicad_pcb files) (kicad_pro files)) (\<lambda>raw.
             let parsed = parse_drc_report raw; insp = inspect q parsed in
             if \<not> in_manufacturable insp
             then Inr \<lparr>fd_status = Succeeded, fd_result = Some (Withheld insp), fd_glb = None, fd_gerbers = None,
                       fd_error = None\<rparr>
             else deliver tools (qj_id row) q files insp))"

definition run_job :: "tools \<Rightarrow> bool \<Rightarrow> layout_job \<Rightarrow> finish_data" where
  "run_job tools abort_seen row =
     (case run_pipeline tools row of
        Inr fd \<Rightarrow> fd
      | Inl msg \<Rightarrow>
          if abort_seen then \<lparr>fd_status = Canceled, fd_result = None, fd_glb = None, fd_gerbers = None, fd_error = None\<rparr>
          else \<lparr>fd_status = Failed, fd_result = None, fd_glb = None, fd_gerbers = None, fd_error = Some (take 500 msg)\<rparr>)"

definition keep_or :: "'a option \<Rightarrow> 'a option \<Rightarrow> 'a option" where
  "keep_or old new = (case new of None \<Rightarrow> old | Some x \<Rightarrow> Some x)"

definition apply_finish :: "finish_data \<Rightarrow> nat \<Rightarrow> layout_job \<Rightarrow> layout_job" where
  "apply_finish fd t r =
     r\<lparr>qj_status := fd_status fd, qj_finishedAt := Some t, lj_result := keep_or (lj_result r) (fd_result fd),
       lj_glb := keep_or (lj_glb r) (fd_glb fd), lj_gerbers := keep_or (lj_gerbers r) (fd_gerbers fd),
       qj_error := map_option JobMessage (fd_error fd)\<rparr>"

definition finish :: "'d layout_db \<Rightarrow> string \<Rightarrow> finish_data \<Rightarrow> nat \<Rightarrow> 'd \<Rightarrow> nat \<times> 'd" where
  "finish db j fd t d = finish_running (layout_table db) j (apply_finish fd t) d"

text \<open>The whole handler, undisturbed; \<open>True\<close> is the answer that the job was skipped.\<close>

definition vanished :: finish_data where
  "vanished = \<lparr>fd_status = Failed, fd_result = None, fd_glb = None, fd_gerbers = None,
     fd_error = Some ''Layout job row vanished after claim''\<rparr>"

definition process_layout_job ::
  "'d layout_db \<Rightarrow> tools \<Rightarrow> bool \<Rightarrow> string \<Rightarrow> nat \<Rightarrow> nat \<Rightarrow> 'd \<Rightarrow> bool \<times> 'd" where
  "process_layout_job db tools abort_seen j t0 t1 d =
     (let (n, d1) = claim_job (layout_table db) j t0 d in
      if n = 0 then (True, d1)
      else (False, snd (finish db j
        (case find_first (layout_table db) (\<lambda>r. qj_id r = j) d1 of
           None \<Rightarrow> vanished
         | Some row \<Rightarrow> run_job tools abort_seen row) t1 d1)))"

definition reap_stale_layout_jobs ::
  "'d layout_db \<Rightarrow> (string \<Rightarrow> lookup) \<Rightarrow> nat \<Rightarrow> nat \<Rightarrow> nat \<Rightarrow> 'd \<Rightarrow> (nat \<times> nat) \<times> 'd" where
  "reap_stale_layout_jobs db = reap_stale (layout_table db)"


section \<open>The service\<close>

datatype layout_error =
    LayoutVersionMissing
  | LayoutDenied org_error
  | OrgConflict string
  | NoOrganization
  | LayoutUsage usage_error
  | CouldNotStart
  | LayoutNotFound
  | LayoutGone

record layout_dto =
  ld_version :: "string option"
  ld_org :: "string option"
  ld_circuit :: json
  ld_placer :: json
  ld_fabProfile :: json
  ld_netCurrents :: json
  ld_fixed :: json

text \<open>The organizations of a user, the first one joined first.\<close>

definition orgs_for_user :: "'d tenancy \<Rightarrow> string \<Rightarrow> 'd \<Rightarrow> (organization \<times> org_role) list" where
  "orgs_for_user db user d =
     concat (map (\<lambda>m. case find_first (orgs_of db) (\<lambda>g. org_id g = mem_org m) d of None \<Rightarrow> [] | Some g \<Rightarrow> [(g, mem_role m)])
       (sort_key mem_createdAt (filter (\<lambda>m. mem_user m = user) (rows (members_of db) d))))"

text \<open>The organization, project and version a new layout belongs to.\<close>

definition resolve_org ::
  "'d layout_db \<Rightarrow> string \<Rightarrow> layout_dto \<Rightarrow> 'd \<Rightarrow> layout_error + (string \<times> string option \<times> string option)" where
  "resolve_org db user dto d =
     (let P = layout_projects db in
      case truthy (ld_version dto) of
        Some v \<Rightarrow> (case find_first (versions_of P) (\<lambda>r. ver_id r = v) d of
            None \<Rightarrow> Inl LayoutVersionMissing
          | Some ver \<Rightarrow> (case find_first (projects_of P) (\<lambda>r. pj_id r = ver_project ver) d of
                None \<Rightarrow> Inl LayoutVersionMissing
              | Some pj \<Rightarrow> (case check_membership (members_db P) (pj_org pj) user None d of
                    Inl e \<Rightarrow> Inl (LayoutDenied e)
                  | Inr _ \<Rightarrow>
                      if (case truthy (ld_org dto) of None \<Rightarrow> False | Some g \<Rightarrow> g \<noteq> pj_org pj) then Inl (OrgConflict (pj_org pj))
                      else Inr (pj_org pj, Some (ver_project ver), Some v))))
      | None \<Rightarrow> (case truthy (ld_org dto) of
            Some g \<Rightarrow> (case check_membership (members_db P) g user None d of
                Inl e \<Rightarrow> Inl (LayoutDenied e) | Inr _ \<Rightarrow> Inr (g, None, None))
          | None \<Rightarrow> (case orgs_for_user (members_db P) user d of
                [] \<Rightarrow> Inl NoOrganization
              | (g, _) # _ \<Rightarrow> if org_id g = [] then Inl NoOrganization else Inr (org_id g, None, None))))"

definition js_truthy :: "json \<Rightarrow> bool" where
  "js_truthy j \<longleftrightarrow> \<not> nullish j \<and> j \<noteq> JBool False \<and> j \<noteq> JNum 0 \<and> j \<noteq> JStr []"

definition stored_options :: "layout_dto \<Rightarrow> json" where
  "stored_options dto =
     (let kvs = filter (\<lambda>kv. js_truthy (snd kv))
        [(''placer'', ld_placer dto), (''fabProfile'', ld_fabProfile dto), (''netCurrentsA'', ld_netCurrents dto),
         (''fixedPlacements'', ld_fixed dto)]
      in if kvs = [] then JNull else JObj kvs)"

definition new_layout :: "string \<Rightarrow> nat \<Rightarrow> string \<Rightarrow> layout_dto \<Rightarrow> string \<times> string option \<times> string option \<Rightarrow> layout_job" where
  "new_layout j t user dto = (\<lambda>(g, p, v).
     \<lparr>qj_id = j, qj_org = g, qj_user = user, qj_status = Queued, qj_abort = False, qj_error = None, qj_createdAt = t,
      qj_startedAt = None, qj_finishedAt = None, lj_project = p, lj_version = v, lj_circuit = ld_circuit dto,
      lj_options = stored_options dto, lj_result = None, lj_glb = None, lj_gerbers = None\<rparr>)"

definition create_layout ::
  "'d layout_db \<Rightarrow> env \<Rightarrow> bool \<Rightarrow> string \<Rightarrow> nat \<Rightarrow> string \<Rightarrow> layout_dto \<Rightarrow> 'd \<Rightarrow>
   (layout_error + (string \<times> job_status \<times> string)) \<times> 'd" where
  "create_layout db env enqueued j t user dto d =
     (case resolve_org db user dto d of
        Inl e \<Rightarrow> (Inl e, d)
      | Inr (g, p, v) \<Rightarrow>
          (case create_layout_guarded (layout_usage db) env t g
                  (create_row (layout_table db) (new_layout j t user dto (g, p, v))) d of
             (Some e, d1) \<Rightarrow> (Inl (LayoutUsage e), d1)
           | (None, d1) \<Rightarrow>
               if enqueued then (Inr (j, Queued, g), d1)
               else (Inl CouldNotStart, snd (fail_unqueued (layout_table db) j t d1))))"

text \<open>The checks of a cancel, which read the status, and the cancel.\<close>

definition check_cancel :: "'d layout_db \<Rightarrow> string \<Rightarrow> string \<Rightarrow> 'd \<Rightarrow> layout_error + job_status" where
  "check_cancel db j user d =
     (case find_first (layout_table db) (\<lambda>r. qj_id r = j) d of
        None \<Rightarrow> Inl LayoutNotFound
      | Some r \<Rightarrow> (case check_membership (members_db (layout_projects db)) (qj_org r) user None d of
            Inl e \<Rightarrow> Inl (LayoutDenied e)
          | Inr _ \<Rightarrow> Inr (qj_status r)))"

definition request_cancel ::
  "'d layout_db \<Rightarrow> string \<Rightarrow> string \<Rightarrow> nat \<Rightarrow> 'd \<Rightarrow> (layout_error + job_status) \<times> 'd" where
  "request_cancel db j user t d =
     (case check_cancel db j user d of
        Inl e \<Rightarrow> (Inl e, d)
      | Inr s \<Rightarrow> (case cancel_write (layout_table db) j s t d of
            None \<Rightarrow> (Inl LayoutGone, d)
          | Some (s', d') \<Rightarrow> (Inr s', d')))"

record layout_view =
  lv_status :: job_status
  lv_result :: "layout_result option"
  lv_error :: "job_error option"
  lv_glbUrl :: "string option"
  lv_gerbersUrl :: "string option"

text \<open>\<open>presign\<close> is the signer of the object store; a key that is absent or empty has no URL.\<close>

definition get_layout ::
  "'d layout_db \<Rightarrow> (string \<Rightarrow> string) \<Rightarrow> string \<Rightarrow> string \<Rightarrow> 'd \<Rightarrow> layout_error + layout_view" where
  "get_layout db presign j user d =
     (case find_first (layout_table db) (\<lambda>r. qj_id r = j) d of
        None \<Rightarrow> Inl LayoutNotFound
      | Some r \<Rightarrow> (case check_membership (members_db (layout_projects db)) (qj_org r) user None d of
            Inl e \<Rightarrow> Inl (LayoutDenied e)
          | Inr _ \<Rightarrow> Inr \<lparr>lv_status = qj_status r, lv_result = lj_result r, lv_error = qj_error r,
                lv_glbUrl = map_option presign (truthy (lj_glb r)), lv_gerbersUrl = map_option presign (truthy (lj_gerbers r))\<rparr>))"

text \<open>A row of the list: the job, and its verdict once there is one.\<close>

definition list_verdict :: "layout_job \<Rightarrow> bool option" where
  "list_verdict r = (if qj_status r = Succeeded then Some (lj_gerbers r \<noteq> None) else None)"

definition list_layouts ::
  "'d layout_db \<Rightarrow> (layout_job list \<Rightarrow> layout_job list) \<Rightarrow> string \<Rightarrow> nat \<Rightarrow> nat \<Rightarrow> string option \<Rightarrow> string option \<Rightarrow> 'd \<Rightarrow>
   (layout_job \<times> bool option) page" where
  "list_layouts db ordered user len skip of_version of_project d =
     (let orgs = map (org_id \<circ> fst) (orgs_for_user (members_db (layout_projects db)) user d);
          P = (\<lambda>r. qj_org r \<in> set orgs \<and> (case truthy of_version of None \<Rightarrow> True | Some v \<Rightarrow> lj_version r = Some v) \<and>
                (case truthy of_project of None \<Rightarrow> True | Some p \<Rightarrow> lj_project r = Some p))
      in if orgs = [] then paginated [] 0 len skip
         else paginated (map (\<lambda>r. (r, list_verdict r)) (take len (drop skip (ordered (filter P (rows (layout_table db) d))))))
               (count_rows (layout_table db) P d) len skip)"


section \<open>Runs\<close>

text \<open>
  What the service, the worker and the reaper do to the jobs, one statement at a time and in any order. The
  state is the database with the cancels that have read a row and not yet written. A new job draws a new id and
  may belong to any organization; that it could not be queued is written at any later time. The worker finishes
  with the outcome of a row it may have read at any time before, and the reaper decides on such a row too.
\<close>

inductive layout_step :: "'d layout_db \<Rightarrow> 'd \<times> cancels \<Rightarrow> 'd \<times> cancels \<Rightarrow> bool" for db where
  Insert: "count_rows (layout_table db) (\<lambda>r. qj_id r = j) d = 0 \<Longrightarrow>
    layout_step db (d, C) (create_row (layout_table db) (new_layout j t user dto g) d, C)"
| Not_queued: "fail_unqueued (layout_table db) j t d = (n, d') \<Longrightarrow> layout_step db (d, C) (d', C)"
| Read_cancel: "find_first (layout_table db) (\<lambda>r. qj_id r = j) d = Some r \<Longrightarrow>
    layout_step db (d, C) (d, (j, qj_status r) # C)"
| Write_cancel: "(j, s) \<in> set C \<Longrightarrow> cancel_write (layout_table db) j s t d = Some (s', d') \<Longrightarrow>
    layout_step db (d, C) (d', remove1 (j, s) C)"
| Claim: "claim_job (layout_table db) j t d = (n, d') \<Longrightarrow> layout_step db (d, C) (d', C)"
| Finish: "fd = vanished \<or> fd = run_job tools abort_seen row \<Longrightarrow> finish db j fd t d = (n, d') \<Longrightarrow>
    layout_step db (d, C) (d', C)"
| Reap: "reap_row (layout_table db) row l t deadline d = (n, d') \<Longrightarrow> layout_step db (d, C) (d', C)"

lemma run_job_terminal: "terminal (fd_status (run_job tools abort_seen row))"
proof (cases "run_pipeline tools row")
  case (Inl msg)
  then show ?thesis by (simp add: run_job_def terminal_def)
next
  case (Inr fd)
  have "fd_status fd \<in> {Failed, Succeeded}"
    using Inr unfolding run_pipeline_def deliver_def sum_bind_def Let_def
    by (auto split: sum.splits option.splits if_splits frame_check.splits prod.splits)
  then show ?thesis using Inr by (auto simp: run_job_def terminal_def)
qed

lemma apply_finish_finishes: "terminal (fd_status fd) \<Longrightarrow> finishes (apply_finish fd t)"
  by (simp add: finishes_def apply_finish_def)

lemma create_layout_cases:
  assumes "create_layout db env enqueued j t user dto d = (res, d')"
  obtains "d' = d"
  | g where "d' = create_row (layout_table db) (new_layout j t user dto g) d"
  | g n where "fail_unqueued (layout_table db) j t (create_row (layout_table db) (new_layout j t user dto g) d) = (n, d')"
  using assms unfolding create_layout_def create_layout_guarded_def guarded_def Let_def
  by (auto split: sum.splits prod.splits option.splits if_splits) (metis prod.collapse)+

lemma new_layout_fields [simp]:
  "qj_id (new_layout j t user dto g) = j" "qj_status (new_layout j t user dto g) = Queued"
  by (simp_all add: new_layout_def split_beta)

lemma outcome_finishes: "fd = vanished \<or> fd = run_job tools abort_seen row \<Longrightarrow> finishes (apply_finish fd t)"
  using run_job_terminal [of tools abort_seen row]
  by (intro apply_finish_finishes) (auto simp: vanished_def terminal_def)

lemma layout_step_job: "layout_step db p p' \<Longrightarrow> job_step (layout_table db) p p'"
proof (induction rule: layout_step.induct)
  case (Insert j d C t user dto g)
  then show ?case by (intro job_step.Insert) simp_all
next
  case (Finish fd tools abort_seen row j t d n d' C)
  show ?case by (rule job_step.Finish [OF outcome_finishes [OF Finish(1)] Finish(2) [unfolded finish_def]])
qed (auto intro: job_step.intros)

lemma layout_run_jobs: "(layout_step db)\<^sup>*\<^sup>* p p' \<Longrightarrow> (job_step (layout_table db))\<^sup>*\<^sup>* p p'"
  by (induction rule: rtranclp_induct) (auto intro: layout_step_job rtranclp.rtrancl_into_rtrancl)

text \<open>The handlers, undisturbed, are runs of these steps.\<close>

lemma create_layout_run:
  assumes "count_rows (layout_table db) (\<lambda>r. qj_id r = j) d = 0" "create_layout db env enqueued j t user dto d = (res, d')"
  shows "(layout_step db)\<^sup>*\<^sup>* (d, C) (d', C)"
  using assms(2)
proof (cases rule: create_layout_cases)
  case (3 g n)
  have "layout_step db (d, C) (create_row (layout_table db) (new_layout j t user dto g) d, C)"
    by (rule layout_step.Insert [OF assms(1)])
  then show ?thesis using layout_step.Not_queued [OF 3] by (rule converse_rtranclp_into_rtranclp [OF _ r_into_rtranclp])
qed (use layout_step.Insert [OF assms(1)] in auto)

lemma request_cancel_run:
  assumes "request_cancel db j user t d = (res, d')"
  shows "\<exists>C'. (layout_step db)\<^sup>*\<^sup>* (d, C) (d', C')"
proof (cases "d' = d")
  case False
  then obtain r s' where r: "find_first (layout_table db) (\<lambda>r. qj_id r = j) d = Some r"
    "cancel_write (layout_table db) j (qj_status r) t d = Some (s', d')"
    using assms unfolding request_cancel_def check_cancel_def
    by (auto split: sum.splits option.splits prod.splits)
  have "layout_step db (d, C) (d, (j, qj_status r) # C)" by (rule layout_step.Read_cancel [OF r(1)])
  moreover have "layout_step db (d, (j, qj_status r) # C) (d', remove1 (j, qj_status r) ((j, qj_status r) # C))"
    by (rule layout_step.Write_cancel [OF _ r(2)]) simp
  ultimately show ?thesis by (intro exI, elim converse_rtranclp_into_rtranclp [OF _ r_into_rtranclp])
qed auto

lemma process_layout_job_run:
  assumes "process_layout_job db tools abort_seen j t0 t1 d = (skipped, d')"
  shows "(layout_step db)\<^sup>*\<^sup>* (d, C) (d', C)"
proof -
  obtain n d1 where d1: "claim_job (layout_table db) j t0 d = (n, d1)" by fastforce
  have claim: "layout_step db (d, C) (d1, C)" by (rule layout_step.Claim [OF d1])
  show ?thesis
  proof (cases "n = 0")
    case True
    then show ?thesis using assms d1 claim by (auto simp: process_layout_job_def)
  next
    case False
    then obtain fd row where fd: "fd = vanished \<or> fd = run_job tools abort_seen row" "d' = snd (finish db j fd t1 d1)"
      using assms d1 by (auto simp: process_layout_job_def split: option.splits)
    have "layout_step db (d1, C) (d', C)"
      by (rule layout_step.Finish [OF fd(1)]) (use fd(2) in \<open>simp add: prod_eq_iff\<close>)
    with claim show ?thesis by (rule converse_rtranclp_into_rtranclp [OF _ r_into_rtranclp])
  qed
qed

lemma reap_rows_run: "(layout_step db)\<^sup>*\<^sup>* (d, C) (snd (reap_rows (layout_table db) queue t deadline xs d), C)"
proof (induction xs arbitrary: d)
  case (Cons x xs)
  obtain n d1 where d1: "reap_row (layout_table db) x (queue (qj_id x)) t deadline d = (n, d1)" by fastforce
  have "layout_step db (d, C) (d1, C)" by (rule layout_step.Reap [OF d1])
  then show ?case using Cons.IH [of d1] d1 by (simp add: split_beta converse_rtranclp_into_rtranclp)
qed simp

lemma reap_stale_run: "(layout_step db)\<^sup>*\<^sup>* (d, C) (snd (reap_stale_layout_jobs db queue t grace deadline d), C)"
  by (simp add: reap_stale_layout_jobs_def reap_stale_def Let_def split_beta reap_rows_run)

section \<open>Properties\<close>


lemma deliver_gerbers:
  assumes "deliver tools j q files insp = Inr fd"
  shows "\<exists>layers pnp n e. export_gerbers tools (kicad_pcb files) = Inr layers \<and> export_pos tools (kicad_pcb files) = Inr pnp \<and>
    (pour_injected q \<longrightarrow> includes_text (layer layers ''B_Cu'') ''G36'') \<and>
    check_delivery_frame (layer layers ''Edge_Cuts'') pnp = Frame_ok n e \<and>
    upload_file tools (gerbers_key j) (Manufacturing layers (bom_csv files) pnp) = Inr () \<and>
    fd_status fd = Succeeded \<and> fd_gerbers fd = Some (gerbers_key j)"
  using assms unfolding deliver_def sum_bind_def Let_def
  by (auto split: sum.splits if_splits frame_check.splits prod.splits)

text \<open>
  \<^bold>\<open>C19.\<close> There is nothing to download of a board that must not be built: a run hands out a bundle only when
  KiCad's report of the very board shows no blocking violation and no unconnected net, the advertised ground
  plane is in the exported copper, the placements lie on the exported outline, and the bundle of those files is
  in the store.
\<close>

theorem bundle_only_if_manufacturable:
  assumes "fd_gerbers (run_job tools abort_seen row) = Some k"
  shows "\<exists>q files raw layers pnp n e.
    run_layout tools (lj_circuit row) (engine_options (lj_options row)) = Inr q \<and> en_ok q \<and> en_outputs q = Some files \<and>
    drc_report tools (kicad_pcb files) (kicad_pro files) = Inr raw \<and>
    drc_violations (parse_drc_report raw) = [] \<and> drc_unconnected (parse_drc_report raw) = [] \<and>
    export_gerbers tools (kicad_pcb files) = Inr layers \<and> export_pos tools (kicad_pcb files) = Inr pnp \<and>
    (pour_injected q \<longrightarrow> includes_text (layer layers ''B_Cu'') ''G36'') \<and>
    check_delivery_frame (layer layers ''Edge_Cuts'') pnp = Frame_ok n e \<and>
    k = gerbers_key (qj_id row) \<and> upload_file tools k (Manufacturing layers (bom_csv files) pnp) = Inr ()"
proof -
  obtain fd where fd: "run_pipeline tools row = Inr fd" "fd_gerbers fd = Some k"
    using assms unfolding run_job_def by (auto split: sum.splits if_splits)
  then obtain q files raw where q: "run_layout tools (lj_circuit row) (engine_options (lj_options row)) = Inr q" "en_ok q"
    "en_outputs q = Some files" "drc_report tools (kicad_pcb files) (kicad_pro files) = Inr raw"
    "in_manufacturable (inspect q (parse_drc_report raw))"
    "deliver tools (qj_id row) q files (inspect q (parse_drc_report raw)) = Inr fd"
    unfolding run_pipeline_def sum_bind_def Let_def by (auto split: sum.splits option.splits if_splits)
  from q(5) have "drc_violations (parse_drc_report raw) = []" "drc_unconnected (parse_drc_report raw) = []"
    by (simp_all add: inspect_def assess_manufacturability_def Let_def)
  moreover have "k = gerbers_key (qj_id row)" using deliver_gerbers [OF q(6)] fd(2) by auto
  ultimately show ?thesis using deliver_gerbers [OF q(6)] q(1-4) by blast
qed

text \<open>
  \<^bold>\<open>C20.\<close> What one sweep of the reaper makes of a job. It is left as it is when it is final, when it is not
  older than the grace period, when the queue could not be asked, when the queue still holds it back (waiting,
  waiting for children, delayed or prioritized), and when it is active and has not run past the deadline,
  counted from its start, or from its creation when it has none. Every other job is failed at the time of the
  sweep, and the error says why: hung, finished without a result, failed in the queue, never queued, or left
  by its worker.
\<close>

theorem reaper_exact:
  assumes "job_store (layout_table db)" "unique_jobs (layout_table db) d" "r \<in> set (rows (layout_table db) d)"
  shows "{x \<in> set (rows (layout_table db) (snd (reap_stale_layout_jobs db queue t grace deadline d))). qj_id x = qj_id r} =
    {if qj_status r \<notin> {Queued, Running} \<or> t \<le> qj_createdAt r + grace \<or> queue (qj_id r) = Lookup_failed \<or>
        queue (qj_id r) \<in> {In_state ''waiting'', In_state ''waiting-children'', In_state ''delayed'', In_state ''prioritized''} \<or>
        queue (qj_id r) = In_state ''active'' \<and>
          t \<le> (case qj_startedAt r of Some begun \<Rightarrow> begun | None \<Rightarrow> qj_createdAt r) + deadline
     then r
     else r\<lparr>qj_status := Failed, qj_finishedAt := Some t, qj_error := Some
        (if queue (qj_id r) = In_state ''active'' then HungWorker
         else if queue (qj_id r) = In_state ''completed'' then ResultNeverWritten
         else if queue (qj_id r) = In_state ''failed'' then QueueJobFailed
         else if qj_status r = Queued then OrphanedBeforeQueue else WorkerGone)\<rparr>}"
    (is "?after = {?r'}")
proof -
  have "(if stale t grace r then verdict queue t deadline r else r) = ?r'"
  proof (cases "stale t grace r")
    case False
    then have "qj_status r \<notin> {Queued, Running} \<or> t \<le> qj_createdAt r + grace" by (auto simp: stale_def terminal_def)
    with False show ?thesis by (simp only: if_True if_False disj_assoc [symmetric]) simp
  next
    case True
    then have "\<not> (qj_status r \<notin> {Queued, Running} \<or> t \<le> qj_createdAt r + grace)" by (auto simp: stale_def terminal_def)
    then have "qj_status r \<notin> {Queued, Running} \<longleftrightarrow> False" "t \<le> qj_createdAt r + grace \<longleftrightarrow> False" by blast+
    note young = this
    have st: "qj_status r = Queued \<or> qj_status r = Running" using True by (auto simp: stale_def terminal_def)
    show ?thesis
    proof (cases "queue (qj_id r)")
      case (In_state s)
      note defs = verdict_def In_state reap_state_def decide_reap_def reaped_def
      consider "s = ''waiting''" | "s = ''waiting-children''" | "s = ''delayed''" | "s = ''prioritized''" | "s = ''active''"
        | "s = ''completed''" | "s = ''failed''"
        | "s \<noteq> ''waiting''" "s \<noteq> ''waiting-children''" "s \<noteq> ''delayed''" "s \<noteq> ''prioritized''" "s \<noteq> ''active''"
          "s \<noteq> ''completed''" "s \<noteq> ''failed''" by argo
      then show ?thesis
      proof cases
        case 5
        then show ?thesis using st by (cases "qj_startedAt r"; elim disjE) (simp_all add: young True defs)
      qed (use st in \<open>elim disjE; simp add: young True defs\<close>)+
    qed (simp_all only: young True if_True, simp_all add: verdict_def reap_state_def decide_reap_def reaped_def)
  qed
  moreover have "(if stale t grace r then verdict queue t deadline r else r) \<in>
      set (rows (layout_table db) (snd (reap_stale_layout_jobs db queue t grace deadline d)))"
    unfolding reap_stale_layout_jobs_def job_store.reap_stale_all [OF assms(1,2)] using assms(3) by (rule imageI)
  moreover have "unique_jobs (layout_table db) (snd (reap_stale_layout_jobs db queue t grace deadline d))"
    using job_store.run_progressed [OF assms(1) layout_run_jobs [OF reap_stale_run]] assms(2)
    by (fastforce simp: run_progressed_def)
  ultimately show ?thesis using only_job [of "layout_table db" _ _ ?r'] by auto
qed

section \<open>The properties on a database of lists\<close>

record layout_lists =
  ll_jobs :: "layout_job list"
  ll_projects :: project_lists
  ll_usage :: usage_lists

definition layout_list_db :: "layout_lists layout_db" where
  "layout_list_db =
     \<lparr>layout_table = list_table ll_jobs ll_jobs_update,
      layout_projects = \<lparr>projects_of = nested (projects_of project_list_db) ll_projects ll_projects_update,
        versions_of = nested (versions_of project_list_db) ll_projects ll_projects_update,
        drafts_of = nested (drafts_of project_list_db) ll_projects ll_projects_update,
        members_db = nested_tenancy (members_db project_list_db) ll_projects ll_projects_update\<rparr>,
      layout_usage = \<lparr>sims_of = nested (sims_of usage_list_db) ll_usage ll_usage_update,
        designs_of = nested (designs_of usage_list_db) ll_usage ll_usage_update,
        layouts_of = nested (layouts_of usage_list_db) ll_usage ll_usage_update,
        assets_of = nested (assets_of usage_list_db) ll_usage ll_usage_update,
        overrides_of = nested (overrides_of usage_list_db) ll_usage ll_usage_update,
        org_states_of = nested (org_states_of usage_list_db) ll_usage ll_usage_update,
        usage_of = nested (usage_of usage_list_db) ll_usage ll_usage_update\<rparr>\<rparr>"

interpretation layout_lists: job_store "layout_table layout_list_db"
  by unfold_locales (simp_all add: layout_list_db_def list_table_def)

definition demo_job :: layout_job where
  "demo_job = new_layout ''j1'' 5 ''ada'' \<lparr>ld_version = None, ld_org = None, ld_circuit = JObj [], ld_placer = JNull,
     ld_fabProfile = JNull, ld_netCurrents = JNull, ld_fixed = JNull\<rparr> (''acme'', None, None)"

definition demo_jobs :: layout_lists where
  "demo_jobs = \<lparr>ll_jobs = [demo_job], ll_projects = demo_projects, ll_usage = idle\<rparr>"

definition demo_tools :: tools where
  "demo_tools = \<lparr>run_layout = (\<lambda>c opts. Inr \<lparr>en_ok = True, en_outputs = Some \<lparr>kicad_pcb = ''pcb'', kicad_pro = ''pro'', bom_csv = ''bom''\<rparr>,
       en_diagnostics = [], en_geometry = demo_geometry, en_rest = JNull\<rparr>),
     drc_report = (\<lambda>pcb pro. Inr (Some \<lparr>raw_violations = None, raw_unconnected = None\<rparr>)),
     export_gerbers = (\<lambda>pcb. Inr [''Edge_Cuts'' \<mapsto> demo_outline]),
     export_pos = (\<lambda>pcb. Inr (demo_csv [''R1,5,6'', ''C2,9,9''])),
     export_glb = (\<lambda>pcb. Inl ''no model''),
     upload_file = (\<lambda>k b. Inr ())\<rparr>"

lemmas layout_list_simps = layout_list_db_def list_table_def demo_jobs_def

lemma demo_jobs_rows [simp]: "rows (layout_table layout_list_db) demo_jobs = [demo_job]"
  by (simp add: layout_list_simps)

lemma demo_jobs_unique: "unique_jobs (layout_table layout_list_db) demo_jobs"
  by (simp add: unique_jobs_def count_rows_def)

lemma demo_delivered: "fd_gerbers (run_job demo_tools False demo_job) = Some (gerbers_key ''j1'')"
proof -
  have frame: "check_delivery_frame demo_outline (demo_csv [''R1,5,6'', ''C2,9,9'']) =
      Frame_ok 2 \<lparr>minX = 0, minY = 0, maxX = 20, maxY = 20\<rparr>"
    by (simp add: frame_ok_iff demo_extent demo_placements off_board_def edge_slack_mm_def)
  show ?thesis
    by (simp add: run_job_def run_pipeline_def deliver_def sum_bind_def demo_tools_def Let_def inspect_def parse_drc_report_def
        assess_manufacturability_def pour_injected_def layer_def frame render_def demo_job_def)
qed


theorem bundle_only_if_manufacturable_witness:
  "\<exists>raw. drc_report demo_tools ''pcb'' ''pro'' = Inr raw \<and> drc_violations (parse_drc_report raw) = []"
  using bundle_only_if_manufacturable [OF demo_delivered] by (auto simp: demo_tools_def)

theorem reaper_exact_witness:
  "demo_job\<lparr>qj_status := Failed, qj_finishedAt := Some 100, qj_error := Some OrphanedBeforeQueue\<rparr> \<in>
     set (rows (layout_table layout_list_db)
       (snd (reap_stale_layout_jobs layout_list_db (\<lambda>i. No_job) 100 10 20 demo_jobs)))"
proof -
  have j: "qj_status demo_job = Queued" "qj_createdAt demo_job = 5" by (simp_all add: demo_job_def new_layout_def)
  show ?thesis
    using reaper_exact [OF layout_lists.job_store_axioms demo_jobs_unique, where r = demo_job and queue = "\<lambda>i. No_job"
        and t = 100 and grace = 10 and deadline = 20] j by auto
qed

section \<open>Where the code falls short\<close>

text \<open>
  A cancel reads the status and then writes by the id alone. When the row was queued at the read and the worker
  has finished it before the write, the write turns a delivered job into a canceled one.
\<close>

lemma late_cancel_overwrites:
  assumes "claim_job (layout_table layout_list_db) ''j1'' 7 demo_jobs = (n1, d1)"
    and "finish layout_list_db ''j1'' (run_job demo_tools False demo_job) 8 d1 = (n2, d2)"
    and "cancel_write (layout_table layout_list_db) ''j1'' Queued 9 d2 = Some (s, d3)"
  shows "map qj_status (ll_jobs d2) = [Succeeded]" "map qj_status (ll_jobs d3) = [Canceled]"
    "map lj_gerbers (ll_jobs d3) = [Some (gerbers_key ''j1'')]"
proof -
  have st: "fd_status (run_job demo_tools False demo_job) = Succeeded"
    using demo_delivered unfolding run_job_def run_pipeline_def deliver_def sum_bind_def Let_def
    by (auto split: sum.splits option.splits if_splits frame_check.splits prod.splits)
  have j: "qj_id demo_job = ''j1''" "qj_status demo_job = Queued" by (simp_all add: demo_job_def)
  have d1: "d1 = demo_jobs\<lparr>ll_jobs := [demo_job\<lparr>qj_status := Running, qj_startedAt := Some 7\<rparr>]\<rparr>"
    using assms(1) by (auto simp: claim_job_def update_many_def layout_list_simps j)
  have d2: "d2 = demo_jobs\<lparr>ll_jobs := [apply_finish (run_job demo_tools False demo_job) 8
      (demo_job\<lparr>qj_status := Running, qj_startedAt := Some 7\<rparr>)]\<rparr>"
    using assms(2) unfolding d1 by (auto simp: finish_def finish_running_def update_many_def layout_list_simps j)
  show "map qj_status (ll_jobs d2) = [Succeeded]" by (simp add: d2 apply_finish_def st)
  show "map qj_status (ll_jobs d3) = [Canceled]" "map lj_gerbers (ll_jobs d3) = [Some (gerbers_key ''j1'')]"
    using assms(3) unfolding d2
    by (auto simp: cancel_write_def update_one_def find_first_def layout_list_simps apply_finish_def j demo_delivered keep_or_def
        split: if_splits)
qed

text \<open>The key of the render is set before its upload: a failed upload stores a key with nothing behind it.\<close>

lemma failed_upload_keeps_key:
  assumes "export_glb tools pcb = Inr (bodies, glb)" "upload_file tools (glb_key j) (Model glb) = Inl e"
  shows "render tools j pcb = (Some (glb_key j), None)"
  using assms by (simp add: render_def)

end
