(* ===== verification/Connectivity_Parity.thy ===== *)
theory Connectivity_Parity
  imports Prelude Json
begin

text \<open>
  \<open>packages/pcb-core/src/parity.ts\<close>: does the board that tscircuit evaluated connect the pins the way the
  circuit does? The elements of the board are tscircuit's; of each type the check reads, the fields it reads
  are the arguments of a constructor, as \<open>String\<close> gives them.

  The class \<open>UnionFind\<close> is a map from a node to its parent, returned updated; its recursion follows the
  parents until a node that is its own. \<open>uf_find\<close> is a partial function: that it returns on every map the
  class can reach is a theorem, and so is that the groups are the classes of the connected nodes.
\<close>

section \<open>Union-find\<close>

type_synonym union_find = "string \<rightharpoonup> string"

partial_function (option) uf_find :: "union_find \<Rightarrow> string \<Rightarrow> (string \<times> union_find) option" where
  "uf_find m x =
     (case m x of
        None \<Rightarrow> Some (x, m(x \<mapsto> x))
      | Some r \<Rightarrow>
          if r = x then Some (r, m)
          else Option.bind (uf_find m r) (\<lambda>(r', m'). Some (r', m'(x \<mapsto> r'))))"

definition uf_union :: "string \<Rightarrow> string \<Rightarrow> union_find \<Rightarrow> union_find option" where
  "uf_union a b m =
     Option.bind (uf_find m a) (\<lambda>(ra, m1).
     Option.bind (uf_find m1 b) (\<lambda>(rb, m2).
     Some (if ra \<noteq> rb then m2(ra \<mapsto> rb) else m2)))"

fun uf_unions :: "(string \<times> string) list \<Rightarrow> union_find \<Rightarrow> union_find option" where
  "uf_unions [] m = Some m"
| "uf_unions ((a, b) # es) m = Option.bind (uf_union a b m) (uf_unions es)"

text \<open>The node a chain of parents ends in; a node never seen is alone.\<close>

inductive root :: "union_find \<Rightarrow> string \<Rightarrow> string \<Rightarrow> bool" for m where
  Fresh: "m x = None \<Longrightarrow> root m x x"
| Self: "m x = Some x \<Longrightarrow> root m x x"
| Up: "m x = Some y \<Longrightarrow> y \<noteq> x \<Longrightarrow> root m y r \<Longrightarrow> root m x r"

definition rooted :: "union_find \<Rightarrow> bool" where
  "rooted m \<longleftrightarrow> (\<forall>x. \<exists>r. root m x r)"

lemma root_at [simp]:
  "m x = None \<Longrightarrow> root m x r \<longleftrightarrow> r = x" "m x = Some x \<Longrightarrow> root m x r \<longleftrightarrow> r = x"
  "m x = Some y \<Longrightarrow> y \<noteq> x \<Longrightarrow> root m x r \<longleftrightarrow> root m y r"
  by (subst root.simps, simp)+

lemma root_unique: "root m x r \<Longrightarrow> root m x s \<Longrightarrow> r = s"
  by (induction arbitrary: s rule: root.induct) simp_all

lemma root_top: "root m x r \<Longrightarrow> m r = None \<or> m r = Some r"
  by (induction rule: root.induct) simp_all

lemma root_self: "m r = None \<or> m r = Some r \<Longrightarrow> root m r r"
  by (elim disjE) simp_all

text \<open>Pointing a node at its root, or a root at another, changes no root, or merges two classes.\<close>

lemma root_compress:
  assumes "root m x r" "root m y s"
  shows "root (m(x \<mapsto> r)) y s"
  using assms(2)
proof (induction rule: root.induct)
  case (Fresh y)
  then show ?case using assms(1) by (cases "y = x") simp_all
next
  case (Self y)
  then show ?case using assms(1) by (cases "y = x") simp_all
next
  case (Up y z s)
  show ?case
  proof (cases "y = x")
    case True
    then have "root m x s" using Up.hyps by simp
    then have s: "s = r" using assms(1) by (rule root_unique)
    show ?thesis
    proof (cases "r = x")
      case True
      then show ?thesis using s \<open>y = x\<close> by simp
    next
      case False
      have "root (m(x \<mapsto> r)) r r" by (rule root_self) (use False root_top [OF assms(1)] in simp)
      then have "root (m(x \<mapsto> r)) x r" by (rule root.Up [rotated 2]) (use False in simp_all)
      then show ?thesis unfolding \<open>y = x\<close> s .
    qed
  next
    case False
    then show ?thesis using Up by simp
  qed
qed

lemma root_merge:
  assumes "m ra = Some ra" "m rb = Some rb" "ra \<noteq> rb" "root m y s"
  shows "root (m(ra \<mapsto> rb)) y (if s = ra then rb else s)"
  using assms(4)
proof (induction rule: root.induct)
  case (Fresh y)
  then show ?case using assms(1) by (cases "y = ra") simp_all
next
  case (Self y)
  then show ?case using assms(2,3) by (cases "y = ra") simp_all
next
  case (Up y z s)
  then have "y \<noteq> ra" using assms(1) by auto
  then show ?case using Up by simp
qed

definition same_roots :: "union_find \<Rightarrow> union_find \<Rightarrow> bool" where
  "same_roots m m' \<longleftrightarrow> (\<forall>x r. root m x r \<longrightarrow> root m' x r)"

lemma uf_find_root:
  "root m x r \<Longrightarrow> \<exists>m'. uf_find m x = Some (r, m') \<and> same_roots m m' \<and> m' r = Some r"
proof (induction rule: root.induct)
  case (Fresh x)
  then have "uf_find m x = Some (x, m(x \<mapsto> x))" by (simp add: uf_find.simps)
  moreover have "root m x x" using Fresh by simp
  ultimately show ?case using root_compress [of m x x] by (simp add: same_roots_def)
next
  case (Self x)
  then show ?case by (simp add: uf_find.simps same_roots_def)
next
  case (Up x y r)
  then obtain m' where m': "uf_find m y = Some (r, m')" "same_roots m m'" "m' r = Some r" by blast
  have f: "uf_find m x = Some (r, m'(x \<mapsto> r))" using Up.hyps m'(1) by (subst uf_find.simps) simp
  have x: "root m' x r" using m'(2) root.Up [OF Up.hyps] by (simp add: same_roots_def)
  have "same_roots m (m'(x \<mapsto> r))" using m'(2) root_compress [OF x] by (simp add: same_roots_def)
  then show ?case using f m'(3) by simp
qed

lemma same_roots_trans: "same_roots m m' \<Longrightarrow> same_roots m' m'' \<Longrightarrow> same_roots m m''"
  by (simp add: same_roots_def)

lemma same_roots_rooted: "same_roots m m' \<Longrightarrow> rooted m \<Longrightarrow> rooted m'"
  unfolding same_roots_def rooted_def by blast

lemma root_same_iff: "same_roots m m' \<Longrightarrow> rooted m \<Longrightarrow> root m' x r \<longleftrightarrow> root m x r"
  unfolding same_roots_def rooted_def using root_unique by blast

lemma uf_find_keeps_dom: "root m x r \<Longrightarrow> uf_find m x = Some (r', m') \<Longrightarrow> m y \<noteq> None \<Longrightarrow> m' y \<noteq> None"
proof (induction arbitrary: r' m' rule: root.induct)
  case (Up x z r)
  from uf_find_root [OF Up.hyps(3)] obtain m1 where m1: "uf_find m z = Some (r, m1)" by blast
  have "uf_find m x = Some (r, m1(x \<mapsto> r))" using Up.hyps m1 by (subst uf_find.simps) simp
  then have "m' = m1(x \<mapsto> r)" using Up.prems(1) by simp
  then show ?case using Up.IH [OF m1 Up.prems(2)] by simp
qed (auto simp: uf_find.simps split: if_splits)

lemma uf_find_total:
  assumes "rooted m"
  obtains r m' where "uf_find m x = Some (r, m')" "root m x r" "same_roots m m'" "m' r = Some r" "rooted m'"
proof -
  from assms obtain r where "root m x r" unfolding rooted_def by blast
  from uf_find_root [OF this] this show ?thesis using that same_roots_rooted assms by blast
qed


lemma uf_union_total:
  assumes "rooted m" "root m a ra" "root m b rb"
  obtains m' where "uf_union a b m = Some m'" "rooted m'"
    "\<And>y s. root m y s \<Longrightarrow> root m' y (if s = ra then rb else s)"
proof -
  from uf_find_total [OF assms(1), of a] obtain m1 where
    m1: "uf_find m a = Some (ra, m1)" "same_roots m m1" "m1 ra = Some ra" "rooted m1"
    using root_unique [OF assms(2)] by metis
  have "root m1 b rb" using m1(2) assms(3) by (simp add: same_roots_def)
  from uf_find_root [OF this] obtain m2 where
    m2: "uf_find m1 b = Some (rb, m2)" "same_roots m1 m2" "m2 rb = Some rb" by blast
  have s: "same_roots m m2" using m1(2) m2(2) by (rule same_roots_trans)
  have ra: "m2 ra = Some ra"
  proof -
    have "root m1 ra ra" using m1(3) by simp
    then have "root m2 ra ra" using m2(2) by (simp add: same_roots_def)
    then have "m2 ra = None \<or> m2 ra = Some ra" by (rule root_top)
    moreover have "m2 ra \<noteq> None"
      using uf_find_keeps_dom [OF \<open>root m1 b rb\<close> m2(1)] m1(3) by simp
    ultimately show ?thesis by simp
  qed
  show ?thesis
  proof (cases "ra = rb")
    case True
    then have "uf_union a b m = Some m2" using m1(1) m2(1) by (simp add: uf_union_def)
    moreover have "root m2 y (if u = ra then rb else u)" if "root m y u" for y u
      using s that True by (simp add: same_roots_def)
    ultimately show ?thesis using that same_roots_rooted [OF s assms(1)] by blast
  next
    case False
    then have "uf_union a b m = Some (m2(ra \<mapsto> rb))" using m1(1) m2(1) by (simp add: uf_union_def)
    moreover have r: "root (m2(ra \<mapsto> rb)) y (if u = ra then rb else u)" if "root m y u" for y u
      using root_merge [OF ra m2(3) False] s that by (simp add: same_roots_def)
    moreover have "rooted (m2(ra \<mapsto> rb))" using r assms(1) unfolding rooted_def by blast
    ultimately show ?thesis using that by blast
  qed
qed

text \<open>The nodes the edges connect.\<close>

definition linked :: "(string \<times> string) set \<Rightarrow> (string \<times> string) set" where
  "linked E = (E \<union> E\<inverse>)\<^sup>*"

definition groups :: "union_find \<Rightarrow> (string \<times> string) set" where
  "groups m = {(x, y). \<exists>r. root m x r \<and> root m y r}"

lemma linked_refl [simp]: "(x, x) \<in> linked E"
  by (simp add: linked_def)

lemma linked_sym: "(x, y) \<in> linked E \<Longrightarrow> (y, x) \<in> linked E"
  unfolding linked_def by (simp add: sym_Un_converse sym_rtrancl symD)

lemma linked_trans: "(x, y) \<in> linked E \<Longrightarrow> (y, z) \<in> linked E \<Longrightarrow> (x, z) \<in> linked E"
  unfolding linked_def by (rule rtrancl_trans)

lemma linked_edge: "(x, y) \<in> E \<Longrightarrow> (x, y) \<in> linked E"
  by (auto simp: linked_def)

lemma linked_least:
  assumes "(x, y) \<in> linked E" "E \<subseteq> R" "equiv UNIV R"
  shows "(x, y) \<in> R"
  using assms(1) unfolding linked_def
proof (induction rule: rtrancl_induct)
  case base
  show ?case using assms(3) by (simp add: equiv_def refl_on_def)
next
  case (step y z)
  then have "(y, z) \<in> R" using assms(2,3) by (auto simp: equiv_def sym_def)
  then show ?case using step.IH assms(3) by (auto simp: equiv_def trans_def)
qed

lemma linked_equiv: "equiv UNIV (linked E)"
  unfolding equiv_def refl_on_def sym_def trans_def using linked_sym linked_trans by (metis UNIV_I UNIV_Times_UNIV linked_refl subset_UNIV)

lemma groups_equiv:
  assumes "rooted m"
  shows "equiv UNIV (groups m)"
proof (rule equivI)
  show "refl (groups m)" using assms by (auto simp: refl_on_def groups_def rooted_def)
  show "sym (groups m)" by (auto simp: sym_def groups_def)
  show "trans (groups m)" unfolding trans_def groups_def using root_unique by blast
qed simp

lemma groups_iff: "root m x r \<Longrightarrow> root m y s \<Longrightarrow> (x, y) \<in> groups m \<longleftrightarrow> r = s"
  unfolding groups_def using root_unique by blast

lemma linked_mono: "(x, y) \<in> linked E \<Longrightarrow> E \<subseteq> linked F \<Longrightarrow> (x, y) \<in> linked F"
  using linked_least linked_equiv by blast

lemma groups_union:
  assumes "rooted m" "groups m = linked E"
  shows "\<exists>m'. uf_union a b m = Some m' \<and> rooted m' \<and> groups m' = linked (insert (a, b) E)"
proof -
  from assms(1) obtain ra rb where r: "root m a ra" "root m b rb" unfolding rooted_def by blast
  from uf_union_total [OF assms(1) r] obtain m' where
    m': "uf_union a b m = Some m'" "rooted m'" "\<And>y s. root m y s \<Longrightarrow> root m' y (if s = ra then rb else s)" by blast
  let ?F = "insert (a, b) E"
  have up: "groups m \<subseteq> groups m'" unfolding groups_def using m'(3) by blast
  have ab: "(a, b) \<in> groups m'" using groups_iff [OF m'(3) [OF r(1)] m'(3) [OF r(2)]] by simp
  have E: "E \<subseteq> groups m" using assms(2) linked_edge by auto
  have "?F \<subseteq> groups m'" using up ab E by auto
  then have "linked ?F \<subseteq> groups m'"
    using linked_least [OF _ _ groups_equiv [OF m'(2)]] by (intro subrelI)
  moreover have "groups m' \<subseteq> linked ?F"
  proof (rule subrelI)
    fix x y assume xy: "(x, y) \<in> groups m'"
    obtain s t where st: "root m x s" "root m y t" using assms(1) unfolding rooted_def by blast
    have eq: "(if s = ra then rb else s) = (if t = ra then rb else t)"
      using xy groups_iff [OF m'(3) [OF st(1)] m'(3) [OF st(2)]] by simp
    have E_F: "E \<subseteq> linked ?F" using linked_edge [of _ _ ?F] by auto
    have sub: "(u, v) \<in> linked ?F" if "root m u w" "root m v w" for u v w
    proof -
      have "(u, v) \<in> linked E" using groups_iff [OF that] assms(2) by simp
      then show ?thesis using E_F by (rule linked_mono)
    qed
    have ins: "(a, b) \<in> linked ?F" by (rule linked_edge) simp
    consider "s = t" | "s = ra" "t = rb" | "s = rb" "t = ra" using eq by (auto split: if_splits)
    then show "(x, y) \<in> linked ?F"
    proof cases
      case 1
      then show ?thesis using sub [OF st(1)] st(2) by simp
    next
      case 2
      then have "(x, a) \<in> linked ?F" "(b, y) \<in> linked ?F"
        using sub [OF st(1)] sub [OF r(2)] r(1) st(2) by simp_all
      then show ?thesis using ins linked_trans by blast
    next
      case 3
      then have "(x, b) \<in> linked ?F" "(a, y) \<in> linked ?F"
        using sub [OF st(1)] sub [OF r(1)] r(2) st(2) by simp_all
      then show ?thesis using linked_sym [OF ins] linked_trans by blast
    qed
  qed
  ultimately have "groups m' = linked ?F" by (rule equalityI [rotated])
  then show ?thesis using m'(1,2) by simp
qed

lemma groups_unions:
  "rooted m \<Longrightarrow> groups m = linked E \<Longrightarrow>
   \<exists>m'. uf_unions es m = Some m' \<and> rooted m' \<and> groups m' = linked (set es \<union> E)"
proof (induction es arbitrary: m E)
  case (Cons e es)
  obtain a b where e: "e = (a, b)" by (cases e)
  from groups_union [OF Cons.prems, of a b] obtain m1 where
    m1: "uf_union a b m = Some m1" "rooted m1" "groups m1 = linked (insert (a, b) E)" by blast
  from Cons.IH [OF m1(2,3)] show ?case using m1(1) by (simp add: e)
qed simp

lemma rooted_empty: "rooted Map.empty" "groups Map.empty = linked {}"
  by (auto simp: rooted_def groups_def linked_def)


section \<open>The check\<close>

datatype tsc_element =
    Source_component string string
  | Source_port string string string "string list" "string option"
  | Source_net string string
  | Source_trace "string list" "string list"
  | Other_element

record pin_expectation =
  pe_name :: string
  pe_pin :: string
  pe_selector :: string
  pe_port :: string
  pe_net :: string

record port_rec =
  port_id :: string
  port_component :: string
  port_names :: "string list"
  conn_key :: "string option"

text \<open>The diagnostics, all of them errors; the codes are \<open>PCB020\<close> to \<open>PCB026\<close>.\<close>

datatype parity_problem =
    NoExpectations
  | AliasCollision string nat
  | PortMissing string string
  | NetMissing string
  | NotConnected string string
  | Shorted string string
  | ViewsDisagree string

record parity_result =
  parity_ok :: bool
  parity_diagnostics :: "parity_problem list"
  checked_pins :: nat
  expected_pins :: nat

definition component_names :: "tsc_element list \<Rightarrow> string \<rightharpoonup> string" where
  "component_names els = foldl (\<lambda>m el. case el of Source_component i n \<Rightarrow> m(i \<mapsto> n) | _ \<Rightarrow> m) Map.empty els"

text \<open>The records in the order of the elements, and the map of ports in the order of its keys.\<close>

definition port_recs :: "tsc_element list \<Rightarrow> port_rec list" where
  "port_recs els = concat (map (\<lambda>el. case el of
       Source_port i c n hints key \<Rightarrow>
         [\<lparr>port_id = i, port_component = (case component_names els c of None \<Rightarrow> [] | Some s \<Rightarrow> s),
           port_names = n # hints, conn_key = (case key of None \<Rightarrow> None | Some k \<Rightarrow> if k = [] then None else Some k)\<rparr>]
     | _ \<Rightarrow> []) els)"

definition ports_by_id :: "tsc_element list \<Rightarrow> (string \<times> port_rec) list" where
  "ports_by_id els = foldl (\<lambda>m r. assoc_set (port_id r) r m) [] (port_recs els)"

definition net_ids :: "tsc_element list \<Rightarrow> string \<rightharpoonup> string" where
  "net_ids els = foldl (\<lambda>m el. case el of Source_net n i \<Rightarrow> m(n \<mapsto> i) | _ \<Rightarrow> m) Map.empty els"

definition trace_edges :: "tsc_element list \<Rightarrow> (string \<times> string) list" where
  "trace_edges els = concat (map (\<lambda>el. case el of
       Source_trace ps ns \<Rightarrow> (case ps @ ns of [] \<Rightarrow> [] | x # xs \<Rightarrow> map (Pair x) xs)
     | _ \<Rightarrow> []) els)"

text \<open>\<open>selector.split('>')[1]?.trim().replace(/^\./, '') ?? ''\<close>\<close>

definition port_name :: "string \<Rightarrow> string" where
  "port_name sel =
     (case dropWhile (\<lambda>c. c \<noteq> CHR ''>'') sel of
        [] \<Rightarrow> []
      | _ # r \<Rightarrow> (case js_trim (takeWhile (\<lambda>c. c \<noteq> CHR ''>'') r) of
            [] \<Rightarrow> []
          | c # cs \<Rightarrow> if c = CHR ''.'' then cs else c # cs))"

definition matching_ports :: "tsc_element list \<Rightarrow> pin_expectation \<Rightarrow> port_rec list" where
  "matching_ports els e =
     filter (\<lambda>p. port_component p = pe_name e \<and> port_name (pe_selector e) \<in> set (port_names p)) (port_recs els)"

definition net_id_of :: "tsc_element list \<Rightarrow> string \<Rightarrow> string option" where
  "net_id_of els n = (case net_ids els n of None \<Rightarrow> None | Some i \<Rightarrow> if i = [] then None else Some i)"

type_synonym pin_state = "union_find \<times> (string \<times> string) list \<times> parity_problem list \<times> nat"

definition check_pin :: "tsc_element list \<Rightarrow> pin_expectation \<Rightarrow> pin_state \<Rightarrow> pin_state option" where
  "check_pin els e = (\<lambda>(m, by_net, ds, n).
     (case matching_ports els e of
        [] \<Rightarrow> Some (m, by_net, ds @ [PortMissing (pe_selector e) (pe_net e)], n)
      | p # q # ps \<Rightarrow> Some (m, by_net, ds @ [AliasCollision (pe_selector e) (length (p # q # ps))], n)
      | [p] \<Rightarrow> (case net_id_of els (pe_net e) of
            None \<Rightarrow> Some (m, by_net, ds @ [NetMissing (pe_net e)], n)
          | Some i \<Rightarrow>
              Option.bind (uf_find m (port_id p)) (\<lambda>(g, m1).
              Option.bind (uf_find m1 i) (\<lambda>(h, m2).
                if g \<noteq> h then Some (m2, by_net, ds @ [NotConnected (pe_selector e) (pe_net e)], n)
                else if map_of by_net (pe_net e) = None
                then Some (m2, by_net @ [(pe_net e, g)],
                  ds @ map (\<lambda>(other, _). Shorted other (pe_net e))
                    (filter (\<lambda>(other, g'). g' = g \<and> other \<noteq> pe_net e) by_net), n + 1)
                else Some (m2, by_net, ds, n + 1))))))"

fun check_pins :: "tsc_element list \<Rightarrow> pin_expectation list \<Rightarrow> pin_state \<Rightarrow> pin_state option" where
  "check_pins els [] st = Some st"
| "check_pins els (e # es) st = Option.bind (check_pin els e st) (check_pins els es)"

fun check_keys ::
  "port_rec list \<Rightarrow> union_find \<Rightarrow> (string \<rightharpoonup> string) \<Rightarrow> parity_problem list \<Rightarrow> parity_problem list option" where
  "check_keys [] m keys ds = Some ds"
| "check_keys (p # ps) m keys ds =
     (case conn_key p of
        None \<Rightarrow> check_keys ps m keys ds
      | Some k \<Rightarrow> Option.bind (uf_find m (port_id p)) (\<lambda>(g, m').
          (case keys k of
             None \<Rightarrow> check_keys ps m' (keys(k \<mapsto> g)) ds
           | Some g' \<Rightarrow> check_keys ps m' keys (if g' \<noteq> g then ds @ [ViewsDisagree k] else ds))))"

definition check_connectivity_parity :: "tsc_element list \<Rightarrow> pin_expectation list \<Rightarrow> parity_result option" where
  "check_connectivity_parity els es =
     (if es = [] then Some \<lparr>parity_ok = False, parity_diagnostics = [NoExpectations], checked_pins = 0, expected_pins = 0\<rparr>
      else Option.bind (uf_unions (trace_edges els) Map.empty) (\<lambda>m.
           Option.bind (check_pins els es (m, [], [], 0)) (\<lambda>(m', by_net, ds, n).
           Option.bind (check_keys (map snd (ports_by_id els)) m' Map.empty ds) (\<lambda>ds'.
           Some \<lparr>parity_ok = (ds' = []), parity_diagnostics = ds', checked_pins = n, expected_pins = length es\<rparr>))))"


section \<open>What the check decides\<close>

definition wired :: "tsc_element list \<Rightarrow> (string \<times> string) set" where
  "wired els = linked (set (trace_edges els))"

definition pin_lands :: "tsc_element list \<Rightarrow> pin_expectation \<Rightarrow> bool" where
  "pin_lands els e \<longleftrightarrow>
     (\<exists>p i. matching_ports els e = [p] \<and> net_id_of els (pe_net e) = Some i \<and> (port_id p, i) \<in> wired els)"

definition nets_apart :: "tsc_element list \<Rightarrow> string set \<Rightarrow> bool" where
  "nets_apart els N \<longleftrightarrow>
     (\<forall>n \<in> N. \<forall>n' \<in> N. \<forall>i i'. net_id_of els n = Some i \<longrightarrow> net_id_of els n' = Some i' \<longrightarrow> (i, i') \<in> wired els \<longrightarrow> n = n')"

definition keys_agree :: "tsc_element list \<Rightarrow> port_rec list \<Rightarrow> bool" where
  "keys_agree els ps \<longleftrightarrow>
     (\<forall>p \<in> set ps. \<forall>q \<in> set ps. conn_key p \<noteq> None \<longrightarrow> conn_key p = conn_key q \<longrightarrow> (port_id p, port_id q) \<in> wired els)"

definition isomorphic :: "tsc_element list \<Rightarrow> pin_expectation list \<Rightarrow> bool" where
  "isomorphic els es \<longleftrightarrow> es \<noteq> [] \<and> (\<forall>e \<in> set es. pin_lands els e) \<and> nets_apart els (pe_net ` set es) \<and>
     keys_agree els (map snd (ports_by_id els))"

definition tracks :: "tsc_element list \<Rightarrow> union_find \<Rightarrow> bool" where
  "tracks els m \<longleftrightarrow> rooted m \<and> groups m = wired els"

lemma tracks_root: "tracks els m \<Longrightarrow> root m x r \<Longrightarrow> root m y s \<Longrightarrow> (x, y) \<in> wired els \<longleftrightarrow> r = s"
  unfolding tracks_def using groups_iff by blast

lemma tracks_same:
  assumes "tracks els m" "same_roots m m'"
  shows "tracks els m'"
proof -
  have "root m' x r = root m x r" for x r using root_same_iff assms by (simp add: tracks_def)
  then show ?thesis using assms(1) by (simp add: tracks_def rooted_def groups_def)
qed

text \<open>The state after a list of pins: no diagnostic so far, exactly if each pin lands and the nets are apart.\<close>

definition pins_inv :: "tsc_element list \<Rightarrow> pin_expectation set \<Rightarrow> pin_state \<Rightarrow> bool" where
  "pins_inv els S = (\<lambda>(m, by_net, ds, n). tracks els m \<and>
     (if ds = []
      then (\<forall>e \<in> S. pin_lands els e) \<and> nets_apart els (pe_net ` S) \<and> fst ` set by_net = pe_net ` S \<and>
        (\<forall>(net, g) \<in> set by_net. \<exists>i. net_id_of els net = Some i \<and> root m i g)
      else \<not> ((\<forall>e \<in> S. pin_lands els e) \<and> nets_apart els (pe_net ` S))))"

lemma nets_apart_mono: "nets_apart els N \<Longrightarrow> M \<subseteq> N \<Longrightarrow> nets_apart els M"
  unfolding nets_apart_def by blast

lemma wired_sym: "(x, y) \<in> wired els \<Longrightarrow> (y, x) \<in> wired els"
  unfolding wired_def by (rule linked_sym)

lemma nets_apart_insert:
  "nets_apart els (insert n N) \<longleftrightarrow> nets_apart els N \<and>
     (\<forall>n' \<in> N. \<forall>i i'. net_id_of els n = Some i \<longrightarrow> net_id_of els n' = Some i' \<longrightarrow> (i, i') \<in> wired els \<longrightarrow> n = n')"
proof
  assume "nets_apart els (insert n N)"
  then show "nets_apart els N \<and>
     (\<forall>n' \<in> N. \<forall>i i'. net_id_of els n = Some i \<longrightarrow> net_id_of els n' = Some i' \<longrightarrow> (i, i') \<in> wired els \<longrightarrow> n = n')"
    unfolding nets_apart_def by blast
next
  assume a: "nets_apart els N \<and>
     (\<forall>n' \<in> N. \<forall>i i'. net_id_of els n = Some i \<longrightarrow> net_id_of els n' = Some i' \<longrightarrow> (i, i') \<in> wired els \<longrightarrow> n = n')"
  show "nets_apart els (insert n N)"
    unfolding nets_apart_def
  proof (intro ballI allI impI)
    fix x y i j
    assume *: "x \<in> insert n N" "y \<in> insert n N" "net_id_of els x = Some i" "net_id_of els y = Some j" "(i, j) \<in> wired els"
    consider "x = n" "y = n" | "x = n" "y \<in> N" | "x \<in> N" "y = n" | "x \<in> N" "y \<in> N" using *(1,2) by blast
    then show "x = y"
    proof cases
      case 3
      then have "y = x" using a *(3,4) wired_sym [OF *(5)] by blast
      then show ?thesis ..
    qed (use a * in \<open>simp_all add: nets_apart_def\<close>)
  qed
qed

lemma pins_inv_bad:
  assumes "tracks els m" "ds \<noteq> []" "\<not> pin_lands els e \<or> \<not> ((\<forall>e \<in> S. pin_lands els e) \<and> nets_apart els (pe_net ` S))"
  shows "pins_inv els (insert e S) (m, by_net, ds, n)"
  using assms nets_apart_mono [of els "insert (pe_net e) (pe_net ` S)" "pe_net ` S"]
  by (auto simp: pins_inv_def)

lemma check_pin_inv:
  assumes "pins_inv els S (m, by_net, ds, n)"
  shows "\<exists>st. check_pin els e (m, by_net, ds, n) = Some st \<and> pins_inv els (insert e S) st"
proof -
  have tr: "tracks els m" using assms by (simp add: pins_inv_def)
  have prior: "\<not> ((\<forall>e \<in> S. pin_lands els e) \<and> nets_apart els (pe_net ` S))" if "ds \<noteq> []"
    using assms that by (simp add: pins_inv_def)
  consider (port) "\<And>p. matching_ports els e \<noteq> [p]"
    | (net) p where "matching_ports els e = [p]" "net_id_of els (pe_net e) = None"
    | (both) p i where "matching_ports els e = [p]" "net_id_of els (pe_net e) = Some i"
    by (cases "net_id_of els (pe_net e)") auto
  then show ?thesis
  proof cases
    case port
    then have "\<not> pin_lands els e" by (simp add: pin_lands_def)
    then have "pins_inv els (insert e S) (m, by_net, ds @ [x], n)" for x using tr by (intro pins_inv_bad) simp_all
    then show ?thesis using port by (simp add: check_pin_def split: list.split)
  next
    case net
    then have "\<not> pin_lands els e" by (simp add: pin_lands_def)
    then have "pins_inv els (insert e S) (m, by_net, ds @ [x], n)" for x using tr by (intro pins_inv_bad) simp_all
    then show ?thesis using net by (simp add: check_pin_def)
  next
    case both
    from tr have "rooted m" by (simp add: tracks_def)
    from uf_find_total [OF this, of "port_id p"] obtain g m1 where
      g: "uf_find m (port_id p) = Some (g, m1)" "root m (port_id p) g" "same_roots m m1" "rooted m1" by blast
    from uf_find_total [OF this(4), of i] obtain h m2 where
      h: "uf_find m1 i = Some (h, m2)" "root m1 i h" "same_roots m1 m2" by blast
    have same: "same_roots m m2" using g(3) h(3) by (rule same_roots_trans)
    have tr2: "tracks els m2" using tr same by (rule tracks_same)
    have rg: "root m2 (port_id p) g" and rh: "root m2 i h"
      using g(2) h(2,3) same by (simp_all add: same_roots_def)
    have lands: "pin_lands els e \<longleftrightarrow> g = h"
      using both tracks_root [OF tr2 rg rh] by (simp add: pin_lands_def)
    let ?hits = "filter (\<lambda>(other, g'). g' = g \<and> other \<noteq> pe_net e) by_net"
    show ?thesis
    proof (cases "g = h")
      case False
      then have "pins_inv els (insert e S) (m2, by_net, ds @ [NotConnected (pe_selector e) (pe_net e)], n)"
        using tr2 lands by (intro pins_inv_bad) simp_all
      then show ?thesis using both g(1) h(1) False by (simp add: check_pin_def)
    next
      case True
      have known: "pins_inv els (insert e S) (m2, by_net, ds, n')" if "ds \<noteq> []" for by_net n'
        using tr2 prior [OF that] that by (intro pins_inv_bad) simp_all
      show ?thesis
      proof (cases "map_of by_net (pe_net e) = None")
        case False
        have "pins_inv els (insert e S) (m2, by_net, ds, n + 1)"
        proof (cases "ds = []")
          case True
          then have facts: "\<forall>e \<in> S. pin_lands els e" "nets_apart els (pe_net ` S)" "fst ` set by_net = pe_net ` S"
            "\<forall>(net, g) \<in> set by_net. \<exists>i. net_id_of els net = Some i \<and> root m i g"
            using assms by (simp_all add: pins_inv_def)
          have "pe_net e \<in> pe_net ` S" using False facts(3) by (simp add: map_of_eq_None_iff)
          then have "insert (pe_net e) (pe_net ` S) = pe_net ` S" by blast
          moreover have "\<forall>(net, g) \<in> set by_net. \<exists>i. net_id_of els net = Some i \<and> root m2 i g"
            using facts(4) same unfolding same_roots_def by blast
          ultimately show ?thesis using tr2 facts lands \<open>g = h\<close> True by (simp add: pins_inv_def)
        qed (use known in simp)
        then show ?thesis using both g(1) h(1) True False by (auto simp: check_pin_def)
      next
        case None: True
        let ?ds = "ds @ map (\<lambda>(other, _). Shorted other (pe_net e)) ?hits"
        have "pins_inv els (insert e S) (m2, by_net @ [(pe_net e, g)], ?ds, n + 1)"
        proof (cases "ds = []")
          case True
          then have facts: "\<forall>e \<in> S. pin_lands els e" "nets_apart els (pe_net ` S)" "fst ` set by_net = pe_net ` S"
            "\<forall>(net, g) \<in> set by_net. \<exists>i. net_id_of els net = Some i \<and> root m2 i g"
            using assms same unfolding same_roots_def by (auto simp: pins_inv_def)
          have apart: "nets_apart els (insert (pe_net e) (pe_net ` S)) \<longleftrightarrow> ?hits = []"
          proof -
            have w: "(i, i') \<in> wired els \<longleftrightarrow> g' = g" if "root m2 i' g'" for i' g'
              using tracks_root [OF tr2 rh that] \<open>g = h\<close> by auto
            have "?hits = []" if apart: "nets_apart els (insert (pe_net e) (pe_net ` S))"
            proof (rule ccontr)
              assume "?hits \<noteq> []"
              then obtain other where o: "(other, g) \<in> set by_net" "other \<noteq> pe_net e" by (auto simp: filter_empty_conv)
              then obtain i' where "net_id_of els other = Some i'" "root m2 i' g" using facts(4) by blast
              moreover from this(2) have "(i, i') \<in> wired els" using w by simp
              moreover have "other \<in> pe_net ` S" using o(1) facts(3) by force
              ultimately have "pe_net e = other"
                using apart [unfolded nets_apart_insert, THEN conjunct2, rule_format, OF _ both(2)] by simp
              then show False using o(2) by simp
            qed
            moreover have "nets_apart els (insert (pe_net e) (pe_net ` S))" if none: "?hits = []"
              unfolding nets_apart_insert
            proof (intro conjI facts(2) ballI allI impI)
              fix n' k i' assume n': "n' \<in> pe_net ` S" "net_id_of els (pe_net e) = Some k" "net_id_of els n' = Some i'"
                "(k, i') \<in> wired els"
              then obtain g' where g': "(n', g') \<in> set by_net" using facts(3) by force
              then have "root m2 i' g'" using facts(4) n'(3) by auto
              then have "g' = g" using w [of i' g'] n'(2,4) both(2) by simp
              then show "pe_net e = n'" using none g' by (auto simp: filter_empty_conv)
            qed
            ultimately show ?thesis by blast
          qed
          have "\<forall>(net, g) \<in> set (by_net @ [(pe_net e, g)]). \<exists>i. net_id_of els net = Some i \<and> root m2 i g"
            using facts(4) both(2) rh \<open>g = h\<close> by auto
          then show ?thesis using tr2 facts lands \<open>g = h\<close> True apart by (auto simp: pins_inv_def)
        qed (use tr2 prior in \<open>intro pins_inv_bad, simp_all\<close>)
        then show ?thesis using both g(1) h(1) True None by (simp add: check_pin_def)
      qed
    qed
  qed
qed


lemma check_pins_inv:
  "pins_inv els S st \<Longrightarrow> \<exists>st'. check_pins els es st = Some st' \<and> pins_inv els (S \<union> set es) st'"
proof (induction es arbitrary: S st)
  case (Cons e es)
  obtain m by_net ds n where st: "st = (m, by_net, ds, n)" by (cases st)
  from check_pin_inv [OF Cons.prems [unfolded st]] obtain st1 where
    st1: "check_pin els e st = Some st1" "pins_inv els (insert e S) st1" unfolding st by blast
  from Cons.IH [OF st1(2)] show ?case using st1(1) by simp
qed simp

lemma keys_agree_snoc:
  assumes "keys_agree els P" "conn_key p \<noteq> None"
    and "\<And>q. q \<in> set P \<Longrightarrow> conn_key q = conn_key p \<Longrightarrow> (port_id q, port_id p) \<in> wired els"
  shows "keys_agree els (P @ [p])"
  unfolding keys_agree_def
proof (intro ballI impI)
  fix a b assume "a \<in> set (P @ [p])" "b \<in> set (P @ [p])" and k: "conn_key a \<noteq> None" "conn_key a = conn_key b"
  then consider "a \<in> set P" "b \<in> set P" | "a \<in> set P" "b = p" | "a = p" "b \<in> set P" | "a = p" "b = p" by auto
  then show "(port_id a, port_id b) \<in> wired els"
  proof cases
    case 1
    then show ?thesis using assms(1) k unfolding keys_agree_def by blast
  next
    case 2
    then show ?thesis using assms(3) k by simp
  next
    case 3
    then show ?thesis using wired_sym [OF assms(3) [of b]] k by simp
  qed (simp add: wired_def)
qed

lemma keys_agree_keyless: "conn_key p = None \<Longrightarrow> keys_agree els (P @ p # ps) = keys_agree els (P @ ps)"
  unfolding keys_agree_def by auto

lemma check_keys_spec:
  assumes "tracks els m" "ds = [] \<longrightarrow> keys_agree els P"
    and "\<And>k g. keys k = Some g \<Longrightarrow> \<exists>p \<in> set P. conn_key p = Some k \<and> root m (port_id p) g"
    and "\<And>p. p \<in> set P \<Longrightarrow> conn_key p \<noteq> None \<Longrightarrow> keys (the (conn_key p)) \<noteq> None"
  shows "\<exists>ds'. check_keys ps m keys ds = Some ds' \<and> (ds' = [] \<longleftrightarrow> ds = [] \<and> keys_agree els (P @ ps))"
  using assms
proof (induction ps arbitrary: m keys ds P)
  case (Cons p ps)
  show ?case
  proof (cases "conn_key p")
    case None
    then show ?thesis using Cons.IH [where P = P and keys = keys, OF Cons.prems] by (simp add: keys_agree_keyless)
  next
    case (Some k)
    have "rooted m" using Cons.prems(1) by (simp add: tracks_def)
    from uf_find_total [OF this, of "port_id p"] obtain g m' where
      g: "uf_find m (port_id p) = Some (g, m')" "root m (port_id p) g" "same_roots m m'" by blast
    have tr: "tracks els m'" using Cons.prems(1) g(3) by (rule tracks_same)
    have up: "root m' x r" if "root m x r" for x r using g(3) that by (simp add: same_roots_def)
    show ?thesis
    proof (cases "keys k")
      case None
      then have new: "conn_key q \<noteq> Some k" if "q \<in> set P" for q using Cons.prems(4) [OF that] by auto
      have "ds = [] \<longrightarrow> keys_agree els (P @ [p])"
        using Cons.prems(2) keys_agree_snoc [of els P p] Some new by auto
      moreover have "\<exists>q \<in> set (P @ [p]). conn_key q = Some k' \<and> root m' (port_id q) g'"
        if "(keys(k \<mapsto> g)) k' = Some g'" for k' g'
      proof (cases "k' = k")
        case True
        then show ?thesis using that Some up [OF g(2)] by simp
      next
        case False
        then have "\<exists>q \<in> set P. conn_key q = Some k' \<and> root m (port_id q) g'" using that Cons.prems(3) by simp
        then show ?thesis using up by auto
      qed
      moreover have "(keys(k \<mapsto> g)) (the (conn_key q)) \<noteq> None" if "q \<in> set (P @ [p])" "conn_key q \<noteq> None" for q
        using that Cons.prems(4) Some by auto
      ultimately have "\<exists>ds'. check_keys ps m' (keys(k \<mapsto> g)) ds = Some ds' \<and>
          (ds' = [] \<longleftrightarrow> ds = [] \<and> keys_agree els ((P @ [p]) @ ps))"
        by (rule Cons.IH [OF tr])
      then show ?thesis using Some None g(1) by simp
    next
      case old: (Some g')
      from Cons.prems(3) [OF old] obtain q where q: "q \<in> set P" "conn_key q = Some k" "root m (port_id q) g'" by blast
      have w: "(port_id q, port_id p) \<in> wired els \<longleftrightarrow> g' = g"
        using tracks_root [OF Cons.prems(1) q(3) g(2)] .
      let ?ds = "if g' \<noteq> g then ds @ [ViewsDisagree k] else ds"
      have agree: "?ds = [] \<longrightarrow> keys_agree els (P @ [p])"
      proof
        assume n: "?ds = []"
        then have "g' = g" "ds = []" by (auto split: if_splits)
        then have P: "keys_agree els P" using Cons.prems(2) by simp
        show "keys_agree els (P @ [p])"
        proof (rule keys_agree_snoc [OF P])
          fix r assume "r \<in> set P" "conn_key r = conn_key p"
          then have "(port_id r, port_id q) \<in> wired els" using P q(1,2) Some unfolding keys_agree_def by simp
          then show "(port_id r, port_id p) \<in> wired els"
            using w \<open>g' = g\<close> unfolding wired_def using linked_trans by blast
        qed (use Some in simp)
      qed
      have "\<exists>r \<in> set (P @ [p]). conn_key r = Some k' \<and> root m' (port_id r) h" if "keys k' = Some h" for k' h
        using Cons.prems(3) [OF that] up by auto
      moreover have "keys (the (conn_key r)) \<noteq> None" if "r \<in> set (P @ [p])" "conn_key r \<noteq> None" for r
        using that Cons.prems(4) Some old by auto
      ultimately have "\<exists>ds'. check_keys ps m' keys ?ds = Some ds' \<and>
          (ds' = [] \<longleftrightarrow> ?ds = [] \<and> keys_agree els ((P @ [p]) @ ps))"
        by (rule Cons.IH [OF tr agree])
      moreover have "(?ds = [] \<and> keys_agree els (P @ p # ps)) = (ds = [] \<and> keys_agree els (P @ p # ps))"
        if "g' \<noteq> g"
      proof -
        have "\<not> keys_agree els (P @ p # ps)"
        proof
          assume "keys_agree els (P @ p # ps)"
          then have "(port_id q, port_id p) \<in> wired els" using q(1,2) Some unfolding keys_agree_def by simp
          then show False using w that by simp
        qed
        then show ?thesis by simp
      qed
      ultimately show ?thesis using Some old g(1) by (cases "g' = g") auto
    qed
  qed
next
  case Nil
  then show ?case by auto
qed

text \<open>
  \<^bold>\<open>C16.\<close> \<open>UnionFind\<close> implements the equivalence closure: after any list of unions, every call of \<open>find\<close>
  returns, and two nodes are found in the same group exactly if a chain of the united pairs joins them.
\<close>

theorem union_find_refines:
  "\<exists>m. uf_unions es Map.empty = Some m \<and>
     (\<forall>a b. \<exists>ra m1 rb m2. uf_find m a = Some (ra, m1) \<and> uf_find m1 b = Some (rb, m2) \<and>
        (ra = rb \<longleftrightarrow> (a, b) \<in> linked (set es)))"
proof -
  from groups_unions [OF rooted_empty, of es] obtain m where
    m: "uf_unions es Map.empty = Some m" "rooted m" "groups m = linked (set es)" by auto
  have "\<exists>ra m1 rb m2. uf_find m a = Some (ra, m1) \<and> uf_find m1 b = Some (rb, m2) \<and>
      (ra = rb \<longleftrightarrow> (a, b) \<in> linked (set es))" for a b
  proof -
    from uf_find_total [OF m(2), of a] obtain ra m1 where
      a: "uf_find m a = Some (ra, m1)" "root m a ra" "same_roots m m1" "rooted m1" by blast
    from uf_find_total [OF a(4), of b] obtain rb m2 where
      b: "uf_find m1 b = Some (rb, m2)" "root m1 b rb" by blast
    have "root m1 a ra" using a(2,3) by (simp add: same_roots_def)
    then have "ra = rb \<longleftrightarrow> (a, b) \<in> groups m1" using groups_iff b(2) by blast
    also have "groups m1 = groups m" using root_same_iff [OF a(3) m(2)] by (simp add: groups_def)
    finally show ?thesis using a(1) b(1) m(3) by auto
  qed
  then show ?thesis using m(1) by auto
qed

text \<open>
  \<^bold>\<open>C15.\<close> The parity check returns, and passes exactly if the board is isomorphic to the circuit: there is
  a pin to check, each expected pin selects one port, wired to the net of its name, two nets are nowhere wired
  together, and ports with the same key of tscircuit's own map are wired together.
\<close>

theorem parity_decides:
  "\<exists>r. check_connectivity_parity els es = Some r \<and> parity_ok r = isomorphic els es"
proof (cases "es = []")
  case True
  then show ?thesis by (simp add: check_connectivity_parity_def isomorphic_def)
next
  case False
  from groups_unions [OF rooted_empty, of "trace_edges els"] obtain m where
    m: "uf_unions (trace_edges els) Map.empty = Some m" "tracks els m"
    by (auto simp: tracks_def wired_def)
  have "pins_inv els {} (m, [], [], 0)" using m(2) by (simp add: pins_inv_def nets_apart_def)
  from check_pins_inv [OF this, of es] obtain m' by_net ds n where
    p: "check_pins els es (m, [], [], 0) = Some (m', by_net, ds, n)" "pins_inv els (set es) (m', by_net, ds, n)" by auto
  have tr: "tracks els m'" using p(2) by (simp add: pins_inv_def)
  have "\<exists>ds'. check_keys (map snd (ports_by_id els)) m' Map.empty ds = Some ds' \<and>
      (ds' = [] \<longleftrightarrow> ds = [] \<and> keys_agree els ([] @ map snd (ports_by_id els)))"
    by (rule check_keys_spec [OF tr]) (simp_all add: keys_agree_def)
  then obtain ds' where "check_keys (map snd (ports_by_id els)) m' Map.empty ds = Some ds'"
    "ds' = [] \<longleftrightarrow> ds = [] \<and> keys_agree els (map snd (ports_by_id els))" by auto
  moreover have "ds = [] \<longleftrightarrow> (\<forall>e \<in> set es. pin_lands els e) \<and> nets_apart els (pe_net ` set es)"
    using p(2) by (auto simp: pins_inv_def split: if_splits)
  ultimately show ?thesis using False m(1) p(1) by (simp add: check_connectivity_parity_def isomorphic_def)
qed

end
