(* ===== verification/Fab_Profile.thy ===== *)
theory Fab_Profile
  imports Json
begin

text \<open>
  The manufacturing constraints of a board, \<open>packages/pcb-core/src/fab-profile.ts\<close>: the tiers of the fab,
  \<open>resolveFabProfile\<close>, which makes a complete profile of whatever a request holds, the KiCad rules the board is
  judged by and the count of undersized vias. The input is JSON; a number stands for itself as it is written.
  The text surgery on board files of the same source is not modelled.
\<close>

section \<open>Profiles\<close>

record fab_profile =
  minTraceWidth :: rat
  minClearance :: rat
  viaDrill :: rat
  viaAnnular :: rat
  viaClearance :: "rat option"
  viaClearanceGuard :: "rat option"
  copperOz :: "rat option"
  deltaTC :: "rat option"
  perNetMinWidth :: "(string \<times> rat) list option"
  gndPour :: "bool option"
  placementGrid :: "rat option"
  placementMargin :: "rat option"
  layers :: "rat option"
  minSilkWidth :: "rat option"
  minSilkTextHeight :: "rat option"

datatype tier = Economy | Standard | Advanced

definition tier_name :: "tier \<Rightarrow> string" where
  "tier_name t = (case t of Economy \<Rightarrow> ''economy'' | Standard \<Rightarrow> ''standard'' | Advanced \<Rightarrow> ''advanced'')"

definition tier_profile :: "rat \<Rightarrow> rat \<Rightarrow> rat \<Rightarrow> rat \<Rightarrow> fab_profile" where
  "tier_profile w c d a =
     \<lparr>minTraceWidth = w, minClearance = c, viaDrill = d, viaAnnular = a, viaClearance = None, viaClearanceGuard = None,
      copperOz = Some 1, deltaTC = Some 10, perNetMinWidth = None, gndPour = Some True, placementGrid = None,
      placementMargin = None, layers = None, minSilkWidth = Some (15 / 100), minSilkTextHeight = Some (8 / 10)\<rparr>"

definition fab_tiers :: "tier \<Rightarrow> fab_profile" where
  "fab_tiers t = (case t of
      Economy \<Rightarrow> tier_profile (2 / 10) (2 / 10) (3 / 10) (15 / 100)
    | Standard \<Rightarrow> tier_profile (127 / 1000) (127 / 1000) (25 / 100) (13 / 100)
    | Advanced \<Rightarrow> tier_profile (889 / 10000) (889 / 10000) (2 / 10) (1 / 10))"

text \<open>The fields the two loops go through, with their names and how they are read and set.\<close>

datatype floor_field = Trace_width | Clearance | Drill | Annular

definition floor_fields :: "floor_field list" where
  "floor_fields = [Trace_width, Clearance, Drill, Annular]"

fun floor_name :: "floor_field \<Rightarrow> string" where
  "floor_name Trace_width = ''minTraceWidthMm''"
| "floor_name Clearance = ''minClearanceMm''"
| "floor_name Drill = ''viaDrillMm''"
| "floor_name Annular = ''viaAnnularMm''"

fun floor_get :: "floor_field \<Rightarrow> fab_profile \<Rightarrow> rat" where
  "floor_get Trace_width p = minTraceWidth p"
| "floor_get Clearance p = minClearance p"
| "floor_get Drill p = viaDrill p"
| "floor_get Annular p = viaAnnular p"

fun floor_set :: "floor_field \<Rightarrow> rat \<Rightarrow> fab_profile \<Rightarrow> fab_profile" where
  "floor_set Trace_width x p = p\<lparr>minTraceWidth := x\<rparr>"
| "floor_set Clearance x p = p\<lparr>minClearance := x\<rparr>"
| "floor_set Drill x p = p\<lparr>viaDrill := x\<rparr>"
| "floor_set Annular x p = p\<lparr>viaAnnular := x\<rparr>"

datatype pass_field = Via_clearance | Via_guard | Copper | Delta | Grid | Margin | Silk_width | Silk_height

definition pass_fields :: "pass_field list" where
  "pass_fields = [Via_clearance, Via_guard, Copper, Delta, Grid, Margin, Silk_width, Silk_height]"

fun pass_name :: "pass_field \<Rightarrow> string" where
  "pass_name Via_clearance = ''viaClearanceMm''"
| "pass_name Via_guard = ''viaClearanceGuardMm''"
| "pass_name Copper = ''copperOz''"
| "pass_name Delta = ''deltaTC''"
| "pass_name Grid = ''placementGridMm''"
| "pass_name Margin = ''placementMarginMm''"
| "pass_name Silk_width = ''minSilkWidthMm''"
| "pass_name Silk_height = ''minSilkTextHeightMm''"

fun pass_get :: "pass_field \<Rightarrow> fab_profile \<Rightarrow> rat option" where
  "pass_get Via_clearance p = viaClearance p"
| "pass_get Via_guard p = viaClearanceGuard p"
| "pass_get Copper p = copperOz p"
| "pass_get Delta p = deltaTC p"
| "pass_get Grid p = placementGrid p"
| "pass_get Margin p = placementMargin p"
| "pass_get Silk_width p = minSilkWidth p"
| "pass_get Silk_height p = minSilkTextHeight p"

fun pass_set :: "pass_field \<Rightarrow> rat \<Rightarrow> fab_profile \<Rightarrow> fab_profile" where
  "pass_set Via_clearance x p = p\<lparr>viaClearance := Some x\<rparr>"
| "pass_set Via_guard x p = p\<lparr>viaClearanceGuard := Some x\<rparr>"
| "pass_set Copper x p = p\<lparr>copperOz := Some x\<rparr>"
| "pass_set Delta x p = p\<lparr>deltaTC := Some x\<rparr>"
| "pass_set Grid x p = p\<lparr>placementGrid := Some x\<rparr>"
| "pass_set Margin x p = p\<lparr>placementMargin := Some x\<rparr>"
| "pass_set Silk_width x p = p\<lparr>minSilkWidth := Some x\<rparr>"
| "pass_set Silk_height x p = p\<lparr>minSilkTextHeight := Some x\<rparr>"

section \<open>Resolving a request\<close>

datatype adjustment =
    Unknown_tier json
  | Not_positive string json
  | Raised string rat tier rat
  | Layers_refused json
  | Pour_not_boolean json
  | Widths_not_object
  | Width_not_positive string json
  | Width_raised string rat rat

record resolved =
  res_profile :: fab_profile
  res_tier :: tier
  res_adjustments :: "adjustment list"
  res_unsupportedLayers :: "rat option"

definition positive :: "json \<Rightarrow> rat option" where
  "positive j = (case j of JNum x \<Rightarrow> if 0 < x then Some x else None | _ \<Rightarrow> None)"

definition resolve_tier :: "json \<Rightarrow> tier \<times> adjustment list" where
  "resolve_tier raw =
     (let j = obj_get ''tier'' raw in
      if j = JUndef then (Economy, [])
      else if j = JStr ''economy'' then (Economy, [])
      else if j = JStr ''standard'' then (Standard, [])
      else if j = JStr ''advanced'' then (Advanced, [])
      else (Economy, [Unknown_tier j]))"

definition resolve_floor :: "json \<Rightarrow> tier \<Rightarrow> floor_field \<Rightarrow> fab_profile \<times> adjustment list \<Rightarrow> fab_profile \<times> adjustment list" where
  "resolve_floor raw t f = (\<lambda>(p, adj).
     let j = obj_get (floor_name f) raw; limit = floor_get f (fab_tiers t) in
     if j = JUndef then (p, adj)
     else (case positive j of
         None \<Rightarrow> (p, adj @ [Not_positive (floor_name f) j])
       | Some x \<Rightarrow> if x < limit then (p, adj @ [Raised (floor_name f) x t limit]) else (floor_set f x p, adj)))"

definition resolve_pass :: "json \<Rightarrow> pass_field \<Rightarrow> fab_profile \<times> adjustment list \<Rightarrow> fab_profile \<times> adjustment list" where
  "resolve_pass raw f = (\<lambda>(p, adj).
     let j = obj_get (pass_name f) raw in
     if j = JUndef then (p, adj)
     else (case positive j of
         None \<Rightarrow> (p, adj @ [Not_positive (pass_name f) j])
       | Some x \<Rightarrow> (pass_set f x p, adj)))"

definition resolve_layers :: "json \<Rightarrow> fab_profile \<times> adjustment list \<Rightarrow> (fab_profile \<times> adjustment list) \<times> rat option" where
  "resolve_layers raw = (\<lambda>(p, adj).
     let j = obj_get ''layers'' raw in
     if j = JUndef then ((p, adj), None)
     else (case j of
         JNum n \<Rightarrow> if n \<in> {1, 2, 4} then ((p\<lparr>layers := Some n\<rparr>, adj), None) else ((p, adj @ [Layers_refused j]), Some n)
       | _ \<Rightarrow> ((p, adj @ [Layers_refused j]), None)))"

definition resolve_pour :: "json \<Rightarrow> fab_profile \<times> adjustment list \<Rightarrow> fab_profile \<times> adjustment list" where
  "resolve_pour raw = (\<lambda>(p, adj).
     let j = obj_get ''gndPour'' raw in
     if j = JUndef then (p, adj)
     else (case j of JBool b \<Rightarrow> (p\<lparr>gndPour := Some b\<rparr>, adj) | _ \<Rightarrow> (p, adj @ [Pour_not_boolean j])))"

text \<open>\<open>kept[net] = w\<close>: the one name an assignment of a number does not create.\<close>

definition keep :: "string \<Rightarrow> rat \<Rightarrow> (string \<times> rat) list \<Rightarrow> (string \<times> rat) list" where
  "keep n w kept = (if n = ''__proto__'' then kept else assoc_set n w kept)"

fun keep_widths ::
  "rat \<Rightarrow> (string \<times> json) list \<Rightarrow> (string \<times> rat) list \<times> adjustment list \<Rightarrow> (string \<times> rat) list \<times> adjustment list" where
  "keep_widths least [] st = st"
| "keep_widths least ((n, j) # rest) (kept, adj) =
     keep_widths least rest
       (case positive j of
          None \<Rightarrow> (kept, adj @ [Width_not_positive n j])
        | Some w \<Rightarrow> if w < least then (keep n least kept, adj @ [Width_raised n w least]) else (keep n w kept, adj))"

definition resolve_widths :: "json \<Rightarrow> fab_profile \<times> adjustment list \<Rightarrow> fab_profile \<times> adjustment list" where
  "resolve_widths raw = (\<lambda>(p, adj).
     let j = obj_get ''perNetMinWidthMm'' raw in
     if j = JUndef then (p, adj)
     else (case j of
         JObj kvs \<Rightarrow> (let (kept, adj') = keep_widths (minTraceWidth p) kvs ([], adj)
           in (if kept = [] then p else p\<lparr>perNetMinWidth := Some kept\<rparr>, adj'))
       | _ \<Rightarrow> (p, adj @ [Widths_not_object])))"

definition resolve_fab_profile :: "json \<Rightarrow> resolved" where
  "resolve_fab_profile input =
     (let raw = (if input = JUndef \<or> input = JNull then JObj [] else input);
          (t, adj) = resolve_tier raw;
          st = fold (resolve_pass raw) pass_fields (fold (resolve_floor raw t) floor_fields (fab_tiers t, adj));
          (st', bad) = resolve_layers raw st;
          (p, adj') = resolve_widths raw (resolve_pour raw st')
      in \<lparr>res_profile = p, res_tier = t, res_adjustments = adj', res_unsupportedLayers = bad\<rparr>)"

section \<open>What the profile is used for\<close>

definition round3 :: "rat \<Rightarrow> rat" where
  "round3 x = of_int \<lfloor>x * 1000 + 1 / 2\<rfloor> / 1000"

definition via_outer :: "fab_profile \<Rightarrow> rat" where
  "via_outer p = round3 (viaDrill p + 2 * viaAnnular p)"

definition edge_clearance_mm :: rat where "edge_clearance_mm = 3 / 10"

definition kicad_project_json :: "fab_profile \<Rightarrow> json" where
  "kicad_project_json p = JObj
     [(''board'', JObj [(''design_settings'', JObj [(''rules'', JObj
        [(''min_clearance'', JNum (minClearance p)), (''min_connection'', JNum (minTraceWidth p)),
         (''min_copper_edge_clearance'', JNum edge_clearance_mm), (''min_hole_clearance'', JNum (25 / 100)),
         (''min_hole_to_hole'', JNum (25 / 100)), (''min_microvia_diameter'', JNum (2 / 10)),
         (''min_microvia_drill'', JNum (1 / 10)), (''min_resolved_spokes'', JNum 1), (''min_silk_clearance'', JNum 0),
         (''min_text_height'', JNum (8 / 10)), (''min_text_thickness'', JNum (8 / 100)),
         (''min_through_hole_diameter'', JNum (viaDrill p)), (''min_track_width'', JNum (minTraceWidth p)),
         (''min_via_annular_width'', JNum (viaAnnular p)), (''min_via_diameter'', JNum (via_outer p))])])]),
      (''net_settings'', JObj
        [(''classes'', JArr [JObj
           [(''name'', JStr ''Default''), (''clearance'', JNum (minClearance p)), (''track_width'', JNum (minTraceWidth p)),
            (''via_diameter'', JNum (via_outer p)), (''via_drill'', JNum (viaDrill p)),
            (''microvia_diameter'', JNum (round3 (max (2 / 10) (via_outer p)))),
            (''microvia_drill'', JNum (round3 (max (1 / 10) (viaDrill p))))]]),
         (''meta'', JObj [(''version'', JNum 4)])]),
      (''meta'', JObj [(''filename'', JStr ''board.kicad_pro''), (''version'', JNum 3)])]"

text \<open>A via of the evaluated board, with the diameters the count reads.\<close>

definition report_via_compliance :: "(rat \<times> rat) list \<Rightarrow> fab_profile \<Rightarrow> nat \<times> nat" where
  "report_via_compliance vias p =
     (length vias, length (filter (\<lambda>(hole, outer). hole < viaDrill p \<or> outer < via_outer p) vias))"

section \<open>Each field on its own\<close>

text \<open>What becomes of a field, and what is recorded of it, without the loops.\<close>

definition chosen_floor :: "json \<Rightarrow> tier \<Rightarrow> floor_field \<Rightarrow> rat" where
  "chosen_floor raw t f =
     (case positive (obj_get (floor_name f) raw) of
        None \<Rightarrow> floor_get f (fab_tiers t) | Some x \<Rightarrow> max x (floor_get f (fab_tiers t)))"

definition floor_note :: "json \<Rightarrow> tier \<Rightarrow> floor_field \<Rightarrow> adjustment list" where
  "floor_note raw t f =
     (let j = obj_get (floor_name f) raw; limit = floor_get f (fab_tiers t) in
      if j = JUndef then []
      else (case positive j of None \<Rightarrow> [Not_positive (floor_name f) j]
            | Some x \<Rightarrow> if x < limit then [Raised (floor_name f) x t limit] else []))"

definition pass_put :: "pass_field \<Rightarrow> rat option \<Rightarrow> fab_profile \<Rightarrow> fab_profile" where
  "pass_put f xo p = (case xo of None \<Rightarrow> p | Some x \<Rightarrow> pass_set f x p)"

definition pass_note :: "json \<Rightarrow> pass_field \<Rightarrow> adjustment list" where
  "pass_note raw f =
     (let j = obj_get (pass_name f) raw in
      if j = JUndef \<or> positive j \<noteq> None then [] else [Not_positive (pass_name f) j])"

lemma positive_undef [simp]: "positive JUndef = None"
  by (simp add: positive_def)

lemma positive_Some: "positive j = Some x \<longleftrightarrow> j = JNum x \<and> 0 < x"
  by (cases j) (auto simp: positive_def)

lemma floor_get_set [simp]: "floor_get f (floor_set g x p) = (if f = g then x else floor_get f p)"
  by (cases f; cases g) simp_all

lemma floor_set_same: "floor_get f p = x \<Longrightarrow> floor_set f x p = p"
  by (cases f) auto

lemma pass_get_set [simp]: "pass_get f (pass_set g x p) = (if f = g then Some x else pass_get f p)"
  by (cases f; cases g) simp_all

lemma pass_get_put [simp]:
  "pass_get f (pass_put g xo p) = (if f = g then (case xo of None \<Rightarrow> pass_get f p | Some x \<Rightarrow> Some x) else pass_get f p)"
  by (simp add: pass_put_def split: option.split)

lemma floor_set_other [simp]:
  "pass_get g (floor_set f x p) = pass_get g p" "layers (floor_set f x p) = layers p"
  "gndPour (floor_set f x p) = gndPour p" "perNetMinWidth (floor_set f x p) = perNetMinWidth p"
  by (cases f; cases g; simp)+

lemma pass_put_other [simp]:
  "floor_get g (pass_put f xo p) = floor_get g p" "layers (pass_put f xo p) = layers p"
  "gndPour (pass_put f xo p) = gndPour p" "perNetMinWidth (pass_put f xo p) = perNetMinWidth p"
  "minTraceWidth (pass_put f xo p) = minTraceWidth p"
  by (cases f; cases g; cases xo; simp add: pass_put_def)+

lemma late_fields [simp]:
  "floor_get f (p\<lparr>layers := a\<rparr>) = floor_get f p" "floor_get f (p\<lparr>gndPour := b\<rparr>) = floor_get f p"
  "floor_get f (p\<lparr>perNetMinWidth := c\<rparr>) = floor_get f p"
  "pass_get g (p\<lparr>layers := a\<rparr>) = pass_get g p" "pass_get g (p\<lparr>gndPour := b\<rparr>) = pass_get g p"
  "pass_get g (p\<lparr>perNetMinWidth := c\<rparr>) = pass_get g p"
  by (cases f; cases g; simp)+

lemma resolve_floor_eq:
  "floor_get f p = floor_get f (fab_tiers t) \<Longrightarrow>
   resolve_floor raw t f (p, adj) = (floor_set f (chosen_floor raw t f) p, adj @ floor_note raw t f)"
  using floor_set_same [of f p "floor_get f (fab_tiers t)"]
  by (auto simp: resolve_floor_def chosen_floor_def floor_note_def Let_def max_def split: option.split)

lemma resolve_pass_eq:
  "resolve_pass raw f (p, adj) = (pass_put f (positive (obj_get (pass_name f) raw)) p, adj @ pass_note raw f)"
  by (auto simp: resolve_pass_def pass_put_def pass_note_def Let_def split: option.split)

definition loops :: "json \<Rightarrow> tier \<Rightarrow> fab_profile" where
  "loops raw t = fold (\<lambda>f. pass_put f (positive (obj_get (pass_name f) raw))) pass_fields
     (fold (\<lambda>f. floor_set f (chosen_floor raw t f)) floor_fields (fab_tiers t))"

definition loop_notes :: "json \<Rightarrow> tier \<Rightarrow> adjustment list" where
  "loop_notes raw t = concat (map (floor_note raw t) floor_fields) @ concat (map (pass_note raw) pass_fields)"

lemma loops_eq:
  "fold (resolve_pass raw) pass_fields (fold (resolve_floor raw t) floor_fields (fab_tiers t, adj)) =
     (loops raw t, adj @ loop_notes raw t)"
  by (simp add: floor_fields_def pass_fields_def resolve_floor_eq resolve_pass_eq loops_def loop_notes_def)

lemma loops_floor [simp]: "floor_get f (loops raw t) = chosen_floor raw t f"
  by (cases f) (simp_all add: loops_def floor_fields_def pass_fields_def
    cong: option.case_cong del: floor_set.simps pass_set.simps floor_get.simps pass_get.simps)

lemma loops_pass [simp]:
  "pass_get f (loops raw t) = (case positive (obj_get (pass_name f) raw) of None \<Rightarrow> pass_get f (fab_tiers t) | Some x \<Rightarrow> Some x)"
  by (cases f) (simp_all add: loops_def floor_fields_def pass_fields_def
    cong: option.case_cong del: floor_set.simps pass_set.simps floor_get.simps pass_get.simps)

lemma loops_late [simp]:
  "layers (loops raw t) = None" "gndPour (loops raw t) = Some True" "perNetMinWidth (loops raw t) = None"
  by (cases t; simp add: loops_def floor_fields_def pass_fields_def fab_tiers_def tier_profile_def)+

section \<open>The widths\<close>

definition kept_ok :: "rat \<Rightarrow> (string \<times> rat) list \<Rightarrow> bool" where
  "kept_ok least kept \<longleftrightarrow> distinct (map fst kept) \<and> (\<forall>(n, w) \<in> set kept. least \<le> w \<and> n \<noteq> ''__proto__'')"

lemma kept_ok_keep: "kept_ok least kept \<Longrightarrow> least \<le> w \<Longrightarrow> kept_ok least (keep n w kept)"
  by (auto simp: kept_ok_def keep_def dest!: set_assoc_set)

lemma keep_widths_ok:
  "kept_ok least kept \<Longrightarrow> kept_ok least (fst (keep_widths least kvs (kept, adj)))"
proof (induction kvs arbitrary: kept adj)
  case (Cons kv kvs)
  obtain n j where kv: "kv = (n, j)" by fastforce
  show ?case
    by (cases "positive j") (simp_all add: kv Cons.IH Cons.prems kept_ok_keep)
qed simp

lemma keep_widths_again:
  "kept_ok least (kept @ ws) \<Longrightarrow> \<forall>(n, w) \<in> set ws. 0 < w \<Longrightarrow>
   keep_widths least (map (\<lambda>(n, w). (n, JNum w)) ws) (kept, adj) = (kept @ ws, adj)"
proof (induction ws arbitrary: kept)
  case (Cons nw ws)
  obtain n w where nw: "nw = (n, w)" by fastforce
  have new: "n \<notin> fst ` set kept" "least \<le> w" "n \<noteq> ''__proto__''" "0 < w"
    using Cons.prems by (auto simp: kept_ok_def nw)
  have "assoc_set n w kept = kept @ [(n, w)]" using new(1) by (induction kept) auto
  then show ?case using Cons.IH [of "kept @ [(n, w)]"] Cons.prems new
    by (simp add: nw positive_def keep_def)
qed simp


section \<open>The profile in closed form\<close>

definition chosen_layers :: "json \<Rightarrow> rat option" where
  "chosen_layers raw = (case obj_get ''layers'' raw of JNum n \<Rightarrow> if n \<in> {1, 2, 4} then Some n else None | _ \<Rightarrow> None)"

definition layer_note :: "json \<Rightarrow> adjustment list" where
  "layer_note raw = (let j = obj_get ''layers'' raw in if j = JUndef \<or> chosen_layers raw \<noteq> None then [] else [Layers_refused j])"

definition chosen_pour :: "json \<Rightarrow> bool" where
  "chosen_pour raw = (case obj_get ''gndPour'' raw of JBool b \<Rightarrow> b | _ \<Rightarrow> True)"

definition pour_note :: "json \<Rightarrow> adjustment list" where
  "pour_note raw = (case obj_get ''gndPour'' raw of JUndef \<Rightarrow> [] | JBool b \<Rightarrow> [] | j \<Rightarrow> [Pour_not_boolean j])"

definition chosen_widths :: "rat \<Rightarrow> json \<Rightarrow> (string \<times> rat) list option" where
  "chosen_widths least raw =
     (case obj_get ''perNetMinWidthMm'' raw of
        JObj kvs \<Rightarrow> (let kept = fst (keep_widths least kvs ([], [])) in if kept = [] then None else Some kept)
      | _ \<Rightarrow> None)"

definition width_note :: "rat \<Rightarrow> json \<Rightarrow> adjustment list" where
  "width_note least raw =
     (case obj_get ''perNetMinWidthMm'' raw of
        JUndef \<Rightarrow> [] | JObj kvs \<Rightarrow> snd (keep_widths least kvs ([], [])) | _ \<Rightarrow> [Widths_not_object])"

lemma resolve_layers_eq:
  "layers p = None \<Longrightarrow> fst (resolve_layers raw (p, adj)) = (p\<lparr>layers := chosen_layers raw\<rparr>, adj @ layer_note raw)"
  by (cases "obj_get ''layers'' raw")
    (auto simp: resolve_layers_def chosen_layers_def layer_note_def Let_def)

lemma resolve_pour_eq:
  "gndPour p = Some True \<Longrightarrow> resolve_pour raw (p, adj) = (p\<lparr>gndPour := Some (chosen_pour raw)\<rparr>, adj @ pour_note raw)"
  by (cases "obj_get ''gndPour'' raw") (auto simp: resolve_pour_def chosen_pour_def pour_note_def Let_def)

lemma keep_widths_notes:
  "keep_widths least kvs (kept, adj) =
     (fst (keep_widths least kvs (kept, [])), adj @ snd (keep_widths least kvs (kept, [])))"
proof (induction kvs arbitrary: kept adj)
  case (Cons kv kvs)
  obtain n j where kv: "kv = (n, j)" by fastforce
  show ?case
  proof (cases "positive j")
    case None
    then show ?thesis using Cons.IH [of kept "adj @ [Width_not_positive n j]"] Cons.IH [of kept "[Width_not_positive n j]"]
      by (simp add: kv)
  next
    case (Some w)
    then show ?thesis
      using Cons.IH [of "keep n least kept" "adj @ [Width_raised n w least]"] Cons.IH [of "keep n least kept" "[Width_raised n w least]"]
        Cons.IH [of "keep n w kept" adj]
      by (simp add: kv)
  qed
qed simp

lemma resolve_widths_eq:
  assumes "perNetMinWidth p = None"
  shows "resolve_widths raw (p, adj) =
    (p\<lparr>perNetMinWidth := chosen_widths (minTraceWidth p) raw\<rparr>, adj @ width_note (minTraceWidth p) raw)"
proof -
  have "p\<lparr>perNetMinWidth := None\<rparr> = p" using assms by simp
  then show ?thesis
    by (cases "obj_get ''perNetMinWidthMm'' raw")
      (auto simp: resolve_widths_def chosen_widths_def width_note_def Let_def keep_widths_notes [of _ _ "[]" adj] split_beta)
qed

definition request :: "json \<Rightarrow> json" where
  "request input = (if input = JUndef \<or> input = JNull then JObj [] else input)"

lemma resolve_fab_profile_eq:
  assumes "raw = request input" "t = fst (resolve_tier raw)" "least = chosen_floor raw t Trace_width"
  shows "resolve_fab_profile input =
    \<lparr>res_profile = (loops raw t)\<lparr>layers := chosen_layers raw, gndPour := Some (chosen_pour raw),
       perNetMinWidth := chosen_widths least raw\<rparr>,
     res_tier = t,
     res_adjustments = snd (resolve_tier raw) @ loop_notes raw t @ layer_note raw @ pour_note raw @ width_note least raw,
     res_unsupportedLayers = snd (resolve_layers raw (loops raw t, snd (resolve_tier raw) @ loop_notes raw t))\<rparr>"
proof -
  have tw: "minTraceWidth p = floor_get Trace_width p" for p by simp
  have l: "minTraceWidth (loops raw t) = least" unfolding tw assms(3) by (rule loops_floor)
  have w: "resolve_widths raw ((loops raw t)\<lparr>layers := a, gndPour := b\<rparr>, adj) =
      ((loops raw t)\<lparr>layers := a, gndPour := b, perNetMinWidth := chosen_widths least raw\<rparr>, adj @ width_note least raw)" for a b adj
    using resolve_widths_eq [of "(loops raw t)\<lparr>layers := a, gndPour := b\<rparr>" raw adj] l by simp
  show ?thesis
    unfolding resolve_fab_profile_def Let_def request_def [symmetric] assms(1) [symmetric]
    by (simp add: split_beta assms(2) [symmetric] loops_eq resolve_layers_eq resolve_pour_eq w)
qed

section \<open>Properties\<close>

text \<open>What routing, the design rules and the exports may rely on, for a profile of the tier \<open>t\<close>.\<close>

definition complete :: "tier \<Rightarrow> fab_profile \<Rightarrow> bool" where
  "complete t p \<longleftrightarrow>
     (\<forall>f. floor_get f (fab_tiers t) \<le> floor_get f p \<and> 0 < floor_get f p) \<and>
     (\<forall>f. case pass_get f p of None \<Rightarrow> pass_get f (fab_tiers t) = None | Some x \<Rightarrow> 0 < x) \<and>
     layers p \<in> {None, Some 1, Some 2, Some 4} \<and> gndPour p \<noteq> None \<and>
     (case perNetMinWidth p of None \<Rightarrow> True | Some ws \<Rightarrow> ws \<noteq> [] \<and> kept_ok (minTraceWidth p) ws)"

lemma tier_positive: "0 < floor_get f (fab_tiers t)"
  by (cases f; cases t; simp add: fab_tiers_def tier_profile_def)

lemma tier_pass_positive: "pass_get f (fab_tiers t) = Some x \<Longrightarrow> 0 < x"
  by (cases f; cases t; simp add: fab_tiers_def tier_profile_def)


lemma positive_pos: "positive j = Some x \<Longrightarrow> 0 < x"
  by (simp add: positive_Some)

lemma chosen_floor_ge: "floor_get f (fab_tiers t) \<le> chosen_floor raw t f"
  by (simp add: chosen_floor_def split: option.split)

lemma chosen_widths_ok: "chosen_widths least raw = Some ws \<Longrightarrow> ws \<noteq> [] \<and> kept_ok least ws"
  using keep_widths_ok [of least "[]" _ "[]"] kept_ok_def [of least "[]"]
  by (auto simp: chosen_widths_def Let_def split: json.splits if_splits)

lemma resolved_complete:
  assumes "r = resolve_fab_profile input"
  shows "complete (res_tier r) (res_profile r)"
proof -
  define raw where "raw = request input"
  define t where "t = fst (resolve_tier raw)"
  define least where "least = chosen_floor raw t Trace_width"
  have tw: "minTraceWidth p = floor_get Trace_width p" for p by simp
  note r = assms [unfolded resolve_fab_profile_eq [OF raw_def t_def least_def]]
  have "minTraceWidth (res_profile r) = least" unfolding tw least_def r by simp
  moreover have "0 < chosen_floor raw t f" for f using less_le_trans [OF tier_positive chosen_floor_ge] .
  moreover have "case (case positive j of None \<Rightarrow> pass_get f (fab_tiers t) | Some x \<Rightarrow> Some x) of
      None \<Rightarrow> pass_get f (fab_tiers t) = None | Some x \<Rightarrow> 0 < x" for f j
    using tier_pass_positive [of f t] positive_pos [of j] by (auto split: option.split)
  ultimately show ?thesis
    using chosen_widths_ok [of least raw]
    by (auto simp: complete_def r chosen_floor_ge chosen_layers_def split: option.splits json.splits)
qed

text \<open>
  \<^bold>\<open>C21.\<close> Whatever a request holds, the resolved profile can be built and judged: the four limits are positive and
  never below those of the chosen tier, every other number is positive and none the tier sets is missing, the layer
  count is one the tools build, the width of a net is never under the board minimum, and the ground pour is off only
  when the request says \<open>false\<close>.
\<close>

theorem fab_profile_complete:
  "complete (res_tier (resolve_fab_profile input)) (res_profile (resolve_fab_profile input)) \<and>
   (gndPour (res_profile (resolve_fab_profile input)) = Some False \<longleftrightarrow> obj_get ''gndPour'' input = JBool False)"
proof
  show "complete (res_tier (resolve_fab_profile input)) (res_profile (resolve_fab_profile input))"
    using resolved_complete by blast
  have "obj_get ''gndPour'' (request input) = obj_get ''gndPour'' input" by (auto simp: request_def)
  then show "gndPour (res_profile (resolve_fab_profile input)) = Some False \<longleftrightarrow> obj_get ''gndPour'' input = JBool False"
    unfolding resolve_fab_profile_eq [OF refl refl refl] by (auto simp: chosen_pour_def split: json.splits)
qed

text \<open>A profile written as a request of its tier.\<close>

definition opt_json :: "('a \<Rightarrow> json) \<Rightarrow> 'a option \<Rightarrow> json" where
  "opt_json f x = (case x of None \<Rightarrow> JUndef | Some a \<Rightarrow> f a)"

definition as_request :: "tier \<Rightarrow> fab_profile \<Rightarrow> json" where
  "as_request t p = JObj ([(''tier'', JStr (tier_name t))] @
     map (\<lambda>f. (floor_name f, JNum (floor_get f p))) floor_fields @
     map (\<lambda>f. (pass_name f, opt_json JNum (pass_get f p))) pass_fields @
     [(''layers'', opt_json JNum (layers p)), (''gndPour'', opt_json JBool (gndPour p)),
      (''perNetMinWidthMm'', opt_json (\<lambda>ws. JObj (map (\<lambda>(n, w). (n, JNum w)) ws)) (perNetMinWidth p))])"

lemma as_request_get [simp]:
  "obj_get ''tier'' (as_request t p) = JStr (tier_name t)"
  "obj_get (floor_name f) (as_request t p) = JNum (floor_get f p)"
  "obj_get (pass_name g) (as_request t p) = opt_json JNum (pass_get g p)"
  "obj_get ''layers'' (as_request t p) = opt_json JNum (layers p)"
  "obj_get ''gndPour'' (as_request t p) = opt_json JBool (gndPour p)"
  "obj_get ''perNetMinWidthMm'' (as_request t p) = opt_json (\<lambda>ws. JObj (map (\<lambda>(n, w). (n, JNum w)) ws)) (perNetMinWidth p)"
  by (cases f; cases g; simp add: as_request_def floor_fields_def pass_fields_def)+

lemma profile_eqI:
  assumes "\<And>f. floor_get f p = floor_get f q" "\<And>f. pass_get f p = pass_get f q"
    "layers p = layers q" "gndPour p = gndPour q" "perNetMinWidth p = perNetMinWidth q"
  shows "p = (q :: fab_profile)"
  using assms(1) [of Trace_width] assms(1) [of Clearance] assms(1) [of Drill] assms(1) [of Annular]
    assms(2) [of Via_clearance] assms(2) [of Via_guard] assms(2) [of Copper] assms(2) [of Delta]
    assms(2) [of Grid] assms(2) [of Margin] assms(2) [of Silk_width] assms(2) [of Silk_height] assms(3-5)
  by simp

lemma resolve_complete:
  assumes "complete t p"
  shows "resolve_fab_profile (as_request t p) =
    \<lparr>res_profile = p, res_tier = t, res_adjustments = [], res_unsupportedLayers = None\<rparr>"
proof -
  let ?raw = "as_request t p"
  have raw: "?raw = request ?raw" by (simp add: request_def as_request_def)
  have t: "resolve_tier ?raw = (t, [])" by (cases t) (simp_all add: resolve_tier_def tier_name_def)
  have pos: "0 < floor_get f p" "floor_get f (fab_tiers t) \<le> floor_get f p" for f using assms by (simp_all add: complete_def)
  have fl: "chosen_floor ?raw t f = floor_get f p" "floor_note ?raw t f = []" for f
    using pos [of f] by (simp_all add: chosen_floor_def floor_note_def positive_def max_def)
  have pas: "(case positive (obj_get (pass_name f) ?raw) of None \<Rightarrow> pass_get f (fab_tiers t) | Some x \<Rightarrow> Some x) = pass_get f p"
    "pass_note ?raw f = []" for f
  proof -
    have c: "case pass_get f p of None \<Rightarrow> pass_get f (fab_tiers t) = None | Some x \<Rightarrow> 0 < x"
      using assms by (simp add: complete_def)
    show "(case positive (obj_get (pass_name f) ?raw) of None \<Rightarrow> pass_get f (fab_tiers t) | Some x \<Rightarrow> Some x) = pass_get f p"
      "pass_note ?raw f = []"
      using c by (cases "pass_get f p"; simp add: opt_json_def positive_def pass_note_def)+
  qed
  have l: "chosen_layers ?raw = layers p" "layer_note ?raw = []" "snd (resolve_layers ?raw st) = None" for st
    using assms by (cases st; auto simp: complete_def chosen_layers_def layer_note_def resolve_layers_def opt_json_def)+
  obtain b where "gndPour p = Some b" using assms by (auto simp: complete_def)
  then have g: "Some (chosen_pour ?raw) = gndPour p" "pour_note ?raw = []"
    by (simp_all add: chosen_pour_def pour_note_def opt_json_def)
  have w: "chosen_widths (minTraceWidth p) ?raw = perNetMinWidth p" "width_note (minTraceWidth p) ?raw = []"
  proof -
    have "keep_widths (minTraceWidth p) (map (\<lambda>(n, w). (n, JNum w)) ws) ([], []) = (ws, [])" "ws \<noteq> []"
      if "perNetMinWidth p = Some ws" for ws
    proof -
      have ok: "kept_ok (minTraceWidth p) ws" "ws \<noteq> []" using assms that by (simp_all add: complete_def)
      have "\<forall>(n, w) \<in> set ws. 0 < w"
        using ok(1) pos(1) [of Trace_width] by (auto simp: kept_ok_def intro: less_le_trans)
      then show "keep_widths (minTraceWidth p) (map (\<lambda>(n, w). (n, JNum w)) ws) ([], []) = (ws, [])" "ws \<noteq> []"
        using keep_widths_again [of "minTraceWidth p" "[]" ws] ok by simp_all
    qed
    then show "chosen_widths (minTraceWidth p) ?raw = perNetMinWidth p" "width_note (minTraceWidth p) ?raw = []"
      by (cases "perNetMinWidth p"; simp add: chosen_widths_def width_note_def opt_json_def)+
  qed
  have least: "minTraceWidth p = chosen_floor ?raw (fst (resolve_tier ?raw)) Trace_width" by (simp add: t fl)
  have "(loops ?raw t)\<lparr>layers := layers p, gndPour := gndPour p, perNetMinWidth := perNetMinWidth p\<rparr> = p"
    by (rule profile_eqI) (simp_all add: fl pas [simplified])
  then show ?thesis
    unfolding resolve_fab_profile_eq [OF raw refl least]
    by (simp add: t l g w loop_notes_def fl pas)
qed

text \<open>
  Resolving is done once and for all: the profile of any request, written as a request of its tier, resolves to
  itself, and nothing is left to adjust.
\<close>

theorem fab_profile_resolved_once:
  "resolve_fab_profile (as_request (res_tier (resolve_fab_profile input)) (res_profile (resolve_fab_profile input))) =
     (resolve_fab_profile input)\<lparr>res_adjustments := [], res_unsupportedLayers := None\<rparr>"
  using resolve_complete [OF resolved_complete [OF refl, of input]] by simp

text \<open>The request, field by field, is what the profile says.\<close>

definition verbatim :: "json \<Rightarrow> tier \<Rightarrow> fab_profile \<Rightarrow> bool" where
  "verbatim raw t p \<longleftrightarrow>
     obj_get ''tier'' raw \<in> {JUndef, JStr (tier_name t)} \<and>
     (\<forall>f. obj_get (floor_name f) raw \<in> {JUndef, JNum (floor_get f p)}) \<and>
     (\<forall>f. obj_get (pass_name f) raw \<in> {JUndef, opt_json JNum (pass_get f p)}) \<and>
     obj_get ''layers'' raw \<in> {JUndef, opt_json JNum (layers p)} \<and>
     obj_get ''gndPour'' raw \<in> {JUndef, opt_json JBool (gndPour p)} \<and>
     (case obj_get ''perNetMinWidthMm'' raw of
        JUndef \<Rightarrow> True
      | JObj kvs \<Rightarrow> \<forall>(n, j) \<in> set kvs. \<exists>w. j = JNum w \<and> minTraceWidth p \<le> w \<and>
          (n = ''__proto__'' \<or> (case perNetMinWidth p of None \<Rightarrow> False | Some ws \<Rightarrow> (n, w) \<in> set ws))
      | _ \<Rightarrow> False)"

lemma keep_widths_verbatim:
  assumes "distinct (map fst kvs)" "0 < least" "fst ` set kept \<inter> fst ` set kvs = {}" "distinct (map fst kept)"
  shows "snd (keep_widths least kvs (kept, [])) = [] \<longleftrightarrow>
    (\<forall>(n, j) \<in> set kvs. \<exists>w. j = JNum w \<and> least \<le> w \<and>
       (n = ''__proto__'' \<or> (n, w) \<in> set (fst (keep_widths least kvs (kept, [])))))" (is ?A)
    and "set kept \<subseteq> set (fst (keep_widths least kvs (kept, [])))" (is ?B)
proof -
  have "?A \<and> ?B" using assms
  proof (induction kvs arbitrary: kept)
    case (Cons kv kvs)
    obtain n j where kv: "kv = (n, j)" by fastforce
    have app: "assoc_set n w kept = kept @ [(n, w)]" for w
      using Cons.prems(3) by (induction kept) (auto simp: kv)
    show ?case
    proof (cases "positive j")
      case None
      have "j \<noteq> JNum w \<or> w < least" for w using None assms(2) by (auto simp: positive_def split: if_splits)
      moreover have "set kept \<subseteq> set (fst (keep_widths least kvs (kept, [])))" using Cons by simp
      ultimately show ?thesis
        using keep_widths_notes [of least kvs kept "[Width_not_positive n j]"] by (force simp: kv None)
    next
      case (Some w)
      have j: "j = JNum w" "0 < w" using Some by (simp_all add: positive_Some)
      define kept' where "kept' = keep n (max w least) kept"
      have k: "kept' = (if n = ''__proto__'' then kept else kept @ [(n, max w least)])" by (simp add: kept'_def keep_def app)
      have IH: "snd (keep_widths least kvs (kept', [])) = [] \<longleftrightarrow>
          (\<forall>(n, j) \<in> set kvs. \<exists>w. j = JNum w \<and> least \<le> w \<and>
             (n = ''__proto__'' \<or> (n, w) \<in> set (fst (keep_widths least kvs (kept', [])))))"
        "set kept' \<subseteq> set (fst (keep_widths least kvs (kept', [])))"
        using Cons.IH [of kept'] Cons.prems by (auto simp: k kv)
      show ?thesis
      proof (cases "w < least")
        case True
        then have "keep_widths least (kv # kvs) (kept, []) = keep_widths least kvs (kept', [Width_raised n w least])"
          by (simp add: kv Some kept'_def)
        moreover have "set kept \<subseteq> set kept'" by (auto simp: k)
        ultimately show ?thesis
          using keep_widths_notes [of least kvs kept' "[Width_raised n w least]"] IH(2) True by (auto simp: kv j)
      next
        case False
        then have e: "keep_widths least (kv # kvs) (kept, []) = keep_widths least kvs (kept', [])"
          by (simp add: kv Some kept'_def max_def)
        have "set kept \<subseteq> set kept'" "n = ''__proto__'' \<or> (n, w) \<in> set kept'" using False by (auto simp: k max_def)
        then show ?thesis unfolding e using IH False by (auto simp: kv j)
      qed
    qed
  qed simp
  then show ?A ?B by simp_all
qed

lemma concat_map_Nil: "concat (map f xs) = [] \<longleftrightarrow> (\<forall>x \<in> set xs. f x = [])"
  by auto

lemma every_field: "set floor_fields = UNIV" "set pass_fields = UNIV"
proof -
  have "f \<in> set floor_fields" "g \<in> set pass_fields" for f g
    by (cases f; cases g; simp add: floor_fields_def pass_fields_def)+
  then show "set floor_fields = UNIV" "set pass_fields = UNIV" by auto
qed

text \<open>
  Nothing is adjusted in silence and nothing without need: the list of adjustments of a request is empty exactly
  when the profile says, in every field the request supplies, what the request said.
\<close>

theorem fab_profile_discloses:
  assumes "json_wf input" "r = resolve_fab_profile input"
  shows "res_adjustments r = [] \<longleftrightarrow> verbatim (request input) (res_tier r) (res_profile r)"
proof -
  define raw where "raw = request input"
  define t where "t = fst (resolve_tier raw)"
  define least where "least = chosen_floor raw t Trace_width"
  note r = assms(2) [unfolded resolve_fab_profile_eq [OF raw_def t_def least_def]]
  have tw: "minTraceWidth p = floor_get Trace_width p" for p by simp
  have m: "minTraceWidth (res_profile r) = least" unfolding tw least_def r by simp
  have pw: "perNetMinWidth (res_profile r) = chosen_widths least raw" unfolding r by simp
  have pos: "0 < least" unfolding least_def using less_le_trans [OF tier_positive chosen_floor_ge] .
  have wf: "json_wf raw" using assms(1) by (simp add: raw_def request_def)
  have "snd (resolve_tier raw) = [] \<longleftrightarrow> obj_get ''tier'' raw \<in> {JUndef, JStr (tier_name t)}"
    by (auto simp: t_def resolve_tier_def tier_name_def Let_def)
  moreover have "floor_note raw t f = [] \<longleftrightarrow> obj_get (floor_name f) raw \<in> {JUndef, JNum (chosen_floor raw t f)}" for f
    using tier_positive [of f t]
    by (cases "obj_get (floor_name f) raw") (auto simp: floor_note_def chosen_floor_def positive_def Let_def max_def)
  moreover have "pass_note raw f = [] \<longleftrightarrow> obj_get (pass_name f) raw \<in> {JUndef, opt_json JNum (pass_get f (loops raw t))}" for f
    using tier_pass_positive [of f t]
    by (cases "obj_get (pass_name f) raw"; cases "pass_get f (fab_tiers t)")
      (auto simp: pass_note_def opt_json_def positive_def Let_def split: if_splits)
  moreover have "layer_note raw = [] \<longleftrightarrow> obj_get ''layers'' raw \<in> {JUndef, opt_json JNum (chosen_layers raw)}"
    by (cases "obj_get ''layers'' raw") (auto simp: layer_note_def chosen_layers_def opt_json_def Let_def)
  moreover have "pour_note raw = [] \<longleftrightarrow> obj_get ''gndPour'' raw \<in> {JUndef, JBool (chosen_pour raw)}"
    by (cases "obj_get ''gndPour'' raw") (auto simp: pour_note_def chosen_pour_def)
  moreover have "width_note least raw = [] \<longleftrightarrow>
     (case obj_get ''perNetMinWidthMm'' raw of
        JUndef \<Rightarrow> True
      | JObj kvs \<Rightarrow> \<forall>(n, j) \<in> set kvs. \<exists>w. j = JNum w \<and> least \<le> w \<and>
          (n = ''__proto__'' \<or> (case chosen_widths least raw of None \<Rightarrow> False | Some ws \<Rightarrow> (n, w) \<in> set ws))
      | _ \<Rightarrow> False)"
  proof (cases "obj_get ''perNetMinWidthMm'' raw")
    case (JObj kvs)
    have "distinct (map fst kvs)"
      using wf JObj by (cases raw) (auto split: option.splits dest!: map_of_SomeD)
    from keep_widths_verbatim(1) [OF this pos, of "[]"] show ?thesis
      by (simp add: width_note_def chosen_widths_def JObj Let_def)
  qed (simp_all add: width_note_def)
  ultimately show ?thesis
    unfolding verbatim_def raw_def [symmetric] m pw
    by (simp add: r loop_notes_def every_field concat_map_Nil opt_json_def [of JBool] conj_assoc del: concat_eq_Nil_conv loops_pass)
qed

section \<open>A request\<close>

definition demo_request :: json where
  "demo_request = JObj [(''tier'', JStr ''standard''), (''minTraceWidthMm'', JNum (2 / 10)), (''layers'', JNum 4),
     (''perNetMinWidthMm'', JObj [(''GND'', JNum 1)])]"

theorem fab_profile_discloses_witness:
  "verbatim (request demo_request) (res_tier (resolve_fab_profile demo_request)) (res_profile (resolve_fab_profile demo_request))"
proof -
  have "res_adjustments (resolve_fab_profile demo_request) = []" by code_simp
  moreover have "json_wf demo_request" by code_simp
  ultimately show ?thesis using fab_profile_discloses [OF _ refl, of demo_request] by simp
qed

text \<open>The height below which text is a finding is fixed in the rules, whatever the profile says.\<close>

lemma text_height_ignores_profile:
  "obj_get ''min_text_height'' (obj_get ''rules'' (obj_get ''design_settings'' (obj_get ''board''
     (kicad_project_json (p\<lparr>minSilkTextHeight := Some h\<rparr>))))) = JNum (8 / 10)"
  by (simp add: kicad_project_json_def)

end
