(* ===== verification/Downsample.thy ===== *)
theory Downsample
  imports Json "HOL-Library.Log_Nat"
begin

text \<open>
  The decimation of a waveform, \<open>packages/eda-core/src/utils/downsample.ts\<close>. The bounds of the buckets are
  products and quotients of doubles, and whether a point falls into a bucket depends on how they are rounded:
  \<open>to_double\<close> is that rounding. The coordinates of the points are only compared, and are rationals here.
\<close>

section \<open>Doubles\<close>

definition round_even :: "rat \<Rightarrow> int" where
  "round_even x =
     (let f = \<lfloor>x\<rfloor>; r = x - of_int f
      in if r < 1 / 2 then f else if 1 / 2 < r then f + 1 else if even f then f else f + 1)"

text \<open>The double nearest to \<open>x\<close>, ties to even, for the numbers that occur: zero, and from one to \<open>2 ^ 53\<close>.\<close>

definition double_scale :: "rat \<Rightarrow> nat" where
  "double_scale x = 53 - floorlog 2 (nat \<lfloor>x\<rfloor>)"

definition to_double :: "rat \<Rightarrow> rat" where
  "to_double x = of_int (round_even (x * 2 ^ double_scale x)) / 2 ^ double_scale x"

section \<open>The source\<close>

record data_point =
  dp_x :: rat
  dp_y :: rat

definition bucket_start :: "nat \<Rightarrow> nat \<Rightarrow> nat \<Rightarrow> nat" where
  "bucket_start n buckets b = nat \<lfloor>to_double (of_nat b * to_double (of_nat n / of_nat buckets))\<rfloor>"

text \<open>The scan of a bucket, over points with their indices: two points are the same object when their indices are equal.\<close>

fun scan :: "(nat \<times> data_point) list \<Rightarrow> (nat \<times> data_point) \<times> (nat \<times> data_point) \<Rightarrow> (nat \<times> data_point) \<times> (nat \<times> data_point)" where
  "scan [] best = best"
| "scan (p # ps) (least, most) =
     scan ps ((if dp_y (snd p) < dp_y (snd least) then p else least), (if dp_y (snd most) < dp_y (snd p) then p else most))"

definition emit :: "(nat \<times> data_point) \<times> (nat \<times> data_point) \<Rightarrow> data_point list" where
  "emit best = (case best of (least, most) \<Rightarrow>
     if fst least = fst most then [snd least]
     else if dp_x (snd least) \<le> dp_x (snd most) then [snd least, snd most] else [snd most, snd least])"

definition bucket :: "data_point list \<Rightarrow> nat \<Rightarrow> nat \<Rightarrow> data_point list" where
  "bucket inner s e =
     (if e \<le> s then []
      else (let seg = zip [s..<e] (take (e - s) (drop s inner)) in emit (scan (tl seg) (hd seg, hd seg))))"

definition point_cap :: "rat \<Rightarrow> nat" where
  "point_cap m = nat (max 4 \<lfloor>m\<rfloor>)"

definition downsample_points :: "data_point list \<Rightarrow> rat \<Rightarrow> data_point list" where
  "downsample_points points m =
     (let cap = point_cap m in
      if length points \<le> cap then points
      else (let buckets = max 1 ((cap - 2) div 2);
                inner = butlast (tl points);
                n = length inner
            in hd points #
               concat (map (\<lambda>b. bucket inner (bucket_start n buckets b) (min n (bucket_start n buckets (b + 1)))) [0..<buckets]) @
               [last points]))"

record data_series =
  se_points :: "data_point list"
  se_rest :: json

record sim_result =
  sr_pointsCount :: nat
  sr_downsampledFrom :: "nat option"
  sr_meta :: json
  sr_series :: "data_series list"

definition downsample_result :: "sim_result \<Rightarrow> rat \<Rightarrow> sim_result" where
  "downsample_result r m =
     (let series = map (\<lambda>s. s\<lparr>se_points := downsample_points (se_points s) m\<rparr>) (sr_series r)
      in if list_all2 (\<lambda>s t. length (se_points t) \<le> length (se_points s)) series (sr_series r) then r
         else r\<lparr>sr_pointsCount := (case series of [] \<Rightarrow> 0 | s # _ \<Rightarrow> length (se_points s)),
                sr_downsampledFrom := Some (sr_pointsCount r), sr_series := series\<rparr>)"

section \<open>What the rounding keeps\<close>

lemma round_even_near: "\<bar>of_int (round_even x) - x\<bar> \<le> 1 / 2"
  unfolding round_even_def Let_def by (auto simp: abs_if) linarith+

lemma round_even_int [simp]: "round_even (of_int k) = k"
  by (simp add: round_even_def)

lemma round_even_mono: "x \<le> y \<Longrightarrow> round_even x \<le> round_even y"
proof (cases "\<lfloor>x\<rfloor> = \<lfloor>y\<rfloor>")
  case True
  then show "x \<le> y \<Longrightarrow> ?thesis" by (auto simp: round_even_def Let_def)
next
  case False
  assume "x \<le> y"
  then have "\<lfloor>x\<rfloor> + 1 \<le> \<lfloor>y\<rfloor>" using floor_mono [of x y] False by simp
  moreover have "round_even x \<le> \<lfloor>x\<rfloor> + 1" "\<lfloor>y\<rfloor> \<le> round_even y" by (auto simp: round_even_def Let_def)
  ultimately show ?thesis by simp
qed

lemma round_even_le: "x \<le> of_int k \<Longrightarrow> round_even x \<le> k"
  using round_even_mono [of x "of_int k"] by simp

lemma round_even_ge: "of_int k \<le> x \<Longrightarrow> k \<le> round_even x"
  using round_even_mono [of "of_int k" x] by simp

definition bits :: "rat \<Rightarrow> nat" where
  "bits x = floorlog 2 (nat \<lfloor>x\<rfloor>)"

lemma below_bits: "0 \<le> x \<Longrightarrow> x < 2 ^ bits x"
proof -
  assume "0 \<le> x"
  have "nat \<lfloor>x\<rfloor> < 2 ^ bits x" unfolding bits_def by (rule floorlog_leD) simp_all
  then have "\<lfloor>x\<rfloor> < 2 ^ bits x" using \<open>0 \<le> x\<close> by (simp add: nat_less_iff)
  then have "x < of_int (2 ^ bits x)" by (simp only: floor_less_iff)
  then show ?thesis by simp
qed

lemma above_bits: "1 \<le> x \<Longrightarrow> 2 ^ (bits x - 1) \<le> x"
proof -
  assume "1 \<le> x"
  then have "1 \<le> \<lfloor>x\<rfloor>" by simp
  then have "2 ^ (bits x - 1) \<le> nat \<lfloor>x\<rfloor>" using floorlog_bounds [of "nat \<lfloor>x\<rfloor>" 2] by (simp add: bits_def)
  then have "2 ^ (bits x - 1) \<le> \<lfloor>x\<rfloor>" using \<open>1 \<le> \<lfloor>x\<rfloor>\<close> by (simp add: le_nat_iff)
  then have "of_int (2 ^ (bits x - 1)) \<le> x" by (simp only: le_floor_iff)
  then show ?thesis by simp
qed

lemma bits_mono: "x \<le> y \<Longrightarrow> bits x \<le> bits y"
  unfolding bits_def by (rule floorlog_mono) (simp add: floor_mono nat_mono)

lemma bits_pos: "1 \<le> x \<Longrightarrow> 1 \<le> bits x"
  using below_bits [of x] by (cases "bits x") simp_all

lemma to_double_error:
  assumes "1 \<le> x" "x < 2 ^ 53"
  shows "\<bar>to_double x - x\<bar> \<le> x / 2 ^ 53"
proof -
  let ?s = "double_scale x"
  have "bits x \<le> 53"
    unfolding bits_def floorlog_le_iff using assms by (simp add: nat_less_iff floor_less_iff)
  then have s: "?s + bits x = 53" by (simp add: double_scale_def bits_def)
  have "(to_double x - x) * 2 ^ ?s = of_int (round_even (x * 2 ^ ?s)) - x * 2 ^ ?s"
    by (simp add: to_double_def left_diff_distrib)
  then have "\<bar>to_double x - x\<bar> * 2 ^ ?s = \<bar>of_int (round_even (x * 2 ^ ?s)) - x * 2 ^ ?s\<bar>"
    by (metis abs_mult abs_of_nonneg zero_le_numeral zero_le_power)
  also have "\<dots> \<le> 1 / 2" by (rule round_even_near)
  finally have "\<bar>to_double x - x\<bar> * 2 ^ ?s \<le> 1 / 2" .
  then have "\<bar>to_double x - x\<bar> * 2 ^ ?s * 2 ^ bits x \<le> 1 / 2 * 2 ^ bits x" by (rule mult_right_mono) simp
  then have "\<bar>to_double x - x\<bar> * 2 ^ 53 \<le> 2 ^ (bits x - 1)"
    using bits_pos [OF assms(1)] by (simp add: mult.assoc power_add [symmetric] s power_diff)
  also have "\<dots> \<le> x" by (rule above_bits [OF assms(1)])
  finally show ?thesis by (simp add: pos_le_divide_eq)
qed

lemma to_double_mono:
  assumes "0 \<le> x" "x \<le> y"
  shows "to_double x \<le> to_double y"
proof (cases "double_scale x = double_scale y")
  case True
  have "round_even (x * 2 ^ double_scale y) \<le> round_even (y * 2 ^ double_scale y)"
    using assms by (intro round_even_mono mult_right_mono) simp_all
  then show ?thesis by (simp add: to_double_def True divide_right_mono)
next
  case False
  have "bits x \<le> bits y" using assms(2) by (rule bits_mono)
  then have b: "bits x < bits y" "bits x < 53" using False by (auto simp: double_scale_def bits_def)
  have s: "double_scale x + bits x = 53" using b(2) by (simp add: double_scale_def bits_def)
  have "x * 2 ^ double_scale x \<le> 2 ^ bits x * 2 ^ double_scale x"
    using below_bits [OF assms(1)] by (intro mult_right_mono) simp_all
  also have "\<dots> = of_int (2 ^ (double_scale x + bits x))" by (simp add: power_add)
  also have "\<dots> = of_int (2 ^ 53)" unfolding s ..
  finally have "round_even (x * 2 ^ double_scale x) \<le> 2 ^ 53" by (rule round_even_le)
  then have "(of_int (round_even (x * 2 ^ double_scale x)) :: rat) \<le> 2 ^ 53"
    by (metis of_int_le_iff of_int_numeral of_int_power)
  then have "to_double x \<le> 2 ^ bits x"
    using s by (simp add: to_double_def divide_le_eq power_add [symmetric] add.commute)
  also have "\<dots> \<le> to_double y"
  proof -
    have "1 \<le> y"
    proof (rule ccontr)
      assume "\<not> 1 \<le> y"
      then have "nat \<lfloor>y\<rfloor> = 0" by simp
      then show False using b(1) by (simp add: bits_def floorlog_def)
    qed
    then have y: "2 ^ (bits y - 1) \<le> y" by (rule above_bits)
    have "(2 :: rat) ^ bits x \<le> 2 ^ (bits y - 1)" using b(1) by (intro power_increasing) simp_all
    from order_trans [OF this y] have "of_int (2 ^ (bits x + double_scale y)) \<le> y * 2 ^ double_scale y"
      by (simp add: power_add mult_right_mono)
    then have "2 ^ (bits x + double_scale y) \<le> round_even (y * 2 ^ double_scale y)" by (rule round_even_ge)
    then have "(2 :: rat) ^ (bits x + double_scale y) \<le> of_int (round_even (y * 2 ^ double_scale y))"
      by (metis of_int_le_iff of_int_numeral of_int_power)
    then show ?thesis by (simp add: to_double_def le_divide_eq power_add)
  qed
  finally show ?thesis .
qed

section \<open>The buckets\<close>

lemma bucket_start_0 [simp]: "bucket_start n B 0 = 0"
  by (simp add: bucket_start_def to_double_def round_even_def)

lemma to_double_nonneg: "0 \<le> x \<Longrightarrow> 0 \<le> to_double x"
  using to_double_mono [of 0 x] by (simp add: to_double_def round_even_def)

lemma bucket_start_mono: "b \<le> c \<Longrightarrow> bucket_start n B b \<le> bucket_start n B c"
  unfolding bucket_start_def
  by (intro nat_mono floor_mono to_double_mono mult_right_mono) (simp_all add: to_double_nonneg)

text \<open>The rounding may move the end of the last bucket one point down, and not further.\<close>

lemma last_bucket_end:
  assumes "1 \<le> B" "B \<le> n" "n < 2 ^ 50"
  shows "n \<le> bucket_start n B B + 1"
proof -
  define q :: rat where "q = of_nat n / of_nat B"
  define u :: rat where "u = 1 / 2 ^ 53"
  have u: "0 \<le> u" "u \<le> 1" by (simp_all add: u_def)
  have n: "(of_nat n :: rat) < 2 ^ 50" using assms(3) by (metis of_nat_less_iff of_nat_numeral of_nat_power)
  have q: "1 \<le> q" "q \<le> of_nat n" using assms(1,2) by (simp_all add: q_def le_divide_eq divide_le_eq)
  have "\<bar>to_double q - q\<bar> \<le> q * u" using to_double_error [of q] q n by (simp add: u_def)
  then have tq: "q * (1 - u) \<le> to_double q" "to_double q \<le> q * (1 + u)" by (simp_all add: abs_le_iff algebra_simps)
  define p where "p = of_nat B * to_double q"
  have nB: "of_nat B * q = of_nat n" using assms(1) by (simp add: q_def)
  have "of_nat B * (q * (1 - u)) \<le> p" "p \<le> of_nat B * (q * (1 + u))" unfolding p_def using tq by (simp_all add: mult_left_mono)
  then have p: "of_nat n * (1 - u) \<le> p" "p \<le> of_nat n * (1 + u)" by (simp_all add: mult.assoc [symmetric] nB)
  have nu: "of_nat n * u \<le> 1 / 8" using n by (simp add: u_def)
  show ?thesis
  proof (cases "1 \<le> p")
    case True
    have "p < 2 ^ 53" using p(2) n nu by (simp add: algebra_simps)
    then have "\<bar>to_double p - p\<bar> \<le> p * u" using to_double_error [OF True] by (simp add: u_def)
    moreover have "p * u \<le> 1 / 4"
    proof -
      have "p * u \<le> (of_nat n * (1 + u)) * u" using p(2) u(1) by (rule mult_right_mono)
      also have "\<dots> = (of_nat n * u) * (1 + u)" by simp
      also have "\<dots> \<le> 1 / 8 * 2" using nu u by (intro mult_mono) simp_all
      finally show ?thesis by simp
    qed
    ultimately have "of_nat n - 1 \<le> to_double p" using p(1) nu by (simp add: abs_le_iff algebra_simps)
    then have "int n - 1 \<le> \<lfloor>to_double p\<rfloor>" by (simp add: le_floor_iff)
    then show ?thesis by (simp add: bucket_start_def p_def q_def)
  next
    case False
    then have "of_nat n * (1 - u) < 1" using p(1) by simp
    then have "(of_nat n :: rat) < 2" using nu by (simp add: algebra_simps)
    then show ?thesis by simp
  qed
qed

lemma crossing: "f 0 = 0 \<Longrightarrow> k < f B \<Longrightarrow> \<exists>b < B. f b \<le> k \<and> k < f (Suc b)" for f :: "nat \<Rightarrow> nat"
proof (induction B)
  case (Suc B)
  show ?case
  proof (cases "k < f B")
    case True
    then show ?thesis using Suc by (meson less_SucI)
  next
    case False
    then show ?thesis using Suc.prems by (intro exI [of _ B]) simp
  qed
qed simp

lemma scan_chosen:
  "fst (scan ps best) \<in> insert (fst best) (set ps)" "snd (scan ps best) \<in> insert (snd best) (set ps)"
  by (induction ps best rule: scan.induct) (auto split: if_splits)

lemma scan_least:
  "dp_y (snd (fst (scan ps best))) \<le> dp_y (snd (fst best)) \<and>
   (\<forall>p \<in> set ps. dp_y (snd (fst (scan ps best))) \<le> dp_y (snd p))"
proof (induction ps best rule: scan.induct)
  case (2 q ps least most)
  let ?l = "if dp_y (snd q) < dp_y (snd least) then q else least"
  have "dp_y (snd ?l) \<le> dp_y (snd least)" "dp_y (snd ?l) \<le> dp_y (snd q)" by simp_all
  then show ?case using 2 by (auto intro: order_trans)
qed simp

lemma scan_most:
  "dp_y (snd (snd best)) \<le> dp_y (snd (snd (scan ps best))) \<and>
   (\<forall>p \<in> set ps. dp_y (snd p) \<le> dp_y (snd (snd (scan ps best))))"
proof (induction ps best rule: scan.induct)
  case (2 q ps least most)
  let ?m = "if dp_y (snd most) < dp_y (snd q) then q else most"
  have "dp_y (snd most) \<le> dp_y (snd ?m)" "dp_y (snd q) \<le> dp_y (snd ?m)" by simp_all
  then show ?case using 2 by (auto intro: order_trans)
qed simp


lemma zip_seg: "e \<le> length xs \<Longrightarrow> zip [s..<e] (take (e - s) (drop s xs)) = map (\<lambda>i. (i, xs ! i)) [s..<e]"
  by (rule nth_equalityI) simp_all

text \<open>The points a bucket emits are its own, at most two, in the order of \<open>x\<close>, and enclose the others.\<close>

lemma bucket_cases:
  assumes "s < e" "e \<le> length inner"
  obtains least most where "least \<in> {s..<e}" "most \<in> {s..<e}"
    "bucket inner s e = (if least = most then [inner ! least]
       else if dp_x (inner ! least) \<le> dp_x (inner ! most) then [inner ! least, inner ! most] else [inner ! most, inner ! least])"
    "\<And>k. k \<in> {s..<e} \<Longrightarrow> dp_y (inner ! least) \<le> dp_y (inner ! k) \<and> dp_y (inner ! k) \<le> dp_y (inner ! most)"
proof -
  let ?seg = "map (\<lambda>i. (i, inner ! i)) [s..<e]"
  let ?b = "scan (tl ?seg) (hd ?seg, hd ?seg)"
  have seg: "?seg = hd ?seg # tl ?seg" using assms(1) by simp
  have "fst ?b \<in> set ?seg" "snd ?b \<in> set ?seg"
    using scan_chosen [of "tl ?seg" "(hd ?seg, hd ?seg)"] by (subst seg; simp; blast)+
  then obtain l m where lm: "l \<in> {s..<e}" "m \<in> {s..<e}" "?b = ((l, inner ! l), (m, inner ! m))"
    by (cases ?b) auto
  have "\<forall>p \<in> set ?seg. dp_y (inner ! l) \<le> dp_y (snd p) \<and> dp_y (snd p) \<le> dp_y (inner ! m)"
    using scan_least [of "tl ?seg" "(hd ?seg, hd ?seg)"] scan_most [of "(hd ?seg, hd ?seg)" "tl ?seg"]
    unfolding lm(3) by (subst seg) simp
  moreover have "bucket inner s e = emit ((l, inner ! l), (m, inner ! m))"
    using assms by (simp add: bucket_def zip_seg lm(3))
  ultimately show thesis using that [OF lm(1,2)] by (simp add: emit_def)
qed

lemma bucket_empty [simp]: "e \<le> s \<Longrightarrow> bucket inner s e = []"
  by (simp add: bucket_def)

lemma bucket_length: "e \<le> length inner \<Longrightarrow> length (bucket inner s e) \<le> 2"
  by (cases "s < e") (auto elim: bucket_cases)

lemma bucket_member:
  assumes "q \<in> set (bucket inner s e)" "e \<le> length inner"
  shows "\<exists>k. s \<le> k \<and> k < e \<and> q = inner ! k"
proof (cases "s < e")
  case True
  obtain l m where "l \<in> {s..<e}" "m \<in> {s..<e}" "set (bucket inner s e) \<subseteq> {inner ! l, inner ! m}"
    by (rule bucket_cases [OF True assms(2)]) (auto split: if_splits)
  then show ?thesis using assms(1) by auto
next
  case False
  then show ?thesis using assms(1) by simp
qed

lemma bucket_encloses:
  assumes "s \<le> k" "k < e" "e \<le> length inner"
  shows "(\<exists>q \<in> set (bucket inner s e). dp_y q \<le> dp_y (inner ! k)) \<and> (\<exists>q \<in> set (bucket inner s e). dp_y (inner ! k) \<le> dp_y q)"
proof -
  have "s < e" using assms by simp
  from this assms(3) show ?thesis
  proof (rule bucket_cases)
    fix l m
    assume b: "bucket inner s e = (if l = m then [inner ! l]
        else if dp_x (inner ! l) \<le> dp_x (inner ! m) then [inner ! l, inner ! m] else [inner ! m, inner ! l])"
      and y: "\<And>k. k \<in> {s..<e} \<Longrightarrow> dp_y (inner ! l) \<le> dp_y (inner ! k) \<and> dp_y (inner ! k) \<le> dp_y (inner ! m)"
    have "set (bucket inner s e) = {inner ! l, inner ! m}" unfolding b by auto
    then show ?thesis using y [of k] assms(1,2) by simp
  qed
qed

lemma bucket_sorted: "e \<le> length inner \<Longrightarrow> sorted (map dp_x (bucket inner s e))"
  by (cases "s < e") (auto elim!: bucket_cases)

section \<open>The whole\<close>

definition buckets_of :: "data_point list \<Rightarrow> nat \<Rightarrow> nat \<Rightarrow> data_point list" where
  "buckets_of inner B c = concat (map (\<lambda>b. bucket inner (bucket_start (length inner) B b)
     (min (length inner) (bucket_start (length inner) B (b + 1)))) [0..<c])"

lemma buckets_of_Suc [simp]:
  "buckets_of inner B (Suc c) = buckets_of inner B c @ bucket inner (bucket_start (length inner) B c)
     (min (length inner) (bucket_start (length inner) B (Suc c)))"
  by (simp add: buckets_of_def)

lemma buckets_of_0 [simp]: "buckets_of inner B 0 = []"
  by (simp add: buckets_of_def)

lemma buckets_length: "length (buckets_of inner B c) \<le> 2 * c"
proof (induction c)
  case (Suc c)
  have "length (bucket inner (bucket_start (length inner) B c) (min (length inner) (bucket_start (length inner) B (Suc c)))) \<le> 2"
    by (rule bucket_length) simp
  then show ?case using Suc by simp
qed simp

lemma buckets_member:
  "q \<in> set (buckets_of inner B c) \<Longrightarrow> \<exists>k. k < length inner \<and> k < bucket_start (length inner) B c \<and> q = inner ! k"
proof (induction c)
  case (Suc c)
  let ?s = "bucket_start (length inner) B c" and ?e = "bucket_start (length inner) B (Suc c)"
  have m: "?s \<le> ?e" by (rule bucket_start_mono) simp
  consider "q \<in> set (buckets_of inner B c)" | "q \<in> set (bucket inner ?s (min (length inner) ?e))" using Suc.prems by auto
  then show ?case
  proof cases
    case 1
    then show ?thesis using Suc.IH m by (meson less_le_trans)
  next
    case 2
    then show ?thesis using bucket_member [OF 2] by auto
  qed
qed simp

lemma buckets_sorted:
  assumes "sorted (map dp_x inner)"
  shows "sorted (map dp_x (buckets_of inner B c))"
proof (induction c)
  case (Suc c)
  let ?s = "bucket_start (length inner) B c" and ?e = "min (length inner) (bucket_start (length inner) B (Suc c))"
  have "dp_x p \<le> dp_x q" if p: "p \<in> set (buckets_of inner B c)" and q: "q \<in> set (bucket inner ?s ?e)" for p q
  proof -
    obtain i where i: "i < ?s" "p = inner ! i" using buckets_member [OF p] by auto
    obtain j where j: "?s \<le> j" "j < length inner" "q = inner ! j" using bucket_member [OF q] by auto
    show ?thesis using sorted_nth_mono [OF assms, of i j] i j by simp
  qed
  then show ?case using Suc bucket_sorted [of ?e inner ?s] by (simp add: sorted_append)
qed simp

lemma buckets_enclose:
  assumes "k < bucket_start (length inner) B B" "k < length inner"
  shows "(\<exists>q \<in> set (buckets_of inner B B). dp_y q \<le> dp_y (inner ! k)) \<and> (\<exists>q \<in> set (buckets_of inner B B). dp_y (inner ! k) \<le> dp_y q)"
proof -
  obtain b where b: "b < B" "bucket_start (length inner) B b \<le> k" "k < bucket_start (length inner) B (Suc b)"
    using crossing [of "bucket_start (length inner) B" k B] assms(1) by auto
  let ?b = "bucket inner (bucket_start (length inner) B b) (min (length inner) (bucket_start (length inner) B (Suc b)))"
  have "set ?b \<subseteq> set (buckets_of inner B B)" using b(1) by (auto simp: buckets_of_def)
  moreover have "(\<exists>q \<in> set ?b. dp_y q \<le> dp_y (inner ! k)) \<and> (\<exists>q \<in> set ?b. dp_y (inner ! k) \<le> dp_y q)"
    by (rule bucket_encloses) (use b assms in simp_all)
  ultimately show ?thesis by blast
qed

lemma downsample_eq:
  assumes "\<not> length points \<le> point_cap m" "inner = butlast (tl points)" "B = max 1 ((point_cap m - 2) div 2)"
  shows "downsample_points points m = hd points # buckets_of inner B B @ [last points]"
  using assms by (simp add: downsample_points_def Let_def buckets_of_def)

lemma point_cap_ge: "4 \<le> point_cap m"
  by (simp add: point_cap_def)

lemma split_points:
  assumes "2 \<le> length points"
  shows "points = hd points # butlast (tl points) @ [last points]"
  using assms by (cases points) auto

lemma downsample_sizes:
  assumes "\<not> length points \<le> point_cap m" "inner = butlast (tl points)" "B = max 1 ((point_cap m - 2) div 2)"
  shows "1 \<le> B" "B \<le> length inner" "2 * B + 2 \<le> point_cap m" "length points = length inner + 2"
  using assms point_cap_ge [of m] by auto

text \<open>
  A decimated waveform fits and is honest: it has no more points than asked for (and at least four are
  always allowed), only points of the waveform, its first and its last point among them, and it never doubles back
  on the axis when the waveform does not.
\<close>

theorem downsample_fits:
  assumes "sorted (map dp_x points)" "out = downsample_points points m"
  shows "length out \<le> point_cap m \<and> set out \<subseteq> set points \<and> sorted (map dp_x out) \<and>
    (points = [] \<or> hd out = hd points \<and> last out = last points)"
proof (cases "length points \<le> point_cap m")
  case True
  then show ?thesis using assms by (auto simp: downsample_points_def)
next
  case False
  define inner where "inner = butlast (tl points)"
  define B where "B = max 1 ((point_cap m - 2) div 2)"
  note sizes = downsample_sizes [OF False inner_def B_def]
  have out: "out = hd points # buckets_of inner B B @ [last points]"
    unfolding assms(2) using downsample_eq [OF False inner_def B_def] .
  have p: "points = hd points # inner @ [last points]"
    unfolding inner_def by (rule split_points) (use sizes in simp)
  have sub: "set (buckets_of inner B B) \<subseteq> set inner" using buckets_member by fastforce
  have "sorted (map dp_x (hd points # inner @ [last points]))" using assms(1) p by simp
  then have s: "sorted (map dp_x inner)" "\<forall>q \<in> set inner. dp_x (hd points) \<le> dp_x q \<and> dp_x q \<le> dp_x (last points)"
    "dp_x (hd points) \<le> dp_x (last points)"
    by (auto simp: sorted_append)
  have "sorted (map dp_x out)"
    using buckets_sorted [OF s(1), of B B] s(2,3) sub by (auto simp: out sorted_append)
  moreover have "set out \<subseteq> set (hd points # inner @ [last points])" using sub by (auto simp: out)
  then have "set out \<subseteq> set points" unfolding p [symmetric] .
  moreover have "length out \<le> point_cap m" using buckets_length [of inner B B] sizes by (simp add: out)
  ultimately show ?thesis by (simp add: out)
qed

text \<open>
  \<^bold>\<open>C22.\<close> Peaks and glitches survive the decimation: for every point of the waveform the decimated one has a point at
  least as high and one at least as low. The one exception is the point before the last, which the rounding of the
  bucket bounds may leave out.
\<close>

theorem downsample_keeps_extremes:
  assumes "k < length points" "k + 2 \<noteq> length points" "length points < 2 ^ 50"
  shows "(\<exists>q \<in> set (downsample_points points m). dp_y q \<le> dp_y (points ! k)) \<and>
    (\<exists>q \<in> set (downsample_points points m). dp_y (points ! k) \<le> dp_y q)"
proof (cases "length points \<le> point_cap m")
  case True
  then show ?thesis using assms by (auto simp: downsample_points_def)
next
  case False
  define inner where "inner = butlast (tl points)"
  define B where "B = max 1 ((point_cap m - 2) div 2)"
  note sizes = downsample_sizes [OF False inner_def B_def]
  have p: "points = hd points # inner @ [last points]"
    unfolding inner_def by (rule split_points) (use sizes in simp)
  have out: "downsample_points points m = hd points # buckets_of inner B B @ [last points]"
    using downsample_eq [OF False inner_def B_def] .
  consider "k = 0" | "k = length inner + 1" | "1 \<le> k" "k < length inner" using assms(1,2) sizes(4) by linarith
  then show ?thesis
  proof cases
    case 1
    then show ?thesis using out p by (metis hd_conv_nth list.distinct(1) list.set_intros(1) order_refl)
  next
    case 2
    have "points ! k = last points" using 2 by (subst p) (simp add: nth_append)
    then show ?thesis by (simp add: out)
  next
    case 3
    have "points ! k = inner ! (k - 1)" using 3 by (subst p) (simp add: nth_append)
    moreover have "length inner \<le> bucket_start (length inner) B B + 1"
      by (rule last_bucket_end) (use sizes assms(3) in simp_all)
    then have "k - 1 < bucket_start (length inner) B B" using 3 by simp
    ultimately show ?thesis using buckets_enclose [of "k - 1" inner B] 3 by (auto simp: out)
  qed
qed

section \<open>Waveforms\<close>

definition spike_at :: "nat \<Rightarrow> nat \<Rightarrow> data_point list" where
  "spike_at k n = map (\<lambda>i. \<lparr>dp_x = of_nat i, dp_y = (if i = k then 1 else 0)\<rparr>) [0..<n]"

theorem downsample_fits_witness: "length (downsample_points (spike_at 3 9) 4) \<le> 4"
proof -
  have "sorted (map dp_x (spike_at 3 9))" by code_simp
  moreover have "point_cap 4 = 4" by code_simp
  ultimately show ?thesis using downsample_fits [OF _ refl, of "spike_at 3 9" 4] by simp
qed

theorem downsample_keeps_extremes_witness: "\<exists>q \<in> set (downsample_points (spike_at 3 9) 4). 1 \<le> dp_y q"
proof -
  have "dp_y (spike_at 3 9 ! 3) = 1" "length (spike_at 3 9) = 9" by (simp_all add: spike_at_def)
  with downsample_keeps_extremes [of 3 "spike_at 3 9" 4] show ?thesis by auto
qed

text \<open>
  The exception happens: of 63 points decimated to 16 the quotient \<open>61 / 7\<close> rounds down, seven times it is below 61,
  and a spike at the point before the last is gone.
\<close>

lemma rounded_bucket: "bucket_start 61 7 7 = 60"
  by code_simp

lemma penultimate_peak_lost: "\<forall>q \<in> set (downsample_points (spike_at 61 63) 16). dp_y q = 0"
proof
  let ?ps = "spike_at 61 63"
  let ?inner = "butlast (tl ?ps)"
  fix q assume "q \<in> set (downsample_points ?ps 16)"
  moreover have cap: "point_cap 16 = 16" by code_simp
  moreover have len: "length ?ps = 63" "length ?inner = 61" by (simp_all add: spike_at_def)
  ultimately have "q \<in> set (hd ?ps # buckets_of ?inner 7 7 @ [last ?ps])"
    by (subst (asm) downsample_eq [OF _ refl refl]) simp_all
  then consider "q = hd ?ps" | "q \<in> set (buckets_of ?inner 7 7)" | "q = last ?ps" by auto
  then show "dp_y q = 0"
  proof cases
    case 1
    then show ?thesis by (simp add: spike_at_def hd_map)
  next
    case 2
    obtain k where "k < 60" "q = ?inner ! k" using buckets_member [OF 2] by (auto simp: len rounded_bucket)
    then show ?thesis by (simp add: spike_at_def nth_butlast nth_tl)
  next
    case 3
    then show ?thesis by (simp add: spike_at_def last_map)
  qed
qed

end
