(* ===== verification/Semaphore.thy ===== *)
theory Semaphore
  imports Complex_Main Prelude
begin

text \<open>
  The counting semaphore of the simulation worker, \<open>apps/worker-sim/src/util/semaphore.ts\<close>, which bounds the
  simulator processes that run at once. A promise that waits is the caller it belongs to. The callers are
  the steps of \<open>pool_step\<close>: one arrives, or one that holds a permit finishes, with or without an error.
\<close>

section \<open>The class\<close>

record 'w semaphore =
  permits :: nat
  waiters :: "'w list"

text \<open>The argument of the constructor is \<open>None\<close> when it is not finite.\<close>

definition new_semaphore :: "rat option \<Rightarrow> 'w semaphore" where
  "new_semaphore p = \<lparr>permits = (case p of None \<Rightarrow> 1 | Some x \<Rightarrow> nat (max 1 \<lfloor>x\<rfloor>)), waiters = []\<rparr>"

text \<open>\<open>True\<close>: the caller holds a permit at once.\<close>

definition acquire :: "'w \<Rightarrow> 'w semaphore \<Rightarrow> bool \<times> 'w semaphore" where
  "acquire w s =
     (if 0 < permits s then (True, s\<lparr>permits := permits s - 1\<rparr>)
      else (False, s\<lparr>waiters := waiters s @ [w]\<rparr>))"

text \<open>The caller the permit is handed to, if one waits.\<close>

definition release :: "'w semaphore \<Rightarrow> 'w option \<times> 'w semaphore" where
  "release s =
     (case waiters s of
        w # ws \<Rightarrow> (Some w, s\<lparr>waiters := ws\<rparr>)
      | [] \<Rightarrow> (None, s\<lparr>permits := permits s + 1\<rparr>))"

section \<open>Callers\<close>

text \<open>\<open>run\<close>: acquire, hold, release. The logs record who arrived and who was let in, in order.\<close>

record 'w pool =
  sem :: "'w semaphore"
  holders :: "'w list"
  arrived :: "'w list"
  let_in :: "'w list"

definition idle_pool :: "rat option \<Rightarrow> 'w pool" where
  "idle_pool p = \<lparr>sem = new_semaphore p, holders = [], arrived = [], let_in = []\<rparr>"

definition arrive :: "'w \<Rightarrow> 'w pool \<Rightarrow> 'w pool" where
  "arrive w p =
     (let (got, s) = acquire w (sem p);
          p' = p\<lparr>sem := s, arrived := arrived p @ [w]\<rparr>
      in if got then p'\<lparr>holders := w # holders p, let_in := let_in p @ [w]\<rparr> else p')"

definition finish_run :: "'w \<Rightarrow> 'w pool \<Rightarrow> 'w pool" where
  "finish_run w p =
     (let (next, s) = release (sem p);
          p' = p\<lparr>sem := s, holders := remove1 w (holders p)\<rparr>
      in case next of None \<Rightarrow> p' | Some v \<Rightarrow> p'\<lparr>holders := v # holders p', let_in := let_in p @ [v]\<rparr>)"

inductive pool_step :: "'w pool \<Rightarrow> 'w pool \<Rightarrow> bool" where
  Arrive: "pool_step p (arrive w p)"
| Leave: "w \<in> set (holders p) \<Longrightarrow> pool_step p (finish_run w p)"

inductive_cases pool_stepE: "pool_step p p'"

definition pool_ok :: "nat \<Rightarrow> 'w pool \<Rightarrow> bool" where
  "pool_ok c p \<longleftrightarrow> length (holders p) + permits (sem p) = c \<and> (waiters (sem p) = [] \<or> permits (sem p) = 0) \<and>
     let_in p @ waiters (sem p) = arrived p"

definition capacity :: "rat option \<Rightarrow> nat" where
  "capacity p = permits (new_semaphore p :: unit semaphore)"

lemma permits_new [simp]: "permits (new_semaphore p) = capacity p" "waiters (new_semaphore p) = []"
  by (simp_all add: new_semaphore_def capacity_def)

lemma capacity_pos: "1 \<le> capacity p"
  by (cases p) (simp_all add: capacity_def new_semaphore_def nat_le_eq_zle flip: nat_1 One_nat_def)

lemma idle_ok: "pool_ok (capacity p) (idle_pool p)"
  by (simp add: pool_ok_def idle_pool_def)

lemma arrive_ok: "pool_ok c p \<Longrightarrow> pool_ok c (arrive w p)"
  by (auto simp: pool_ok_def arrive_def acquire_def Let_def)

lemma finish_run_ok:
  assumes "pool_ok c p" "w \<in> set (holders p)"
  shows "pool_ok c (finish_run w p)"
proof -
  have "Suc (length (remove1 w (holders p))) = length (holders p)"
    using assms(2) by (simp add: length_remove1) (metis Suc_pred length_pos_if_in_set)
  then show ?thesis using assms(1)
    by (auto simp: pool_ok_def finish_run_def release_def Let_def split: list.split)
qed

lemma step_ok: "pool_step p p' \<Longrightarrow> pool_ok c p \<Longrightarrow> pool_ok c p'"
  by (elim pool_stepE) (simp_all add: arrive_ok finish_run_ok)

lemma run_ok: "pool_step\<^sup>*\<^sup>* p p' \<Longrightarrow> pool_ok c p \<Longrightarrow> pool_ok c p'"
  by (induction rule: rtranclp_induct) (auto intro: step_ok)

text \<open>\<open>k\<close> callers leave, one after the other.\<close>

inductive leavings :: "nat \<Rightarrow> 'w pool \<Rightarrow> 'w pool \<Rightarrow> bool" where
  None_left: "leavings 0 p p"
| One_left: "leavings k p p' \<Longrightarrow> w \<in> set (holders p') \<Longrightarrow> leavings (Suc k) p (finish_run w p')"

lemma leaving_waiters: "waiters (sem (finish_run w p)) = drop 1 (waiters (sem p))"
  by (simp add: finish_run_def release_def Let_def split: list.split)

lemma leavings_waiters: "leavings k p p' \<Longrightarrow> waiters (sem p') = drop k (waiters (sem p))"
  by (induction rule: leavings.induct) (simp_all add: leaving_waiters)

lemma leavings_run: "leavings k p p' \<Longrightarrow> pool_step\<^sup>*\<^sup>* p p'"
  by (induction rule: leavings.induct) (auto intro: rtranclp.rtrancl_into_rtrancl pool_step.Leave)

lemma leaving_arrived: "arrived (finish_run w p) = arrived p"
  by (simp add: finish_run_def release_def Let_def split: list.split)

lemma leavings_arrived: "leavings k p p' \<Longrightarrow> arrived p' = arrived p"
  by (induction rule: leavings.induct) (simp_all add: leaving_arrived)

section \<open>Properties\<close>

text \<open>
  \<^bold>\<open>C23.\<close> Whatever number it is given, the semaphore bounds the work and never starves it: after any sequence of
  arrivals and leavings at most as many callers hold a permit as there are permits, a caller waits only when
  every permit is held, and the callers are let in in the order they arrived.
\<close>

theorem semaphore_bounds_and_fair:
  assumes "pool_step\<^sup>*\<^sup>* (idle_pool n) p"
  shows "length (holders p) \<le> capacity n \<and> 1 \<le> capacity n \<and>
    (waiters (sem p) = [] \<or> length (holders p) = capacity n) \<and>
    let_in p = take (length (let_in p)) (arrived p)"
proof -
  have ok: "pool_ok (capacity n) p" using run_ok [OF assms idle_ok] .
  then have "arrived p = let_in p @ waiters (sem p)" by (simp add: pool_ok_def)
  then have "let_in p = take (length (let_in p)) (arrived p)" by simp
  then show ?thesis using ok capacity_pos [of n] by (auto simp: pool_ok_def)
qed

text \<open>
  No permit is lost: a caller with \<open>i\<close> others before it in the queue has been let in after \<open>i + 1\<close> callers
  left, whoever they were.
\<close>

theorem semaphore_lets_in:
  assumes "pool_step\<^sup>*\<^sup>* (idle_pool n) p" "i < length (waiters (sem p))" "leavings (Suc i) p p'"
  shows "waiters (sem p) ! i \<in> set (let_in p')"
proof -
  let ?ws = "waiters (sem p)"
  have p: "pool_ok (capacity n) p" using run_ok [OF assms(1) idle_ok] .
  then have "pool_ok (capacity n) p'" by (rule run_ok [OF leavings_run [OF assms(3)]])
  then have "let_in p' @ drop (Suc i) ?ws = let_in p @ ?ws"
    using p leavings_waiters [OF assms(3)] leavings_arrived [OF assms(3)] by (simp add: pool_ok_def)
  also have "\<dots> = (let_in p @ take (Suc i) ?ws) @ drop (Suc i) ?ws" by simp
  finally have "let_in p' = let_in p @ take (Suc i) ?ws" by (rule append_same_eq [THEN iffD1])
  then show ?thesis using assms(2) by (simp add: take_Suc_conv_app_nth)
qed

section \<open>One permit\<close>

definition demo_pool :: "string pool" where
  "demo_pool = arrive ''c'' (arrive ''b'' (arrive ''a'' (idle_pool (Some (1 / 2)))))"

lemma arrives: "pool_step\<^sup>*\<^sup>* p q \<Longrightarrow> pool_step\<^sup>*\<^sup>* p (arrive w q)"
  using pool_step.Arrive by (rule rtranclp.rtrancl_into_rtrancl [rotated])

lemma demo_pool_run: "pool_step\<^sup>*\<^sup>* (idle_pool (Some (1 / 2))) demo_pool"
  unfolding demo_pool_def by (intro arrives) (rule rtranclp.rtrancl_refl)

theorem semaphore_bounds_and_fair_witness:
  "waiters (sem demo_pool) = [''b'', ''c''] \<and> length (holders demo_pool) = 1"
proof -
  have "waiters (sem demo_pool) = [''b'', ''c'']" "capacity (Some (1 / 2)) = 1" by code_simp+
  with semaphore_bounds_and_fair [OF demo_pool_run] show ?thesis by simp
qed

theorem semaphore_lets_in_witness:
  "\<exists>p'. leavings 2 demo_pool p' \<and> ''c'' \<in> set (let_in p')"
proof -
  let ?p = "finish_run ''a'' demo_pool"
  let ?q = "finish_run ''b'' ?p"
  have "leavings (Suc (Suc 0)) demo_pool ?q"
    by (intro leavings.intros) code_simp+
  moreover have "waiters (sem demo_pool) = [''b'', ''c'']" by code_simp
  ultimately show ?thesis using semaphore_lets_in [OF demo_pool_run, of 1 ?q] by (auto simp: numeral_2_eq_2)
qed

end
