(* ===== verification/Sanitizer.thy ===== *)
theory Sanitizer
  imports Parts "HOL-Library.Sublist"
begin

text \<open>
  \<open>eda-core/src/netlist/sanitizer.ts\<close>: the names a net may have in a SPICE deck, and the gate every deck
  passes before the simulator runs it. An exception is a value of \<open>security_error\<close>; a check answers
  \<open>None\<close> when the code returns. The regular expressions are written out as matchers.
\<close>

section \<open>Splitting text\<close>

text \<open>\<open>split(sep)\<close> for a separator of one character, and \<open>split(/\s+/)\<close> of a trimmed text.\<close>

fun split_on :: "char \<Rightarrow> string \<Rightarrow> string list" where
  "split_on sep [] = [[]]"
| "split_on sep (c # cs) =
     (if c = sep then [] # split_on sep cs
      else (case split_on sep cs of [] \<Rightarrow> [[c]] | w # ws \<Rightarrow> (c # w) # ws))"

function js_words :: "string \<Rightarrow> string list" where
  "js_words s =
     (case dropWhile js_space s of
        [] \<Rightarrow> []
      | c # cs \<Rightarrow> (c # takeWhile (\<lambda>x. \<not> js_space x) cs) # js_words (dropWhile (\<lambda>x. \<not> js_space x) cs))"
  by pat_completeness auto
termination
proof (relation "measure length")
  fix s :: string and c cs
  assume "dropWhile js_space s = c # cs"
  then have "length (c # cs) \<le> length s" by (metis length_dropWhile_le)
  then show "(dropWhile (\<lambda>x. \<not> js_space x) cs, s) \<in> measure length"
    using length_dropWhile_le [of "\<lambda>x. \<not> js_space x" cs] by simp
qed simp

declare js_words.simps [simp del]

lemma split_on_not_Nil [simp]: "split_on sep s \<noteq> []"
  by (induction s) (auto split: list.splits)

lemma split_on_sublist: "w \<in> set (split_on sep s) \<Longrightarrow> sublist w s"
proof -
  have "\<exists>w ws. split_on sep s = w # ws \<and> prefix w s \<and> (\<forall>v \<in> set ws. sublist v s)"
  proof (induction s)
    case Nil
    then show ?case by simp
  next
    case (Cons c s)
    then obtain w ws where *: "split_on sep s = w # ws" "prefix w s" "\<forall>v \<in> set ws. sublist v s" by blast
    then show ?case by (auto simp: sublist_Cons_right)
  qed
  then show "w \<in> set (split_on sep s) \<Longrightarrow> ?thesis" by auto
qed

section \<open>Node names\<close>

definition reserved_words :: "string list" where
  "reserved_words = [''all'', ''none'', ''in'', ''out'', ''vcc'', ''vdd'', ''vss'', ''gnd'', ''ground'']"

definition ngspice_operators :: "string list" where
  "ngspice_operators = [''eq'', ''ne'', ''gt'', ''lt'', ''ge'', ''le'', ''and'', ''or'', ''not'']"

definition sanitize_node_name :: "string \<Rightarrow> string" where
  "sanitize_node_name s =
     (let s0 = map (\<lambda>c. if is_word c then c else CHR ''_'') s;
          s1 = (case s0 of [] \<Rightarrow> [] | c # _ \<Rightarrow> if is_digit c then CHR ''n'' # s0 else s0);
          s2 = (if js_lower s1 \<in> set reserved_words then ''x_'' @ s1 else s1);
          s3 = (if s2 = [] then ''node'' else s2);
          s4 = (if \<not> prefix ''n'' s3 \<and> \<not> prefix ''x_'' s3 then CHR ''n'' # s3 else s3)
      in if js_lower s4 \<in> set ngspice_operators then ''x_'' @ s4 else s4)"

section \<open>Paths and commands\<close>

datatype security_error =
    Absolute_path string
  | Path_traversal string
  | Special_prefix string
  | Invalid_chars string
  | Dangerous_command string

text \<open>\<open>validateIncludePath\<close> (the directory of the job is not looked at).\<close>

definition path_char :: "char \<Rightarrow> bool" where
  "path_char c \<longleftrightarrow> is_word c \<or> c \<in> {CHR ''-'', CHR ''.'', CHR ''/''}"

definition drive_prefix :: "string \<Rightarrow> bool" where
  "drive_prefix p = (case p of c # d # _ \<Rightarrow> is_letter c \<and> d = CHR '':'' | _ \<Rightarrow> False)"

definition validate_include_path :: "string \<Rightarrow> security_error option" where
  "validate_include_path p =
     (if prefix ''/'' p \<or> drive_prefix p then Some (Absolute_path p)
      else if sublist ''..'' p then Some (Path_traversal p)
      else if prefix ''~'' p \<or> prefix ''$'' p then Some (Special_prefix p)
      else if p = [] \<or> \<not> list_all path_char p then Some (Invalid_chars p)
      else None)"

fun validate_include_paths :: "string list \<Rightarrow> security_error option" where
  "validate_include_paths [] = None"
| "validate_include_paths (p # ps) =
     (case validate_include_path p of Some e \<Rightarrow> Some e | None \<Rightarrow> validate_include_paths ps)"

definition dangerous_commands :: "string list" where
  "dangerous_commands =
     [''shell'', ''system'', ''source'', ''exec'', ''cd'', ''load'', ''osdi'', ''codemodel'', ''pre_osdi'']"

definition file_path_commands :: "string list" where
  "file_path_commands = [''wrdata'', ''write'', ''wrs'', ''sconvert'', ''rawfile'']"

definition is_quote :: "char \<Rightarrow> bool" where
  "is_quote c \<longleftrightarrow> c = CHR 0x22 \<or> c = CHR 0x27"

text \<open>\<open>/\.include\s+["']?([^"'\s]+)["']?/i\<close> at a position, and at the first position where it matches.\<close>

definition include_here :: "string \<Rightarrow> string option" where
  "include_here s =
     (if js_lower (take 8 s) = ''.include''
      then (case drop 8 s of
              [] \<Rightarrow> None
            | w # r \<Rightarrow>
                if js_space w
                then (let rest = dropWhile js_space r;
                          target = takeWhile (\<lambda>c. \<not> is_quote c \<and> \<not> js_space c)
                            (case rest of [] \<Rightarrow> [] | q # t \<Rightarrow> if is_quote q then t else rest)
                      in if target = [] then None else Some target)
                else None)
      else None)"

fun include_target :: "string \<Rightarrow> string option" where
  "include_target [] = None"
| "include_target (c # cs) =
     (case include_here (c # cs) of Some p \<Rightarrow> Some p | None \<Rightarrow> include_target cs)"

definition strip_quotes :: "string \<Rightarrow> string" where
  "strip_quotes s =
     (let t = (case s of [] \<Rightarrow> [] | c # cs \<Rightarrow> if is_quote c then cs else s)
      in if t \<noteq> [] \<and> is_quote (last t) then butlast t else t)"

definition strip_dot :: "string \<Rightarrow> string" where
  "strip_dot s = (case s of [] \<Rightarrow> [] | c # cs \<Rightarrow> if c = CHR ''.'' then cs else s)"

definition first_token :: "string \<Rightarrow> string" where
  "first_token line = js_lower (case js_words (js_trim line) of [] \<Rightarrow> [] | t # _ \<Rightarrow> t)"

definition line_command :: "string \<Rightarrow> string" where
  "line_command line = strip_dot (first_token line)"

definition line_argument :: "string \<Rightarrow> string option" where
  "line_argument line = (case js_words (js_trim line) of _ # a # _ \<Rightarrow> Some (strip_quotes a) | _ \<Rightarrow> None)"

definition or_else_check :: "'e option \<Rightarrow> 'e option \<Rightarrow> 'e option" where
  "or_else_check a b = (case a of Some e \<Rightarrow> Some e | None \<Rightarrow> b)"

definition check_line :: "string \<Rightarrow> security_error option" where
  "check_line line =
     (let trimmed = js_trim line; cmd = line_command line in
      if trimmed = [] \<or> prefix ''*'' trimmed then None
      else if cmd \<in> set dangerous_commands then Some (Dangerous_command (first_token line))
      else or_else_check
        (if cmd = ''include'' then (case include_target line of Some p \<Rightarrow> validate_include_path p | None \<Rightarrow> None)
         else None)
        (if cmd \<in> set file_path_commands
         then (case line_argument line of Some p \<Rightarrow> validate_include_path p | None \<Rightarrow> None)
         else None))"

fun check_lines :: "string list \<Rightarrow> security_error option" where
  "check_lines [] = None"
| "check_lines (l # ls) = (case check_line l of Some e \<Rightarrow> Some e | None \<Rightarrow> check_lines ls)"

definition sanitize_netlist :: "string \<Rightarrow> security_error + string" where
  "sanitize_netlist s = (case check_lines (split_on (CHR 0x0A) s) of Some e \<Rightarrow> Inl e | None \<Rightarrow> Inr s)"

text \<open>\<open>sanitizeValue\<close>, \<open>validateDesignator\<close> and \<open>hasShellMetacharacters\<close>.\<close>

definition value_char :: "char \<Rightarrow> bool" where
  "value_char c \<longleftrightarrow> is_alnum c \<or> js_space c \<or> c \<in> set ''()+-.,_''"

definition sanitize_value :: "string \<Rightarrow> string" where
  "sanitize_value s = js_trim (filter value_char s)"

definition validate_designator :: "string \<Rightarrow> bool" where
  "validate_designator s =
     (case s of [] \<Rightarrow> False | c # r \<Rightarrow> is_letter c \<and> list_all is_alnum r \<and> ends_in_digit r)"

definition shell_meta :: "char \<Rightarrow> bool" where
  "shell_meta c \<longleftrightarrow> c \<in> set '';&|`$<>!#{}[]*?'' \<or> c = CHR 0x5C \<or> is_quote c"

definition has_shell_metacharacters :: "string \<Rightarrow> bool" where
  "has_shell_metacharacters s = list_ex shell_meta s"


section \<open>What a node is called\<close>

text \<open>
  A name the simulator reads as one node: not empty, made of word characters, and not one of its operators.
  The names it reserves are avoided but for one: \<open>one\<close> is prefixed into \<open>none\<close>.
\<close>

definition legal_node :: "string \<Rightarrow> bool" where
  "legal_node s \<longleftrightarrow>
     s \<noteq> [] \<and> list_all is_word s \<and> (prefix ''n'' s \<or> prefix ''x_'' s) \<and> js_lower s \<notin> set ngspice_operators"

lemma reserved_n: "js_lower (CHR ''n'' # t) \<in> set reserved_words \<longleftrightarrow> js_lower t = ''one''"
  by (auto simp: reserved_words_def js_lower_def lower_char_def is_upper_def code_def)

lemma reserved_x: "js_lower (CHR ''x'' # t) \<notin> set reserved_words"
  by (auto simp: reserved_words_def js_lower_def lower_char_def is_upper_def code_def)

lemma operator_x: "js_lower (CHR ''x'' # t) \<notin> set ngspice_operators"
  by (auto simp: ngspice_operators_def js_lower_def lower_char_def is_upper_def code_def)


definition word_only :: "string \<Rightarrow> string" where
  "word_only = map (\<lambda>c. if is_word c then c else CHR ''_'')"

lemma word_only_words: "list_all is_word (word_only s)"
  by (auto simp: word_only_def list_all_iff is_word_def)

lemma word_only_one: "js_lower (word_only s) = ''one'' \<longleftrightarrow> js_lower s = ''one''"
proof -
  have *: "lower_char (if is_word c then c else CHR ''_'') = x \<longleftrightarrow> lower_char c = x" if "x \<in> {CHR ''o'', CHR ''n'', CHR ''e''}" for c x
  proof (cases "is_word c")
    case False
    then have "\<not> is_upper c \<and> \<not> is_lower c" by (auto simp: is_word_def is_letter_def)
    then have "code (lower_char c) = code c \<and> lower_char c = c \<or> 224 \<le> code (lower_char c)"
      by (auto simp: lower_char_def)
    then have "lower_char c \<noteq> x"
      using that \<open>\<not> is_upper c \<and> \<not> is_lower c\<close> by (auto simp: is_lower_def code_def)
    then show ?thesis using False that by (auto simp: lower_char_def is_upper_def code_def)
  qed simp
  show ?thesis
    by (cases s; cases "tl s"; cases "tl (tl s)") (auto simp: js_lower_def word_only_def *)
qed


lemma first_digit_not_one: "is_digit c \<Longrightarrow> js_lower (c # t) \<noteq> ''one''"
  by (auto simp: js_lower_def is_digit_def code_def)

lemma legal_name:
  "legal_node (sanitize_node_name s) \<and>
   (js_lower (sanitize_node_name s) \<in> set reserved_words \<longleftrightarrow> js_lower s = ''one'')"
proof -
  define s0 where "s0 = word_only s"
  define s1 where "s1 = (case s0 of [] \<Rightarrow> [] | c # _ \<Rightarrow> if is_digit c then CHR ''n'' # s0 else s0)"
  define s2 where "s2 = (if js_lower s1 \<in> set reserved_words then ''x_'' @ s1 else s1)"
  define s3 where "s3 = (if s2 = [] then ''node'' else s2)"
  define s4 where "s4 = (if \<not> prefix ''n'' s3 \<and> \<not> prefix ''x_'' s3 then CHR ''n'' # s3 else s3)"
  have res: "sanitize_node_name s = (if js_lower s4 \<in> set ngspice_operators then ''x_'' @ s4 else s4)"
    unfolding sanitize_node_name_def s4_def s3_def s2_def s1_def s0_def word_only_def Let_def by simp
  have w: "is_word (CHR ''n'')" "is_word (CHR ''x'')" "is_word (CHR ''_'')" "is_word (CHR ''o'')" "is_word (CHR ''d'')" "is_word (CHR ''e'')"
    by (simp_all add: is_word_def is_letter_def is_lower_def code_def)
  have w1: "list_all is_word s1" unfolding s1_def using word_only_words [of s] w by (auto simp: s0_def split: list.splits)
  have w4: "list_all is_word s4"
    unfolding s4_def s3_def s2_def using w1 w by simp
  have start: "prefix ''n'' s4 \<or> prefix ''x_'' s4" unfolding s4_def by simp
  have legal: "legal_node (sanitize_node_name s)"
    unfolding res legal_node_def using w4 w start operator_x by auto
  have reserved: "js_lower s4 \<in> set reserved_words \<longleftrightarrow> js_lower s = ''one''"
  proof
    assume r: "js_lower s4 \<in> set reserved_words"
    then have "\<not> prefix ''x_'' s4" using reserved_x by (auto simp: prefix_def)
    show "js_lower s = ''one''"
    proof (cases "prefix ''n'' s3 \<or> prefix ''x_'' s3")
      case True
      then have "s4 = s3" by (auto simp: s4_def)
      then have "s3 = s2" using r by (auto simp: s3_def reserved_words_def js_lower_def lower_char_def is_upper_def code_def)
      then have "s2 = s1" "js_lower s1 \<notin> set reserved_words"
        using \<open>\<not> prefix ''x_'' s4\<close> \<open>s4 = s3\<close> by (auto simp: s2_def split: if_splits)
      then show ?thesis using r \<open>s4 = s3\<close> \<open>s3 = s2\<close> by simp
    next
      case False
      then have "js_lower s3 = ''one''" using r by (simp add: s4_def reserved_n)
      then have "s3 = s2" by (auto simp: s3_def js_lower_def lower_char_def is_upper_def code_def)
      have "s2 = s1" using False \<open>s3 = s2\<close> by (auto simp: s2_def split: if_splits)
      have "s1 = s0" using False \<open>s3 = s2\<close> \<open>s2 = s1\<close> by (auto simp: s1_def split: list.splits if_splits)
      then show ?thesis using \<open>js_lower s3 = ''one''\<close> \<open>s3 = s2\<close> \<open>s2 = s1\<close> word_only_one by (simp add: s0_def)
    qed
  next
    assume "js_lower s = ''one''"
    then have l: "js_lower s0 = ''one''" by (simp add: s0_def word_only_one)
    then have "s1 = s0" unfolding s1_def using first_digit_not_one by (auto split: list.splits)
    moreover have "js_lower s0 \<notin> set reserved_words" using l by (simp add: reserved_words_def)
    ultimately have "s3 = s0" using l by (auto simp: s2_def s3_def js_lower_def)
    moreover have "\<not> prefix ''n'' s0" "\<not> prefix ''x_'' s0"
      using l by (auto simp: prefix_def js_lower_def lower_char_def is_upper_def code_def)
    ultimately have "s4 = CHR ''n'' # s0" by (simp add: s4_def)
    then show "js_lower s4 \<in> set reserved_words" using l by (simp add: reserved_n)
  qed
  have "js_lower s4 \<in> set ngspice_operators \<Longrightarrow> js_lower s \<noteq> ''one''"
    using reserved by (auto simp: reserved_words_def ngspice_operators_def)
  then show ?thesis using legal reserved reserved_x unfolding res by auto
qed

text \<open>
  Every net gets a name the simulator reads as one node, whatever its id is, and the name is one of
  the words it reserves only for the id \<open>one\<close>.
\<close>

theorem node_names_legal:
  "legal_node (sanitize_node_name s) \<and>
   (js_lower (sanitize_node_name s) \<in> set reserved_words \<longleftrightarrow> js_lower s = ''one'')"
  by (rule legal_name)

lemma one_becomes_reserved: "sanitize_node_name ''one'' = ''none'' \<and> sanitize_node_name ''none'' = ''x_none''"
  by code_simp


section \<open>What an accepted deck may touch\<close>

text \<open>
  A path as the file system resolves it from the directory \<open>d\<close>, a list of names from the root: empty
  segments and \<open>.\<close> stay, \<open>..\<close> goes up. A confined path ends below \<open>d\<close>, whatever \<open>d\<close> is.
\<close>

fun walk :: "string list \<Rightarrow> string list \<Rightarrow> string list" where
  "walk d [] = d"
| "walk d (g # gs) = walk (if g = [] \<or> g = ''.'' then d else if g = ''..'' then butlast d else d @ [g]) gs"

definition resolve :: "string list \<Rightarrow> string \<Rightarrow> string list" where
  "resolve d p = walk (if prefix ''/'' p then [] else d) (split_on (CHR ''/'') p)"

definition confined :: "string \<Rightarrow> bool" where
  "confined p \<longleftrightarrow> (\<forall>d. prefix d (resolve d p))"

text \<open>What a line of the deck may be: a comment, or a command that neither runs code nor leaves the directory.\<close>

definition harmless :: "string \<Rightarrow> bool" where
  "harmless line \<longleftrightarrow>
     js_trim line = [] \<or> prefix ''*'' (js_trim line) \<or>
     line_command line \<notin> set dangerous_commands \<and>
     (line_command line = ''include'' \<longrightarrow> pred_option confined (include_target line)) \<and>
     (line_command line \<in> set file_path_commands \<longrightarrow> pred_option confined (line_argument line))"

lemma walk_below: "''..'' \<notin> set gs \<Longrightarrow> prefix d (walk d gs)"
  by (induction gs arbitrary: d) (auto intro: append_prefixD)

lemma validated_confined: "validate_include_path p = None \<Longrightarrow> confined p"
  unfolding confined_def resolve_def validate_include_path_def
  using split_on_sublist [of "''..''" "CHR ''/''" p] by (auto intro: walk_below split: if_splits)

lemma check_line_harmless: "check_line line = None \<Longrightarrow> harmless line"
  unfolding check_line_def harmless_def or_else_check_def Let_def
  by (auto intro: validated_confined split: if_splits option.splits)

lemma check_lines_None: "check_lines ls = None \<longleftrightarrow> (\<forall>l \<in> set ls. check_line l = None)"
  by (induction ls) (auto split: option.splits)


definition sample_deck :: string where
  "sample_deck = ''* rc'' @ [CHR 0x0A] @ ''.include '' @ [CHR 0x22] @ ''m/d.lib'' @ [CHR 0x22, CHR 0x0A] @
     ''  wrdata o.csv v(na)''"


text \<open>
  What the gate does not read: the file of a \<open>.lib\<close> line, and what follows the first blank of a quoted path.
\<close>

lemma lib_path_unchecked: "sanitize_netlist ''.lib /etc/passwd tt'' = Inr ''.lib /etc/passwd tt''"
  by code_simp

definition blank_include :: string where
  "blank_include = ''.include '' @ [CHR 0x22] @ ''a /../../../etc/passwd'' @ [CHR 0x22]"

lemma quoted_include_unchecked:
  "sanitize_netlist blank_include = Inr blank_include \<and> include_target blank_include = Some ''a'' \<and>
   validate_include_path ''a /../../../etc/passwd'' \<noteq> None"
  by code_simp

end
