(* ===== verification/Probe_Map.thy ===== *)
theory Probe_Map
  imports Sanitizer "HOL-Library.AList"
begin

text \<open>
  \<open>eda-core/src/netlist/probe-map.ts\<close> and the probes of \<open>generator.ts\<close>: which node of the deck a net is, and
  how a probe of the caller is rewritten onto it. A \<open>Map\<close> that is iterated is an association list in insertion
  order, one that is only looked up is a partial function. The plan of the digital nets is an argument, as it
  is in the code: \<open>twin\<close> is its \<open>probeNodeForNet\<close>.
\<close>

section \<open>From nets to nodes\<close>

definition build_node_map :: "net list \<Rightarrow> (string \<times> string) list" where
  "build_node_map ns =
     fold (\<lambda>n. AList.update (net_id n) (if flag (isGround n) then ''0'' else sanitize_node_name (net_id n))) ns []"

definition put_ref :: "string \<Rightarrow> string option \<Rightarrow> (string \<rightharpoonup> string) \<Rightarrow> (string \<rightharpoonup> string)" where
  "put_ref key node m = (case node of Some x \<Rightarrow> if x \<noteq> [] then m(js_lower key \<mapsto> x) else m | None \<Rightarrow> m)"

definition put_name :: "(string \<times> string) list \<Rightarrow> net \<Rightarrow> (string \<rightharpoonup> string) \<Rightarrow> (string \<rightharpoonup> string)" where
  "put_name nodes n m = (if net_name n \<noteq> [] then put_ref (net_name n) (map_of nodes (net_id n)) m else m)"

definition put_id :: "(string \<times> string) list \<Rightarrow> net \<Rightarrow> (string \<rightharpoonup> string) \<Rightarrow> (string \<rightharpoonup> string)" where
  "put_id nodes n = put_ref (net_id n) (map_of nodes (net_id n))"

definition put_twin ::
  "(string \<times> string) list \<Rightarrow> (string \<rightharpoonup> string) \<Rightarrow> net \<Rightarrow> (string \<rightharpoonup> string) \<Rightarrow> (string \<rightharpoonup> string)" where
  "put_twin nodes twin n m =
     (case twin (net_id n) of
        None \<Rightarrow> m
      | Some [] \<Rightarrow> m
      | Some t \<Rightarrow>
          (let m1 = m(js_lower (net_id n) \<mapsto> t);
               m2 = (if net_name n \<noteq> [] then m1(js_lower (net_name n) \<mapsto> t) else m1)
           in (case map_of nodes (net_id n) of
                 Some raw \<Rightarrow> if raw \<noteq> [] then m2(js_lower raw \<mapsto> t) else m2
               | None \<Rightarrow> m2)))"

definition build_net_ref_to_node ::
  "net list \<Rightarrow> (string \<times> string) list \<Rightarrow> (string \<rightharpoonup> string) \<Rightarrow> (string \<rightharpoonup> string)" where
  "build_net_ref_to_node ns nodes twin =
     fold (put_twin nodes twin) ns (fold (put_id nodes) ns (fold (put_name nodes) ns Map.empty))"

text \<open>\<open>buildProbeResolver\<close>: the set of the ways to name the reference node.\<close>

definition ground_refs :: "net list \<Rightarrow> string list" where
  "ground_refs ns =
     filter (\<lambda>r. r \<noteq> [])
       (concat (map (\<lambda>n. [js_lower (net_id n), js_lower (net_name n)]) (filter (\<lambda>n. flag (isGround n)) ns))) @
     (if list_ex (\<lambda>n. js_lower (net_id n) = ''0'' \<and> \<not> flag (isGround n)) ns then [] else [''0''])"

section \<open>Probes\<close>

definition probe_of :: "string \<Rightarrow> string" where
  "probe_of x = ''v('' @ x @ '')''"

definition normalize_probe :: "string \<Rightarrow> string" where
  "normalize_probe p =
     (let t = js_trim p in if t = [] \<or> CHR ''('' \<in> set t \<or> CHR ''@'' \<in> set t then t else probe_of t)"

text \<open>
  \<open>/\bv\s*\(\s*([^)]+?)\s*\)/gi\<close>, and the same with \<open>i\<close>: the text matched at a position that is a word boundary,
  the group, and what follows. The group is lazy, so it ends before the blanks in front of the bracket; of a
  blank argument it is the last character.
\<close>

definition trim_end :: "string \<Rightarrow> string" where
  "trim_end s = rev (dropWhile js_space (rev s))"

definition match_ref :: "char \<Rightarrow> string \<Rightarrow> (string \<times> string \<times> string) option" where
  "match_ref l s =
     (case s of [] \<Rightarrow> None
      | c # r \<Rightarrow>
          if lower_char c \<noteq> l then None
          else (case dropWhile js_space r of [] \<Rightarrow> None
                | b # r1 \<Rightarrow>
                    if b \<noteq> CHR ''('' then None
                    else (let body = takeWhile (\<lambda>x. x \<noteq> CHR '')'') r1 in
                      (case dropWhile (\<lambda>x. x \<noteq> CHR '')'') r1 of [] \<Rightarrow> None
                       | _ # rest \<Rightarrow>
                           if body = [] then None
                           else (let t = dropWhile js_space body;
                                     inner = (if t = [] then [last body] else trim_end t)
                                 in Some (take (length s - length rest) s, inner, rest))))))"

lemma match_ref_shorter: "match_ref l s = Some (whole, inner, rest) \<Longrightarrow> length rest < length s"
proof -
  assume m: "match_ref l s = Some (whole, inner, rest)"
  then obtain c r b r1 x where s: "s = c # r" "dropWhile js_space r = b # r1"
    "dropWhile (\<lambda>x. x \<noteq> CHR '')'') r1 = x # rest"
    by (auto simp: match_ref_def Let_def split: list.splits if_splits)
  have "length (b # r1) \<le> length r" using s(2) length_dropWhile_le [of js_space r] by simp
  moreover have "length (x # rest) \<le> length r1"
    using s(3) length_dropWhile_le [of "\<lambda>x. x \<noteq> CHR '')''" r1] by simp
  ultimately show ?thesis using s(1) by simp
qed

function rewrite_refs :: "char \<Rightarrow> (string \<Rightarrow> string \<Rightarrow> string) \<Rightarrow> bool \<Rightarrow> string \<Rightarrow> string" where
  "rewrite_refs l f boundary s =
     (case s of [] \<Rightarrow> []
      | c # cs \<Rightarrow>
          (case (if boundary then match_ref l s else None) of
             None \<Rightarrow> c # rewrite_refs l f (\<not> is_word c) cs
           | Some (whole, inner, rest) \<Rightarrow> f whole inner @ rewrite_refs l f True rest))"
  by pat_completeness auto
termination
  by (relation "measure (\<lambda>(_, _, _, s). length s)") (auto dest: match_ref_shorter split: if_splits)

declare rewrite_refs.simps [simp del]

fun join_with :: "string \<Rightarrow> string list \<Rightarrow> string" where
  "join_with sep [] = []"
| "join_with sep [x] = x"
| "join_with sep (x # y # zs) = x @ sep @ join_with sep (y # zs)"

definition look_up :: "(string \<rightharpoonup> string) \<Rightarrow> string \<Rightarrow> string" where
  "look_up m p = (case m (js_lower p) of Some x \<Rightarrow> x | None \<Rightarrow> p)"

definition node_reference :: "(string \<rightharpoonup> string) \<Rightarrow> bool \<Rightarrow> string \<Rightarrow> string \<Rightarrow> string" where
  "node_reference m keepGround whole inner =
     (case m (js_lower (js_trim inner)) of
        Some exact \<Rightarrow> if exact = ''0'' then [] else probe_of exact
      | None \<Rightarrow>
          (let parts = map js_trim (split_on (CHR '','') inner);
               mapped = map (look_up m) parts;
               nonGround = filter (\<lambda>a. a \<noteq> ''0'') mapped
           in if \<not> keepGround \<and> length mapped = 2 \<and> hd mapped = ''0'' then []
              else if nonGround = parts then whole
              else if nonGround = [] then [] else probe_of (join_with '','' nonGround)))"

definition rewrite_probe_node_refs :: "string \<Rightarrow> (string \<rightharpoonup> string) \<Rightarrow> bool \<Rightarrow> string" where
  "rewrite_probe_node_refs p m keepGround = rewrite_refs (CHR ''v'') (node_reference m keepGround) True p"

text \<open>\<open>rewriteProbeDeviceRefs\<close> and \<open>generateDefaultProbes\<close>.\<close>

definition rewrite_probe_device_refs :: "string \<Rightarrow> (string \<rightharpoonup> string) \<Rightarrow> string" where
  "rewrite_probe_device_refs p m =
     rewrite_refs (CHR ''i'') (\<lambda>whole inner.
       (case m (js_lower (js_trim inner)) of
          Some x \<Rightarrow> if x \<noteq> [] then ''i('' @ x @ '')'' else whole
        | None \<Rightarrow> whole)) True p"

definition max_default_probes :: nat where
  "max_default_probes = 64"

definition default_probe :: "(string \<times> string) list \<Rightarrow> (string \<rightharpoonup> string) \<Rightarrow> net \<Rightarrow> string option" where
  "default_probe nodes twin n =
     (if flag (isGround n) then None
      else (case (case twin (net_id n) of Some t \<Rightarrow> Some t | None \<Rightarrow> map_of nodes (net_id n)) of
              Some x \<Rightarrow> if x \<noteq> [] then Some (probe_of x) else None
            | None \<Rightarrow> None))"

definition generate_default_probes :: "net list \<Rightarrow> (string \<times> string) list \<Rightarrow> (string \<rightharpoonup> string) \<Rightarrow> string list" where
  "generate_default_probes ns nodes twin = take max_default_probes (List.map_filter (default_probe nodes twin) ns)"

definition get_node_names :: "net list \<Rightarrow> string list" where
  "get_node_names ns = map snd (build_node_map ns)"


section \<open>Rewriting one reference\<close>

lemma dropWhile_id: "s \<noteq> [] \<Longrightarrow> \<not> P (hd s) \<Longrightarrow> dropWhile P s = s"
  by (cases s) auto

lemma rewrite_refs_Nil [simp]: "rewrite_refs l f b [] = []"
  by (subst rewrite_refs.simps) simp

lemma trimmed_id: "s \<noteq> [] \<Longrightarrow> \<not> js_space (hd s) \<Longrightarrow> \<not> js_space (last s) \<Longrightarrow> js_trim s = s"
  by (simp add: js_trim_def dropWhile_id hd_rev)

lemma trim_end_id: "s \<noteq> [] \<Longrightarrow> \<not> js_space (last s) \<Longrightarrow> trim_end s = s"
  by (cases s rule: rev_cases) (auto simp: trim_end_def)

text \<open>The text of a reference that a bracket or a blank does not cut short.\<close>

definition plain :: "string \<Rightarrow> bool" where
  "plain r \<longleftrightarrow> r \<noteq> [] \<and> \<not> js_space (hd r) \<and> \<not> js_space (last r) \<and> set r \<inter> {CHR ''('', CHR '')'', CHR ''@''} = {}"

lemma plain_trim: "plain r \<Longrightarrow> js_trim r = r"
  by (simp add: plain_def trimmed_id)

lemma match_probe:
  assumes "plain r"
  shows "match_ref (CHR ''v'') (probe_of r) = Some (probe_of r, r, [])"
proof -
  have [simp]: "\<not> js_space (CHR ''('')" "lower_char (CHR ''v'') = CHR ''v''"
    by (simp_all add: js_space_def lower_char_def is_upper_def code_def)
  have "\<forall>c \<in> set r. c \<noteq> CHR '')''" using assms by (auto simp: plain_def)
  then have t: "takeWhile (\<lambda>x. x \<noteq> CHR '')'') (r @ '')'') = r" "dropWhile (\<lambda>x. x \<noteq> CHR '')'') (r @ '')'') = '')''"
    by (simp_all add: takeWhile_append2 dropWhile_append2)
  have "dropWhile js_space r = r" "trim_end r = r" "r \<noteq> []"
    using assms by (simp_all add: plain_def dropWhile_id trim_end_id)
  then show ?thesis unfolding match_ref_def probe_of_def by (simp add: t)
qed

lemma rewrite_probe:
  assumes "plain r"
  shows "rewrite_probe_node_refs (probe_of r) m keep = node_reference m keep (probe_of r) r"
proof -
  obtain t where p: "probe_of r = CHR ''v'' # t" by (simp add: probe_of_def)
  have "match_ref (CHR ''v'') (CHR ''v'' # t) = Some (CHR ''v'' # t, r, [])" using match_probe [OF assms] p by simp
  then show ?thesis unfolding rewrite_probe_node_refs_def p by (subst rewrite_refs.simps) simp
qed

lemma split_on_absent: "sep \<notin> set s \<Longrightarrow> split_on sep s = [s]"
  by (induction s) auto

lemma split_on_pair: "sep \<notin> set a \<Longrightarrow> sep \<notin> set b \<Longrightarrow> split_on sep (a @ sep # b) = [a, b]"
  by (induction a) (auto simp: split_on_absent)

lemma rewrite_known:
  assumes "plain r" "m (js_lower r) = Some x"
  shows "rewrite_probe_node_refs (probe_of r) m keep = (if x = ''0'' then [] else probe_of x)"
  using assms by (simp add: rewrite_probe node_reference_def plain_trim)

lemma normalize_bare: "plain r \<Longrightarrow> normalize_probe r = probe_of r"
  by (auto simp: normalize_probe_def plain_trim) (auto simp: plain_def)

lemma normalize_probe_of: "normalize_probe (probe_of r) = probe_of r"
proof -
  have "js_trim (probe_of r) = probe_of r"
    by (rule trimmed_id) (simp_all add: probe_of_def js_space_def code_def)
  then show ?thesis by (simp add: normalize_probe_def) (simp add: probe_of_def)
qed

section \<open>Which node a net is\<close>

lemma fold_keeps:
  assumes "\<And>k m. k \<in> set ns \<Longrightarrow> F k m key \<in> {m key, v}" "m key = v"
  shows "fold F ns m key = v"
  using assms
proof (induction ns arbitrary: m)
  case (Cons k ns)
  have "F k m key = v" using Cons.prems(1) [of k m] Cons.prems(2) by simp
  then show ?case using Cons.IH [of "F k m"] Cons.prems(1) by simp
qed simp

lemma fold_sets:
  assumes "n \<in> set ns" "\<And>k m. k \<in> set ns \<Longrightarrow> F k m key \<in> {m key, v}" "\<And>m. F n m key = v"
  shows "fold F ns m key = v"
  using assms
proof (induction ns arbitrary: m)
  case (Cons k ns)
  show ?case
  proof (cases "n \<in> set ns")
    case True
    then show ?thesis using Cons by simp
  next
    case False
    then have "F k m key = v" using Cons.prems by simp
    then show ?thesis using fold_keeps [of ns F key v "F k m"] Cons.prems(2) by simp
  qed
qed simp

text \<open>The node the code gives a net, and the analog twin of it that a probe of a digital net reads.\<close>

definition own_node :: "net \<Rightarrow> string" where
  "own_node n = (if flag (isGround n) then ''0'' else sanitize_node_name (net_id n))"

definition observed :: "(string \<rightharpoonup> string) \<Rightarrow> net \<Rightarrow> string" where
  "observed twin n = (case twin (net_id n) of Some t \<Rightarrow> if t = [] then own_node n else t | None \<Rightarrow> own_node n)"

lemma own_node_not_Nil: "own_node n \<noteq> []"
  using legal_name [of "net_id n"] by (simp add: own_node_def legal_node_def)


lemma map_of_updates: "map_of (fold (\<lambda>n. AList.update (f n) (g n)) ns al) = fold (\<lambda>n m. m(f n \<mapsto> g n)) ns (map_of al)"
  by (induction ns arbitrary: al) (simp_all add: AList.update_conv')

lemma build_node_map_own: "build_node_map ns = fold (\<lambda>n. AList.update (net_id n) (own_node n)) ns []"
  unfolding build_node_map_def own_node_def ..

lemma node_map_own:
  assumes "n \<in> set ns" "\<And>k. k \<in> set ns \<Longrightarrow> net_id k = net_id n \<Longrightarrow> k = n"
  shows "map_of (build_node_map ns) (net_id n) = Some (own_node n)"
  unfolding build_node_map_own map_of_updates
  by (rule fold_sets [OF assms(1)]) (use assms(2) in auto)

lemma node_map_range: "map_of (build_node_map ns) i = Some x \<Longrightarrow> \<exists>k \<in> set ns. net_id k = i \<and> own_node k = x"
proof -
  have "map_of al i = Some x \<or> (\<exists>k \<in> set ns. net_id k = i \<and> own_node k = x)"
    if "fold (\<lambda>n m. m(net_id n \<mapsto> own_node n)) ns (map_of al) i = Some x" for al
    using that
  proof (induction ns arbitrary: al)
    case (Cons k ns)
    then show ?case
      using Cons.IH [of "AList.update (net_id k) (own_node k) al"] by (auto simp: AList.update_conv' split: if_splits)
  qed simp
  from this [of "[]"] show "map_of (build_node_map ns) i = Some x \<Longrightarrow> ?thesis"
    unfolding build_node_map_own map_of_updates by simp
qed

text \<open>
  A net is unshadowed when no other net has its id in any case, and no digital net has that name or that node:
  the analog twins of the digital nets are entered last, over the ids.
\<close>

definition twinned :: "(string \<rightharpoonup> string) \<Rightarrow> net \<Rightarrow> bool" where
  "twinned twin k \<longleftrightarrow> (case twin (net_id k) of Some t \<Rightarrow> t \<noteq> [] | None \<Rightarrow> False)"

definition unshadowed :: "net list \<Rightarrow> (string \<rightharpoonup> string) \<Rightarrow> net \<Rightarrow> bool" where
  "unshadowed ns twin n \<longleftrightarrow>
     list_all (\<lambda>k. k = n \<or> js_lower (net_id k) \<noteq> js_lower (net_id n) \<and>
       (twinned twin k \<longrightarrow> js_lower (net_name k) \<noteq> js_lower (net_id n) \<and>
          js_lower (the (map_of (build_node_map ns) (net_id k))) \<noteq> js_lower (net_id n))) ns"

definition refs :: "net list \<Rightarrow> (string \<rightharpoonup> string) \<Rightarrow> (string \<rightharpoonup> string)" where
  "refs ns twin = build_net_ref_to_node ns (build_node_map ns) twin"

lemma refs_own:
  assumes n: "n \<in> set ns" and u: "unshadowed ns twin n"
  shows "refs ns twin (js_lower (net_id n)) = Some (observed twin n)"
proof -
  let ?key = "js_lower (net_id n)" and ?nodes = "build_node_map ns"
  let ?m1 = "fold (put_name ?nodes) ns Map.empty"
  have other: "k = n \<or> js_lower (net_id k) \<noteq> ?key" if "k \<in> set ns" for k
    using u that by (auto simp: unshadowed_def list_all_iff)
  have node: "map_of ?nodes (net_id n) = Some (own_node n)"
    by (rule node_map_own [OF n]) (use other in force)
  have ids: "fold (put_id ?nodes) ns ?m1 ?key = Some (own_node n)"
  proof (rule fold_sets [OF n])
    show "put_id ?nodes k m ?key \<in> {m ?key, Some (own_node n)}" if "k \<in> set ns" for k m
      using other [OF that] node by (auto simp: put_id_def put_ref_def split: option.splits)
    show "put_id ?nodes n m ?key = Some (own_node n)" for m
      using node own_node_not_Nil by (simp add: put_id_def put_ref_def)
  qed
  have keep: "put_twin ?nodes twin k m ?key = m ?key" if "k \<in> set ns" "k \<noteq> n" for k m
  proof (cases "twinned twin k")
    case True
    then obtain t where t: "twin (net_id k) = Some t" "t \<noteq> []" by (auto simp: twinned_def split: option.splits)
    have "js_lower (net_id k) \<noteq> ?key" "js_lower (net_name k) \<noteq> ?key" "js_lower (the (map_of ?nodes (net_id k))) \<noteq> ?key"
      using u that True by (auto simp: unshadowed_def list_all_iff)
    then show ?thesis using t by (auto simp: put_twin_def Let_def split: option.splits list.splits)
  next
    case False
    then show ?thesis by (auto simp: put_twin_def twinned_def split: option.splits list.splits)
  qed
  show ?thesis
  proof (cases "twinned twin n")
    case True
    then obtain t where t: "twin (net_id n) = Some t" "t \<noteq> []" by (auto simp: twinned_def split: option.splits)
    have own: "put_twin ?nodes twin n m ?key = Some t" for m
      using t node by (auto simp: put_twin_def Let_def split: list.splits)
    have "fold (put_twin ?nodes twin) ns (fold (put_id ?nodes) ns ?m1) ?key = Some t"
      by (rule fold_sets [OF n]) (use keep own in blast)+
    then show ?thesis using t by (simp add: refs_def build_net_ref_to_node_def observed_def)
  next
    case False
    have own: "put_twin ?nodes twin n m ?key = m ?key" for m
      using False by (auto simp: put_twin_def twinned_def split: option.splits list.splits)
    have "fold (put_twin ?nodes twin) ns (fold (put_id ?nodes) ns ?m1) ?key = Some (own_node n)"
      by (rule fold_keeps) (use keep own ids in blast)+
    then show ?thesis using False by (auto simp: refs_def build_net_ref_to_node_def observed_def twinned_def split: option.splits)
  qed
qed

text \<open>
  A probe that names an unshadowed net by its id, in any case and with or without the \<open>v()\<close>, is rewritten
  to the node the deck gives that net, or to its analog twin, and dropped for the ground.
\<close>

theorem probe_reads_its_net:
  assumes "n \<in> set ns" "unshadowed ns twin n" "plain r" "js_lower r = js_lower (net_id n)"
  shows "list_all (\<lambda>p. rewrite_probe_node_refs (normalize_probe p) (refs ns twin) False =
    (if observed twin n = ''0'' then [] else probe_of (observed twin n))) [r, probe_of r]"
  using rewrite_known [OF assms(3), of "refs ns twin"] refs_own [OF assms(1,2)] assms(4)
  by (simp add: normalize_bare [OF assms(3)] normalize_probe_of)

definition sample_net :: "string \<Rightarrow> string \<Rightarrow> net" where
  "sample_net i nm = \<lparr>net_id = i, net_name = nm, isGround = Some (nm = ''GND''), isPower = None\<rparr>"

definition sample_nets :: "net list" where
  "sample_nets = [sample_net ''out'' ''OUT'', sample_net ''a,b'' ''SUM'', sample_net ''0v'' ''GND'', sample_net ''q'' ''Q'']"

theorem probe_reads_its_net_witness:
  "map (\<lambda>p. rewrite_probe_node_refs (normalize_probe p) (refs sample_nets [''q'' \<mapsto> ''nq_p'']) False)
     [''Out'', probe_of ''Out'', ''A,B'', probe_of ''A,B'', ''0v'', probe_of ''0v'', ''q'', probe_of ''q''] =
   [probe_of ''x_out'', probe_of ''x_out'', probe_of ''na_b'', probe_of ''na_b'', [], [], probe_of ''nq_p'', probe_of ''nq_p'']"
proof -
  have u: "list_all (unshadowed sample_nets [''q'' \<mapsto> ''nq_p'']) sample_nets" by code_simp
  have o: "map (observed [''q'' \<mapsto> ''nq_p'']) sample_nets = [''x_out'', ''na_b'', ''0'', ''nq_p'']" by code_simp
  have p: "list_all plain [''Out'', ''A,B'', ''0v'', ''q'']" by code_simp
  have l: "map js_lower [''Out'', ''A,B'', ''0v'', ''q''] = map (\<lambda>n. js_lower (net_id n)) sample_nets" by code_simp
  show ?thesis
    using probe_reads_its_net [of "sample_nets ! 0" sample_nets "[''q'' \<mapsto> ''nq_p'']" "''Out''"]
      probe_reads_its_net [of "sample_nets ! 1" sample_nets "[''q'' \<mapsto> ''nq_p'']" "''A,B''"]
      probe_reads_its_net [of "sample_nets ! 2" sample_nets "[''q'' \<mapsto> ''nq_p'']" "''0v''"]
      probe_reads_its_net [of "sample_nets ! 3" sample_nets "[''q'' \<mapsto> ''nq_p'']" "''q''"] u o p l
    by (simp add: sample_nets_def)
qed

section \<open>Differential probes\<close>

text \<open>What the simulator answers to a probe, given the voltage of every node.\<close>

definition probe_value :: "(string \<Rightarrow> rat) \<Rightarrow> string \<Rightarrow> rat option" where
  "probe_value volts p =
     (if prefix ''v('' p
      then (case split_on (CHR '','') (butlast (drop 2 p)) of
              [x] \<Rightarrow> Some (volts x) | [x, y] \<Rightarrow> Some (volts x - volts y) | _ \<Rightarrow> None)
      else None)"

definition plain_operand :: "string \<Rightarrow> bool" where
  "plain_operand r \<longleftrightarrow> plain r \<and> CHR '','' \<notin> set r"

definition referred :: "(string \<rightharpoonup> string) \<Rightarrow> (string \<Rightarrow> rat) \<Rightarrow> string \<Rightarrow> rat" where
  "referred m volts r = (if look_up m r = ''0'' then 0 else volts (look_up m r))"

lemma probe_value_one: "CHR '','' \<notin> set x \<Longrightarrow> probe_value volts (probe_of x) = Some (volts x)"
  by (simp add: probe_value_def probe_of_def split_on_absent butlast_append)

lemma probe_value_two:
  "CHR '','' \<notin> set x \<Longrightarrow> CHR '','' \<notin> set y \<Longrightarrow> probe_value volts (probe_of (x @ CHR '','' # y)) = Some (volts x - volts y)"
  by (simp add: probe_value_def probe_of_def split_on_pair butlast_append)

lemma plain_pair: "plain_operand a \<Longrightarrow> plain_operand b \<Longrightarrow> plain (a @ CHR '','' # b)"
  by (auto simp: plain_operand_def plain_def)

text \<open>
  A difference of two references is emitted with the value it asks for, the ground counting as zero; it
  is dropped when the ground comes first, and only then, where the sign matters. Where it does not, the
  magnitude is kept unless both are ground.
\<close>

theorem differential_keeps_value:
  assumes "plain_operand a" "plain_operand b" "m (js_lower (a @ CHR '','' # b)) = None"
    and "CHR '','' \<notin> set (look_up m a)" "CHR '','' \<notin> set (look_up m b)"
  shows "(let p = probe_of (a @ CHR '','' # b); signed = rewrite_probe_node_refs p m False;
              absolute = rewrite_probe_node_refs p m True
          in (if look_up m a = ''0'' then signed = []
              else probe_value volts signed = Some (referred m volts a - referred m volts b)) \<and>
             (if look_up m a = ''0'' \<and> look_up m b = ''0'' then absolute = []
              else map_option abs (probe_value volts absolute) = Some \<bar>referred m volts a - referred m volts b\<bar>))"
proof -
  let ?in = "a @ CHR '','' # b" and ?x = "look_up m a" and ?y = "look_up m b"
  have ops: "plain a" "plain b" "CHR '','' \<notin> set a" "CHR '','' \<notin> set b"
    using assms(1,2) by (simp_all add: plain_operand_def)
  have parts: "map js_trim (split_on (CHR '','') ?in) = [a, b]"
    by (simp add: split_on_pair ops plain_trim)
  have trim: "js_trim ?in = ?in" by (rule plain_trim) (rule plain_pair [OF assms(1,2)])
  have out: "rewrite_probe_node_refs (probe_of ?in) m keep =
      (if \<not> keep \<and> ?x = ''0'' then []
       else let g = filter (\<lambda>z. z \<noteq> ''0'') [?x, ?y]
            in if g = [a, b] then probe_of ?in else if g = [] then [] else probe_of (join_with '','' g))" for keep
    unfolding rewrite_probe [OF plain_pair [OF assms(1,2)]] node_reference_def trim assms(3) parts Let_def
    by simp
  have two: "probe_value volts (probe_of (a @ CHR '','' # b)) = Some (volts a - volts b)"
    "probe_value volts (probe_of (?x @ CHR '','' # ?y)) = Some (volts ?x - volts ?y)"
    by (simp_all add: probe_value_two ops assms(4,5))
  have one: "probe_value volts (probe_of ?x) = Some (volts ?x)" "probe_value volts (probe_of ?y) = Some (volts ?y)"
    by (simp_all add: probe_value_one assms(4,5))
  show ?thesis
    unfolding Let_def out by (cases "?x = ''0''"; cases "?y = ''0''") (auto simp: referred_def two one)
qed

theorem differential_keeps_value_witness:
  "(let m = refs sample_nets Map.empty; volts = (\<lambda>x. if x = ''x_out'' then 5 else if x = ''nq'' then 2 else 0);
        p = probe_of ''out,Q''; signed = rewrite_probe_node_refs p m False;
        absolute = rewrite_probe_node_refs p m True
    in probe_value volts signed = Some (referred m volts ''out'' - referred m volts ''Q'') \<and>
       map_option abs (probe_value volts absolute) = Some \<bar>referred m volts ''out'' - referred m volts ''Q''\<bar> \<and>
       referred m volts ''out'' - referred m volts ''Q'' = 3) \<and>
   (let m = refs sample_nets Map.empty; volts = (\<lambda>x. if x = ''x_out'' then 5 else if x = ''nq'' then 2 else 0);
        p = probe_of ''GND,out''; signed = rewrite_probe_node_refs p m False
    in signed = [])"
proof -
  let ?m = "refs sample_nets Map.empty"
  let ?v = "(\<lambda>x. if x = ''x_out'' then 5 else if x = ''nq'' then 2 else 0) :: string \<Rightarrow> rat"
  have p: "list_all plain_operand [''out'', ''Q'', ''GND'']" by code_simp
  have l: "map (look_up ?m) [''out'', ''Q'', ''GND''] = [''x_out'', ''nq'', ''0'']" by code_simp
  have n: "?m (js_lower ''out,Q'') = None" "?m (js_lower ''GND,out'') = None" by code_simp+
  have a: "probe_value ?v (rewrite_probe_node_refs (probe_of ''out,Q'') ?m False) = Some (referred ?m ?v ''out'' - referred ?m ?v ''Q'')"
    "map_option abs (probe_value ?v (rewrite_probe_node_refs (probe_of ''out,Q'') ?m True)) = Some \<bar>referred ?m ?v ''out'' - referred ?m ?v ''Q''\<bar>"
    using differential_keeps_value [of "''out''" "''Q''" ?m ?v] p l n by (simp_all add: Let_def)
  moreover have "rewrite_probe_node_refs (probe_of ''GND,out'') ?m False = []"
    using differential_keeps_value [of "''GND''" "''out''" ?m ?v] p l n by (simp add: Let_def)
  moreover have "referred ?m ?v ''out'' - referred ?m ?v ''Q'' = 3" using l by (simp add: referred_def)
  ultimately show ?thesis by (simp only: Let_def)
qed

section \<open>References that go astray\<close>

text \<open>
  The default probes already name nodes, and are rewritten all the same: where another net is named like a
  node, the probe of one net reads the other, and the two become one. Ids that differ in case only, and start
  with an \<open>n\<close>, get different nodes but one entry. A digital net's name hides another net's id.
\<close>

lemma default_probe_misread:
  "(let ns = [sample_net ''a'' ''IN'', sample_net ''b'' ''na''] in
    generate_default_probes ns (build_node_map ns) Map.empty = [probe_of ''na'', probe_of ''nb''] \<and>
    map (\<lambda>p. rewrite_probe_node_refs (normalize_probe p) (refs ns Map.empty) False)
      (generate_default_probes ns (build_node_map ns) Map.empty) = [probe_of ''nb'', probe_of ''nb''])"
  by code_simp

lemma case_twins_misread:
  "(let ns = [sample_net ''n1'' ''IN'', sample_net ''N1'' ''OUT''] in
    get_node_names ns = [''n1'', ''nN1''] \<and>
    rewrite_probe_node_refs (probe_of ''n1'') (refs ns Map.empty) False = probe_of ''nN1'')"
  by code_simp

lemma digital_name_hides_id:
  "(let ns = [sample_net ''clk'' ''IN'', sample_net ''d1'' ''clk'']; twin = [''d1'' \<mapsto> ''nd1_p''] in
    rewrite_probe_node_refs (probe_of ''clk'') (refs ns twin) False = probe_of ''nd1_p'')"
  by code_simp

end
