(* ===== verification/Mixed_Signal.thy ===== *)
theory Mixed_Signal
  imports Probe_Map Js_Values
begin

text \<open>
  \<open>eda-core/src/netlist/digital.ts\<close>: gates and flip-flops live in the event-driven domain of the simulator, so
  a net with pins of both domains is split into two nodes with a bridge between them. A \<open>Map\<close> the code iterates
  is an association list in insertion order. Volts are rationals; \<open>number_text\<close>, an argument, is the text
  JavaScript prints for a number in the properties of a part.
\<close>

section \<open>Timing models\<close>

definition digital_device :: "ctype \<Rightarrow> string option" where
  "digital_device t = map_of
     [(LogicAnd, ''d_and''), (LogicOr, ''d_or''), (LogicNand, ''d_nand''), (LogicNor, ''d_nor''), (LogicXor, ''d_xor''),
      (LogicXnor, ''d_xnor''), (LogicNot, ''d_inverter''), (LogicBuffer, ''d_buffer''), (Dff, ''d_dff''),
      (Jkff, ''d_jkff''), (Tff, ''d_tff''), (Dlatch, ''d_dlatch''), (Tristate, ''d_tristate'')] t"

definition digital_basename :: "ctype \<Rightarrow> string option" where
  "digital_basename t = map_of
     [(LogicAnd, ''CFD_AND''), (LogicOr, ''CFD_OR''), (LogicNand, ''CFD_NAND''), (LogicNor, ''CFD_NOR''), (LogicXor, ''CFD_XOR''),
      (LogicXnor, ''CFD_XNOR''), (LogicNot, ''CFD_NOT''), (LogicBuffer, ''CFD_BUF''), (Dff, ''CFD_DFF''),
      (Jkff, ''CFD_JKFF''), (Tff, ''CFD_TFF''), (Dlatch, ''CFD_DLATCH''), (Tristate, ''CFD_TRI'')] t"

definition digital_prop :: "(rat \<Rightarrow> string) \<Rightarrow> component \<Rightarrow> string \<Rightarrow> string option" where
  "digital_prop number_text c key =
     (case properties c of
        Some (JObj kvs) \<Rightarrow>
          (case map_of kvs key of Some (JStr s) \<Rightarrow> Some s | Some (JNum r) \<Rightarrow> Some (number_text r) | _ \<Rightarrow> None)
      | _ \<Rightarrow> None)"

text \<open>\<open>\d*\.?\d+(?:[eE][+-]?\d+)?\<close>: the mantissa of a number at the start of a text, and its exponent.\<close>

definition mantissa :: "string \<Rightarrow> (string \<times> string) option" where
  "mantissa s =
     (let a = takeWhile is_digit s; r = dropWhile is_digit s in
      case r of
        p # f \<Rightarrow> if p = CHR ''.'' \<and> f \<noteq> [] \<and> is_digit (hd f)
          then Some (a @ p # takeWhile is_digit f, dropWhile is_digit f)
          else if a = [] then None else Some (a, r)
      | [] \<Rightarrow> if a = [] then None else Some (a, []))"

definition exponent_part :: "string \<Rightarrow> string \<times> string" where
  "exponent_part s =
     (case s of
        [] \<Rightarrow> ([], [])
      | e # r \<Rightarrow>
          if e = CHR ''e'' \<or> e = CHR ''E''
          then (let sign = (case r of c # _ \<Rightarrow> if c = CHR ''+'' \<or> c = CHR ''-'' then [c] else [] | [] \<Rightarrow> []);
                    ds = takeWhile is_digit (drop (length sign) r)
                in if ds = [] then ([], s) else (e # sign @ ds, dropWhile is_digit (drop (length sign) r)))
          else ([], s))"

text \<open>\<open>SPICE_NUMBER\<close>\<close>

definition spice_suffix :: "string \<Rightarrow> bool" where
  "spice_suffix s \<longleftrightarrow> s = [] \<or> s = ''meg'' \<or> s = ''MEG'' \<or> (\<exists>c \<in> set ''fpnumkgtFPNUMKGT''. s = [c])"

definition spice_number :: "string \<Rightarrow> bool" where
  "spice_number s =
     (case mantissa (case s of [] \<Rightarrow> [] | c # cs \<Rightarrow> if c = CHR ''+'' then cs else s) of
        None \<Rightarrow> False
      | Some (_, r) \<Rightarrow> spice_suffix (snd (exponent_part r)))"

definition valid_time :: "string option \<Rightarrow> string \<Rightarrow> string" where
  "valid_time raw fallback =
     (case raw of None \<Rightarrow> fallback
      | Some s \<Rightarrow> (let t = js_trim s in if t \<noteq> [] \<and> spice_number t then t else fallback))"

definition timing :: "(rat \<Rightarrow> string) \<Rightarrow> component \<Rightarrow> (string \<times> string \<times> string) list \<Rightarrow> string" where
  "timing number_text c fs =
     join_with '' '' (map (\<lambda>(name, key, d). name @ ''='' @ valid_time (digital_prop number_text c key) d) fs)"

definition gate_fields :: "(string \<times> string \<times> string) list" where
  "gate_fields = [(''rise_delay'', ''riseDelay'', ''1n''), (''fall_delay'', ''fallDelay'', ''1n''), (''input_load'', ''inputLoad'', ''0.5p'')]"

definition dff_fields :: "(string \<times> string \<times> string) list" where
  "dff_fields = [(''clk_delay'', ''clkDelay'', ''1n''), (''set_delay'', ''setDelay'', ''1n''), (''reset_delay'', ''resetDelay'', ''1n''),
     (''rise_delay'', ''riseDelay'', ''1n''), (''fall_delay'', ''fallDelay'', ''1n'')]"

definition dlatch_fields :: "(string \<times> string \<times> string) list" where
  "dlatch_fields = [(''data_delay'', ''dataDelay'', ''1n''), (''enable_delay'', ''enableDelay'', ''1n''), (''set_delay'', ''setDelay'', ''1n''),
     (''reset_delay'', ''resetDelay'', ''1n''), (''rise_delay'', ''riseDelay'', ''1n''), (''fall_delay'', ''fallDelay'', ''1n'')]"

definition tristate_fields :: "(string \<times> string \<times> string) list" where
  "tristate_fields = [(''delay'', ''delay'', ''1n'')]"

definition fields_of :: "ctype \<Rightarrow> (string \<times> string \<times> string) list" where
  "fields_of t =
     (if t \<in> {Dff, Jkff, Tff} then dff_fields else if t = Dlatch then dlatch_fields
      else if t = Tristate then tristate_fields else gate_fields)"

definition digital_params :: "(rat \<Rightarrow> string) \<Rightarrow> component \<Rightarrow> string" where
  "digital_params number_text c =
     timing number_text c (fields_of (comp_type c)) @
     (if comp_type c \<in> {Dff, Jkff, Tff, Dlatch} \<and> digital_prop number_text c ''ic'' = Some ''1'' then '' ic=1'' else [])"

definition default_params :: "ctype \<Rightarrow> string" where
  "default_params t = join_with '' '' (map (\<lambda>(name, _, d). name @ ''='' @ d) (fields_of t))"

section \<open>The logic level\<close>

text \<open>
  \<open>v.match(/[+-]?\d*\.?\d+(?:[eE][+-]?\d+)?/g)\<close>, each as a number; one that overflows is dropped.
  (What follows a number is shorter than the text; the test tells the termination proof so.)
\<close>

definition signed_value :: "bool \<Rightarrow> string \<Rightarrow> rat option" where
  "signed_value neg digits = (case js_number digits of None \<Rightarrow> None | Some r \<Rightarrow> Some (if neg then - r else r))"

function numbers_in :: "string \<Rightarrow> rat list" where
  "numbers_in s =
     (case s of [] \<Rightarrow> []
      | c # cs \<Rightarrow>
          (let signed = (c = CHR ''+'' \<or> c = CHR ''-'') in
           case mantissa (if signed then cs else s) of
             None \<Rightarrow> numbers_in cs
           | Some (m, r) \<Rightarrow>
               (let (e, rest) = exponent_part r; later = numbers_in (if length rest < length s then rest else cs) in
                case signed_value (c = CHR ''-'') (m @ e) of None \<Rightarrow> later | Some x \<Rightarrow> x # later)))"
  by pat_completeness auto
termination by (relation "measure length") auto

declare numbers_in.simps [simp del]

definition starts_upper :: "string \<Rightarrow> string \<Rightarrow> bool" where
  "starts_upper p v = prefix p (js_upper v)"

fun odd_places :: "'a list \<Rightarrow> 'a list" where
  "odd_places [] = []" | "odd_places [x] = []" | "odd_places (x # y # zs) = y # odd_places zs"

definition source_high_level :: "string option \<Rightarrow> rat option" where
  "source_high_level value =
     (case value of None \<Rightarrow> None
      | Some raw \<Rightarrow>
          (let v = js_trim raw; nums = numbers_in v in
           if raw = [] then None
           else case nums of [] \<Rightarrow> None
           | first # rest \<Rightarrow>
               if starts_upper ''PULSE'' v \<or> starts_upper ''EXP'' v
               then Some (case rest of [] \<Rightarrow> first | second # _ \<Rightarrow> max first second)
               else if starts_upper ''SIN'' v \<or> starts_upper ''SFFM'' v
               then Some (case rest of [] \<Rightarrow> first | second # _ \<Rightarrow> first + \<bar>second\<bar>)
               else if starts_upper ''PWL'' v
               then (case odd_places nums of [] \<Rightarrow> None | l # ls \<Rightarrow> Some (foldl max l ls))
               else Some first))"


record net_roles =
  nr_analog :: nat
  nr_source :: nat
  nr_sink :: nat

definition no_roles :: net_roles where
  "no_roles = \<lparr>nr_analog = 0, nr_source = 0, nr_sink = 0\<rparr>"

definition bump :: "string \<Rightarrow> (net_roles \<Rightarrow> net_roles) \<Rightarrow> (string \<times> net_roles) list \<Rightarrow> (string \<times> net_roles) list" where
  "bump i f roles = AList.update i (f (case map_of roles i of Some r \<Rightarrow> r | None \<Rightarrow> no_roles)) roles"

definition count_pin :: "component \<Rightarrow> pin_connection \<Rightarrow> (string \<times> net_roles) list \<Rightarrow> (string \<times> net_roles) list" where
  "count_pin c p =
     bump (netId p)
       (if \<not> is_digital (comp_type c) then nr_analog_update Suc
        else if digital_pin_role (comp_type c) (pinId p) = Some Source then nr_source_update Suc
        else nr_sink_update Suc)"

definition classify_part :: "component \<Rightarrow> (string \<times> net_roles) list \<Rightarrow> (string \<times> net_roles) list" where
  "classify_part c roles =
     (if comp_type c = Ground \<or> comp_type c = Generic then roles else fold (count_pin c) (pins c) roles)"

definition classify_nets :: "component list \<Rightarrow> (string \<times> net_roles) list" where
  "classify_nets cs = fold classify_part cs []"

text \<open>\<open>/^\s*V\s*=/i\<close>\<close>

definition voltage_form :: "string \<Rightarrow> bool" where
  "voltage_form s =
     (case dropWhile js_space s of [] \<Rightarrow> False
      | c # r \<Rightarrow> lower_char c = CHR ''v'' \<and> (case dropWhile js_space r of [] \<Rightarrow> False | e # _ \<Rightarrow> e = CHR ''=''))"

definition drives_level :: "(string \<times> net_roles) list \<Rightarrow> component \<Rightarrow> bool" where
  "drives_level roles c \<longleftrightarrow>
     (comp_type c = VoltageSource \<or>
      comp_type c = Bsource \<and> voltage_form (case comp_value c of Some v \<Rightarrow> v | None \<Rightarrow> [])) \<and>
     list_ex (\<lambda>p. case map_of roles (netId p) of Some r \<Rightarrow> nr_source r + nr_sink r > 0 | None \<Rightarrow> False) (pins c)"

definition detect_logic_high :: "component list \<Rightarrow> (string \<times> net_roles) list \<Rightarrow> rat option \<Rightarrow> rat" where
  "detect_logic_high cs roles override =
     (if (case override of Some v \<Rightarrow> v > 0 | None \<Rightarrow> False) then the override
      else (let high = foldl (\<lambda>h c. if \<not> drives_level roles c then h
                         else (case source_high_level (comp_value c) of Some l \<Rightarrow> if l > h then l else h | None \<Rightarrow> h)) 0 cs
            in if high > 0 then high else 5))"

text \<open>\<open>Number(v.toFixed(4)).toString()\<close> of a positive number below \<open>10 ^ 21\<close>.\<close>

definition fmt_volts :: "rat \<Rightarrow> string" where
  "fmt_volts v =
     (let n = nat \<lfloor>v * 10000 + 1 / 2\<rfloor>; f = n mod 10000 in
      num_str (n div 10000) @
      (if f = 0 then []
       else CHR ''.'' # rev (dropWhile (\<lambda>c. c = CHR ''0'')
              (rev (map digit_char [f div 1000, f div 100 mod 10, f div 10 mod 10, f mod 10])))))"

definition adc_card :: "rat \<Rightarrow> string" where
  "adc_card vdd = ''.model CFD_ADC adc_bridge(in_low='' @ fmt_volts (3 / 10 * vdd) @ '' in_high='' @ fmt_volts (7 / 10 * vdd) @ '')''"

definition dac_card :: "rat \<Rightarrow> string" where
  "dac_card vdd = ''.model CFD_DAC dac_bridge(out_low=0 out_high='' @ fmt_volts vdd @ '')''"

section \<open>The plan\<close>

record mixed_plan =
  mp_active :: bool
  nodeOverride :: "(string \<times> string) list"
  lowRailNode :: "string option"
  modelCards :: "string list"
  deviceLines :: "string list"
  probeNodeForNet :: "(string \<times> string) list"
  digitalModelName :: "(string \<times> string) list"

definition empty_plan :: mixed_plan where
  "empty_plan = \<lparr>mp_active = False, nodeOverride = [], lowRailNode = None, modelCards = [], deviceLines = [],
     probeNodeForNet = [], digitalModelName = []\<rparr>"

text \<open>
  The variables the function closes over: the names in use, in lower case, the counter of the synthesized
  devices, and the plan.
\<close>

record planning =
  usedNodes :: "string list"
  usedDevices :: "string list"
  synthN :: nat
  plan :: mixed_plan

text \<open>\<open>uniqueNode\<close> and \<open>uniqueDevice\<close>: the base, or the first of \<open>base_1\<close>, \<open>base_2\<close>, ... not in use.\<close>

definition unique_name :: "string list \<Rightarrow> string \<Rightarrow> string" where
  "unique_name used base =
     (if js_lower base \<in> set used then base @ ''_'' @ num_str (next_free [] (base @ ''_'') [] used 1) else base)"

definition unique_node :: "string \<Rightarrow> planning \<Rightarrow> string \<times> planning" where
  "unique_node base s =
     (let x = unique_name (usedNodes s) base in (x, s\<lparr>usedNodes := js_lower x # usedNodes s\<rparr>))"

definition add_model :: "string \<Rightarrow> planning \<Rightarrow> planning" where
  "add_model text s =
     (if text \<in> set (modelCards (plan s)) then s
      else s\<lparr>plan := (plan s)\<lparr>modelCards := modelCards (plan s) @ [text]\<rparr>\<rparr>)"

definition synth_device :: "string \<Rightarrow> string \<Rightarrow> planning \<Rightarrow> planning" where
  "synth_device kind rest s =
     (let x = unique_name (usedDevices s) (kind @ num_str (synthN s)) in
      s\<lparr>usedDevices := js_lower x # usedDevices s, synthN := synthN s + 1,
        plan := (plan s)\<lparr>deviceLines := deviceLines (plan s) @ [x @ '' '' @ rest]\<rparr>\<rparr>)"

definition bridge_text :: "string \<Rightarrow> string \<Rightarrow> string \<Rightarrow> string" where
  "bridge_text a b model = ''['' @ a @ ''] ['' @ b @ ''] '' @ model"

text \<open>The models: what is known of the names, the number of variants of a base, and the planning state.\<close>

definition name_model ::
  "(rat \<Rightarrow> string) \<Rightarrow> component \<Rightarrow> ((string \<rightharpoonup> string) \<times> (string \<Rightarrow> nat)) \<times> planning \<Rightarrow>
   ((string \<rightharpoonup> string) \<times> (string \<Rightarrow> nat)) \<times> planning" where
  "name_model number_text c st =
     (case st of ((names, variants), s) \<Rightarrow>
       (case (digital_device (comp_type c), digital_basename (comp_type c)) of
          (Some device, Some base) \<Rightarrow>
            (let params = digital_params number_text c;
                 key = base @ ''|'' @ params;
                 (name, known, s1) =
                   (case names key of
                      Some x \<Rightarrow> (x, (names, variants), s)
                    | None \<Rightarrow>
                        (let (x, variants') =
                           (if params = default_params (comp_type c) then (base, variants)
                            else (base @ ''_'' @ num_str (variants base + 1), variants(base := variants base + 1)))
                         in (x, (names(key \<mapsto> x), variants'),
                             add_model (''.model '' @ x @ '' '' @ device @ ''('' @ params @ '')'') s)))
             in (known, s1\<lparr>plan := (plan s1)\<lparr>digitalModelName := AList.update (comp_id c) name (digitalModelName (plan s1))\<rparr>\<rparr>))
        | _ \<Rightarrow> st))"

definition override_key :: "component \<Rightarrow> string \<Rightarrow> string" where
  "override_key c p = comp_id c @ '':'' @ p"

definition net_keys :: "component list \<Rightarrow> string \<Rightarrow> string list" where
  "net_keys cs i = [override_key c (pinId p). c \<leftarrow> cs, is_digital (comp_type c), p \<leftarrow> pins c, netId p = i]"

definition override_pins :: "component list \<Rightarrow> string \<Rightarrow> string \<Rightarrow> (string \<times> string) list \<Rightarrow> (string \<times> string) list" where
  "override_pins cs i node m = fold (\<lambda>k. AList.update k node) (net_keys cs i) m"

definition plan_net :: "component list \<Rightarrow> (string \<times> string) list \<Rightarrow> rat \<Rightarrow> string \<times> net_roles \<Rightarrow> planning \<Rightarrow> planning" where
  "plan_net cs nodes vdd entry s =
     (case entry of (i, r) \<Rightarrow>
       if nr_source r + nr_sink r = 0 then s
       else (case map_of nodes i of
               None \<Rightarrow> s
             | Some analog \<Rightarrow>
                 if analog = [] then s
                 else if nr_analog r = 0
                 then (if nr_source r > 0
                       then (let (probe, s1) = unique_node (analog @ ''_p'') s;
                                 s2 = synth_device ''axsyn'' (bridge_text analog probe ''CFD_DAC'') (add_model (dac_card vdd) s1)
                             in s2\<lparr>plan := (plan s2)\<lparr>probeNodeForNet := AList.update i probe (probeNodeForNet (plan s2))\<rparr>\<rparr>)
                       else s)
                 else (let (dig, s1) = unique_node (analog @ ''_d'') s;
                           s2 = s1\<lparr>plan := (plan s1)\<lparr>nodeOverride := override_pins cs i dig (nodeOverride (plan s1))\<rparr>\<rparr>
                       in if nr_source r > 0
                          then synth_device ''axsyn'' (bridge_text dig analog ''CFD_DAC'') (add_model (dac_card vdd) s2)
                          else synth_device ''axsyn'' (bridge_text analog dig ''CFD_ADC'') (add_model (adc_card vdd) s2))))"

definition needs_low_rail :: "component list \<Rightarrow> bool" where
  "needs_low_rail cs \<longleftrightarrow>
     list_ex (\<lambda>c. is_sequential (comp_type c) \<and>
       (\<not> list_ex (\<lambda>p. pinId p = ''set'') (pins c) \<or> \<not> list_ex (\<lambda>p. pinId p = ''rst'') (pins c))) cs"

definition add_low_rail :: "rat \<Rightarrow> planning \<Rightarrow> planning" where
  "add_low_rail vdd s =
     (let (rail_analog, s1) = unique_node ''dlogic_lo_a'' s;
          (rail_digital, s2) = unique_node ''dlogic_lo'' s1;
          s3 = add_model (adc_card vdd) s2;
          s4 = synth_device ''vxsyn'' (rail_analog @ '' 0 DC 0'') s3;
          s5 = synth_device ''axsyn'' (bridge_text rail_analog rail_digital ''CFD_ADC'') s4
      in s5\<lparr>plan := (plan s5)\<lparr>lowRailNode := Some rail_digital\<rparr>\<rparr>)"

definition plan_mixed_signal ::
  "(rat \<Rightarrow> string) \<Rightarrow> component list \<Rightarrow> (string \<times> string) list \<Rightarrow> string list \<Rightarrow> rat option \<Rightarrow> mixed_plan" where
  "plan_mixed_signal number_text cs nodes used override =
     (if \<not> list_ex (\<lambda>c. is_digital (comp_type c)) cs then empty_plan
      else (let roles = classify_nets cs;
                vdd = detect_logic_high cs roles override;
                s0 = \<lparr>usedNodes = map (\<lambda>x. js_lower (snd x)) nodes, usedDevices = used, synthN = 0,
                      plan = empty_plan\<lparr>mp_active := True\<rparr>\<rparr>;
                s1 = snd (fold (name_model number_text) cs ((Map.empty, (\<lambda>_. 0)), s0));
                s2 = fold (plan_net cs nodes vdd) roles s1
            in plan (if needs_low_rail cs then add_low_rail vdd s2 else s2)))"

section \<open>The device lines\<close>

text \<open>\<open>/[^A-Za-z0-9_]/g\<close> and the instance name of an XSPICE device.\<close>

definition a_instance_name :: "string \<Rightarrow> string" where
  "a_instance_name d =
     (let safe = filter is_word d in case safe of c # _ \<Rightarrow> if lower_char c = CHR ''a'' then safe else CHR ''A'' # safe | [] \<Rightarrow> ''A'')"

definition gate_input :: "string \<Rightarrow> bool" where
  "gate_input i \<longleftrightarrow> js_lower (take 2 i) = ''in'' \<and> drop 2 i \<noteq> [] \<and> list_all is_digit (drop 2 i)"

definition gate_input_pins :: "component \<Rightarrow> string list" where
  "gate_input_pins c = sort_key (\<lambda>i. num_val (drop 2 i)) (filter gate_input (map pinId (pins c)))"

datatype node_lookup = Undeclared_net string | Absent | Node string

definition node_of :: "(string \<times> string) list \<Rightarrow> mixed_plan \<Rightarrow> component \<Rightarrow> string \<Rightarrow> node_lookup" where
  "node_of nodes mp c p =
     (case map_of (nodeOverride mp) (override_key c p) of
        Some (x # xs) \<Rightarrow> Node (x # xs)
      | _ \<Rightarrow>
          (case pin_by_id c p of
             None \<Rightarrow> Absent
           | Some q \<Rightarrow> (case map_of nodes (netId q) of
                 Some x \<Rightarrow> if x = [] then Undeclared_net (netId q) else Node x
               | None \<Rightarrow> Undeclared_net (netId q))))"


text \<open>The nodes of pins in order: an undeclared net throws, a missing pin ends in no line.\<close>

fun look_all :: "(string \<Rightarrow> node_lookup) \<Rightarrow> string list \<Rightarrow> string + string option list" where
  "look_all f [] = Inr []"
| "look_all f (p # ps) =
     (case f p of
        Undeclared_net i \<Rightarrow> Inl i
      | Absent \<Rightarrow> map_sum id (Cons None) (look_all f ps)
      | Node x \<Rightarrow> map_sum id (Cons (Some x)) (look_all f ps))"

definition with_nodes :: "(string \<Rightarrow> node_lookup) \<Rightarrow> string list \<Rightarrow> (string list \<Rightarrow> string + string option) \<Rightarrow> string + string option" where
  "with_nodes f ps k =
     (case look_all f ps of Inl i \<Rightarrow> Inl i | Inr xs \<Rightarrow> if None \<in> set xs then Inr None else k (map the xs))"

definition or_rail :: "mixed_plan \<Rightarrow> (string \<Rightarrow> node_lookup) \<Rightarrow> string \<Rightarrow> node_lookup" where
  "or_rail mp f p = (case f p of Absent \<Rightarrow> (case lowRailNode mp of Some x \<Rightarrow> Node x | None \<Rightarrow> Absent) | r \<Rightarrow> r)"

definition sequential_inputs :: "ctype \<Rightarrow> string list" where
  "sequential_inputs t =
     (if t = Dff then [''d'', ''clk''] else if t = Jkff then [''j'', ''k'', ''clk'']
      else if t = Tff then [''t'', ''clk''] else [''d'', ''en''])"

definition device_line :: "string list \<Rightarrow> string + string option" where
  "device_line tokens = Inr (Some (join_with '' '' tokens))"

definition emit_digital_component ::
  "component \<Rightarrow> (string \<times> string) list \<Rightarrow> mixed_plan \<Rightarrow> string + string option" where
  "emit_digital_component c nodes mp =
     (let inst = a_instance_name (designator c); look = node_of nodes mp c in
      case map_of (digitalModelName mp) (comp_id c) of
        None \<Rightarrow> Inr None
      | Some m \<Rightarrow>
          if m = [] then Inr None
          else if is_logic_gate (comp_type c)
          then with_nodes look [''out''] (\<lambda>out.
                 with_nodes look (gate_input_pins c) (\<lambda>ins.
                   if ins = [] then Inr None
                   else if is_single_input_gate (comp_type c) then device_line [inst, hd ins, hd out, m]
                   else device_line [inst, ''['' @ join_with '' '' ins @ '']'', hd out, m]))
          else if is_sequential (comp_type c)
          then with_nodes look [''q'', ''qb''] (\<lambda>outs.
                 with_nodes (or_rail mp look) [''set'', ''rst''] (\<lambda>controls.
                   with_nodes look (sequential_inputs (comp_type c)) (\<lambda>ins.
                     device_line (inst # ins @ controls @ outs @ [m]))))
          else if comp_type c = Tristate
          then with_nodes look [''in1'', ''en'', ''out''] (\<lambda>xs. device_line (inst # xs @ [m]))
          else Inr None)"

section \<open>Fresh names\<close>

lemma unique_name_fresh: "js_lower (unique_name used base) \<notin> set used"
  using next_free_free [of "[]" "base @ ''_''" "[]" used 1]
  by (simp add: unique_name_def name_taken_def js_lower_def)


lemma update_values: "set (map snd (AList.update k v al)) \<subseteq> insert v (set (map snd al))"
  by (induction al) auto

lemma update_distinct:
  "distinct (map (\<lambda>x. f (snd x)) al) \<Longrightarrow> f v \<notin> (\<lambda>x. f (snd x)) ` set al \<Longrightarrow>
   distinct (map (\<lambda>x. f (snd x)) (AList.update k v al))"
proof (induction al)
  case (Cons a al)
  have "(\<lambda>x. f (snd x)) ` set (AList.update k v al) \<subseteq> insert (f v) ((\<lambda>x. f (snd x)) ` set al)"
    using update_values [of k v al] by force
  then show ?case using Cons by (cases a) auto
qed simp

lemma override_values: "set (map snd (override_pins cs i x m)) \<subseteq> insert x (set (map snd m))"
proof -
  have "set (map snd (fold (\<lambda>k. AList.update k x) ks m)) \<subseteq> insert x (set (map snd m))" for ks
  proof (induction ks arbitrary: m)
    case (Cons k ks)
    show ?case using Cons.IH [of "AList.update k x m"] update_values [of k x m] by auto
  qed auto
  then show ?thesis unfolding override_pins_def .
qed

text \<open>The nodes the plan makes up: the twins, the digital sides of the mixed nets, the rail.\<close>

definition made_up :: "mixed_plan \<Rightarrow> string list" where
  "made_up mp =
     map snd (probeNodeForNet mp) @ remdups (map snd (nodeOverride mp)) @
     (case lowRailNode mp of Some x \<Rightarrow> [x] | None \<Rightarrow> [])"

definition keeps_apart :: "string set \<Rightarrow> planning \<Rightarrow> bool" where
  "keeps_apart U s \<longleftrightarrow>
     U \<subseteq> set (usedNodes s) \<and> distinct (map js_lower (made_up (plan s))) \<and>
     js_lower ` set (made_up (plan s)) \<subseteq> set (usedNodes s) - U"

lemma distinct_made_up:
  "distinct (map js_lower (made_up mp)) \<longleftrightarrow>
     distinct (map (\<lambda>x. js_lower (snd x)) (probeNodeForNet mp)) \<and> inj_on js_lower (snd ` set (nodeOverride mp)) \<and>
     js_lower ` snd ` set (probeNodeForNet mp) \<inter> js_lower ` snd ` set (nodeOverride mp) = {} \<and>
     (\<forall>x. lowRailNode mp = Some x \<longrightarrow>
        js_lower x \<notin> js_lower ` snd ` set (probeNodeForNet mp) \<union> js_lower ` snd ` set (nodeOverride mp))"
proof -
  have "distinct (map js_lower (remdups (map snd (nodeOverride mp)))) \<longleftrightarrow> inj_on js_lower (snd ` set (nodeOverride mp))"
    by (simp add: distinct_map)
  moreover have "map js_lower (map snd (probeNodeForNet mp)) = map (\<lambda>x. js_lower (snd x)) (probeNodeForNet mp)" by simp
  ultimately show ?thesis
    unfolding made_up_def map_append distinct_append by (auto simp: image_image comp_def split: option.splits)
qed

lemma add_model_simps [simp]:
  "usedNodes (add_model m s) = usedNodes s" "probeNodeForNet (plan (add_model m s)) = probeNodeForNet (plan s)"
  "nodeOverride (plan (add_model m s)) = nodeOverride (plan s)" "lowRailNode (plan (add_model m s)) = lowRailNode (plan s)"
  "digitalModelName (plan (add_model m s)) = digitalModelName (plan s)"
  by (simp_all add: add_model_def)

lemma synth_device_simps [simp]:
  "usedNodes (synth_device k r s) = usedNodes s" "probeNodeForNet (plan (synth_device k r s)) = probeNodeForNet (plan s)"
  "nodeOverride (plan (synth_device k r s)) = nodeOverride (plan s)"
  "lowRailNode (plan (synth_device k r s)) = lowRailNode (plan s)"
  by (simp_all add: synth_device_def Let_def)

lemma keeps_apart_cong:
  "usedNodes t = usedNodes s \<Longrightarrow> probeNodeForNet (plan t) = probeNodeForNet (plan s) \<Longrightarrow>
   nodeOverride (plan t) = nodeOverride (plan s) \<Longrightarrow> lowRailNode (plan t) = lowRailNode (plan s) \<Longrightarrow>
   keeps_apart U t = keeps_apart U s"
  by (simp add: keeps_apart_def made_up_def)

lemma keeps_apart_use: "keeps_apart U s \<Longrightarrow> keeps_apart U (s\<lparr>usedNodes := x # usedNodes s\<rparr>)"
  by (auto simp: keeps_apart_def)

lemma set_made_up:
  "set (made_up mp) = snd ` set (probeNodeForNet mp) \<union> snd ` set (nodeOverride mp) \<union> set_option (lowRailNode mp)"
  by (auto simp: made_up_def split: option.splits)

lemma disjoint_insert: "A \<subseteq> insert x B \<Longrightarrow> x \<notin> C \<Longrightarrow> B \<inter> C = {} \<Longrightarrow> A \<inter> C = {}"
  by blast


lemma keeps_apart_new:
  assumes "keeps_apart U s" "js_lower x \<notin> set (usedNodes s)" "usedNodes t = js_lower x # usedNodes s"
    and "set (made_up (plan t)) \<subseteq> insert x (set (made_up (plan s)))" "distinct (map js_lower (made_up (plan t)))"
  shows "keeps_apart U t"
proof -
  have old: "js_lower y \<in> set (usedNodes s) - U" if "y \<in> set (made_up (plan s))" for y
    using assms(1) that by (auto simp: keeps_apart_def)
  have U: "js_lower x \<notin> U" "U \<subseteq> set (usedNodes s)" using assms(1,2) by (auto simp: keeps_apart_def)
  then have "js_lower ` set (made_up (plan t)) \<subseteq> set (usedNodes t) - U"
    using old assms(2,4) unfolding assms(3) by auto
  then show ?thesis using U(2) assms(5) by (auto simp: keeps_apart_def assms(3))
qed

lemma apart_facts:
  assumes "keeps_apart U s" "js_lower x \<notin> set (usedNodes s)"
  shows "js_lower x \<notin> js_lower ` snd ` set (probeNodeForNet (plan s))"
    and "js_lower x \<notin> js_lower ` snd ` set (nodeOverride (plan s))"
    and "lowRailNode (plan s) = Some y \<Longrightarrow> js_lower y \<noteq> js_lower x"
    and "distinct (map js_lower (made_up (plan s)))"
proof -
  have "js_lower x \<notin> js_lower ` set (made_up (plan s))" using assms by (auto simp: keeps_apart_def)
  then show "js_lower x \<notin> js_lower ` snd ` set (probeNodeForNet (plan s))"
    "js_lower x \<notin> js_lower ` snd ` set (nodeOverride (plan s))"
    "lowRailNode (plan s) = Some y \<Longrightarrow> js_lower y \<noteq> js_lower x"
    unfolding set_made_up image_Un by auto
qed (use assms(1) in \<open>simp add: keeps_apart_def\<close>)

lemma keeps_apart_twin:
  assumes "keeps_apart U s" "js_lower x \<notin> set (usedNodes s)"
    and "usedNodes t = js_lower x # usedNodes s" "probeNodeForNet (plan t) = AList.update i x (probeNodeForNet (plan s))"
    and "nodeOverride (plan t) = nodeOverride (plan s)" "lowRailNode (plan t) = lowRailNode (plan s)"
  shows "keeps_apart U t"
proof (rule keeps_apart_new [OF assms(1-3)])
  let ?P = "probeNodeForNet (plan s)" and ?O = "js_lower ` snd ` set (nodeOverride (plan s))"
  have sub: "snd ` set (AList.update i x ?P) \<subseteq> insert x (snd ` set ?P)" using update_values [of i x] by simp
  then show "set (made_up (plan t)) \<subseteq> insert x (set (made_up (plan s)))" unfolding set_made_up assms(4-6) by blast
  note new = apart_facts [OF assms(1,2)]
  note D = new(4) [unfolded distinct_made_up]
  note d = D [THEN conjunct1] D [THEN conjunct2, THEN conjunct1] D [THEN conjunct2, THEN conjunct2, THEN conjunct1]
    D [THEN conjunct2, THEN conjunct2, THEN conjunct2, rule_format]
  have s: "js_lower ` snd ` set (AList.update i x ?P) \<subseteq> insert (js_lower x) (js_lower ` snd ` set ?P)"
    using image_mono [OF sub, of js_lower] by simp
  have "js_lower x \<notin> (\<lambda>y. js_lower (snd y)) ` set ?P" using new(1) by (simp add: image_image)
  moreover have "js_lower ` snd ` set (AList.update i x ?P) \<inter> ?O = {}" using s new(2) d(3) by (rule disjoint_insert)
  moreover have "js_lower y \<notin> js_lower ` snd ` set (AList.update i x ?P) \<union> ?O" if "lowRailNode (plan s) = Some y" for y
    using d(4) [OF that] new(3) [OF that] s by blast
  ultimately show "distinct (map js_lower (made_up (plan t)))"
    unfolding distinct_made_up assms(4-6) using update_distinct [OF d(1), of x i] d(2) by (intro conjI allI impI)
qed

lemma keeps_apart_override:
  assumes "keeps_apart U s" "js_lower x \<notin> set (usedNodes s)"
    and "usedNodes t = js_lower x # usedNodes s" "nodeOverride (plan t) = override_pins cs i x (nodeOverride (plan s))"
    and "probeNodeForNet (plan t) = probeNodeForNet (plan s)" "lowRailNode (plan t) = lowRailNode (plan s)"
  shows "keeps_apart U t"
proof (rule keeps_apart_new [OF assms(1-3)])
  let ?V = "snd ` set (nodeOverride (plan s))" and ?W = "snd ` set (override_pins cs i x (nodeOverride (plan s)))"
    and ?P = "js_lower ` snd ` set (probeNodeForNet (plan s))"
  have sub: "?W \<subseteq> insert x ?V" using override_values [of cs i x "nodeOverride (plan s)"] by simp
  then show "set (made_up (plan t)) \<subseteq> insert x (set (made_up (plan s)))" unfolding set_made_up assms(4-6) by blast
  note new = apart_facts [OF assms(1,2)]
  note D = new(4) [unfolded distinct_made_up]
  note d = D [THEN conjunct1] D [THEN conjunct2, THEN conjunct1] D [THEN conjunct2, THEN conjunct2, THEN conjunct1]
    D [THEN conjunct2, THEN conjunct2, THEN conjunct2, rule_format]
  have s: "js_lower ` ?W \<subseteq> insert (js_lower x) (js_lower ` ?V)" using image_mono [OF sub, of js_lower] by simp
  have "inj_on js_lower (insert x ?V)" using d(2) new(2) by auto
  then have "inj_on js_lower ?W" using sub by (rule inj_on_subset)
  moreover have "?P \<inter> js_lower ` ?W = {}"
    using disjoint_insert [OF s new(1)] d(3) by (simp only: Int_commute)
  moreover have "js_lower y \<notin> ?P \<union> js_lower ` ?W" if "lowRailNode (plan s) = Some y" for y
    using d(4) [OF that] new(3) [OF that] s by blast
  ultimately show "distinct (map js_lower (made_up (plan t)))"
    unfolding distinct_made_up assms(4-6) using d(1) by (intro conjI allI impI)
qed

lemma unique_node_fresh: "js_lower (fst (unique_node base s)) \<notin> set (usedNodes s)"
  by (simp add: unique_node_def Let_def unique_name_fresh)

lemma unique_node_state: "snd (unique_node base s) = s\<lparr>usedNodes := js_lower (fst (unique_node base s)) # usedNodes s\<rparr>"
  by (simp add: unique_node_def Let_def)

lemma plan_net_apart: "keeps_apart U s \<Longrightarrow> keeps_apart U (plan_net cs nodes vdd e s)"
proof -
  assume k: "keeps_apart U s"
  obtain i r where e: "e = (i, r)" by (cases e)
  note fresh = unique_node_fresh [of _ s]
  show ?thesis
    unfolding plan_net_def e
    using k keeps_apart_twin [OF k fresh, where i = i] keeps_apart_override [OF k fresh, where i = i and cs = cs]
    by (auto simp: Let_def case_prod_beta unique_node_state split: option.splits)
qed


lemma name_model_keeps:
  "usedNodes (snd (name_model nt c st)) = usedNodes (snd st)"
  "probeNodeForNet (plan (snd (name_model nt c st))) = probeNodeForNet (plan (snd st))"
  "nodeOverride (plan (snd (name_model nt c st))) = nodeOverride (plan (snd st))"
  "lowRailNode (plan (snd (name_model nt c st))) = lowRailNode (plan (snd st))"
  by (auto simp: name_model_def Let_def split: prod.splits option.splits)

lemma name_models_keep:
  "usedNodes (snd (fold (name_model nt) cs st)) = usedNodes (snd st)"
  "probeNodeForNet (plan (snd (fold (name_model nt) cs st))) = probeNodeForNet (plan (snd st))"
  "nodeOverride (plan (snd (fold (name_model nt) cs st))) = nodeOverride (plan (snd st))"
  "lowRailNode (plan (snd (fold (name_model nt) cs st))) = lowRailNode (plan (snd st))"
  by (induction cs arbitrary: st) (simp_all add: name_model_keeps)

lemma plan_nets_apart: "keeps_apart U s \<Longrightarrow> keeps_apart U (fold (plan_net cs nodes vdd) es s)"
  by (induction es arbitrary: s) (simp_all add: plan_net_apart)

lemma plan_net_rail: "lowRailNode (plan (plan_net cs nodes vdd e s)) = lowRailNode (plan s)"
  by (auto simp: plan_net_def Let_def case_prod_beta unique_node_state split: option.splits prod.splits)

lemma plan_nets_rail: "lowRailNode (plan (fold (plan_net cs nodes vdd) es s)) = lowRailNode (plan s)"
  by (induction es arbitrary: s) (simp_all add: plan_net_rail)

lemma add_low_rail_apart:
  assumes "keeps_apart U s" "lowRailNode (plan s) = None"
  shows "keeps_apart U (add_low_rail vdd s)"
proof -
  define s1 where "s1 = snd (unique_node ''dlogic_lo_a'' s)"
  define x where "x = fst (unique_node ''dlogic_lo'' s1)"
  have k: "keeps_apart U s1" unfolding s1_def unique_node_state by (rule keeps_apart_use [OF assms(1)])
  have p: "plan s1 = plan s" by (simp add: s1_def unique_node_state)
  have fresh: "js_lower x \<notin> set (usedNodes s1)" unfolding x_def by (rule unique_node_fresh)
  have t: "usedNodes (add_low_rail vdd s) = js_lower x # usedNodes s1"
    "probeNodeForNet (plan (add_low_rail vdd s)) = probeNodeForNet (plan s1)"
    "nodeOverride (plan (add_low_rail vdd s)) = nodeOverride (plan s1)"
    "lowRailNode (plan (add_low_rail vdd s)) = Some x"
    by (simp_all add: add_low_rail_def Let_def case_prod_beta s1_def x_def unique_node_state)
  note new = apart_facts [OF k fresh]
  show ?thesis
  proof (rule keeps_apart_new [OF k fresh t(1)])
    show "set (made_up (plan (add_low_rail vdd s))) \<subseteq> insert x (set (made_up (plan s1)))"
      unfolding set_made_up t by auto
    have "distinct (map js_lower (made_up (plan s1)))" by (rule new(4))
    then show "distinct (map js_lower (made_up (plan (add_low_rail vdd s))))"
      unfolding distinct_made_up t using new(1,2) by auto
  qed
qed

lemma keeps_apartD:
  "keeps_apart U s \<Longrightarrow> distinct (map js_lower (made_up (plan s))) \<and> js_lower ` set (made_up (plan s)) \<inter> U = {}"
  unfolding keeps_apart_def by blast

definition lower_nodes :: "(string \<times> string) list \<Rightarrow> string set" where
  "lower_nodes nodes = (\<lambda>x. js_lower (snd x)) ` set nodes"

lemma made_up_fresh:
  "distinct (map js_lower (made_up (plan_mixed_signal nt cs nodes used ov))) \<and>
   js_lower ` set (made_up (plan_mixed_signal nt cs nodes used ov)) \<inter> lower_nodes nodes = {}"
proof (cases "list_ex (\<lambda>c. is_digital (comp_type c)) cs")
  case False
  then show ?thesis by (simp add: plan_mixed_signal_def empty_plan_def made_up_def)
next
  case True
  define s0 where "s0 = \<lparr>usedNodes = map (\<lambda>x. js_lower (snd x)) nodes, usedDevices = used, synthN = 0,
    plan = empty_plan\<lparr>mp_active := True\<rparr>\<rparr>"
  define s1 where "s1 = snd (fold (name_model nt) cs ((Map.empty, (\<lambda>_. 0)), s0))"
  define vdd where "vdd = detect_logic_high cs (classify_nets cs) ov"
  define s2 where "s2 = fold (plan_net cs nodes vdd) (classify_nets cs) s1"
  have "keeps_apart (lower_nodes nodes) s0"
    by (simp add: keeps_apart_def s0_def made_up_def empty_plan_def lower_nodes_def)
  then have "keeps_apart (lower_nodes nodes) s1"
    using keeps_apart_cong [of s1 s0] unfolding s1_def name_models_keep by simp
  then have k: "keeps_apart (lower_nodes nodes) s2" unfolding s2_def by (rule plan_nets_apart)
  have "lowRailNode (plan s2) = None"
    unfolding s2_def plan_nets_rail s1_def name_models_keep by (simp add: s0_def empty_plan_def)
  then have f: "keeps_apart (lower_nodes nodes) (if needs_low_rail cs then add_low_rail vdd s2 else s2)"
    using k add_low_rail_apart by simp
  have "plan_mixed_signal nt cs nodes used ov = plan (if needs_low_rail cs then add_low_rail vdd s2 else s2)"
    using True by (simp add: plan_mixed_signal_def Let_def s2_def s1_def s0_def vdd_def)
  then show ?thesis using keeps_apartD [OF f] by simp
qed

text \<open>
  Every node the plan makes up, for the digital side of a mixed net, for the analog twin of a digital
  one and for the rail, is a node of its own: no two are equal, and none is the node of a net, in any case.
\<close>

theorem made_up_nodes_fresh:
  "distinct (map js_lower (made_up (plan_mixed_signal nt cs nodes used ov))) \<and>
   js_lower ` set (made_up (plan_mixed_signal nt cs nodes used ov)) \<inter> lower_nodes nodes = {}"
  by (rule made_up_fresh)

section \<open>The two domains\<close>

definition has_role :: "(net_roles \<Rightarrow> bool) \<Rightarrow> (string \<times> net_roles) list \<Rightarrow> string \<Rightarrow> bool" where
  "has_role P m i \<longleftrightarrow> (\<exists>r. map_of m i = Some r \<and> P r)"

definition stable_role :: "(net_roles \<Rightarrow> bool) \<Rightarrow> bool" where
  "stable_role P \<longleftrightarrow> (\<forall>r. P r \<longrightarrow> P (nr_analog_update Suc r) \<and> P (nr_source_update Suc r) \<and> P (nr_sink_update Suc r))"

lemma bump_keeps: "(\<And>r. P r \<Longrightarrow> P (f r)) \<Longrightarrow> has_role P m i \<Longrightarrow> has_role P (bump j f m) i"
  by (cases "j = i") (auto simp: bump_def has_role_def AList.update_conv')

lemma count_pin_keeps: "stable_role P \<Longrightarrow> has_role P m i \<Longrightarrow> has_role P (count_pin c p m) i"
  unfolding count_pin_def by (rule bump_keeps) (simp_all add: stable_role_def)

lemma count_pins_keep: "stable_role P \<Longrightarrow> has_role P m i \<Longrightarrow> has_role P (fold (count_pin c) ps m) i"
  by (induction ps arbitrary: m) (simp_all add: count_pin_keeps)

definition counted :: "component \<Rightarrow> bool" where
  "counted c \<longleftrightarrow> comp_type c \<noteq> Ground \<and> comp_type c \<noteq> Generic"

lemma fold_reaches:
  assumes "\<And>m. Q (f x m)" "\<And>y m. Q m \<Longrightarrow> Q (f y m)"
  shows "x \<in> set xs \<Longrightarrow> Q (fold f xs m)"
proof (induction xs arbitrary: m)
  case (Cons y ys)
  have "Q m \<Longrightarrow> Q (fold f ys m)" for m using assms(2) by (induction ys arbitrary: m) simp_all
  then show ?case using Cons assms(1) by (cases "y = x") simp_all
qed simp

lemma classify_fold:
  assumes "stable_role P" "c \<in> set cs" "counted c" "p \<in> set (pins c)" "\<And>m. has_role P (count_pin c p m) (netId p)"
  shows "has_role P (classify_nets cs) (netId p)"
  unfolding classify_nets_def
proof (rule fold_reaches [where Q = "\<lambda>m. has_role P m (netId p)", OF _ _ assms(2)])
  show "has_role P (classify_part c m) (netId p)" for m
    using assms(3) fold_reaches [where Q = "\<lambda>m. has_role P m (netId p)" and f = "count_pin c", OF assms(5) count_pin_keeps [OF assms(1)] assms(4)]
    by (simp add: classify_part_def counted_def)
  show "has_role P m (netId p) \<Longrightarrow> has_role P (classify_part d m) (netId p)" for d m
    by (simp add: classify_part_def count_pins_keep [OF assms(1)])
qed

lemma analog_counted:
  assumes "c \<in> set cs" "counted c" "\<not> is_digital (comp_type c)" "p \<in> set (pins c)"
  shows "has_role (\<lambda>r. nr_analog r > 0) (classify_nets cs) (netId p)"
  using assms by (intro classify_fold [where c = c])
    (auto simp: stable_role_def has_role_def count_pin_def bump_def AList.update_conv')

lemma digital_is_counted: "is_digital (comp_type c) \<Longrightarrow> counted c"
  by (auto simp: counted_def is_digital_def digital_types_def logic_gate_types_def sequential_types_def)

lemma digital_counted:
  assumes "c \<in> set cs" "is_digital (comp_type c)" "p \<in> set (pins c)"
  shows "has_role (\<lambda>r. nr_source r + nr_sink r > 0) (classify_nets cs) (netId p)"
  using assms digital_is_counted by (intro classify_fold [where c = c])
    (auto simp: stable_role_def has_role_def count_pin_def bump_def AList.update_conv')

lemma override_lookup: "map_of (override_pins cs i x m) k = (if k \<in> set (net_keys cs i) then Some x else map_of m k)"
proof -
  have "map_of (fold (\<lambda>k. AList.update k x) ks m) k = (if k \<in> set ks then Some x else map_of m k)" for ks
    by (induction ks arbitrary: m) (simp_all add: AList.update_conv')
  then show ?thesis unfolding override_pins_def .
qed

lemma own_key: "c \<in> set cs \<Longrightarrow> is_digital (comp_type c) \<Longrightarrow> p \<in> set (pins c) \<Longrightarrow>
    override_key c (pinId p) \<in> set (net_keys cs (netId p))"
  by (auto simp: net_keys_def)

lemma plan_net_override:
  "nodeOverride (plan (plan_net cs nodes vdd e s)) = nodeOverride (plan s) \<or>
   (\<exists>a. a \<noteq> [] \<and> nodeOverride (plan (plan_net cs nodes vdd e s)) =
      override_pins cs (fst e) (unique_name (usedNodes s) (a @ ''_d'')) (nodeOverride (plan s)))"
proof -
  obtain i r where e: "e = (i, r)" by (cases e)
  show ?thesis unfolding plan_net_def e by (auto simp: Let_def case_prod_beta unique_node_def split: option.splits)
qed


lemma unique_name_not_Nil: "base \<noteq> [] \<Longrightarrow> unique_name used base \<noteq> []"
  by (simp add: unique_name_def)

definition overridden :: "string \<Rightarrow> planning \<Rightarrow> bool" where
  "overridden k s \<longleftrightarrow> (\<exists>x. x \<noteq> [] \<and> map_of (nodeOverride (plan s)) k = Some x)"

lemma plan_net_keeps_key: "overridden k s \<Longrightarrow> overridden k (plan_net cs nodes vdd e s)"
  using plan_net_override [of cs nodes vdd e s] unique_name_not_Nil
  by (auto simp: overridden_def override_lookup)

lemma plan_net_mixed:
  assumes "nr_source r + nr_sink r > 0" "nr_analog r > 0" "map_of nodes i = Some a" "a \<noteq> []" "k \<in> set (net_keys cs i)"
  shows "overridden k (plan_net cs nodes vdd (i, r) s)"
  using assms unique_name_not_Nil [of "a @ ''_d''" "usedNodes s"]
  by (auto simp: overridden_def plan_net_def Let_def unique_node_def override_lookup)

lemma mixed_overridden:
  assumes d: "c \<in> set cs" "is_digital (comp_type c)" "p \<in> set (pins c)"
    and a: "b \<in> set cs" "counted b" "\<not> is_digital (comp_type b)" "q \<in> set (pins b)" "netId q = netId p"
    and n: "map_of nodes (netId p) = Some y" "y \<noteq> []"
  shows "\<exists>x. x \<noteq> [] \<and> map_of (nodeOverride (plan_mixed_signal nt cs nodes used ov)) (override_key c (pinId p)) = Some x"
proof -
  obtain r where r: "map_of (classify_nets cs) (netId p) = Some r" "nr_analog r > 0" "nr_source r + nr_sink r > 0"
    using analog_counted [OF a(1-4)] digital_counted [OF d] a(5) by (auto simp: has_role_def)
  define s0 where "s0 = \<lparr>usedNodes = map (\<lambda>x. js_lower (snd x)) nodes, usedDevices = used, synthN = 0,
    plan = empty_plan\<lparr>mp_active := True\<rparr>\<rparr>"
  define s1 where "s1 = snd (fold (name_model nt) cs ((Map.empty, (\<lambda>_. 0)), s0))"
  define vdd where "vdd = detect_logic_high cs (classify_nets cs) ov"
  define s2 where "s2 = fold (plan_net cs nodes vdd) (classify_nets cs) s1"
  have "(netId p, r) \<in> set (classify_nets cs)" using r(1) by (rule map_of_SomeD)
  then have o: "overridden (override_key c (pinId p)) s2"
    unfolding s2_def
    using plan_net_mixed [OF r(3,2) n own_key [OF d], of vdd] plan_net_keeps_key
    by (intro fold_reaches [where Q = "overridden (override_key c (pinId p))"]) blast+
  have "list_ex (\<lambda>c. is_digital (comp_type c)) cs" using d by (auto simp: list_ex_iff)
  then have m: "plan_mixed_signal nt cs nodes used ov = plan (if needs_low_rail cs then add_low_rail vdd s2 else s2)"
    by (simp add: plan_mixed_signal_def Let_def s2_def s1_def s0_def vdd_def)
  have "nodeOverride (plan (add_low_rail vdd s2)) = nodeOverride (plan s2)"
    by (simp add: add_low_rail_def Let_def case_prod_beta unique_node_state)
  then show ?thesis using o unfolding m by (simp add: overridden_def)
qed

text \<open>No two nets that parts are on share a node (the grounds, all called \<open>0\<close>, would).\<close>

definition net_nodes_apart :: "component list \<Rightarrow> (string \<times> string) list \<Rightarrow> bool" where
  "net_nodes_apart cs nodes \<longleftrightarrow>
     (let used = remdups (concat (map (\<lambda>c. map netId (pins c)) cs)) in
      list_all (\<lambda>i. list_all (\<lambda>j. i = j \<or> map_of nodes i = None \<or>
        map_option js_lower (map_of nodes i) \<noteq> map_option js_lower (map_of nodes j)) used) used)"

lemma net_nodes_apartD:
  assumes "net_nodes_apart cs nodes" "c \<in> set cs" "p \<in> set (pins c)" "b \<in> set cs" "q \<in> set (pins b)"
    and "map_of nodes (netId p) = Some x" "map_of nodes (netId q) = Some y" "js_lower x = js_lower y"
  shows "netId p = netId q"
  using assms by (force simp: net_nodes_apart_def Let_def list_all_iff)


section \<open>A sample\<close>

definition sample_part :: "string \<Rightarrow> ctype \<Rightarrow> string option \<Rightarrow> (string \<times> string) list \<Rightarrow> component" where
  "sample_part d t v ps =
     \<lparr>comp_id = d, comp_type = t, designator = d, comp_value = v, comp_model = None, tolerance = None,
      toleranceSource = None, pins = map (\<lambda>(p, n). \<lparr>pinId = p, netId = n\<rparr>) ps, properties = None, mpn = None,
      manufacturer = None, footprint = None, sourcing = None\<rparr>"

text \<open>An inverter whose output a resistor loads.\<close>

definition mixed_parts :: "component list" where
  "mixed_parts =
     [sample_part ''U1'' LogicNot None [(''in1'', ''a''), (''out'', ''y'')],
      sample_part ''R1'' Resistor (Some ''1k'') [(''1'', ''y''), (''2'', ''g'')]]"

definition mixed_nodes :: "(string \<times> string) list" where
  "mixed_nodes = [(''a'', ''na''), (''g'', ''0''), (''y'', ''ny'')]"

lemma mixed_nodes_built:
  "build_node_map [sample_net ''a'' ''A'', sample_net ''g'' ''GND'', sample_net ''y'' ''Y''] = mixed_nodes"
  by code_simp

lemma mixed_roles:
  "classify_nets mixed_parts =
     [(''a'', \<lparr>nr_analog = 0, nr_source = 0, nr_sink = 1\<rparr>), (''y'', \<lparr>nr_analog = 1, nr_source = 1, nr_sink = 0\<rparr>),
      (''g'', \<lparr>nr_analog = 1, nr_source = 0, nr_sink = 0\<rparr>)]"
  by code_simp

lemma mixed_facts:
  "net_keys mixed_parts ''y'' = [''U1:out'']" "js_lower ''na'' = ''na''" "js_lower ''ny'' = ''ny''" "js_lower ''0'' = ''0''"
  "js_lower ''ny_d'' = ''ny_d''" "\<not> needs_low_rail mixed_parts" "list_ex (\<lambda>c. is_digital (comp_type c)) mixed_parts"
  "unique_name [''na'', ''0'', ''ny''] ''ny_d'' = ''ny_d''"
  by code_simp+

lemma mixed_override:
  "nodeOverride (plan_mixed_signal nt mixed_parts mixed_nodes used ov) = [(''U1:out'', ''ny_d'')] \<and>
   lowRailNode (plan_mixed_signal nt mixed_parts mixed_nodes used ov) = None"
  by (simp add: plan_mixed_signal_def Let_def mixed_roles mixed_nodes_def plan_net_def unique_node_def override_pins_def
      mixed_facts name_models_keep empty_plan_def)


text \<open>
  With two ground nets the node \<open>0\<close> is on both sides: a gate on the one, a resistor on the other, no bridge. An
  undeclared net ends in a plain error here, where the analog parts refuse the deck.
\<close>

definition two_grounds :: "component list" where
  "two_grounds =
     [sample_part ''U1'' LogicNot None [(''in1'', ''d''), (''out'', ''z'')],
      sample_part ''R1'' Resistor (Some ''1k'') [(''1'', ''y''), (''2'', ''g'')]]"

lemma two_grounds_unbridged:
  "(let nodes = [(''d'', ''0''), (''g'', ''0''), (''y'', ''ny''), (''z'', ''nz'')];
        mp = plan_mixed_signal nt two_grounds nodes used ov
    in build_node_map [sample_net ''d'' ''GND'', sample_net ''g'' ''GND'', sample_net ''y'' ''Y'', sample_net ''z'' ''Z''] = nodes \<and>
       nodeOverride mp = [] \<and> node_of nodes mp (two_grounds ! 0) ''in1'' = Node ''0'' \<and>
       map_of nodes (netId (pins (two_grounds ! 1) ! 1)) = Some ''0'')"
proof -
  let ?nodes = "[(''d'', ''0''), (''g'', ''0''), (''y'', ''ny''), (''z'', ''nz'')] :: (string \<times> string) list"
  have b: "build_node_map [sample_net ''d'' ''GND'', sample_net ''g'' ''GND'', sample_net ''y'' ''Y'', sample_net ''z'' ''Z''] = ?nodes"
    by code_simp
  have r: "classify_nets two_grounds =
     [(''d'', \<lparr>nr_analog = 0, nr_source = 0, nr_sink = 1\<rparr>), (''z'', \<lparr>nr_analog = 0, nr_source = 1, nr_sink = 0\<rparr>),
      (''y'', \<lparr>nr_analog = 1, nr_source = 0, nr_sink = 0\<rparr>), (''g'', \<lparr>nr_analog = 1, nr_source = 0, nr_sink = 0\<rparr>)]"
    by code_simp
  have f: "\<not> needs_low_rail two_grounds" "list_ex (\<lambda>c. is_digital (comp_type c)) two_grounds" by code_simp+
  have o: "nodeOverride (plan_mixed_signal nt two_grounds ?nodes used ov) = []"
    by (simp add: plan_mixed_signal_def Let_def r f plan_net_def unique_node_def name_models_keep empty_plan_def)
  have p: "pin_by_id (two_grounds ! 0) ''in1'' = Some \<lparr>pinId = ''in1'', netId = ''d''\<rparr>"
    "map_of ?nodes (netId (pins (two_grounds ! 1) ! 1)) = Some ''0''" by code_simp+
  show ?thesis using b o p by (simp add: Let_def node_of_def)
qed

lemma undeclared_digital_net:
  "map_of (digitalModelName mp) (comp_id c) = Some m \<Longrightarrow> m \<noteq> [] \<Longrightarrow> is_logic_gate (comp_type c) \<Longrightarrow>
   node_of nodes mp c ''out'' = Undeclared_net i \<Longrightarrow> emit_digital_component c nodes mp = Inl i"
  by (simp add: emit_digital_component_def with_nodes_def Let_def)

end
