(* ===== verification/Spice_Deck.thy ===== *)
theory Spice_Deck
  imports Mixed_Signal "HOL-Library.Multiset"
begin

text \<open>
  \<open>eda-core/src/netlist/generator.ts\<close>, with the readers of parameters of \<open>models/library.ts\<close>: how a circuit
  becomes the device lines and the probes of a SPICE deck, and when it is refused. A line is its text. The bodies
  of the generic models are the argument \<open>generic\<close>, and \<open>nt\<close> is the text JavaScript prints for a number; the
  title, the analysis card and the layout of the file are not modelled.
\<close>

datatype deck_refusal =
    Node_collision string string string
  | No_ac_source
  | Conflicting_model string
  | Net_not_found string string
  | Missing_pin string string
  | Port_mismatch string string
  | Mid_node_collision string string string
  | Duplicate_device string
  | Unobservable "string list"
  | Include_refused security_error
  | Digital_net_not_found string string

section \<open>Parameters of parts\<close>

text \<open>\<open>\d+\.?\d*|\.\d+\<close> at the start of a text, and \<open>isPositiveSpiceValue\<close>.\<close>

definition plain_number :: "string \<Rightarrow> (string \<times> string) option" where
  "plain_number s =
     (let a = takeWhile is_digit s; r = dropWhile is_digit s in
      case r of
        p # f \<Rightarrow>
          if p = CHR ''.'' \<and> (a \<noteq> [] \<or> (f \<noteq> [] \<and> is_digit (hd f)))
          then Some (a @ p # takeWhile is_digit f, dropWhile is_digit f)
          else if a = [] then None else Some (a, r)
      | [] \<Rightarrow> if a = [] then None else Some (a, []))"

definition unit_letter :: "char \<Rightarrow> bool" where
  "unit_letter c \<longleftrightarrow> is_letter c \<or> code c = 181"

definition is_positive_spice_value :: "string \<Rightarrow> bool" where
  "is_positive_spice_value s =
     (let t = js_trim s in
      case plain_number (case t of [] \<Rightarrow> [] | c # cs \<Rightarrow> if c = CHR ''+'' then cs else t) of
        None \<Rightarrow> False
      | Some (m, r) \<Rightarrow>
          list_all unit_letter (snd (exponent_part r)) \<and> list_ex (\<lambda>c. is_digit c \<and> c \<noteq> CHR ''0'') m)"

definition gain_suffix :: "string \<Rightarrow> bool" where
  "gain_suffix s \<longleftrightarrow> js_lower s = [] \<or> js_lower s = ''meg'' \<or> (\<exists>c \<in> set ''tgkmunpf''. js_lower s = [c])"

definition numeric_token :: "string \<Rightarrow> bool" where
  "numeric_token s =
     (case plain_number (case s of [] \<Rightarrow> [] | c # cs \<Rightarrow> if c = CHR ''+'' \<or> c = CHR ''-'' then cs else s) of
        None \<Rightarrow> False
      | Some (_, r) \<Rightarrow> gain_suffix (snd (exponent_part r)))"

definition normalize_controlled_source_gain :: "string \<Rightarrow> string option" where
  "normalize_controlled_source_gain raw =
     (let t = js_trim raw;
          s = (if js_lower (take 2 t) = ''dc'' \<and> (case drop 2 t of c # _ \<Rightarrow> js_space c | [] \<Rightarrow> False)
               then dropWhile js_space (drop 2 t) else t)
      in if numeric_token s then Some s else None)"

definition prop_text :: "(rat \<Rightarrow> string) \<Rightarrow> json option \<Rightarrow> string \<Rightarrow> string option" where
  "prop_text nt props key =
     (case props of
        Some (JObj kvs) \<Rightarrow>
          (case map_of kvs key of Some (JStr s) \<Rightarrow> Some (js_trim s) | Some (JNum r) \<Rightarrow> Some (nt r) | _ \<Rightarrow> None)
      | _ \<Rightarrow> None)"

record transformer_params =
  tp_lp :: string
  tp_ls :: string
  tp_k :: string
  tp_dcr :: "string option"

definition coupling_token :: "string \<Rightarrow> bool" where
  "coupling_token s = (case plain_number s of None \<Rightarrow> False | Some (_, r) \<Rightarrow> snd (exponent_part r) = [])"

definition coupling_of :: "string option \<Rightarrow> string option" where
  "coupling_of raw =
     (case raw of None \<Rightarrow> Some ''0.999''
      | Some k \<Rightarrow>
          if \<not> coupling_token k then None
          else (case js_number k of Some v \<Rightarrow> if 0 < v \<and> v \<le> 1 then Some k else None | None \<Rightarrow> None))"

definition or_else_text :: "string option \<Rightarrow> string option \<Rightarrow> string option" where
  "or_else_text a b = (case a of None \<Rightarrow> b | Some x \<Rightarrow> Some x)"

definition positive_text :: "string option \<Rightarrow> bool" where
  "positive_text a \<longleftrightarrow> (case a of None \<Rightarrow> False | Some s \<Rightarrow> s \<noteq> [] \<and> is_positive_spice_value s)"

definition parse_transformer_params :: "(rat \<Rightarrow> string) \<Rightarrow> json option \<Rightarrow> transformer_params option" where
  "parse_transformer_params nt props =
     (let lp = prop_text nt props ''primaryInductance''; ls = prop_text nt props ''secondaryInductance'' in
      if \<not> positive_text lp \<or> \<not> positive_text ls then None
      else (case coupling_of (prop_text nt props ''coupling'') of
              None \<Rightarrow> None
            | Some k \<Rightarrow>
                (let dcr = or_else_text (prop_text nt props ''windingResistance'') (prop_text nt props ''dcr'') in
                 Some \<lparr>tp_lp = the lp, tp_ls = the ls, tp_k = k, tp_dcr = (if positive_text dcr then dcr else None)\<rparr>)))"

record line_params =
  lp_z0 :: string
  lp_td :: "string option"
  lp_f :: "string option"
  lp_nl :: "string option"

definition parse_transmission_line_params :: "(rat \<Rightarrow> string) \<Rightarrow> json option \<Rightarrow> line_params option" where
  "parse_transmission_line_params nt props =
     (let z0 = or_else_text (prop_text nt props ''z0'') (prop_text nt props ''impedance'');
          td = or_else_text (prop_text nt props ''td'') (prop_text nt props ''delay'');
          f = or_else_text (prop_text nt props ''f'') (prop_text nt props ''frequency'');
          nl = prop_text nt props ''nl''
      in if \<not> positive_text z0 then None
         else if td \<noteq> None \<and> td \<noteq> Some []
         then (if positive_text td then Some \<lparr>lp_z0 = the z0, lp_td = td, lp_f = None, lp_nl = None\<rparr> else None)
         else if positive_text f
         then Some \<lparr>lp_z0 = the z0, lp_td = None, lp_f = f, lp_nl = (if positive_text nl then nl else None)\<rparr>
         else None)"

text \<open>\<open>parseBreakdownVolts\<close> of a text, and the model of a Zener diode.\<close>

fun dot_for_comma :: "string \<Rightarrow> string" where
  "dot_for_comma [] = []"
| "dot_for_comma (c # cs) = (if c = CHR '','' then CHR ''.'' # cs else c # dot_for_comma cs)"

definition volt_letter :: "char \<Rightarrow> bool" where
  "volt_letter c \<longleftrightarrow> c = CHR ''v'' \<or> c = CHR ''V''"

definition breakdown_text :: "string \<Rightarrow> string" where
  "breakdown_text raw =
     (let s = dot_for_comma (js_trim raw); a = takeWhile is_digit s in
      case dropWhile is_digit s of
        v # b \<Rightarrow>
          if volt_letter v \<and> a \<noteq> [] \<and> b \<noteq> [] \<and> list_all is_digit b then a @ CHR ''.'' # b
          else (let t = trim_end s in if t \<noteq> [] \<and> volt_letter (last t) then trim_end (butlast t) else s)
      | [] \<Rightarrow> s)"

definition parse_breakdown_volts :: "string \<Rightarrow> rat option" where
  "parse_breakdown_volts raw =
     (let s = breakdown_text raw in
      case mantissa s of
        Some (_, []) \<Rightarrow> (case js_number s of Some v \<Rightarrow> if v > 0 then Some v else None | None \<Rightarrow> None)
      | _ \<Rightarrow> None)"

definition zener_name :: "(rat \<Rightarrow> string) \<Rightarrow> rat \<Rightarrow> string" where
  "zener_name nt v = ''DZ'' @ map (\<lambda>c. if c = CHR ''.'' then CHR ''P'' else c) (nt v)"

definition build_zener_model :: "(rat \<Rightarrow> string) \<Rightarrow> string \<Rightarrow> model_def option" where
  "build_zener_model nt raw =
     (case parse_breakdown_volts raw of None \<Rightarrow> None
      | Some v \<Rightarrow> Some \<lparr>model_name = zener_name nt v, model_device = ''diode'',
          model_body = ''.model '' @ zener_name nt v @ '' D(IS=1e-14 N=1 RS=1 BV='' @ nt v @ '' IBV=5m)'',
          model_tier = Some ''generic'', model_ports = None\<rparr>)"

fun generic_models_of :: "(string \<rightharpoonup> model_def) \<Rightarrow> component list \<Rightarrow> string list \<Rightarrow> model_def list" where
  "generic_models_of generic [] known = []"
| "generic_models_of generic (c # cs) known =
     (case comp_model c of
        Some name \<Rightarrow>
          (case generic name of
             Some m \<Rightarrow> if name \<noteq> [] \<and> name \<notin> set known then m # generic_models_of generic cs (name # known)
               else generic_models_of generic cs known
           | None \<Rightarrow> generic_models_of generic cs known)
      | None \<Rightarrow> generic_models_of generic cs known)"

definition circuit_models :: "circuit \<Rightarrow> model_def list" where
  "circuit_models c = (case models c of Some ms \<Rightarrow> ms | None \<Rightarrow> [])"

definition resolve_generic_models :: "(string \<rightharpoonup> model_def) \<Rightarrow> circuit \<Rightarrow> model_def list" where
  "resolve_generic_models generic c = generic_models_of generic (components c) (map model_name (circuit_models c))"


section \<open>Names and references\<close>

definition spice_instance_name :: "string \<Rightarrow> string \<Rightarrow> string" where
  "spice_instance_name d pre =
     (let safe = filter is_word d in if prefix (js_lower pre) (js_lower safe) then safe else pre @ safe)"

definition transformer_mid_nodes :: "string \<Rightarrow> string \<times> string" where
  "transformer_mid_nodes d = (d @ ''_wp'', d @ ''_ws'')"

definition node_at :: "(string \<times> string) list \<Rightarrow> component \<Rightarrow> pin_connection \<Rightarrow> deck_refusal + string" where
  "node_at nodes c p =
     (case map_of nodes (netId p) of
        Some (x # xs) \<Rightarrow> Inr (x # xs)
      | _ \<Rightarrow> Inl (Net_not_found (netId p) (designator c)))"

fun traverse :: "('a \<Rightarrow> 'e + 'b) \<Rightarrow> 'a list \<Rightarrow> 'e + 'b list" where
  "traverse f [] = Inr []"
| "traverse f (x # xs) =
     (case f x of Inl e \<Rightarrow> Inl e | Inr y \<Rightarrow> (case traverse f xs of Inl e \<Rightarrow> Inl e | Inr ys \<Rightarrow> Inr (y # ys)))"

definition nodes_for_pin_order ::
  "component \<Rightarrow> (string \<times> string) list \<Rightarrow> string list \<Rightarrow> deck_refusal + string list" where
  "nodes_for_pin_order c nodes ids =
     traverse (\<lambda>i. case pin_by_id c i of
                      None \<Rightarrow> Inl (Missing_pin (designator c) i) | Some p \<Rightarrow> node_at nodes c p) ids"

definition ordered_nodes :: "component \<Rightarrow> (string \<times> string) list \<Rightarrow> deck_refusal + string list" where
  "ordered_nodes c nodes = nodes_for_pin_order c nodes (component_pins (comp_type c))"

text \<open>\<open>rewriteExprNodeRefs\<close>: \<open>/\bv\s*\(\s*([^)]*)\)/gi\<close>, where the argument may be empty and keeps its last blanks.\<close>

definition match_call :: "string \<Rightarrow> (string \<times> string) option" where
  "match_call s =
     (case s of [] \<Rightarrow> None
      | c # r \<Rightarrow>
          if lower_char c \<noteq> CHR ''v'' then None
          else (case dropWhile js_space r of [] \<Rightarrow> None
                | b # r1 \<Rightarrow>
                    if b \<noteq> CHR ''('' then None
                    else (case dropWhile (\<lambda>x. x \<noteq> CHR '')'') r1 of [] \<Rightarrow> None
                          | _ # rest \<Rightarrow> Some (dropWhile js_space (takeWhile (\<lambda>x. x \<noteq> CHR '')'') r1), rest))))"

lemma match_call_shorter: "match_call s = Some (args, rest) \<Longrightarrow> length rest < length s"
proof -
  assume m: "match_call s = Some (args, rest)"
  then obtain c r b r1 x where s: "s = c # r" "dropWhile js_space r = b # r1"
    "dropWhile (\<lambda>x. x \<noteq> CHR '')'') r1 = x # rest"
    by (auto simp: match_call_def split: list.splits if_splits)
  have "length (b # r1) \<le> length r" using s(2) length_dropWhile_le [of js_space r] by simp
  moreover have "length (x # rest) \<le> length r1"
    using s(3) length_dropWhile_le [of "\<lambda>x. x \<noteq> CHR '')''" r1] by simp
  ultimately show ?thesis using s(1) by simp
qed

function rewrite_calls :: "(string \<Rightarrow> string) \<Rightarrow> bool \<Rightarrow> string \<Rightarrow> string" where
  "rewrite_calls f boundary s =
     (case s of [] \<Rightarrow> []
      | c # cs \<Rightarrow>
          (case (if boundary then match_call s else None) of
             None \<Rightarrow> c # rewrite_calls f (\<not> is_word c) cs
           | Some (args, rest) \<Rightarrow> f args @ rewrite_calls f True rest))"
  by pat_completeness auto
termination
  by (relation "measure (\<lambda>(_, _, s). length s)") (auto dest: match_call_shorter split: if_splits)

declare rewrite_calls.simps [simp del]

definition rewrite_expr_node_refs :: "string \<Rightarrow> (string \<times> string) list \<Rightarrow> string" where
  "rewrite_expr_node_refs expr nodes =
     (let lc = fold (\<lambda>(i, x) m. m(js_lower i \<mapsto> x)) nodes Map.empty
      in rewrite_calls (\<lambda>args. ''V('' @ join_with '','' (map (\<lambda>a. look_up lc (js_trim a)) (split_on (CHR '','') args)) @ '')'')
           True expr)"

section \<open>The lines of a part\<close>

definition card :: "string list \<Rightarrow> string" where
  "card tokens = join_with '' '' tokens"

definition text_or :: "string option \<Rightarrow> string \<Rightarrow> string" where
  "text_or v d = (case v of Some x \<Rightarrow> if x = [] then d else x | None \<Rightarrow> d)"

definition with_ordered ::
  "component \<Rightarrow> (string \<times> string) list \<Rightarrow> (string list \<Rightarrow> string list) \<Rightarrow> deck_refusal + string list" where
  "with_ordered c nodes k = (case ordered_nodes c nodes of Inl e \<Rightarrow> Inl e | Inr ns \<Rightarrow> Inr (k ns))"

definition transformer_lines :: "string \<Rightarrow> transformer_params \<Rightarrow> string list \<Rightarrow> string list" where
  "transformer_lines d tp ns =
     (let pp = ns ! 0; pn = ns ! 1; sp = ns ! 2; sn = ns ! 3;
          lPri = ''L'' @ d @ ''P''; lSec = ''L'' @ d @ ''S'';
          rser = (case tp_dcr tp of Some r \<Rightarrow> r | None \<Rightarrow> ''1m'');
          (pMid, sMid) = transformer_mid_nodes d
      in [card [lPri, pp, pMid, tp_lp tp], card [''R'' @ d @ ''P'', pMid, pn, rser],
          card [lSec, sp, sMid, tp_ls tp], card [''R'' @ d @ ''S'', sMid, sn, rser],
          card [''K'' @ d, lPri, lSec, tp_k tp]] @
         (if pp \<noteq> ''0'' \<and> pn \<noteq> ''0'' then [card [''R'' @ d @ ''PG'', pn, ''0'', ''1G'']] else []) @
         (if sp \<noteq> ''0'' \<and> sn \<noteq> ''0'' then [card [''R'' @ d @ ''SG'', sn, ''0'', ''1G'']] else []))"

definition tline_spec :: "line_params \<Rightarrow> string" where
  "tline_spec l =
     (case lp_td l of Some td \<Rightarrow> ''TD='' @ td
      | None \<Rightarrow> ''F='' @ the (lp_f l) @ (case lp_nl l of Some nl \<Rightarrow> '' NL='' @ nl | None \<Rightarrow> []))"

text \<open>\<open>/[\r\n]/\<close> and \<open>/^\s*[VI]\s*=\s*\S/i\<close> of a behavioral source.\<close>

definition newline :: "char \<Rightarrow> bool" where
  "newline c \<longleftrightarrow> c = CHR 0x0A \<or> c = CHR 0x0D"

definition behavioral :: "string \<Rightarrow> bool" where
  "behavioral v \<longleftrightarrow> \<not> list_ex newline v \<and>
     (case dropWhile js_space v of [] \<Rightarrow> False
      | k # r \<Rightarrow> lower_char k \<in> {CHR ''v'', CHR ''i''} \<and>
          (case dropWhile js_space r of [] \<Rightarrow> False
           | e # rhs \<Rightarrow> e = CHR ''='' \<and> dropWhile js_space rhs \<noteq> []))"

text \<open>\<open>/^\s*\.subckt\s+\S+\s+(.+)$/im\<close>: what stands after the name on the line, and the ports it counts.\<close>

definition header_here :: "string \<Rightarrow> string option" where
  "header_here s =
     (let t = dropWhile js_space s in
      if js_lower (take 7 t) \<noteq> ''.subckt'' then None
      else (case drop 7 t of [] \<Rightarrow> None
            | w # r \<Rightarrow>
                if \<not> js_space w then None
                else (let r1 = dropWhile js_space r; r2 = dropWhile (\<lambda>c. \<not> js_space c) r1; r3 = dropWhile js_space r2
                      in if r1 = [] \<or> r3 = [] then None else Some (takeWhile (\<lambda>c. \<not> newline c) r3))))"

fun subckt_header :: "bool \<Rightarrow> string \<Rightarrow> string option" where
  "subckt_header start [] = None"
| "subckt_header start (c # cs) =
     (case (if start then header_here (c # cs) else None) of
        Some h \<Rightarrow> Some h
      | None \<Rightarrow> subckt_header (newline c) cs)"

definition port_count :: "string \<Rightarrow> nat" where
  "port_count h = length (filter (\<lambda>t. CHR ''='' \<notin> set t \<and> js_lower t \<noteq> ''params:'') (js_words h))"

definition wrong_port_count :: "string \<Rightarrow> nat \<Rightarrow> bool" where
  "wrong_port_count body n =
     (case subckt_header True body of Some h \<Rightarrow> port_count h > 0 \<and> port_count h \<noteq> n | None \<Rightarrow> False)"

definition subckt_lines ::
  "component \<Rightarrow> string \<Rightarrow> string list \<Rightarrow> (string \<times> string) list \<Rightarrow> (string \<rightharpoonup> model_def) \<Rightarrow> deck_refusal + string list" where
  "subckt_lines c m ns nodes defs =
     (let inst = spice_instance_name (designator c) ''X'' in
      case defs m of
        None \<Rightarrow> Inr [card (inst # ns @ [m])]
      | Some md \<Rightarrow>
          (case model_ports md of
             Some (q # qs) \<Rightarrow>
               (case nodes_for_pin_order c nodes (q # qs) of Inl e \<Rightarrow> Inl e | Inr xs \<Rightarrow> Inr [card (inst # xs @ [m])])
           | _ \<Rightarrow>
               if wrong_port_count (model_body md) (length ns) then Inl (Port_mismatch m inst)
               else Inr [card (inst # ns @ [m])]))"


definition passive_value :: "string option \<Rightarrow> string" where
  "passive_value v = text_or (Some (filter (\<lambda>c. \<not> js_space c) (text_or v []))) ''0''"

definition component_to_spice ::
  "(rat \<Rightarrow> string) \<Rightarrow> component \<Rightarrow> (string \<times> string) list \<Rightarrow> (string \<rightharpoonup> model_def) \<Rightarrow> (string \<times> string) list \<Rightarrow>
   deck_refusal + string list" where
  "component_to_spice nt c nodes defs exprNodes =
     (let t = comp_type c; d = designator c; inst = spice_instance_name d (spice_prefix t) in
      if t = Ground \<or> \<not> is_simulatable t then Inr []
      else if t = Transformer
      then (case parse_transformer_params nt (properties c) of None \<Rightarrow> Inr []
            | Some tp \<Rightarrow> with_ordered c nodes (transformer_lines d tp))
      else if t = Tline
      then (case parse_transmission_line_params nt (properties c) of None \<Rightarrow> Inr []
            | Some l \<Rightarrow> with_ordered c nodes (\<lambda>ns.
                [card (spice_instance_name d ''T'' # ns @ [''Z0='' @ lp_z0 l, tline_spec l])]))
      else if t = Bsource
      then (case comp_value c of None \<Rightarrow> Inr []
            | Some v \<Rightarrow>
                if \<not> behavioral v then Inr []
                else with_ordered c nodes (\<lambda>ns.
                  [card [spice_instance_name d ''B'', ns ! 0, ns ! 1, rewrite_expr_node_refs v exprNodes]]))
      else if spice_prefix t = [] then Inr []
      else (case traverse (node_at nodes c) (pins c) of Inl e \<Rightarrow> Inl e
            | Inr ns \<Rightarrow>
                if t \<in> {Resistor, Capacitor, Inductor} then Inr [card (inst # ns @ [passive_value (comp_value c)])]
                else if t \<in> {VoltageSource, CurrentSource}
                then with_ordered c nodes (\<lambda>xs. [card (inst # xs @ [text_or (comp_value c) ''DC 0''])])
                else if t \<in> {Vcvs, Vccs}
                then (case comp_value c of None \<Rightarrow> Inr []
                      | Some v \<Rightarrow>
                          if v = [] then Inr []
                          else (case normalize_controlled_source_gain v of None \<Rightarrow> Inr []
                                | Some g \<Rightarrow> with_ordered c nodes (\<lambda>xs. [card (inst # xs @ [g])])))
                else if t = Diode
                then with_ordered c nodes (\<lambda>xs. [card (inst # xs @ [text_or (comp_model c) ''DDEFAULT''])])
                else if t = Zener
                then (case comp_value c of None \<Rightarrow> Inr []
                      | Some v \<Rightarrow>
                          if v = [] then Inr []
                          else (case build_zener_model nt v of None \<Rightarrow> Inr []
                                | Some m \<Rightarrow> with_ordered c nodes (\<lambda>xs. [card (inst # xs @ [model_name m])])))
                else if t \<in> {Bjt, Mosfet, Jfet, Switch}
                then (if text_or (comp_model c) [] = [] then Inr []
                      else with_ordered c nodes (\<lambda>xs. [card (inst # xs @ [text_or (comp_model c) []])]))
                else if t = Subckt
                then (if text_or (comp_model c) [] = [] then Inr []
                      else subckt_lines c (text_or (comp_model c) []) ns nodes defs)
                else Inr []))"

section \<open>The deck\<close>

text \<open>Net names, models, and the devices in the order of the parts, each with the check the code makes there.\<close>

fun own_nodes :: "(string \<times> string) list \<Rightarrow> (string \<rightharpoonup> string) \<Rightarrow> deck_refusal + (string \<rightharpoonup> string)" where
  "own_nodes [] owner = Inr owner"
| "own_nodes ((i, x) # rest) owner =
     (if x = ''0'' then own_nodes rest owner
      else (case owner (js_lower x) of
              Some prev \<Rightarrow> Inl (Node_collision prev i x)
            | None \<Rightarrow> own_nodes rest (owner(js_lower x \<mapsto> i))))"

text \<open>\<open>/\bac\b/i\<close>\<close>

fun word_ac :: "bool \<Rightarrow> string \<Rightarrow> bool" where
  "word_ac boundary [] = False"
| "word_ac boundary (c # cs) =
     (boundary \<and> js_lower (take 2 (c # cs)) = ''ac'' \<and> (case drop 2 (c # cs) of [] \<Rightarrow> True | x # _ \<Rightarrow> \<not> is_word x) \<or>
      word_ac (\<not> is_word c) cs)"

definition has_ac_source :: "component list \<Rightarrow> bool" where
  "has_ac_source cs \<longleftrightarrow>
     list_ex (\<lambda>c. comp_type c \<in> {VoltageSource, CurrentSource} \<and>
       (case comp_value c of Some v \<Rightarrow> word_ac True v | None \<Rightarrow> False)) cs"

definition reserved_device :: "component \<Rightarrow> string option" where
  "reserved_device c =
     (if comp_type c = Ground \<or> \<not> is_simulatable (comp_type c) then None
      else (let name = (if is_digital (comp_type c) then a_instance_name (designator c)
                        else if spice_prefix (comp_type c) \<noteq> [] then spice_instance_name (designator c) (spice_prefix (comp_type c))
                        else [])
            in if name = [] then None else Some (js_lower name)))"

fun add_models :: "(string \<times> string) list \<Rightarrow> (string \<times> string) list \<Rightarrow> deck_refusal + (string \<times> string) list" where
  "add_models emitted [] = Inr emitted"
| "add_models emitted ((name, body) # rest) =
     (case map_of emitted name of
        Some b \<Rightarrow> if b = body then add_models emitted rest else Inl (Conflicting_model name)
      | None \<Rightarrow> add_models (emitted @ [(name, body)]) rest)"

definition default_diode_model :: string where
  "default_diode_model = ''.model DDEFAULT D(IS=1e-14 N=1.05 RS=10 BV=100 IBV=1e-10)''"

definition first_word :: "string \<Rightarrow> string" where
  "first_word l = takeWhile (\<lambda>c. \<not> js_space c) l"

definition model_card_name :: "string \<Rightarrow> string" where
  "model_card_name l = (case js_words l of _ # n # _ \<Rightarrow> n | _ \<Rightarrow> [])"

definition deck_models ::
  "(rat \<Rightarrow> string) \<Rightarrow> (string \<rightharpoonup> model_def) \<Rightarrow> circuit \<Rightarrow> mixed_plan \<Rightarrow> deck_refusal + (string \<times> string) list" where
  "deck_models nt generic c mp =
     (let declared = circuit_models c @ resolve_generic_models generic c;
          zeners = List.map_filter (\<lambda>x. if comp_type x = Zener \<and> text_or (comp_value x) [] \<noteq> []
            then build_zener_model nt (text_or (comp_value x) []) else None) (components c);
          start = (if list_ex (\<lambda>x. comp_type x = Diode \<and> text_or (comp_model x) [] = []) (components c)
            then [(''DDEFAULT'', default_diode_model)] else [])
      in add_models start
           (map (\<lambda>m. (model_name m, model_body m)) (declared @ zeners) @
            map (\<lambda>l. (model_card_name l, l)) (modelCards mp)))"

record emission =
  em_lines :: "string list"
  em_instances :: "string \<rightharpoonup> string"
  em_digital :: "string list"
  em_owner :: "string \<rightharpoonup> string"

definition claim_mid :: "component \<Rightarrow> string \<Rightarrow> emission \<Rightarrow> deck_refusal + emission" where
  "claim_mid c mid s =
     (case em_owner s (js_lower mid) of
        Some prev \<Rightarrow> Inl (Mid_node_collision (designator c) mid prev)
      | None \<Rightarrow> Inr (s\<lparr>em_owner := (em_owner s)(js_lower mid \<mapsto> designator c)\<rparr>))"


definition emit_part ::
  "(rat \<Rightarrow> string) \<Rightarrow> (string \<times> string) list \<Rightarrow> (string \<rightharpoonup> model_def) \<Rightarrow> (string \<times> string) list \<Rightarrow> mixed_plan \<Rightarrow>
   component \<Rightarrow> deck_refusal + string list" where
  "emit_part nt nodes defs exprNodes mp c =
     (if is_digital (comp_type c)
      then (case emit_digital_component c nodes mp of
              Inl i \<Rightarrow> Inl (Digital_net_not_found i (designator c))
            | Inr None \<Rightarrow> Inr []
            | Inr (Some l) \<Rightarrow> Inr [l])
      else component_to_spice nt c nodes defs exprNodes)"

definition claim_mids :: "component \<Rightarrow> emission \<Rightarrow> deck_refusal + emission" where
  "claim_mids c s =
     (case transformer_mid_nodes (designator c) of (pMid, sMid) \<Rightarrow>
       (case claim_mid c pMid s of Inl e \<Rightarrow> Inl e | Inr s1 \<Rightarrow> claim_mid c sMid s1))"

definition note_part :: "component \<Rightarrow> string list \<Rightarrow> emission \<Rightarrow> deck_refusal + emission" where
  "note_part c emitted s =
     (let name = (case emitted of l # _ \<Rightarrow> first_word l | [] \<Rightarrow> []);
          d = js_lower (designator c);
          s1 = (if name = [] \<or> designator c = [] then s
                else if is_digital (comp_type c) then s\<lparr>em_digital := d # js_lower name # em_digital s\<rparr>
                else s\<lparr>em_instances := (em_instances s)(d \<mapsto> name)\<rparr>);
          s2 = s1\<lparr>em_lines := em_lines s1 @ emitted\<rparr>
      in if comp_type c = Transformer \<and> emitted \<noteq> [] \<and> designator c \<noteq> [] then claim_mids c s2 else Inr s2)"

fun emit_parts ::
  "(component \<Rightarrow> deck_refusal + string list) \<Rightarrow> component list \<Rightarrow> emission \<Rightarrow> deck_refusal + emission" where
  "emit_parts emit [] s = Inr s"
| "emit_parts emit (c # cs) s =
     (case emit c of Inl e \<Rightarrow> Inl e
      | Inr ls \<Rightarrow> (case note_part c ls s of Inl e \<Rightarrow> Inl e | Inr s' \<Rightarrow> emit_parts emit cs s'))"

fun check_devices :: "string list \<Rightarrow> string list \<Rightarrow> deck_refusal + string list" where
  "check_devices [] seen = Inr seen"
| "check_devices (l # ls) seen =
     (if js_lower (first_word l) \<in> set seen then Inl (Duplicate_device (first_word l))
      else check_devices ls (js_lower (first_word l) # seen))"

section \<open>Current probes\<close>

definition sole_current :: "string \<Rightarrow> string option" where
  "sole_current p =
     (case match_ref (CHR ''i'') (js_trim p) of
        Some (whole, inner, []) \<Rightarrow> if CHR '','' \<in> set inner then None else Some (js_trim inner)
      | _ \<Rightarrow> None)"

definition is_digital_current_probe :: "string \<Rightarrow> string list \<Rightarrow> bool" where
  "is_digital_current_probe p digital =
     (case sole_current p of Some name \<Rightarrow> js_lower name \<in> set digital | None \<Rightarrow> False)"

definition rewrite_current_probe_vector :: "string \<Rightarrow> string list \<Rightarrow> bool \<Rightarrow> string \<times> bool" where
  "rewrite_current_probe_vector p emitted ac =
     (case sole_current p of None \<Rightarrow> (p, False)
      | Some name \<Rightarrow>
          if js_lower name \<notin> set emitted then ([], False)
          else (let letter = (case name of c # _ \<Rightarrow> [upper_char c] | [] \<Rightarrow> []) in
                if letter \<in> {''V'', ''L'', ''E'', ''H''} then (''i('' @ name @ '')'', False)
                else if letter \<in> {''R'', ''C''} then (if ac then ([], False) else (CHR ''@'' # name @ ''[i]'', True))
                else if letter = ''D'' then (if ac then ([], False) else (CHR ''@'' # name @ ''[id]'', True))
                else ([], False)))"

text \<open>\<open>[...new Set(xs)]\<close>\<close>

definition uniq :: "'a list \<Rightarrow> 'a list" where
  "uniq xs = rev (remdups (rev xs))"

record deck_options =
  op_probes :: "string list option"
  op_extra :: "string list"
  op_includes :: "string list"
  op_jobDir :: bool
  op_logicVoltage :: "rat option"

definition raw_probes :: "deck_options \<Rightarrow> string list \<Rightarrow> string list" where
  "raw_probes op defaults =
     (case op_probes op of Some ps \<Rightarrow> ps
      | None \<Rightarrow> if op_extra op \<noteq> [] then uniq (defaults @ op_extra op) else defaults)"

definition observable_probes ::
  "string list \<Rightarrow> (string \<rightharpoonup> string) \<Rightarrow> (string \<rightharpoonup> string) \<Rightarrow> string list \<Rightarrow> string list \<Rightarrow> bool \<Rightarrow> string list \<times> bool" where
  "observable_probes raw instances netRefs digital devices ac =
     (let named = map (\<lambda>p. rewrite_probe_node_refs (rewrite_probe_device_refs (normalize_probe p) instances) netRefs False) raw;
          kept = filter (\<lambda>p. js_trim p \<noteq> [] \<and> \<not> is_digital_current_probe p digital) named;
          vectors = map (\<lambda>p. rewrite_current_probe_vector p devices ac) kept
      in (uniq (filter (\<lambda>t. js_trim t \<noteq> []) (map fst vectors)), list_ex snd vectors))"

record deck =
  dk_models :: "(string \<times> string) list"
  dk_lines :: "string list"
  dk_instances :: "string \<rightharpoonup> string"
  dk_probes :: "string list"
  dk_savecurrents :: bool

definition part_lines ::
  "(rat \<Rightarrow> string) \<Rightarrow> (string \<rightharpoonup> model_def) \<Rightarrow> circuit \<Rightarrow> mixed_plan \<Rightarrow> (string \<rightharpoonup> string) \<Rightarrow> deck_refusal + emission" where
  "part_lines nt generic c mp owner =
     (let nodes = build_node_map (nets c);
          declared = circuit_models c @ resolve_generic_models generic c;
          defs = map_of (map (\<lambda>m. (model_name m, m)) declared);
          exprNodes = fold (\<lambda>(i, x). AList.update i x) (probeNodeForNet mp) nodes
      in emit_parts (emit_part nt nodes defs exprNodes mp) (components c)
           \<lparr>em_lines = [], em_instances = Map.empty, em_digital = [], em_owner = owner\<rparr>)"

definition plan_of :: "(rat \<Rightarrow> string) \<Rightarrow> circuit \<Rightarrow> deck_options \<Rightarrow> mixed_plan" where
  "plan_of nt c op =
     plan_mixed_signal nt (components c) (build_node_map (nets c)) (List.map_filter reserved_device (components c))
       (op_logicVoltage op)"

definition generate_deck ::
  "(rat \<Rightarrow> string) \<Rightarrow> (string \<rightharpoonup> model_def) \<Rightarrow> circuit \<Rightarrow> bool \<Rightarrow> deck_options \<Rightarrow> deck_refusal + deck" where
  "generate_deck nt generic c ac op =
     (let nodes = build_node_map (nets c); mp = plan_of nt c op in
      case own_nodes nodes Map.empty of Inl e \<Rightarrow> Inl e
      | Inr owner \<Rightarrow>
      if ac \<and> \<not> has_ac_source (components c) then Inl No_ac_source
      else (case deck_models nt generic c mp of Inl e \<Rightarrow> Inl e
      | Inr ms \<Rightarrow>
      (case (if op_jobDir op then validate_include_paths (op_includes op) else None) of Some e \<Rightarrow> Inl (Include_refused e)
      | None \<Rightarrow>
      (case part_lines nt generic c mp owner of Inl e \<Rightarrow> Inl e
      | Inr em \<Rightarrow>
      (let ls = em_lines em @ deviceLines mp in
      case check_devices ls [] of Inl e \<Rightarrow> Inl e
      | Inr devices \<Rightarrow>
      (let refs = build_net_ref_to_node (nets c) nodes (map_of (probeNodeForNet mp));
           raw = raw_probes op (generate_default_probes (nets c) nodes (map_of (probeNodeForNet mp)));
           (probes, save) = observable_probes raw (em_instances em) refs (em_digital em) devices ac
       in if (case op_probes op of Some ps \<Rightarrow> ps \<noteq> [] | None \<Rightarrow> False) \<and> probes = []
          then Inl (Unobservable (the (op_probes op)))
          else Inr \<lparr>dk_models = ms, dk_lines = ls, dk_instances = em_instances em, dk_probes = probes,
                     dk_savecurrents = save\<rparr>))))))"


section \<open>Columns of a line\<close>

definition one_word :: "string \<Rightarrow> bool" where
  "one_word w \<longleftrightarrow> w \<noteq> [] \<and> list_all (\<lambda>c. \<not> js_space c) w"

lemma js_words_one: "one_word w \<Longrightarrow> js_words (w @ CHR '' '' # s) = w # js_words s"
proof -
  assume w: "one_word w"
  then obtain c cs where c: "w = c # cs" "\<not> js_space c" "\<forall>x \<in> set cs. \<not> js_space x"
    by (cases w) (auto simp: one_word_def list_all_iff)
  have [simp]: "js_space (CHR '' '')" by (simp add: js_space_def code_def)
  have "js_words (CHR '' '' # s) = js_words s" by (subst (1 2) js_words.simps) simp
  moreover have "takeWhile (\<lambda>x. \<not> js_space x) (cs @ CHR '' '' # s) = cs" "dropWhile (\<lambda>x. \<not> js_space x) (cs @ CHR '' '' # s) = CHR '' '' # s"
    using c(3) by (simp_all add: takeWhile_append2 dropWhile_append2)
  ultimately show ?thesis using c(1,2) by (subst js_words.simps) simp
qed

lemma card_Cons: "ts \<noteq> [] \<Longrightarrow> card (t # ts) = t @ CHR '' '' # card ts"
  by (cases ts) (simp_all add: card_def)

lemma js_words_card: "list_all one_word ts \<Longrightarrow> js_words (card (ts @ v # vs)) = ts @ js_words (card (v # vs))"
proof (induction ts)
  case Nil
  then show ?case by simp
next
  case (Cons t ts)
  then show ?case by (simp add: card_Cons js_words_one)
qed

lemma word_not_space: "is_word c \<Longrightarrow> \<not> js_space c"
  by (auto simp: is_word_def is_letter_def is_upper_def is_lower_def is_digit_def js_space_def code_def)

lemma words_one_word: "w \<noteq> [] \<Longrightarrow> list_all is_word w \<Longrightarrow> one_word w"
  by (auto simp: one_word_def list_all_iff word_not_space)

lemma legal_one_word: "legal_node x \<Longrightarrow> one_word x"
  by (simp add: legal_node_def words_one_word)

lemma own_node_one_word: "one_word (own_node n)"
proof (cases "flag (isGround n)")
  case True
  then show ?thesis by (simp add: own_node_def one_word_def js_space_def code_def)
next
  case False
  then show ?thesis using legal_name [of "net_id n"] legal_one_word by (simp add: own_node_def)
qed

lemma node_map_one_word: "map_of (build_node_map ns) i = Some x \<Longrightarrow> one_word x"
  using node_map_range own_node_one_word by blast

section \<open>Which pins share a node\<close>

lemma own_nodes_distinct:
  "own_nodes nodes owner = Inr owner' \<Longrightarrow>
   distinct (map (\<lambda>z. js_lower (snd z)) (filter (\<lambda>z. snd z \<noteq> ''0'') nodes)) \<and>
   (\<forall>z \<in> set nodes. snd z \<noteq> ''0'' \<longrightarrow> owner (js_lower (snd z)) = None)"
proof (induction nodes owner rule: own_nodes.induct)
  case (2 i x rest owner)
  show ?case
  proof (cases "x = ''0''")
    case True
    then show ?thesis using 2(1) 2(3) by simp
  next
    case False
    then have n: "owner (js_lower x) = None" and r: "own_nodes rest (owner(js_lower x \<mapsto> i)) = Inr owner'"
      using 2(3) by (auto split: option.splits)
    from 2(2) [OF False n r] show ?thesis using False n by (auto split: if_splits)
  qed
qed simp

lemma own_nodes_inj:
  assumes "own_nodes nodes owner = Inr owner'" "z \<in> set nodes" "w \<in> set nodes" "js_lower (snd z) = js_lower (snd w)"
    and "snd z \<noteq> ''0''" "snd w \<noteq> ''0''"
  shows "z = w"
proof -
  have "inj_on (\<lambda>z. js_lower (snd z)) (set (filter (\<lambda>z. snd z \<noteq> ''0'') nodes))"
    using own_nodes_distinct [OF assms(1)] by (simp only: distinct_map)
  then show ?thesis by (rule inj_onD) (use assms in auto)
qed

lemma lower_zero: "js_lower x = ''0'' \<Longrightarrow> legal_node x \<Longrightarrow> False"
  by (auto simp: legal_node_def prefix_def js_lower_def lower_char_def is_upper_def code_def)

text \<open>A net the deck grounds: its last declaration says so.\<close>

definition grounded :: "net list \<Rightarrow> string \<Rightarrow> bool" where
  "grounded ns i \<longleftrightarrow> map_of (build_node_map ns) i = Some ''0''"

lemma nodes_shared:
  assumes "own_nodes (build_node_map ns) owner = Inr owner'"
    and "map_of (build_node_map ns) i = Some x" "map_of (build_node_map ns) j = Some y"
  shows "js_lower x = js_lower y \<longleftrightarrow> i = j \<or> grounded ns i \<and> grounded ns j"
proof
  have zero: "z = ''0''" if "map_of (build_node_map ns) k = Some z" "js_lower z = ''0''" for k z
    using node_map_range [OF that(1)] legal_name lower_zero that(2) by (auto simp: own_node_def split: if_splits)
  assume eq: "js_lower x = js_lower y"
  have l0: "js_lower ''0'' = ''0''" by code_simp
  show "i = j \<or> grounded ns i \<and> grounded ns j"
  proof (cases "x = ''0'' \<or> y = ''0''")
    case True
    then have "x = ''0''" "y = ''0''" using eq zero [OF assms(2)] zero [OF assms(3)] l0 by auto
    then show ?thesis using assms(2,3) by (simp add: grounded_def)
  next
    case False
    then have "(i, x) = (j, y)"
      by (intro own_nodes_inj [OF assms(1)]) (use assms(2,3) eq in \<open>auto dest: map_of_SomeD\<close>)
    then show ?thesis by simp
  qed
next
  assume "i = j \<or> grounded ns i \<and> grounded ns j"
  then show "js_lower x = js_lower y" using assms(2,3) by (auto simp: grounded_def)
qed


section \<open>The columns of a part\<close>

lemma traverse_Inr:
  "traverse f xs = Inr ys \<Longrightarrow> length ys = length xs \<and> (\<forall>k < length xs. f (xs ! k) = Inr (ys ! k))"
proof (induction xs arbitrary: ys)
  case (Cons x xs)
  then obtain y ys' where "f x = Inr y" "traverse f xs = Inr ys'" "ys = y # ys'"
    by (auto split: sum.splits)
  then show ?case using Cons.IH by (auto simp: nth_Cons split: nat.split)
qed simp

lemma node_at_Inr: "node_at nodes c p = Inr x \<Longrightarrow> map_of nodes (netId p) = Some x"
  by (auto simp: node_at_def split: option.splits list.splits)

text \<open>The pin a column is for: passives are written in the order of their pins, the others in the order of their type.\<close>

definition passive_part :: "component \<Rightarrow> bool" where
  "passive_part x \<longleftrightarrow> comp_type x \<in> {Resistor, Capacitor, Inductor}"

definition column_pin :: "component \<Rightarrow> nat \<Rightarrow> pin_connection option" where
  "column_pin x k =
     (if passive_part x then (if k < length (pins x) then Some (pins x ! k) else None)
      else (if k < length (component_pins (comp_type x)) then pin_by_id x (component_pins (comp_type x) ! k) else None))"

definition in_columns :: "(string \<times> string) list \<Rightarrow> component \<Rightarrow> string list \<Rightarrow> bool" where
  "in_columns nodes x ns \<longleftrightarrow> (\<forall>k p. column_pin x k = Some p \<longrightarrow> k < length ns \<and> map_of nodes (netId p) = Some (ns ! k))"

lemma ordered_columns: "ordered_nodes x nodes = Inr ns \<Longrightarrow> \<not> passive_part x \<Longrightarrow> in_columns nodes x ns"
  using traverse_Inr node_at_Inr
  by (fastforce simp: ordered_nodes_def nodes_for_pin_order_def in_columns_def column_pin_def split: option.splits if_splits)

lemma pins_columns: "traverse (node_at nodes x) (pins x) = Inr ns \<Longrightarrow> passive_part x \<Longrightarrow> in_columns nodes x ns"
  using traverse_Inr node_at_Inr by (fastforce simp: in_columns_def column_pin_def split: if_splits)

lemma instance_one_word: "list_all is_word pre \<Longrightarrow> pre \<noteq> [] \<Longrightarrow> one_word (spice_instance_name d pre)"
  by (rule words_one_word) (auto simp: spice_instance_name_def Let_def list_all_iff js_lower_def)

lemma prefix_words: "list_all is_word (spice_prefix t)"
  by (cases t) (simp_all add: is_word_def is_letter_def is_upper_def code_def)

text \<open>One line per part: the name, the nodes of the columns, the rest.\<close>

definition columned :: "(string \<times> string) list \<Rightarrow> component \<Rightarrow> string \<Rightarrow> bool" where
  "columned nodes x l \<longleftrightarrow>
     (\<exists>inst ns v vs. l = card (inst # ns @ v # vs) \<and> one_word inst \<and> in_columns nodes x ns \<and> (\<forall>n \<in> set ns. \<exists>i. map_of nodes i = Some n))"

lemma columnedI:
  "one_word inst \<Longrightarrow> in_columns nodes x ns \<Longrightarrow> \<forall>n \<in> set ns. \<exists>i. map_of nodes i = Some n \<Longrightarrow>
   columned nodes x (card (inst # ns @ v # vs))"
  unfolding columned_def by blast

lemma ordered_known: "ordered_nodes x nodes = Inr ns \<Longrightarrow> \<forall>n \<in> set ns. \<exists>i. map_of nodes i = Some n"
proof
  fix n
  assume o: "ordered_nodes x nodes = Inr ns" and n: "n \<in> set ns"
  obtain k where k: "k < length ns" "n = ns ! k" using n by (auto simp: in_set_conv_nth)
  show "\<exists>i. map_of nodes i = Some n"
    using traverse_Inr [OF o [unfolded ordered_nodes_def nodes_for_pin_order_def]] k node_at_Inr
    by (fastforce split: option.splits)
qed

lemma pins_known: "traverse (node_at nodes x) ps = Inr ns \<Longrightarrow> \<forall>n \<in> set ns. \<exists>i. map_of nodes i = Some n"
  using traverse_Inr node_at_Inr by (fastforce simp: in_set_conv_nth)

definition single_line :: "component \<Rightarrow> bool" where
  "single_line x \<longleftrightarrow> comp_type x \<noteq> Transformer \<and> comp_type x \<noteq> Subckt \<and> \<not> is_digital (comp_type x)"


lemma with_ordered_columned:
  assumes "with_ordered x nodes (\<lambda>ns. [card (inst # ns @ v # vs)]) = Inr ls" "l \<in> set ls" "one_word inst" "\<not> passive_part x"
  shows "columned nodes x l"
proof -
  obtain ns where ns: "ordered_nodes x nodes = Inr ns" "ls = [card (inst # ns @ v # vs)]"
    using assms(1) by (auto simp: with_ordered_def split: sum.splits)
  then show ?thesis
    using assms(2) columnedI [OF assms(3) ordered_columns [OF ns(1) assms(4)] ordered_known [OF ns(1)]] by simp
qed

lemma bsource_nodes:
  assumes "ordered_nodes x nodes = Inr ns" "comp_type x = Bsource"
  shows "ns = [ns ! 0, ns ! 1]"
proof -
  have "length ns = 2"
    using traverse_Inr [OF assms(1) [unfolded ordered_nodes_def nodes_for_pin_order_def]] assms(2) by simp
  then show ?thesis by (auto simp: numeral_2_eq_2 length_Suc_conv)
qed

lemma single_line_columned:
  assumes e: "component_to_spice nt x nodes defs exprNodes = Inr ls" and l: "l \<in> set ls" and s: "single_line x"
  shows "columned nodes x l"
proof -
  let ?d = "designator x" and ?t = "comp_type x"
  have one: "one_word (spice_instance_name ?d ''T'')" "one_word (spice_instance_name ?d ''B'')"
    "spice_prefix ?t \<noteq> [] \<Longrightarrow> one_word (spice_instance_name ?d (spice_prefix ?t))"
    using instance_one_word prefix_words by (simp_all add: is_word_def is_letter_def is_upper_def code_def)
  consider (ground) "?t = Ground \<or> \<not> is_simulatable ?t \<or> ?t \<noteq> Tline \<and> ?t \<noteq> Bsource \<and> spice_prefix ?t = []"
    | (tline) "?t = Tline" | (bsource) "?t = Bsource"
    | (other) "?t \<noteq> Ground" "is_simulatable ?t" "?t \<noteq> Tline" "?t \<noteq> Bsource" "spice_prefix ?t \<noteq> []"
    by blast
  then show ?thesis
  proof cases
    case ground
    then have "ls = []"
      using e s by (elim disjE conjE) (simp_all add: component_to_spice_def single_line_def Let_def split: if_splits)
    then show ?thesis using l by simp
  next
    case tline
    then have "with_ordered x nodes (\<lambda>ns. [card (spice_instance_name ?d ''T'' # ns @ [''Z0='' @ lp_z0 p, tline_spec p])]) = Inr ls"
      if "parse_transmission_line_params nt (properties x) = Some p" for p
      using e that by (simp add: component_to_spice_def Let_def is_simulatable_def)
    moreover have "parse_transmission_line_params nt (properties x) \<noteq> None"
    proof
      assume "parse_transmission_line_params nt (properties x) = None"
      then have "ls = []" using e tline by (simp add: component_to_spice_def Let_def is_simulatable_def)
      then show False using l by simp
    qed
    ultimately show ?thesis
      using l one(1) tline by (auto intro!: with_ordered_columned simp: passive_part_def)
  next
    case bsource
    then obtain v ns where "comp_value x = Some v" and ns: "ordered_nodes x nodes = Inr ns"
      and "ls = [card [spice_instance_name ?d ''B'', ns ! 0, ns ! 1, rewrite_expr_node_refs v exprNodes]]"
      using e l by (auto simp: component_to_spice_def Let_def is_simulatable_def with_ordered_def split: option.splits if_splits sum.splits)
    then have "l = card (spice_instance_name ?d ''B'' # ns @ [rewrite_expr_node_refs v exprNodes])"
      using l bsource_nodes [OF ns bsource] by (metis append.left_neutral append_Cons list.set_cases set_ConsD empty_iff list.set(1))
    then show ?thesis
      using columnedI [OF one(2) ordered_columns [OF ns] ordered_known [OF ns]] bsource by (simp add: passive_part_def)
  next
    case other
    note inst = one(3) [OF other(5)]
    obtain ns where ns: "traverse (node_at nodes x) (pins x) = Inr ns"
      using e other s by (auto simp: component_to_spice_def Let_def single_line_def split: sum.splits)
    show ?thesis
    proof (cases "passive_part x")
      case True
      then have "ls = [card (spice_instance_name ?d (spice_prefix ?t) # ns @ [passive_value (comp_value x)])]"
        using e ns by (auto simp: component_to_spice_def Let_def passive_part_def is_simulatable_def)
      then show ?thesis using l columnedI [OF inst pins_columns [OF ns True] pins_known [OF ns]] by simp
    next
      case False
      have "\<exists>v. with_ordered x nodes (\<lambda>xs. [card (spice_instance_name ?d (spice_prefix ?t) # xs @ [v])]) = Inr ls"
        using e l s other False ns
        by (auto simp: component_to_spice_def Let_def single_line_def passive_part_def split: option.splits if_splits)
      then show ?thesis using with_ordered_columned [OF _ l inst False] by blast
    qed
  qed
qed


lemma columned_word:
  assumes "columned (build_node_map ns) x l" "column_pin x k = Some p"
  shows "map_of (build_node_map ns) (netId p) = Some (js_words l ! Suc k)"
proof -
  obtain inst xs v vs where l: "l = card (inst # xs @ v # vs)" "one_word inst" "in_columns (build_node_map ns) x xs"
    and known: "\<forall>n \<in> set xs. \<exists>i. map_of (build_node_map ns) i = Some n"
    using assms(1) unfolding columned_def by blast
  have "list_all one_word (inst # xs)" using l(2) known node_map_one_word by (auto simp: list_all_iff)
  then have "js_words l = inst # xs @ js_words (card (v # vs))" using js_words_card [of "inst # xs" v vs] l(1) by simp
  then show ?thesis using l(3) assms(2) by (auto simp: in_columns_def nth_append)
qed

section \<open>Accepted decks\<close>

lemma claim_mids_lines: "claim_mids c s = Inr s' \<Longrightarrow> em_lines s' = em_lines s"
  by (auto simp: claim_mids_def claim_mid_def transformer_mid_nodes_def split: option.splits)

lemma note_part_lines: "note_part c ls s = Inr s' \<Longrightarrow> em_lines s' = em_lines s @ ls"
  by (auto simp: note_part_def Let_def dest!: claim_mids_lines split: if_splits)

lemma emit_parts_lines:
  "emit_parts emit cs s = Inr s' \<Longrightarrow>
   set (em_lines s) \<subseteq> set (em_lines s') \<and> (\<forall>c \<in> set cs. \<exists>ls. emit c = Inr ls \<and> set ls \<subseteq> set (em_lines s'))"
proof (induction cs arbitrary: s)
  case (Cons c cs)
  then obtain ls s1 where "emit c = Inr ls" "note_part c ls s = Inr s1" "emit_parts emit cs s1 = Inr s'"
    by (auto split: sum.splits)
  then show ?case using Cons.IH [of s1] note_part_lines [of c ls s s1] by auto
qed simp

text \<open>The line of a part in the deck of a circuit, of those that make one.\<close>

definition deck_emit :: "(rat \<Rightarrow> string) \<Rightarrow> (string \<rightharpoonup> model_def) \<Rightarrow> circuit \<Rightarrow> deck_options \<Rightarrow> component \<Rightarrow> deck_refusal + string list" where
  "deck_emit nt generic c op =
     (let nodes = build_node_map (nets c); mp = plan_of nt c op in
      emit_part nt nodes (map_of (map (\<lambda>m. (model_name m, m)) (circuit_models c @ resolve_generic_models generic c)))
        (fold (\<lambda>(i, x). AList.update i x) (probeNodeForNet mp) nodes) mp)"

definition deck_line :: "(rat \<Rightarrow> string) \<Rightarrow> (string \<rightharpoonup> model_def) \<Rightarrow> circuit \<Rightarrow> deck_options \<Rightarrow> component \<Rightarrow> string option" where
  "deck_line nt generic c op x = (case deck_emit nt generic c op x of Inr [l] \<Rightarrow> Some l | _ \<Rightarrow> None)"

lemma generate_deck_Inr:
  assumes "generate_deck nt generic c ac op = Inr dk"
  obtains owner em devices where "own_nodes (build_node_map (nets c)) Map.empty = Inr owner"
    and "emit_parts (deck_emit nt generic c op) (components c)
           \<lparr>em_lines = [], em_instances = Map.empty, em_digital = [], em_owner = owner\<rparr> = Inr em"
    and "dk_lines dk = em_lines em @ deviceLines (plan_of nt c op)" "check_devices (dk_lines dk) [] = Inr devices"
  using assms that
  by (fastforce simp: generate_deck_def part_lines_def deck_emit_def Let_def split: sum.splits if_splits option.splits prod.splits)


lemma deck_line_in:
  assumes "generate_deck nt generic c ac op = Inr dk" "x \<in> set (components c)" "deck_line nt generic c op x = Some l"
  shows "l \<in> set (dk_lines dk)"
proof -
  obtain owner em devices where "emit_parts (deck_emit nt generic c op) (components c)
      \<lparr>em_lines = [], em_instances = Map.empty, em_digital = [], em_owner = owner\<rparr> = Inr em"
    and d: "dk_lines dk = em_lines em @ deviceLines (plan_of nt c op)"
    by (rule generate_deck_Inr [OF assms(1)])
  then obtain ls where "deck_emit nt generic c op x = Inr ls" "set ls \<subseteq> set (em_lines em)"
    using emit_parts_lines assms(2) by blast
  then show ?thesis using assms(3) d by (auto simp: deck_line_def split: list.splits)
qed

lemma deck_line_columned:
  "single_line x \<Longrightarrow> deck_line nt generic c op x = Some l \<Longrightarrow> columned (build_node_map (nets c)) x l"
  by (auto simp: deck_line_def deck_emit_def emit_part_def single_line_def Let_def split: sum.splits list.splits
      intro!: single_line_columned)

lemma check_devices_distinct:
  "check_devices ls seen = Inr seen' \<Longrightarrow>
   distinct (map (\<lambda>l. js_lower (first_word l)) ls) \<and> (\<forall>l \<in> set ls. js_lower (first_word l) \<notin> set seen) \<and>
   set seen' = set seen \<union> (\<lambda>l. js_lower (first_word l)) ` set ls"
  by (induction ls seen rule: check_devices.induct) (auto split: if_splits)


section \<open>The order of the pins\<close>

text \<open>The pins of a part listed in another order.\<close>

definition reordering :: "pin_connection list \<Rightarrow> component \<Rightarrow> bool" where
  "reordering ps x \<longleftrightarrow> mset ps = mset (pins x) \<and> distinct (map pinId (pins x))"

lemma find_unique: "distinct (map f ps) \<Longrightarrow> find (\<lambda>p. f p = i) ps = Some p \<longleftrightarrow> p \<in> set ps \<and> f p = i"
  by (induction ps) auto

lemma reordered_pins:
  assumes "reordering ps x"
  shows "pin_by_id (x\<lparr>pins := ps\<rparr>) i = pin_by_id x i"
proof -
  have "mset (map pinId ps) = mset (map pinId (pins x))" using assms by (simp add: reordering_def)
  then have d: "distinct (map pinId (pins x))" "distinct (map pinId ps)" "set ps = set (pins x)"
    using assms mset_eq_imp_distinct_iff [of "map pinId ps" "map pinId (pins x)"] mset_eq_setD [of ps "pins x"]
    by (simp_all add: reordering_def)
  have "pin_by_id (x\<lparr>pins := ps\<rparr>) i = Some p \<longleftrightarrow> pin_by_id x i = Some p" for p
    unfolding pin_by_id_def using find_unique [OF d(1)] find_unique [OF d(2)] d(3) by simp
  then show ?thesis by (metis not_None_eq)
qed

lemma node_at_pins: "node_at nodes (x\<lparr>pins := ps\<rparr>) = node_at nodes x"
  by (rule ext) (simp add: node_at_def cong: option.case_cong list.case_cong)

lemma reordered_nodes:
  "reordering ps x \<Longrightarrow> nodes_for_pin_order (x\<lparr>pins := ps\<rparr>) nodes ids = nodes_for_pin_order x nodes ids"
  unfolding nodes_for_pin_order_def
  by (intro arg_cong [where f = "\<lambda>f. traverse f ids"]) (simp add: reordered_pins node_at_pins fun_eq_iff cong: option.case_cong)

lemma traverse_ok: "(\<exists>ys. traverse f xs = Inr ys) \<longleftrightarrow> (\<forall>x \<in> set xs. \<exists>y. f x = Inr y)"
  by (induction xs) (auto split: sum.splits)

lemma reordered_traverse:
  assumes "reordering ps x" "traverse (node_at nodes x) (pins x) = Inr ns"
  shows "\<exists>ms. traverse (node_at nodes (x\<lparr>pins := ps\<rparr>)) ps = Inr ms"
proof -
  have "set ps = set (pins x)" using assms(1) by (auto simp: reordering_def dest: mset_eq_setD)
  then show ?thesis using assms(2) unfolding traverse_ok node_at_pins by (metis traverse_ok)
qed

text \<open>
  A polarized part is written the same whatever order its pins are listed in, also the line and the
  transformer; only the passives and the macromodels without named ports follow the list.
\<close>

theorem authored_order_irrelevant:
  assumes "reordering ps x" "\<not> passive_part x" "comp_type x \<noteq> Subckt"
    and "component_to_spice nt x nodes defs exprNodes = Inr ls"
  shows "component_to_spice nt (x\<lparr>pins := ps\<rparr>) nodes defs exprNodes = Inr ls"
proof -
  let ?y = "x\<lparr>pins := ps\<rparr>"
  have o: "with_ordered ?y nodes k = with_ordered x nodes k" for k
    using reordered_nodes [OF assms(1)] by (simp add: with_ordered_def ordered_nodes_def)
  show ?thesis
  proof (cases "\<exists>ns. traverse (node_at nodes x) (pins x) = Inr ns")
    case True
    then obtain ns ms where t: "traverse (node_at nodes x) (pins x) = Inr ns" "traverse (node_at nodes ?y) ps = Inr ms"
      using reordered_traverse [OF assms(1)] by blast
    then show ?thesis
      using assms(2-4) by (auto simp: component_to_spice_def Let_def o passive_part_def cong: if_cong option.case_cong)
  next
    case False
    then obtain e where "traverse (node_at nodes x) (pins x) = Inl e" by (cases "traverse (node_at nodes x) (pins x)") auto
    then show ?thesis
      using assms(2-4) by (auto simp: component_to_spice_def Let_def o passive_part_def cong: if_cong option.case_cong split: if_splits)
  qed
qed


section \<open>Sample decks\<close>

definition sample_circuit :: "component list \<Rightarrow> net list \<Rightarrow> circuit" where
  "sample_circuit cs ns = \<lparr>version = ''1.0'', components = cs, nets = ns, models = None, metadata = None\<rparr>"

definition plain_options :: deck_options where
  "plain_options = \<lparr>op_probes = None, op_extra = [], op_includes = [], op_jobDir = False, op_logicVoltage = None\<rparr>"

text \<open>A supply with its pins listed the wrong way round, and its load.\<close>

definition supply_pins :: "(string \<times> string) list" where
  "supply_pins = [(''-'', ''0v''), (''+'', ''a'')]"

definition battery :: circuit where
  "battery = sample_circuit
     [sample_part ''BAT1'' VoltageSource (Some ''DC 5'') supply_pins, sample_part ''R1'' Resistor (Some ''1 k'') [(''1'', ''a''), (''2'', ''0v'')]]
     [sample_net ''a'' ''A'', sample_net ''0v'' ''GND'']"

lemma supply_deck:
  "(case generate_deck (\<lambda>_. []) (\<lambda>_. None) battery False plain_options of
      Inr dk \<Rightarrow> dk_lines dk = [''VBAT1 na 0 DC 5'', ''R1 na 0 1k''] \<and> dk_probes dk = [''v(na)'']
    | Inl _ \<Rightarrow> False)"
  by code_simp


theorem authored_order_irrelevant_witness:
  "component_to_spice (\<lambda>_. []) (sample_part ''D1'' Diode None [(''anode'', ''a''), (''cathode'', ''0v'')]) [(''a'', ''na''), (''0v'', ''0'')]
     Map.empty [] = Inr [''D1 na 0 DDEFAULT''] \<and>
   component_to_spice (\<lambda>_. []) (sample_part ''D1'' Diode None [(''cathode'', ''0v''), (''anode'', ''a'')]) [(''a'', ''na''), (''0v'', ''0'')]
     Map.empty [] = Inr [''D1 na 0 DDEFAULT'']"
proof -
  let ?x = "sample_part ''D1'' Diode None [(''anode'', ''a''), (''cathode'', ''0v'')]"
  let ?ps = "[\<lparr>pinId = ''cathode'', netId = ''0v''\<rparr>, \<lparr>pinId = ''anode'', netId = ''a''\<rparr>]"
  have r: "reordering ?ps ?x" by (simp add: reordering_def sample_part_def)
  have t: "\<not> passive_part ?x" "comp_type ?x \<noteq> Subckt" by (simp_all add: passive_part_def sample_part_def)
  have l: "component_to_spice (\<lambda>_. []) ?x [(''a'', ''na''), (''0v'', ''0'')] Map.empty [] = Inr [''D1 na 0 DDEFAULT'']"
    by code_simp
  show ?thesis using authored_order_irrelevant [OF r t l] l by (simp add: sample_part_def)
qed

text \<open>
  A value with a line break adds a card that no check sees: the resistor of this source is in no list of parts.
  A behavioral source refuses the same text. The default probes of two nets, one named like the node of the
  other, are one probe.
\<close>

definition two_cards :: string where
  "two_cards = ''DC 0'' @ [CHR 0x0A] @ ''R9 na 0 1''"

lemma value_adds_card:
  "component_to_spice (\<lambda>_. []) (sample_part ''V1'' VoltageSource (Some two_cards) [(''+'', ''a''), (''-'', ''0v'')])
     [(''a'', ''na''), (''0v'', ''0'')] Map.empty [] = Inr [''V1 na 0 DC 0'' @ [CHR 0x0A] @ ''R9 na 0 1''] \<and>
   split_on (CHR 0x0A) (''V1 na 0 DC 0'' @ [CHR 0x0A] @ ''R9 na 0 1'') = [''V1 na 0 DC 0'', ''R9 na 0 1''] \<and>
   \<not> behavioral (''V='' @ two_cards)"
  by code_simp


lemma default_probes_merge:
  "(case generate_deck (\<lambda>_. []) (\<lambda>_. None)
      (sample_circuit [sample_part ''R1'' Resistor (Some ''1k'') [(''1'', ''a''), (''2'', ''b'')]] [sample_net ''a'' ''A'', sample_net ''b'' ''na''])
      False plain_options of
      Inr dk \<Rightarrow> dk_lines dk = [''R1 na nb 1k''] \<and> dk_probes dk = [''v(nb)'']
    | Inl _ \<Rightarrow> False)"
  by code_simp

end
