(* ===== verification/Sim_Jobs.thy ===== *)
theory Sim_Jobs
  imports Layout_Jobs Downsample Sanitizer
begin

text \<open>
  A simulation as a job: \<open>apps/api/src/simulation/simulation.service.ts\<close> inserts the row and enqueues its id,
  \<open>apps/worker-sim/src/simulation/processor.ts\<close> claims it (\<open>claim.ts\<close>), runs it and writes the outcome
  (\<open>outcome.ts\<close>), and \<open>apps/api/src/admin\<close> cancels and retries it. There is no reaper for simulations.

  The object store, the simulator (\<open>runner.ts\<close>) and the four batch runners are the fields of \<open>sim_tools\<close>; each
  answers or throws a message, \<open>Inl\<close>. One run of the processor is \<open>process_job\<close>: the row is claimed and the
  outcome is written, and other clients may act \<open>before\<close> the claim and (\<open>others\<close>) between the two. The faults of an \<open>attempt\<close> are the messages its statements throw,
  \<open>None\<close> when the database answers. BullMQ runs the processor again after a throw, \<open>run_attempts\<close>.
\<close>

section \<open>Rows and payloads\<close>

record sim_job = sim_row +
  sj_id :: string
  sj_version :: "string option"
  sj_config :: json
  sj_netlist :: string
  sj_stdout :: "string option"
  sj_stderr :: "string option"
  sj_result :: "sim_result option"
  sj_error :: "string option"
  sj_startedAt :: "nat option"
  sj_finishedAt :: "nat option"

record payload =
  pl_job :: string
  pl_org :: string
  pl_netlist :: string
  pl_probes :: "string list"
  pl_type :: json
  pl_config :: json
  pl_assets :: "string list"
  pl_mode :: "string option"
  pl_montecarlo :: "json option"
  pl_corner :: "json option"
  pl_tempCorner :: "json option"
  pl_supplyCorner :: "json option"

section \<open>What an outcome means\<close>

record run_result =
  rr_success :: bool
  rr_result :: "sim_result option"
  rr_stdout :: string
  rr_stderr :: string
  rr_runtimeMs :: rat
  rr_outputBytes :: "nat option"
  rr_error :: "string option"
  rr_infra :: bool
  rr_timedOut :: bool
  rr_convergence :: "json option"

datatype job_action = Success | Fault | Retry | Terminal_infra

definition is_final_attempt :: "nat \<Rightarrow> nat option \<Rightarrow> bool" where
  "is_final_attempt made attempts \<longleftrightarrow> (case attempts of None \<Rightarrow> 1 | Some n \<Rightarrow> n) \<le> made + 1"

definition classify_job_outcome :: "run_result \<Rightarrow> bool \<Rightarrow> job_action" where
  "classify_job_outcome r final =
     (if rr_success r \<and> rr_result r \<noteq> None then Success
      else if \<not> rr_infra r then Fault
      else if final then Terminal_infra else Retry)"

definition derive_failure_status :: "run_result \<Rightarrow> job_status" where
  "derive_failure_status r = (if \<not> rr_infra r \<and> rr_timedOut r then TimedOut else Failed)"

definition opt_field :: "string \<Rightarrow> json option \<Rightarrow> (string \<times> json) list" where
  "opt_field k v = (case v of None \<Rightarrow> [] | Some x \<Rightarrow> [(k, x)])"

definition build_failure_metrics :: "run_result \<Rightarrow> json" where
  "build_failure_metrics r = JObj
     ([(''runtimeMs'', JNum (rr_runtimeMs r)),
       (''error'', case rr_error r of None \<Rightarrow> JUndef | Some m \<Rightarrow> JStr m),
       (''failureClass'', JStr (if rr_infra r then ''infra'' else ''sim''))] @
      opt_field ''convergence'' (rr_convergence r))"

definition build_success_metrics :: "rat \<Rightarrow> nat option \<Rightarrow> nat \<Rightarrow> nat option \<Rightarrow> json option \<Rightarrow> json" where
  "build_success_metrics runtime output stored pts convergence = JObj
     ([(''runtimeMs'', JNum runtime)] @
      opt_field ''outputSizeBytes'' (map_option (\<lambda>n. JNum (of_nat n)) output) @
      [(''storedResultBytes'', JNum (of_nat stored))] @
      opt_field ''pointsCount'' (map_option (\<lambda>n. JNum (of_nat n)) pts) @
      opt_field ''convergence'' convergence)"

section \<open>The claim\<close>

datatype claim_outcome = Claimed | Terminal_row | Orphaned

definition claim_simulation_job :: "('d, sim_job) table \<Rightarrow> string \<Rightarrow> nat \<Rightarrow> 'd \<Rightarrow> claim_outcome \<times> 'd" where
  "claim_simulation_job T j t d =
     (let (n, d') = update_many T (\<lambda>r. sj_id r = j \<and> job_status r \<in> {Queued, Running})
            (\<lambda>r. r\<lparr>job_status := Running, sj_startedAt := Some t\<rparr>) d
      in if 0 < n then (Claimed, d')
         else (case find_first T (\<lambda>r. sj_id r = j) d' of None \<Rightarrow> (Orphaned, d') | Some _ \<Rightarrow> (Terminal_row, d')))"

section \<open>The processor\<close>

datatype batch = Monte_Carlo | Corner | Temp_Corner | Supply_Corner

record sim_tools =
  download :: "string \<Rightarrow> string + string"
  run_simulation :: "payload \<Rightarrow> (string \<times> string) list \<Rightarrow> string + run_result"
  run_batch :: "batch \<Rightarrow> string \<Rightarrow> json \<Rightarrow> (string \<times> string) list \<Rightarrow> string + json"
  result_bytes :: "sim_result \<Rightarrow> nat"
  upload_result :: "string \<Rightarrow> sim_result \<Rightarrow> string + string"
  max_points :: rat
  gone_message :: string

record 'd attempt =
  tools_of :: sim_tools
  claim_fault :: "string option"
  write_fault :: "string option"
  batch_fault :: "string option"
  catch_fault :: "string option"
  before :: "'d \<Rightarrow> 'd"
  others :: "'d \<Rightarrow> 'd"
  claim_at :: nat
  finish_at :: nat

text \<open>
  What the processor throws: the error that asks for a retry, the client's error for a row that is gone, or any
  other one.
\<close>

datatype thrown = Retryable_infra string | Row_gone string | Thrown string

fun message :: "thrown \<Rightarrow> string" where
  "message (Retryable_infra m) = m"
| "message (Row_gone m) = m"
| "message (Thrown m) = m"

text \<open>An \<open>update\<close> by id, which throws when the database does not answer or the row is gone.\<close>

definition write_row ::
  "('d, sim_job) table \<Rightarrow> 'd attempt \<Rightarrow> string option \<Rightarrow> string \<Rightarrow> (sim_job \<Rightarrow> sim_job) \<Rightarrow> 'd \<Rightarrow> (thrown + unit) \<times> 'd" where
  "write_row T a fault j f d =
     (case fault of
        Some m \<Rightarrow> (Inl (Thrown m), d)
      | None \<Rightarrow> (case update_one T (\<lambda>r. sj_id r = j) f d of
            None \<Rightarrow> (Inl (Row_gone (gone_message (tools_of a))), d)
          | Some d' \<Rightarrow> (Inr (), d')))"

definition file_name :: "string \<Rightarrow> string" where
  "file_name key = (case last (split_on (CHR ''/'') key) of [] \<Rightarrow> ''model.lib'' | n \<Rightarrow> n)"

fun download_models :: "sim_tools \<Rightarrow> string list \<Rightarrow> string + (string \<times> string) list" where
  "download_models t [] = Inr []"
| "download_models t (k # ks) =
     (case download t k of
        Inl m \<Rightarrow> Inl m
      | Inr content \<Rightarrow> (case download_models t ks of Inl m \<Rightarrow> Inl m | Inr fs \<Rightarrow> Inr ((file_name k, content) # fs)))"

definition batch_of :: "payload \<Rightarrow> (batch \<times> json) option" where
  "batch_of p =
     (if pl_mode p = Some ''monte-carlo'' \<and> pl_montecarlo p \<noteq> None then map_option (Pair Monte_Carlo) (pl_montecarlo p)
      else if pl_mode p = Some ''corner'' \<and> pl_corner p \<noteq> None then map_option (Pair Corner) (pl_corner p)
      else if pl_mode p = Some ''temp-corner'' \<and> pl_tempCorner p \<noteq> None then map_option (Pair Temp_Corner) (pl_tempCorner p)
      else if pl_mode p = Some ''supply-corner'' \<and> pl_supplyCorner p \<noteq> None then map_option (Pair Supply_Corner) (pl_supplyCorner p)
      else None)"

text \<open>A batch: the summary of its runner is stored under a key of its own, a throw as an infrastructure failure.\<close>

definition picked :: "string list \<Rightarrow> json \<Rightarrow> json" where
  "picked ks s = JObj (map (\<lambda>k. (k, obj_get k s)) ks)"

definition infra_failed :: "string \<Rightarrow> json" where
  "infra_failed m = JObj [(''error'', JStr m), (''failureClass'', JStr ''infra'')]"

definition batch_metrics :: "string \<Rightarrow> string list \<Rightarrow> json \<Rightarrow> json" where
  "batch_metrics key ks s = JObj [(''runtimeMs'', obj_get ''runtimeMs'' s), (key, picked ks s)]"

definition handle_batch ::
  "('d, sim_job) table \<Rightarrow> 'd attempt \<Rightarrow> string \<Rightarrow> string \<Rightarrow> string list \<Rightarrow> string + json \<Rightarrow> 'd \<Rightarrow> (thrown + unit) \<times> 'd" where
  "handle_batch T a j key ks answer d =
     (let (r, d1) = (case answer of
            Inl m \<Rightarrow> (Inl (Thrown m), d)
          | Inr s \<Rightarrow> write_row T a (write_fault a) j
              (\<lambda>r. r\<lparr>job_status := Succeeded, sj_finishedAt := Some (finish_at a), sim_metrics := batch_metrics key ks s\<rparr>) d)
      in case r of
           Inr _ \<Rightarrow> (Inr (), d1)
         | Inl e \<Rightarrow> write_row T a (batch_fault a) j
             (\<lambda>r. r\<lparr>job_status := Failed, sj_finishedAt := Some (finish_at a), sim_metrics := infra_failed (message e)\<rparr>) d1)"

definition handle_monte_carlo where
  "handle_monte_carlo T a j spec files = handle_batch T a j ''monteCarlo''
     [''yield'', ''ci95'', ''total'', ''evaluated'', ''passed'', ''failed'', ''errored'', ''ran'', ''stoppedEarly'', ''budgetHit'']
     (run_batch (tools_of a) Monte_Carlo j spec files)"

definition handle_corner where
  "handle_corner T a j spec files = handle_batch T a j ''worstCase''
     [''componentsCornered'', ''omitted'', ''evaluated'', ''passed'', ''failed'', ''errored'', ''passAllCorners'', ''worstCorners'']
     (run_batch (tools_of a) Corner j spec files)"

definition handle_temp_corner where
  "handle_temp_corner T a j spec files = handle_batch T a j ''tempCorner''
     [''applicable'', ''notApplicableReason'', ''temperaturesC'', ''rangeLabel'', ''evaluated'', ''passed'', ''failed'', ''errored'',
      ''hasLimits'', ''passAllTemps'', ''drift'']
     (run_batch (tools_of a) Temp_Corner j spec files)"

definition handle_supply_corner where
  "handle_supply_corner T a j spec files = handle_batch T a j ''supplyCorner''
     [''applicable'', ''rails'', ''omitted'', ''tolerance'', ''rangeLabel'', ''evaluated'', ''passed'', ''failed'', ''errored'',
      ''hasLimits'', ''passAllCorners'', ''drift'']
     (run_batch (tools_of a) Supply_Corner j spec files)"

text \<open>A result of more than a mebibyte goes to the object store; the row keeps the other ones.\<close>

definition bounded :: "sim_tools \<Rightarrow> run_result \<Rightarrow> sim_result option" where
  "bounded t r = map_option (\<lambda>s. downsample_result s (max_points t)) (rr_result r)"

definition stored_size :: "sim_tools \<Rightarrow> run_result \<Rightarrow> nat" where
  "stored_size t r = (case bounded t r of None \<Rightarrow> 4 | Some b \<Rightarrow> result_bytes t b)"

definition place_result :: "sim_tools \<Rightarrow> string \<Rightarrow> run_result \<Rightarrow> string + (sim_result option \<times> string option)" where
  "place_result t j r =
     (case bounded t r of
        Some b \<Rightarrow> if 1024 * 1024 < stored_size t r
          then (case upload_result t j b of Inl m \<Rightarrow> Inl m | Inr key \<Rightarrow> Inr (None, Some key))
          else Inr (Some b, None)
      | None \<Rightarrow> Inr (None, None))"

definition handle_success :: "('d, sim_job) table \<Rightarrow> 'd attempt \<Rightarrow> string \<Rightarrow> run_result \<Rightarrow> 'd \<Rightarrow> (thrown + unit) \<times> 'd" where
  "handle_success T a j r d =
     (case place_result (tools_of a) j r of
        Inl m \<Rightarrow> (Inl (Thrown m), d)
      | Inr (stored, key) \<Rightarrow> write_row T a (write_fault a) j
          (\<lambda>x. x\<lparr>job_status := Succeeded, sj_stdout := Some (take 10000 (rr_stdout r)), sj_stderr := Some (take 10000 (rr_stderr r)),
            sj_result := stored, sim_s3Key := keep_or (sim_s3Key x) key, sj_finishedAt := Some (finish_at a),
            sim_metrics := build_success_metrics (rr_runtimeMs r) (rr_outputBytes r) (stored_size (tools_of a) r)
              (map_option sr_pointsCount (rr_result r)) (rr_convergence r)\<rparr>) d)"

definition handle_failure :: "('d, sim_job) table \<Rightarrow> 'd attempt \<Rightarrow> string \<Rightarrow> run_result \<Rightarrow> 'd \<Rightarrow> (thrown + unit) \<times> 'd" where
  "handle_failure T a j r d =
     write_row T a (write_fault a) j
       (\<lambda>x. x\<lparr>job_status := derive_failure_status r, sj_stdout := Some (take 10000 (rr_stdout r)),
          sj_stderr := Some (take 10000 (rr_stderr r @ [CHR 0x0A] @ (case rr_error r of None \<Rightarrow> [] | Some m \<Rightarrow> m))),
          sj_finishedAt := Some (finish_at a), sim_metrics := build_failure_metrics r\<rparr>) d"

definition run_single ::
  "('d, sim_job) table \<Rightarrow> 'd attempt \<Rightarrow> payload \<Rightarrow> bool \<Rightarrow> (string \<times> string) list \<Rightarrow> 'd \<Rightarrow> (thrown + unit) \<times> 'd" where
  "run_single T a p final files d =
     (case run_simulation (tools_of a) p files of
        Inl m \<Rightarrow> (Inl (Thrown m), d)
      | Inr r \<Rightarrow> (case classify_job_outcome r final of
            Success \<Rightarrow> handle_success T a (pl_job p) r d
          | Fault \<Rightarrow> handle_failure T a (pl_job p) r d
          | Terminal_infra \<Rightarrow> (case handle_failure T a (pl_job p) r d of
                (Inl e, d') \<Rightarrow> (Inl e, d')
              | (Inr _, d') \<Rightarrow> (Inl (Retryable_infra (case rr_error r of None \<Rightarrow> ''simulation infrastructure failure'' | Some m \<Rightarrow> m)), d'))
          | Retry \<Rightarrow> (Inl (Retryable_infra (case rr_error r of None \<Rightarrow> ''simulation infrastructure failure (will retry)'' | Some m \<Rightarrow> m)), d)))"

definition run_body ::
  "('d, sim_job) table \<Rightarrow> 'd attempt \<Rightarrow> payload \<Rightarrow> bool \<Rightarrow> 'd \<Rightarrow> (thrown + unit) \<times> 'd" where
  "run_body T a p final d =
     (case download_models (tools_of a) (pl_assets p) of
        Inl m \<Rightarrow> (Inl (Thrown m), d)
      | Inr files \<Rightarrow> (case batch_of p of
            Some (Monte_Carlo, spec) \<Rightarrow> handle_monte_carlo T a (pl_job p) spec files d
          | Some (Corner, spec) \<Rightarrow> handle_corner T a (pl_job p) spec files d
          | Some (Temp_Corner, spec) \<Rightarrow> handle_temp_corner T a (pl_job p) spec files d
          | Some (Supply_Corner, spec) \<Rightarrow> handle_supply_corner T a (pl_job p) spec files d
          | None \<Rightarrow> run_single T a p final files d))"

datatype job_return = Ran | Skipped claim_outcome

definition catch_error ::
  "('d, sim_job) table \<Rightarrow> 'd attempt \<Rightarrow> payload \<Rightarrow> bool \<Rightarrow> thrown \<Rightarrow> 'd \<Rightarrow> (thrown + job_return) \<times> 'd" where
  "catch_error T a p final e d =
     (case e of
        Retryable_infra m \<Rightarrow> (Inl e, d)
      | Row_gone m \<Rightarrow> (Inr (Skipped Orphaned), d)
      | Thrown m \<Rightarrow>
          if final
          then (case write_row T a (catch_fault a) (pl_job p)
                  (\<lambda>r. r\<lparr>job_status := Failed, sj_stderr := Some m, sj_finishedAt := Some (finish_at a),
                         sim_metrics := infra_failed m\<rparr>) d of
                  (Inl e', d') \<Rightarrow> (Inl e', d')
                | (Inr _, d') \<Rightarrow> (Inl e, d'))
          else (Inl e, d))"

definition process_job ::
  "('d, sim_job) table \<Rightarrow> 'd attempt \<Rightarrow> payload \<Rightarrow> nat \<Rightarrow> nat option \<Rightarrow> 'd \<Rightarrow> (thrown + job_return) \<times> 'd" where
  "process_job T a p made attempts d =
     (let final = is_final_attempt made attempts in
      case claim_fault a of
        Some m \<Rightarrow> catch_error T a p final (Thrown m) (before a d)
      | None \<Rightarrow>
          (let (c, d1) = claim_simulation_job T (pl_job p) (claim_at a) (before a d) in
           if c \<noteq> Claimed then (Inr (Skipped c), d1)
           else (case run_body T a p final (others a d1) of
                   (Inr _, d2) \<Rightarrow> (Inr Ran, d2)
                 | (Inl e, d2) \<Rightarrow> catch_error T a p final e d2)))"

text \<open>The runs of a job: \<open>env k\<close> is what its attempt \<open>k\<close> meets. BullMQ goes on after a throw while attempts are left.\<close>

definition attempts_of :: "nat option \<Rightarrow> nat" where
  "attempts_of attempts = (case attempts of None \<Rightarrow> 1 | Some n \<Rightarrow> n)"

function run_attempts ::
  "('d, sim_job) table \<Rightarrow> (nat \<Rightarrow> 'd attempt) \<Rightarrow> payload \<Rightarrow> nat option \<Rightarrow> nat \<Rightarrow> 'd \<Rightarrow> (nat \<times> (thrown + job_return)) \<times> 'd" where
  "run_attempts T env p attempts made d =
     (case process_job T (env made) p made attempts d of
        (Inr s, d') \<Rightarrow> ((made + 1, Inr s), d')
      | (Inl e, d') \<Rightarrow>
          if made + 1 < attempts_of attempts then run_attempts T env p attempts (made + 1) d'
          else ((made + 1, Inl e), d'))"
  by pat_completeness auto
termination by (relation "measure (\<lambda>(T, env, p, attempts, made, d). attempts_of attempts - made)") auto

declare run_attempts.simps [simp del]

lemma run_again:
  "process_job T (env made) p made attempts d = (Inl e, d') \<Longrightarrow> Suc made < attempts_of attempts \<Longrightarrow>
   run_attempts T env p attempts made d = run_attempts T env p attempts (Suc made) d'"
  by (subst run_attempts.simps) simp

lemma run_stops:
  "process_job T (env made) p made attempts d = (Inr s, d') \<Longrightarrow> run_attempts T env p attempts made d = ((Suc made, Inr s), d')"
  by (subst run_attempts.simps) simp

section \<open>The queue\<close>

text \<open>
  BullMQ, as the API uses it: \<open>add\<close> a payload, under an id of the caller's or one the queue gives, with a number of
  attempts, and \<open>remove\<close> by id. \<open>held\<close> are the ids of all its jobs, \<open>pending\<close> the ones no worker has taken. An id
  of the queue's own is a numeral; an id that is held already makes \<open>add\<close> a no-op; \<open>remove\<close> throws for a job
  a worker holds and answers whether there was one.
\<close>

record 'q bull =
  add :: "payload \<Rightarrow> string option \<Rightarrow> nat option \<Rightarrow> 'q \<Rightarrow> (string + string) \<times> 'q"
  remove :: "string \<Rightarrow> 'q \<Rightarrow> (string + bool) \<times> 'q"
  held :: "'q \<Rightarrow> string set"
  pending :: "'q \<Rightarrow> (string \<times> payload \<times> nat option) set"

definition all_digits :: "string \<Rightarrow> bool" where
  "all_digits i \<longleftrightarrow> list_all is_digit i"

locale bull_queue =
  fixes Q :: "'q bull"
  assumes add_fresh: "add Q p None n q = (Inr i, q') \<Longrightarrow>
      all_digits i \<and> i \<notin> held Q q \<and> held Q q' = insert i (held Q q) \<and> pending Q q' = insert (i, p, n) (pending Q q)"
    and add_named: "add Q p (Some i) n q = (Inr i', q') \<Longrightarrow>
      i' = i \<and> held Q q' = insert i (held Q q) \<and>
      pending Q q' = (if i \<in> held Q q then pending Q q else insert (i, p, n) (pending Q q))"
    and add_refused: "add Q p named n q = (Inl m, q') \<Longrightarrow> held Q q' = held Q q \<and> pending Q q' = pending Q q"
    and remove_done: "remove Q i q = (Inr b, q') \<Longrightarrow>
      (b \<longleftrightarrow> i \<in> held Q q) \<and> held Q q' = held Q q - {i} \<and> pending Q q' = {e \<in> pending Q q. fst e \<noteq> i}"
    and remove_thrown: "remove Q i q = (Inl m, q') \<Longrightarrow> held Q q' = held Q q \<and> pending Q q' = pending Q q"
    and pending_held: "e \<in> pending Q q \<Longrightarrow> fst e \<in> held Q q"

text \<open>A queue kept as a list, with the flag of a job a worker holds, and whether Redis answers.\<close>

record list_queue =
  lq_jobs :: "((string \<times> payload \<times> nat option) \<times> bool) list"
  lq_down :: bool

definition lq_ids :: "list_queue \<Rightarrow> string list" where
  "lq_ids q = map (\<lambda>e. fst (fst e)) (lq_jobs q)"

definition lq_fresh :: "list_queue \<Rightarrow> string" where
  "lq_fresh q = num_str (Suc (foldr max (map num_val (lq_ids q)) 0))"

definition lq_add :: "payload \<Rightarrow> string option \<Rightarrow> nat option \<Rightarrow> list_queue \<Rightarrow> (string + string) \<times> list_queue" where
  "lq_add p i n q =
     (if lq_down q then (Inl ''Connection is closed.'', q)
      else (let j = (case i of None \<Rightarrow> lq_fresh q | Some j \<Rightarrow> j) in
            if j \<in> set (lq_ids q) then (Inr j, q)
            else (Inr j, q\<lparr>lq_jobs := lq_jobs q @ [((j, p, n), False)]\<rparr>)))"

definition lq_remove :: "string \<Rightarrow> list_queue \<Rightarrow> (string + bool) \<times> list_queue" where
  "lq_remove i q =
     (if lq_down q then (Inl ''Connection is closed.'', q)
      else if list_ex (\<lambda>e. fst (fst e) = i \<and> snd e) (lq_jobs q) then (Inl ''Job is locked'', q)
      else (Inr (i \<in> set (lq_ids q)), q\<lparr>lq_jobs := filter (\<lambda>e. fst (fst e) \<noteq> i) (lq_jobs q)\<rparr>))"

definition list_bull :: "list_queue bull" where
  "list_bull = \<lparr>add = lq_add, remove = lq_remove, held = (\<lambda>q. set (lq_ids q)),
     pending = (\<lambda>q. fst ` set (filter (\<lambda>e. \<not> snd e) (lq_jobs q)))\<rparr>"

section \<open>The service\<close>

record model_asset = asset_row +
  ma_id :: string
  ma_type :: string
  ma_key :: string

record 'd sim_db =
  sim_table :: "('d, sim_job) table"
  sim_usage :: "'d usage_db"
  sim_projects :: "'d project_db"
  sim_assets :: "('d, model_asset) table"

text \<open>
  The schemas of \<open>eda-core\<close> are \<open>valid_circuit\<close> and \<open>valid_analysis\<close>: the issues, each with its path, or the document.
  The generator of the deck, on parsed documents, is \<open>netlist_for\<close> (\<open>Spice_Deck\<close> models it).
\<close>

record sim_api =
  api_env :: env
  valid_circuit :: "json \<Rightarrow> (string list \<times> string) list + json"
  valid_analysis :: "json \<Rightarrow> (string list \<times> string) list + json"
  netlist_for :: "json \<Rightarrow> json \<Rightarrow> string list option \<Rightarrow> string list \<Rightarrow> string + string"
  api_attempts :: "nat option"

datatype sim_error =
    SimVersion project_error
  | InvalidAnalysis string string
  | InvalidCircuit string string
  | TooManyModels
  | ModelsNotFound
  | UnsafeFilename string
  | ReservedFilename string
  | SameFilename string
  | NetlistFailed string
  | SimNoOrganization
  | SimUsage usage_error
  | EnqueueThrew string
  | SimNotFound
  | SimDenied org_error
  | NotInterruptible
  | NotCancelable job_status
  | AlreadyStarted
  | StartedFirst
  | NotRetriable job_status
  | RetryNotEnqueued

definition issue_text :: "string list \<times> string \<Rightarrow> string" where
  "issue_text = (\<lambda>(path, m). (case join ''.'' path of [] \<Rightarrow> ''(root)'' | s \<Rightarrow> s) @ '': '' @ m)"

definition issues_text :: "(string list \<times> string) list \<Rightarrow> string" where
  "issues_text is = join ''; '' (map issue_text is)"

definition max_model_assets :: nat where
  "max_model_assets = 32"

definition reserved_job_files :: "string list" where
  "reserved_job_files = [''circuit.cir'', ''output.csv'', ''stdout.log'']"

definition safe_filename :: "string \<Rightarrow> bool" where
  "safe_filename s \<longleftrightarrow> s \<noteq> [] \<and>
     list_all (\<lambda>c. is_letter c \<or> is_digit c \<or> c \<in> {CHR ''_'', CHR ''.'', CHR ''-''}) s \<and> \<not> sublist ''..'' s"

fun model_files :: "string list \<Rightarrow> model_asset list \<Rightarrow> sim_error + (string \<times> string) list" where
  "model_files used [] = Inr []"
| "model_files used (a # as) =
     (let f = last (split_on (CHR ''/'') (ma_key a)) in
      if \<not> safe_filename f then Inl (UnsafeFilename f)
      else if js_lower f \<in> set reserved_job_files then Inl (ReservedFilename f)
      else if f \<in> set used then Inl (SameFilename f)
      else (case model_files (f # used) as of Inl e \<Rightarrow> Inl e | Inr fs \<Rightarrow> Inr ((ma_key a, f) # fs)))"

definition resolve_model_assets ::
  "'d sim_db \<Rightarrow> string \<Rightarrow> string list option \<Rightarrow> 'd \<Rightarrow> sim_error + (string list \<times> string list)" where
  "resolve_model_assets db g asked d =
     (let ids = uniq (filter (\<lambda>x. x \<noteq> []) (case asked of None \<Rightarrow> [] | Some xs \<Rightarrow> xs)) in
      if ids = [] then Inr ([], [])
      else if max_model_assets < length ids then Inl TooManyModels
      else (let found = filter (\<lambda>a. ma_id a \<in> set ids \<and> as_org a = g \<and> ma_type a = ''SPICE_MODEL'') (rows (sim_assets db) d) in
            if length found \<noteq> length ids then Inl ModelsNotFound
            else (case model_files [] found of Inl e \<Rightarrow> Inl e | Inr fs \<Rightarrow> Inr (map fst fs, map snd fs))))"

definition analysis_type :: "string \<Rightarrow> json \<Rightarrow> json" where
  "analysis_type fallback c = (if js_truthy (obj_get ''type'' c) then obj_get ''type'' c else JStr fallback)"

definition new_sim :: "string \<Rightarrow> nat \<Rightarrow> string \<Rightarrow> string option \<Rightarrow> json \<Rightarrow> string \<Rightarrow> sim_job" where
  "new_sim j t g v c netlist =
     \<lparr>job_org = g, job_status = Queued, job_createdAt = t, sim_metrics = JNull, sim_s3Key = None, sj_id = j, sj_version = v,
      sj_config = c, sj_netlist = netlist, sj_stdout = None, sj_stderr = None, sj_result = None, sj_error = None,
      sj_startedAt = None, sj_finishedAt = None\<rparr>"

text \<open>
  The row under the quota, then the job in the queue. No caller catches a throw of the queue. \<open>api_attempts\<close> are
  the \<open>defaultJobOptions\<close> of the module, three attempts.
\<close>

definition insert_and_enqueue ::
  "'d sim_db \<Rightarrow> sim_api \<Rightarrow> 'q bull \<Rightarrow> nat \<Rightarrow> sim_job \<Rightarrow> payload \<Rightarrow> 'd \<times> 'q \<Rightarrow> (sim_error + string) \<times> 'd \<times> 'q" where
  "insert_and_enqueue db api Q t row p = (\<lambda>(d, q).
     case create_sim_guarded (sim_usage db) (api_env api) t (job_org row) (create_row (sim_table db) row) d of
       (Some e, d1) \<Rightarrow> (Inl (SimUsage e), d1, q)
     | (None, d1) \<Rightarrow> (case add Q p None (api_attempts api) q of
           (Inl m, q1) \<Rightarrow> (Inl (EnqueueThrew m), d1, q1)
         | (Inr _, q1) \<Rightarrow> (Inr (sj_id row), d1, q1)))"

definition plain_payload :: "string \<Rightarrow> string \<Rightarrow> string \<Rightarrow> string list \<Rightarrow> json \<Rightarrow> json \<Rightarrow> string list \<Rightarrow> payload" where
  "plain_payload j g netlist probes type c assets =
     \<lparr>pl_job = j, pl_org = g, pl_netlist = netlist, pl_probes = probes, pl_type = type, pl_config = c, pl_assets = assets,
      pl_mode = None, pl_montecarlo = None, pl_corner = None, pl_tempCorner = None, pl_supplyCorner = None\<rparr>"

definition create_from_version ::
  "'d sim_db \<Rightarrow> sim_api \<Rightarrow> 'q bull \<Rightarrow> string \<Rightarrow> nat \<Rightarrow> string \<Rightarrow> json \<Rightarrow> string list option \<Rightarrow> string \<Rightarrow> string list option \<Rightarrow>
   'd \<times> 'q \<Rightarrow> (sim_error + string) \<times> 'd \<times> 'q" where
  "create_from_version db api Q j t v c probes user asked = (\<lambda>(d, q).
     case find_version (sim_projects db) v user d of
       Inl e \<Rightarrow> (Inl (SimVersion e), d, q)
     | Inr ver \<Rightarrow> (case find_project (sim_projects db) (ver_project ver) user d of
         Inl e \<Rightarrow> (Inl (SimVersion e), d, q)
       | Inr pj \<Rightarrow> (case valid_analysis api c of
           Inl is \<Rightarrow> (Inl (InvalidAnalysis [] (issues_text is)), d, q)
         | Inr analysis \<Rightarrow> (case valid_circuit api (ver_circuit ver) of
             Inl is \<Rightarrow> (Inl (InvalidCircuit v (issues_text (take 5 is))), d, q)
           | Inr circuit \<Rightarrow> (case resolve_model_assets db (pj_org pj) asked d of
               Inl e \<Rightarrow> (Inl e, d, q)
             | Inr (keys, includes) \<Rightarrow> (case netlist_for api circuit analysis probes includes of
                 Inl m \<Rightarrow> (Inl (NetlistFailed m), d, q)
               | Inr netlist \<Rightarrow>
                   insert_and_enqueue db api Q t (new_sim j t (pj_org pj) (Some v) c netlist)
                     (plain_payload j (pj_org pj) netlist (case probes of None \<Rightarrow> [] | Some ps \<Rightarrow> ps) (analysis_type ''tran'' c) c keys)
                     (d, q)))))))"

text \<open>The first organization of a user.\<close>

definition home_org :: "'d sim_db \<Rightarrow> string \<Rightarrow> 'd \<Rightarrow> sim_error + string" where
  "home_org db user d =
     (case orgs_for_user (members_db (sim_projects db)) user d of
        [] \<Rightarrow> Inl SimNoOrganization
      | (g, _) # _ \<Rightarrow> if org_id g = [] then Inl SimNoOrganization else Inr (org_id g))"

definition create_quick_sim ::
  "'d sim_db \<Rightarrow> sim_api \<Rightarrow> 'q bull \<Rightarrow> string \<Rightarrow> nat \<Rightarrow> string \<Rightarrow> json \<Rightarrow> string \<Rightarrow> string list option \<Rightarrow>
   'd \<times> 'q \<Rightarrow> (sim_error + string) \<times> 'd \<times> 'q" where
  "create_quick_sim db api Q j t netlist c user asked = (\<lambda>(d, q).
     case home_org db user d of
       Inl e \<Rightarrow> (Inl e, d, q)
     | Inr g \<Rightarrow> (case resolve_model_assets db g asked d of
         Inl e \<Rightarrow> (Inl e, d, q)
       | Inr (keys, _) \<Rightarrow>
           insert_and_enqueue db api Q t (new_sim j t g None (or_object c) netlist)
             (plain_payload j g netlist [] (analysis_type ''tran'' c) (or_object c) keys) (d, q)))"

text \<open>
  The four batches. Each is one row and one job, its netlist is empty, and its specification rides on the payload.
\<close>

definition truthy_field :: "string \<Rightarrow> json \<Rightarrow> (string \<times> json) list" where
  "truthy_field k v = (if js_truthy v then [(k, v)] else [])"

definition batch_payload :: "string \<Rightarrow> string \<Rightarrow> string \<Rightarrow> json \<Rightarrow> payload" where
  "batch_payload j g mode c = (plain_payload j g [] [] (analysis_type ''op'' c) (or_object c) [])\<lparr>pl_mode := Some mode\<rparr>"

definition create_batch ::
  "'d sim_db \<Rightarrow> sim_api \<Rightarrow> 'q bull \<Rightarrow> string \<Rightarrow> string \<Rightarrow> nat \<Rightarrow> json \<Rightarrow> json \<Rightarrow> string \<Rightarrow>
   (string \<Rightarrow> json \<Rightarrow> json \<Rightarrow> payload) \<Rightarrow> 'd \<times> 'q \<Rightarrow> (sim_error + string) \<times> 'd \<times> 'q" where
  "create_batch db api Q what j t circuit c user payload_for = (\<lambda>(d, q).
     case home_org db user d of
       Inl e \<Rightarrow> (Inl e, d, q)
     | Inr g \<Rightarrow> (case valid_circuit api circuit of
         Inl is \<Rightarrow> (Inl (InvalidCircuit what (issues_text (take 5 is))), d, q)
       | Inr circuit' \<Rightarrow> (case valid_analysis api c of
           Inl is \<Rightarrow> (Inl (InvalidAnalysis what (issues_text is)), d, q)
         | Inr analysis \<Rightarrow>
             insert_and_enqueue db api Q t (new_sim j t g None (or_object c) []) (payload_for g circuit' analysis) (d, q))))"

definition create_monte_carlo_job where
  "create_monte_carlo_job db api Q j t circuit c criteria n seed profile user =
     create_batch db api Q ''Monte-Carlo'' j t circuit c user (\<lambda>g circuit' analysis.
       (batch_payload j g ''monte-carlo'' c)\<lparr>pl_montecarlo := Some (JObj ([(''circuit'', circuit'), (''analysis'', analysis), (''criteria'', criteria)] @
          truthy_field ''n'' n @ truthy_field ''seed'' seed @ truthy_field ''profile'' profile))\<rparr>)"

definition spec_json :: "json \<Rightarrow> json \<Rightarrow> json \<Rightarrow> json \<Rightarrow> json" where
  "spec_json circuit analysis criteria spec =
     JObj [(''circuit'', circuit), (''analysis'', analysis), (''criteria'', criteria), (''spec'', spec)]"

definition create_corner_job where
  "create_corner_job db api Q j t circuit c criteria spec user =
     create_batch db api Q ''worst-case'' j t circuit c user (\<lambda>g circuit' analysis.
       (batch_payload j g ''corner'' c)\<lparr>pl_corner := Some (spec_json circuit' analysis criteria spec)\<rparr>)"

definition create_temp_corner_job where
  "create_temp_corner_job db api Q j t circuit c criteria spec user =
     create_batch db api Q ''temperature-corner'' j t circuit c user (\<lambda>g circuit' analysis.
       (batch_payload j g ''temp-corner'' c)\<lparr>pl_tempCorner := Some (spec_json circuit' analysis criteria spec)\<rparr>)"

definition create_supply_corner_job where
  "create_supply_corner_job db api Q j t circuit c criteria spec user =
     create_batch db api Q ''supply-corner'' j t circuit c user (\<lambda>g circuit' analysis.
       (batch_payload j g ''supply-corner'' c)\<lparr>pl_supplyCorner := Some (spec_json circuit' analysis criteria spec)\<rparr>)"

section \<open>What a client reads\<close>

definition readable_sim :: "'d sim_db \<Rightarrow> string \<Rightarrow> string \<Rightarrow> 'd \<Rightarrow> sim_error + sim_job" where
  "readable_sim db j user d =
     (case find_first (sim_table db) (\<lambda>r. sj_id r = j) d of
        None \<Rightarrow> Inl SimNotFound
      | Some r \<Rightarrow> (case check_membership (members_db (sim_projects db)) (job_org r) user None d of
            Inl e \<Rightarrow> Inl (SimDenied e)
          | Inr _ \<Rightarrow> Inr r))"

definition get_status ::
  "'d sim_db \<Rightarrow> string \<Rightarrow> string \<Rightarrow> 'd \<Rightarrow> sim_error + (job_status \<times> nat \<times> nat option \<times> nat option \<times> json)" where
  "get_status db j user d =
     (case readable_sim db j user d of
        Inl e \<Rightarrow> Inl e
      | Inr r \<Rightarrow> Inr (job_status r, job_createdAt r, sj_startedAt r, sj_finishedAt r, sim_metrics r))"

record result_view =
  rv_status :: job_status
  rv_error :: "string option"
  rv_result :: "sim_result option"
  rv_metrics :: "json option"

text \<open>\<open>fetched\<close> is what the object store holds under a key, \<open>None\<close> when it cannot be fetched or parsed.\<close>

definition unavailable :: string where
  "unavailable = ''Result data is currently unavailable from storage.''"

definition decimated :: "rat option \<Rightarrow> sim_result \<Rightarrow> sim_result" where
  "decimated m s =
     (case m of
        None \<Rightarrow> s
      | Some k \<Rightarrow>
          (let original = (case sr_downsampledFrom s of None \<Rightarrow> sr_pointsCount s | Some n \<Rightarrow> n);
               reduced = downsample_result s k
           in if sr_downsampledFrom reduced = None then reduced else reduced\<lparr>sr_downsampledFrom := Some original\<rparr>))"

definition get_result ::
  "'d sim_db \<Rightarrow> (string \<Rightarrow> sim_result option) \<Rightarrow> string \<Rightarrow> string \<Rightarrow> rat option \<Rightarrow> 'd \<Rightarrow> sim_error + result_view" where
  "get_result db fetched j user m d =
     (case readable_sim db j user d of
        Inl e \<Rightarrow> Inl e
      | Inr r \<Rightarrow>
          if job_status r \<noteq> Succeeded then Inr \<lparr>rv_status = job_status r, rv_error = sj_stderr r, rv_result = None, rv_metrics = None\<rparr>
          else (let s = (case truthy (sim_s3Key r) of Some key \<Rightarrow> fetched key | None \<Rightarrow> sj_result r)
                in Inr \<lparr>rv_status = Succeeded, rv_error = (if s = None then Some unavailable else None),
                        rv_result = map_option (decimated m) s, rv_metrics = Some (sim_metrics r)\<rparr>))"

section \<open>The operator\<close>

definition remove_sim_job :: "'q bull \<Rightarrow> string \<Rightarrow> 'q \<Rightarrow> bool \<times> 'q" where
  "remove_sim_job Q j q = (case remove Q j q of (Inl _, q') \<Rightarrow> (False, q') | (Inr b, q') \<Rightarrow> (b, q'))"

text \<open>The queue of the admin module has no default options: one attempt.\<close>

definition enqueue_sim :: "'q bull \<Rightarrow> payload \<Rightarrow> 'q \<Rightarrow> (string + string) \<times> 'q" where
  "enqueue_sim Q p q = add Q p (Some (pl_job p)) None q"

text \<open>A cancel; \<open>w\<close> is what others do between the removal and the write.\<close>

definition cancel_sim_job ::
  "('d, sim_job) table \<Rightarrow> 'q bull \<Rightarrow> string \<Rightarrow> nat \<Rightarrow> ('d \<Rightarrow> 'd) \<Rightarrow> 'd \<times> 'q \<Rightarrow> (sim_error + job_status) \<times> 'd \<times> 'q" where
  "cancel_sim_job T Q j t w = (\<lambda>(d, q).
     case find_first T (\<lambda>r. sj_id r = j) d of
       None \<Rightarrow> (Inl SimNotFound, d, q)
     | Some r \<Rightarrow>
         if job_status r = Running then (Inl NotInterruptible, d, q)
         else if job_status r \<noteq> Queued then (Inl (NotCancelable (job_status r)), d, q)
         else (case remove_sim_job Q j q of
             (False, q1) \<Rightarrow> (Inl AlreadyStarted, d, q1)
           | (True, q1) \<Rightarrow>
               (let (n, d1) = update_many T (\<lambda>r. sj_id r = j \<and> job_status r = Queued)
                      (\<lambda>r. r\<lparr>job_status := Canceled, sj_finishedAt := Some t\<rparr>) (w d)
                in if n = 0 then (Inl StartedFirst, d1, q1) else (Inr Canceled, d1, q1))))"

definition requeued :: "sim_job \<Rightarrow> sim_job" where
  "requeued r = r\<lparr>job_status := Queued, sj_startedAt := None, sj_finishedAt := None, sj_error := None, sj_result := None,
     sim_s3Key := None, sim_metrics := JNull, sj_stdout := None, sj_stderr := None\<rparr>"

definition retry_payload :: "sim_job \<Rightarrow> payload" where
  "retry_payload r =
     plain_payload (sj_id r) (job_org r) (sj_netlist r) []
       (let k = obj_get ''type'' (sj_config r) in if nullish k then JStr ''tran'' else k) (sj_config r) []"

definition retry_sim_job ::
  "('d, sim_job) table \<Rightarrow> 'q bull \<Rightarrow> string \<Rightarrow> nat \<Rightarrow> 'd \<times> 'q \<Rightarrow> (sim_error + job_status) \<times> 'd \<times> 'q" where
  "retry_sim_job T Q j t = (\<lambda>(d, q).
     case find_first T (\<lambda>r. sj_id r = j) d of
       None \<Rightarrow> (Inl SimNotFound, d, q)
     | Some r \<Rightarrow>
         if job_status r \<notin> {Failed, TimedOut, Canceled} then (Inl (NotRetriable (job_status r)), d, q)
         else (let d1 = update_rows T (\<lambda>r. sj_id r = j) requeued d;
                   (_, q1) = remove_sim_job Q j q
               in case enqueue_sim Q (retry_payload r) q1 of
                    (Inl m, q2) \<Rightarrow> (Inl RetryNotEnqueued,
                      update_rows T (\<lambda>r. sj_id r = j)
                        (\<lambda>r. r\<lparr>job_status := Failed, sj_error := Some (''retry re-enqueue failed: '' @ m), sj_finishedAt := Some t\<rparr>) d1, q2)
                  | (Inr _, q2) \<Rightarrow> (Inr Queued, d1, q2)))"

section \<open>The runs of a job\<close>

definition settled :: "('d, sim_job) table \<Rightarrow> string \<Rightarrow> 'd \<Rightarrow> bool" where
  "settled T j d \<longleftrightarrow> (\<forall>r \<in> set (rows T d). sj_id r = j \<longrightarrow> terminal (job_status r))"

text \<open>What a run that did not claim to be final may leave behind.\<close>

definition body_leaves :: "('d, sim_job) table \<Rightarrow> string \<Rightarrow> bool \<Rightarrow> 'd \<Rightarrow> (thrown + unit) \<times> 'd \<Rightarrow> bool" where
  "body_leaves T j final d out =
     (case out of
        (Inr _, d') \<Rightarrow> settled T j d'
      | (Inl (Row_gone _), d') \<Rightarrow> d' = d \<and> settled T j d'
      | (Inl (Retryable_infra _), d') \<Rightarrow> if final then settled T j d' else d' = d
      | (Inl (Thrown _), d') \<Rightarrow> d' = d)"

locale sim_store = prisma_table T for T :: "('d, sim_job) table"
begin

lemma settled_gone: "find_first T (\<lambda>r. sj_id r = j) d = None \<Longrightarrow> settled T j d"
  by (auto simp: settled_def find_first_def find_None_iff)

lemma settled_update: "(\<And>r. terminal (job_status (f r))) \<Longrightarrow> settled T j (update_rows T (\<lambda>r. sj_id r = j) f d)"
  by (auto simp: settled_def)

lemma write_row_leaves:
  assumes "\<And>r. terminal (job_status (f r))"
  shows "body_leaves T j final d (write_row T a fault j f d)"
  using assms by (auto simp: body_leaves_def write_row_def update_one_def settled_gone settled_update split: option.split)

lemma handle_batch_leaves: "body_leaves T j final d (handle_batch T a j key ks answer d)"
proof -
  obtain r d1 where 1: "(case answer of
      Inl m \<Rightarrow> (Inl (Thrown m), d)
    | Inr s \<Rightarrow> write_row T a (write_fault a) j
        (\<lambda>r. r\<lparr>job_status := Succeeded, sj_finishedAt := Some (finish_at a), sim_metrics := batch_metrics key ks s\<rparr>) d) = (r, d1)"
    by fastforce
  have l: "body_leaves T j False d (r, d1)"
  proof (cases answer)
    case (Inr s)
    have "body_leaves T j False d (write_row T a (write_fault a) j
        (\<lambda>r. r\<lparr>job_status := Succeeded, sj_finishedAt := Some (finish_at a), sim_metrics := batch_metrics key ks s\<rparr>) d)"
      by (rule write_row_leaves) (simp add: terminal_def)
    then show ?thesis using 1 Inr by simp
  qed (use 1 in \<open>auto simp: body_leaves_def\<close>)
  show ?thesis
  proof (cases r)
    case (Inr u)
    then show ?thesis using 1 l by (simp add: handle_batch_def body_leaves_def)
  next
    case (Inl e)
    then have "d1 = d" using l by (auto simp: body_leaves_def split: thrown.splits)
    then show ?thesis using 1 Inl by (simp add: handle_batch_def write_row_leaves terminal_def)
  qed
qed

lemma handle_success_leaves: "body_leaves T j final d (handle_success T a j r d)"
  by (auto simp: handle_success_def body_leaves_def [where out = "(Inl (Thrown _), _)"] terminal_def
      intro: write_row_leaves split: sum.split)

lemma handle_failure_leaves: "body_leaves T j final d (handle_failure T a j r d)"
  by (simp add: handle_failure_def derive_failure_status_def terminal_def write_row_leaves)

lemma run_single_leaves: "body_leaves T (pl_job p) final d (run_single T a p final files d)"
proof (cases "run_simulation (tools_of a) p files")
  case (Inl m)
  then show ?thesis by (simp add: run_single_def body_leaves_def)
next
  case (Inr r)
  show ?thesis
  proof (cases "classify_job_outcome r final")
    case Terminal_infra
    then have final: "final" by (simp add: classify_job_outcome_def split: if_splits)
    obtain e d' where 1: "handle_failure T a (pl_job p) r d = (e, d')" by fastforce
    have "body_leaves T (pl_job p) final d (e, d')" using handle_failure_leaves 1 by metis
    then show ?thesis using Inr Terminal_infra 1 final by (cases e) (simp_all add: run_single_def body_leaves_def)
  next
    case Retry
    then have "\<not> final" by (simp add: classify_job_outcome_def split: if_splits)
    then show ?thesis using Inr Retry by (simp add: run_single_def body_leaves_def)
  qed (use Inr in \<open>simp_all add: run_single_def handle_success_leaves handle_failure_leaves\<close>)
qed

lemma run_batch_leaves:
  "body_leaves T j final d (handle_monte_carlo T a j spec files d)"
  "body_leaves T j final d (handle_corner T a j spec files d)"
  "body_leaves T j final d (handle_temp_corner T a j spec files d)"
  "body_leaves T j final d (handle_supply_corner T a j spec files d)"
  unfolding handle_monte_carlo_def handle_corner_def handle_temp_corner_def handle_supply_corner_def
  by (rule handle_batch_leaves)+

lemma run_body_leaves: "body_leaves T (pl_job p) final d (run_body T a p final d)"
proof (cases "download_models (tools_of a) (pl_assets p)")
  case (Inl m)
  then show ?thesis by (simp add: run_body_def body_leaves_def)
next
  case files: (Inr files)
  show ?thesis
  proof (cases "batch_of p")
    case None
    then show ?thesis using files by (simp add: run_body_def run_single_leaves)
  next
    case (Some b)
    then show ?thesis using files
      by (cases b; cases "fst b") (simp_all add: run_body_def run_batch_leaves)
  qed
qed

lemma settled_untouched:
  assumes "count_rows T (\<lambda>r. sj_id r = j \<and> job_status r \<in> {Queued, Running}) d = 0"
  shows "settled T j (update_rows T (\<lambda>r. sj_id r = j \<and> job_status r \<in> {Queued, Running}) f d)"
proof -
  have none: "\<not> (sj_id r = j \<and> job_status r \<in> {Queued, Running})" if "r \<in> set (rows T d)" for r
    using assms that by (simp only: count_zero) blast
  show ?thesis unfolding settled_def set_update
  proof (intro ballI impI)
    fix r' assume "r' \<in> (\<lambda>r. if sj_id r = j \<and> job_status r \<in> {Queued, Running} then f r else r) ` set (rows T d)" "sj_id r' = j"
    then obtain r where r: "r \<in> set (rows T d)" "r' = (if sj_id r = j \<and> job_status r \<in> {Queued, Running} then f r else r)"
      by (elim imageE)
    have "r' = r" by (rule trans [OF r(2) if_not_P [OF none [OF r(1)]]])
    then show "terminal (job_status r')" using none [OF r(1)] \<open>sj_id r' = j\<close> by (simp add: terminal_def)
  qed
qed

lemma claim_refused:
  assumes "claim_simulation_job T j t d = (c, d')" "c \<noteq> Claimed"
  shows "settled T j d'"
proof -
  have n: "count_rows T (\<lambda>r. sj_id r = j \<and> job_status r \<in> {Queued, Running}) d = 0"
    using assms by (auto simp: claim_simulation_job_def update_many_def Let_def split: if_splits)
  have d': "d' = snd (update_many T (\<lambda>r. sj_id r = j \<and> job_status r \<in> {Queued, Running})
      (\<lambda>r. r\<lparr>job_status := Running, sj_startedAt := Some t\<rparr>) d)"
    using assms(1) unfolding claim_simulation_job_def Let_def split_beta
    by (simp split: if_splits option.splits)
  show ?thesis unfolding d' update_many_def snd_conv by (rule settled_untouched [OF n])
qed

lemma catch_settles:
  assumes "catch_fault a = None" "body_leaves T (pl_job p) True d0 (Inl e, d)"
  shows "settled T (pl_job p) (snd (catch_error T a p True e d))"
proof (cases e)
  case (Thrown m)
  let ?f = "\<lambda>r. r\<lparr>job_status := Failed, sj_stderr := Some m, sj_finishedAt := Some (finish_at a), sim_metrics := infra_failed m\<rparr>"
  show ?thesis
  proof (cases "update_one T (\<lambda>r. sj_id r = pl_job p) ?f d")
    case None
    then have "settled T (pl_job p) d" by (auto simp: update_one_def intro: settled_gone split: if_splits)
    then show ?thesis using Thrown None assms(1) by (simp add: catch_error_def write_row_def)
  next
    case (Some d')
    then have "settled T (pl_job p) d'"
      by (auto simp: update_one_def terminal_def intro!: settled_update split: if_splits)
    then show ?thesis using Thrown Some assms(1) by (simp add: catch_error_def write_row_def)
  qed
qed (use assms in \<open>auto simp: catch_error_def body_leaves_def\<close>)

lemma catch_returns:
  assumes "catch_error T a p final e d = (Inr s, d')" "body_leaves T (pl_job p) final d0 (Inl e, d)"
  shows "settled T (pl_job p) d'"
  using assms by (cases e) (auto simp: catch_error_def body_leaves_def split: if_splits prod.splits sum.splits)

lemma process_returns:
  assumes "process_job T a p made attempts d = (Inr s, d')"
  shows "settled T (pl_job p) d'"
proof (cases "claim_fault a")
  case (Some m)
  then show ?thesis using assms
    by (auto simp: process_job_def Let_def catch_error_def split: if_splits prod.splits sum.splits)
next
  case None
  obtain c d1 where c: "claim_simulation_job T (pl_job p) (claim_at a) (before a d) = (c, d1)" by fastforce
  show ?thesis
  proof (cases "c = Claimed")
    case True
    obtain r d2 where r: "run_body T a p (is_final_attempt made attempts) (others a d1) = (r, d2)" by fastforce
    have l: "body_leaves T (pl_job p) (is_final_attempt made attempts) (others a d1) (r, d2)"
      unfolding r [symmetric] by (rule run_body_leaves)
    show ?thesis
    proof (cases r)
      case (Inl e)
      then have "catch_error T a p (is_final_attempt made attempts) e d2 = (Inr s, d')"
        using assms None c True r by (simp add: process_job_def)
      then show ?thesis using l Inl by (auto intro: catch_returns)
    next
      case (Inr u)
      then show ?thesis using assms None c True r l by (simp add: process_job_def body_leaves_def)
    qed
  next
    case False
    then show ?thesis using assms None c claim_refused [OF c False] by (simp add: process_job_def)
  qed
qed

lemma process_final:
  assumes "is_final_attempt made attempts" "catch_fault a = None"
  shows "settled T (pl_job p) (snd (process_job T a p made attempts d))"
proof (cases "claim_fault a")
  case (Some m)
  have "body_leaves T (pl_job p) True (before a d) (Inl (Thrown m), before a d)" by (simp add: body_leaves_def)
  from catch_settles [OF assms(2) this] show ?thesis using Some assms(1) by (simp add: process_job_def)
next
  case None
  obtain c d1 where c: "claim_simulation_job T (pl_job p) (claim_at a) (before a d) = (c, d1)" by fastforce
  show ?thesis
  proof (cases "c = Claimed")
    case True
    obtain r d2 where r: "run_body T a p True (others a d1) = (r, d2)" by fastforce
    have l: "body_leaves T (pl_job p) True (others a d1) (r, d2)"
      unfolding r [symmetric] by (rule run_body_leaves)
    show ?thesis
    proof (cases r)
      case (Inl e)
      then show ?thesis using None c True r assms(1) catch_settles [OF assms(2) l [unfolded Inl]] by (simp add: process_job_def)
    next
      case (Inr u)
      then show ?thesis using None c True r l assms(1) by (simp add: process_job_def body_leaves_def)
    qed
  next
    case False
    then show ?thesis using None c claim_refused [OF c False] by (simp add: process_job_def)
  qed
qed

lemma process_throws:
  assumes "\<not> is_final_attempt made attempts" "process_job T a p made attempts d = (Inl e, d')"
  shows "d' = before a d \<or> d' = others a (snd (claim_simulation_job T (pl_job p) (claim_at a) (before a d)))"
proof (cases "claim_fault a")
  case (Some m)
  then show ?thesis using assms by (simp add: process_job_def catch_error_def)
next
  case None
  obtain c d1 where c: "claim_simulation_job T (pl_job p) (claim_at a) (before a d) = (c, d1)" by fastforce
  then have claimed: "c = Claimed" using assms None by (auto simp: process_job_def split: if_splits)
  obtain r d2 where r: "run_body T a p False (others a d1) = (r, d2)" by fastforce
  have l: "body_leaves T (pl_job p) False (others a d1) (r, d2)"
    unfolding r [symmetric] by (rule run_body_leaves)
  have "d' = others a d1"
  proof (cases r)
    case (Inl e')
    then show ?thesis using assms None c claimed r l
      by (cases e') (auto simp: process_job_def catch_error_def body_leaves_def)
  qed (use assms None c claimed r in \<open>simp add: process_job_def\<close>)
  then show ?thesis using c by simp
qed

lemma final_iff: "is_final_attempt made attempts \<longleftrightarrow> \<not> made + 1 < attempts_of attempts"
  by (auto simp: is_final_attempt_def attempts_of_def)

lemma run_settles:
  assumes "run_attempts T env p attempts made d = ((k, out), d')"
    "catch_fault (env (max made (attempts_of attempts - 1))) = None"
  shows "made < k \<and> k \<le> max (made + 1) (attempts_of attempts) \<and> settled T (pl_job p) d'"
  using assms
proof (induction "attempts_of attempts - made" arbitrary: made d)
  case less: 0
  then have final: "is_final_attempt made attempts" "max made (attempts_of attempts - 1) = made" by (auto simp: final_iff)
  have "settled T (pl_job p) (snd (process_job T (env made) p made attempts d))"
    by (rule process_final) (use final less.prems(2) in simp_all)
  then show ?case using less.prems(1) final(1)
    by (subst (asm) run_attempts.simps) (auto simp: final_iff split: prod.splits sum.splits)
next
  case (Suc m)
  obtain r d1 where r: "process_job T (env made) p made attempts d = (r, d1)" by fastforce
  show ?case
  proof (cases "is_final_attempt made attempts")
    case True
    then have "max made (attempts_of attempts - 1) = made" by (auto simp: final_iff)
    then have "settled T (pl_job p) (snd (process_job T (env made) p made attempts d))"
      using process_final [OF True] Suc.prems(2) by simp
    then show ?thesis using Suc.prems(1) True
      by (subst (asm) run_attempts.simps) (auto simp: final_iff split: prod.splits sum.splits)
  next
    case False
    then have more: "made + 1 < attempts_of attempts" by (simp add: final_iff)
    show ?thesis
    proof (cases r)
      case (Inl e)
      then have "run_attempts T env p attempts (made + 1) d1 = ((k, out), d')"
        using Suc.prems(1) r more by (subst (asm) run_attempts.simps) simp
      moreover have "m = attempts_of attempts - (made + 1)" using Suc.hyps(2) by simp
      moreover have "max (made + 1) (attempts_of attempts - 1) = max made (attempts_of attempts - 1)" using more by simp
      ultimately have "made + 1 < k \<and> k \<le> max (made + 1 + 1) (attempts_of attempts) \<and> settled T (pl_job p) d'"
        using Suc.hyps(1) [of "made + 1" d1] Suc.prems(2) by simp
      then show ?thesis using more by simp
    next
      case (Inr s)
      then have "k = made + 1" "d' = d1"
        using Suc.prems(1) r by (subst (asm) run_attempts.simps, simp)+
      then show ?thesis using process_returns r Inr by simp
    qed
  qed
qed

lemma decided_claim:
  assumes "settled T j d"
  shows "claim_simulation_job T j t d =
    (if find_first T (\<lambda>r. sj_id r = j) (snd (claim_simulation_job T j t d)) = None then Orphaned else Terminal_row,
     snd (claim_simulation_job T j t d))" (is ?A)
    and "mset (rows T (snd (claim_simulation_job T j t d))) = mset (rows T d)" (is ?B)
proof -
  have none: "\<not> (sj_id r = j \<and> job_status r \<in> {Queued, Running})" if "r \<in> set (rows T d)" for r
    using assms that by (auto simp: settled_def terminal_def)
  then have n: "count_rows T (\<lambda>r. sj_id r = j \<and> job_status r \<in> {Queued, Running}) d = 0"
    by (simp only: count_zero) blast
  then show ?A by (simp add: claim_simulation_job_def update_many_def split: option.split)
  have eq: "snd (claim_simulation_job T j t d) = update_rows T (\<lambda>r. sj_id r = j \<and> job_status r \<in> {Queued, Running})
      (\<lambda>r. r\<lparr>job_status := Running, sj_startedAt := Some t\<rparr>) d"
    using n by (simp add: claim_simulation_job_def update_many_def split: option.split)
  show ?B unfolding eq update
  proof (rule trans [OF image_mset_cong])
    show "image_mset (\<lambda>r. r) (mset (rows T d)) = mset (rows T d)" by simp
  qed (use none in auto)
qed

end


text \<open>
  \<^bold>\<open>C28.\<close> A run that throws before the last attempt has written nothing but its claim: a client that polls the row
  never sees a failure that a retry may still mend.
\<close>

theorem failed_attempt_hidden:
  assumes "sim_store T" "\<not> is_final_attempt made attempts" "process_job T a p made attempts d = (Inl e, d')"
  shows "d' = before a d \<or> d' = others a (snd (claim_simulation_job T (pl_job p) (claim_at a) (before a d)))"
  using assms by (rule sim_store.process_throws)

text \<open>
  \<^bold>\<open>C29.\<close> A job whose row is gone, or in a final state, is taken off the queue at its first run: nothing is
  downloaded, run or written, and it is not retried.
\<close>

theorem decided_row_untouched:
  assumes "sim_store T" "claim_fault (env 0) = None" "settled T (pl_job p) (before (env 0) d)"
    "run_attempts T env p attempts 0 d = (out, d')"
  shows "out \<in> {(1, Inr (Skipped Orphaned)), (1, Inr (Skipped Terminal_row))} \<and>
    mset (rows T d') = mset (rows T (before (env 0) d))"
proof -
  define c where "c = claim_simulation_job T (pl_job p) (claim_at (env 0)) (before (env 0) d)"
  have "fst c = (if find_first T (\<lambda>r. sj_id r = pl_job p) (snd c) = None then Orphaned else Terminal_row)"
    using arg_cong [OF sim_store.decided_claim(1) [OF assms(1,3)], of fst] by (simp add: c_def)
  then have c: "fst c = Orphaned \<or> fst c = Terminal_row" by simp
  have m: "mset (rows T (snd c)) = mset (rows T (before (env 0) d))"
    unfolding c_def by (rule sim_store.decided_claim(2) [OF assms(1,3)])
  have "fst c \<noteq> Claimed" using c by (elim disjE) simp_all
  then have "process_job T (env 0) p 0 attempts d = (Inr (Skipped (fst c)), snd c)"
    by (simp add: process_job_def assms(2) c_def split_beta Let_def)
  then have "run_attempts T env p attempts 0 d = ((1, Inr (Skipped (fst c))), snd c)"
    by (subst run_attempts.simps) simp
  then have "out = (1, Inr (Skipped (fst c)))" "d' = snd c" using assms(4) by simp_all
  then show ?thesis using c m by (elim disjE) simp_all
qed

section \<open>The size that is metered\<close>

lemma stored_bytes_success:
  "sim_metrics x = build_success_metrics rt ob n pc cv \<Longrightarrow> stored_bytes (sim_row.truncate x) = of_nat n"
  by (cases ob; cases pc; cases cv)
    (simp_all add: stored_bytes_def sim_row.truncate_def build_success_metrics_def opt_field_def)

text \<open>
  What the storage quota later counts for a finished simulation is what was stored: the bytes of the
  decimated result, which the row itself holds only up to a mebibyte.
\<close>

theorem stored_size_counted:
  assumes "sim_store T" "handle_success T a j r d = (Inr u, d')" "rr_result r = Some s" "x \<in> set (rows T d')" "sj_id x = j"
    "b = downsample_result s (max_points (tools_of a))" "\<And>y. y \<in> set (rows T d) \<Longrightarrow> sj_id y = j \<Longrightarrow> sim_s3Key y = None"
  shows "stored_bytes (sim_row.truncate x) = of_nat (result_bytes (tools_of a) b) \<and>
    (if result_bytes (tools_of a) b \<le> 1024 * 1024 then sj_result x = Some b \<and> sim_s3Key x = None
     else sj_result x = None \<and> (\<exists>key. upload_result (tools_of a) j b = Inr key \<and> sim_s3Key x = Some key))"
proof -
  have size: "stored_size (tools_of a) r = result_bytes (tools_of a) b" "bounded (tools_of a) r = Some b"
    by (simp_all add: stored_size_def bounded_def assms(3,6))
  obtain stored key where pl: "place_result (tools_of a) j r = Inr (stored, key)"
    using assms(2) by (auto simp: handle_success_def split: sum.splits)
  let ?f = "\<lambda>x. x\<lparr>job_status := Succeeded, sj_stdout := Some (take 10000 (rr_stdout r)), sj_stderr := Some (take 10000 (rr_stderr r)),
            sj_result := stored, sim_s3Key := keep_or (sim_s3Key x) key, sj_finishedAt := Some (finish_at a),
            sim_metrics := build_success_metrics (rr_runtimeMs r) (rr_outputBytes r) (stored_size (tools_of a) r)
              (map_option sr_pointsCount (rr_result r)) (rr_convergence r)\<rparr>"
  have "write_row T a (write_fault a) j ?f d = (Inr u, d')" using assms(2) pl by (simp add: handle_success_def)
  then have "d' = update_rows T (\<lambda>r. sj_id r = j) ?f d"
    by (simp add: write_row_def update_one_def split: option.splits if_splits)
  then have "x \<in> (\<lambda>y. if sj_id y = j then ?f y else y) ` set (rows T d)"
    using assms(4) prisma_table.set_update [OF sim_store.axioms [OF assms(1)]] by simp
  then obtain y where y: "y \<in> set (rows T d)" "x = (if sj_id y = j then ?f y else y)" by (elim imageE)
  have yj: "sj_id y = j"
  proof (rule ccontr)
    assume "sj_id y \<noteq> j"
    then show False using y(2) assms(5) by simp
  qed
  then have x: "x = ?f y" using y(2) by simp
  have "stored_bytes (sim_row.truncate x) = of_nat (result_bytes (tools_of a) b)"
    by (rule stored_bytes_success [of _ "rr_runtimeMs r" "rr_outputBytes r" _ "map_option sr_pointsCount (rr_result r)" "rr_convergence r"])
      (simp add: x size)
  moreover have "sj_result x = stored" "sim_s3Key x = key"
    using assms(7) [OF y(1) yj] by (simp_all add: x keep_or_def split: option.split)
  ultimately show ?thesis using pl size by (auto simp: place_result_def split: if_splits sum.splits)
qed

section \<open>The files of the models\<close>

lemma model_files_ok:
  "model_files used as = Inr fs \<Longrightarrow>
   map snd fs = map (\<lambda>k. last (split_on (CHR ''/'') k)) (map fst fs) \<and> distinct (map snd fs) \<and> set (map snd fs) \<inter> set used = {} \<and>
   list_all (\<lambda>f. safe_filename f \<and> js_lower f \<notin> set reserved_job_files) (map snd fs)"
proof (induction as arbitrary: used fs)
  case (Cons a as)
  then obtain fs' where fs': "model_files (last (split_on (CHR ''/'') (ma_key a)) # used) as = Inr fs'"
    "fs = (ma_key a, last (split_on (CHR ''/'') (ma_key a))) # fs'"
    by (auto simp: Let_def split: if_splits sum.splits)
  show ?case using Cons.prems Cons.IH [OF fs'(1)] by (auto simp: fs'(2) Let_def split: if_splits)
qed simp

lemma downloaded_names: "download_models t ks = Inr fs \<Longrightarrow> map fst fs = map file_name ks"
  by (induction ks arbitrary: fs) (auto split: sum.splits)

lemma safe_file_name: "safe_filename (last (split_on (CHR ''/'') k)) \<Longrightarrow> file_name k = last (split_on (CHR ''/'') k)"
  by (auto simp: file_name_def safe_filename_def split: list.split)


section \<open>The queue and the operator\<close>

lemma lq_fresh_free: "lq_fresh q \<notin> set (lq_ids q)"
proof
  assume a: "lq_fresh q \<in> set (lq_ids q)"
  have "num_val i \<le> foldr max (map num_val is) 0" if "i \<in> set is" for i "is"
    using that by (induction "is") auto
  from this [OF a] show False by (simp add: lq_fresh_def)
qed

lemma lq_fresh_numeral: "all_digits (lq_fresh q)"
  by (auto simp: all_digits_def lq_fresh_def list_all_iff num_str_digits)

lemma lq_pending_add:
  "pending list_bull (q\<lparr>lq_jobs := lq_jobs q @ [((i, p, n), False)]\<rparr>) = insert (i, p, n) (pending list_bull q)"
  by (simp add: list_bull_def del: set_filter)

lemma lq_held_add:
  "held list_bull (q\<lparr>lq_jobs := lq_jobs q @ [((i, p, n), False)]\<rparr>) = insert i (held list_bull q)"
  by (simp add: list_bull_def lq_ids_def)

lemma lq_add_cases:
  "lq_add p named n q = (Inr i, q') \<Longrightarrow>
   i = (case named of None \<Rightarrow> lq_fresh q | Some j \<Rightarrow> j) \<and>
   q' = (if i \<in> held list_bull q then q else q\<lparr>lq_jobs := lq_jobs q @ [((i, p, n), False)]\<rparr>)"
  by (auto simp: lq_add_def list_bull_def Let_def split: if_splits)

lemma lq_held: "held list_bull q = set (lq_ids q)"
  by (simp add: list_bull_def)

lemma lq_operations: "add list_bull = lq_add" "remove list_bull = lq_remove"
  by (simp_all add: list_bull_def)

interpretation list_bull: bull_queue list_bull
proof
  fix q q' :: list_queue and p n i i' m b e and named :: "string option"
  show "add list_bull p None n q = (Inr i, q') \<Longrightarrow>
      all_digits i \<and> i \<notin> held list_bull q \<and> held list_bull q' = insert i (held list_bull q) \<and>
      pending list_bull q' = insert (i, p, n) (pending list_bull q)"
    using lq_fresh_free [of q] lq_fresh_numeral [of q] lq_add_cases [of p None n q i q']
    by (simp add: lq_operations lq_pending_add lq_held lq_held_add [unfolded lq_held] split: if_splits)
  show "add list_bull p (Some i) n q = (Inr i', q') \<Longrightarrow>
      i' = i \<and> held list_bull q' = insert i (held list_bull q) \<and>
      pending list_bull q' = (if i \<in> held list_bull q then pending list_bull q else insert (i, p, n) (pending list_bull q))"
    using lq_add_cases [of p "Some i" n q i' q'] lq_pending_add lq_held_add by (auto simp: lq_operations)
  show "add list_bull p named n q = (Inl m, q') \<Longrightarrow> held list_bull q' = held list_bull q \<and> pending list_bull q' = pending list_bull q"
    by (auto simp: list_bull_def lq_add_def Let_def split: if_splits)
  show "remove list_bull i q = (Inr b, q') \<Longrightarrow>
      b = (i \<in> held list_bull q) \<and> held list_bull q' = held list_bull q - {i} \<and>
      pending list_bull q' = {e \<in> pending list_bull q. fst e \<noteq> i}"
    by (auto simp: list_bull_def lq_remove_def lq_ids_def split: if_splits)
  show "remove list_bull i q = (Inl m, q') \<Longrightarrow> held list_bull q' = held list_bull q \<and> pending list_bull q' = pending list_bull q"
    by (auto simp: list_bull_def lq_remove_def split: if_splits)
  show "e \<in> pending list_bull q \<Longrightarrow> fst e \<in> held list_bull q"
    by (auto simp: list_bull_def lq_ids_def)
qed

text \<open>
  A cancel of a simulation the API has enqueued is always refused, also while it waits: the queue gave the
  job a number of its own, and the cancel looks for the id of the row, which is none.
\<close>

theorem queued_sim_not_cancelable:
  assumes "bull_queue Q" "insert_and_enqueue db api Q t row p (d, q) = (Inr j, d1, q1)"
    "\<not> all_digits (sj_id row)" "sj_id row \<notin> held Q q"
  shows "\<exists>e q2. cancel_sim_job (sim_table db) Q j t' w (d2, q1) = (Inl e, d2, q2) \<and> pending Q q2 = pending Q q1 \<and>
    (\<exists>i. (i, p, api_attempts api) \<in> pending Q q1)"
proof -
  obtain x d3 where g: "create_sim_guarded (sim_usage db) (api_env api) t (job_org row) (create_row (sim_table db) row) d = (x, d3)"
    by fastforce
  obtain y q3 where y: "add Q p None (api_attempts api) q = (y, q3)" by fastforce
  have "x = None" using assms(2) g by (cases x) (simp_all add: insert_and_enqueue_def)
  then obtain i where a: "add Q p None (api_attempts api) q = (Inr i, q1)" and j: "j = sj_id row"
    using assms(2) g y by (cases y) (simp_all add: insert_and_enqueue_def)
  note f = bull_queue.add_fresh [OF assms(1) a]
  have j1: "j \<notin> held Q q1" using f assms(3,4) j by auto
  obtain b q2 where r: "remove Q j q1 = (b, q2)" by fastforce
  have p: "remove_sim_job Q j q1 = (False, q2) \<and> pending Q q2 = pending Q q1"
  proof (cases b)
    case (Inl m)
    then show ?thesis using r bull_queue.remove_thrown [OF assms(1)] by (auto simp: remove_sim_job_def)
  next
    case (Inr x)
    then have "\<not> x" "pending Q q2 = {e \<in> pending Q q1. fst e \<noteq> j}"
      using r Inr bull_queue.remove_done [OF assms(1), of j q1 x q2] j1 by simp_all
    moreover have "{e \<in> pending Q q1. fst e \<noteq> j} = pending Q q1"
      using bull_queue.pending_held [OF assms(1), of _ q1] j1 by auto
    ultimately show ?thesis using r Inr by (simp add: remove_sim_job_def)
  qed
  moreover have "\<exists>i. (i, p, api_attempts api) \<in> pending Q q1" using f by auto
  ultimately show ?thesis
    by (cases "find_first (sim_table db) (\<lambda>r. sj_id r = j) d2") (simp_all add: cancel_sim_job_def)
qed

text \<open>A create whose enqueue throws leaves the row queued, with no job.\<close>

lemma create_orphans:
  assumes "prisma_table (sim_table db)" "bull_queue Q" "insert_and_enqueue db api Q t row p (d, q) = (Inl (EnqueueThrew m), d1, q1)"
  shows "row \<in> set (rows (sim_table db) d1) \<and> pending Q q1 = pending Q q"
  using assms(3) bull_queue.add_refused [OF assms(2)] prisma_table.set_create [OF assms(1)]
  by (auto simp: insert_and_enqueue_def create_sim_guarded_def guarded_def Let_def split: prod.splits option.splits sum.splits if_splits)

text \<open>
  A retry leaves no orphan: the row it set back to queued has a job, under its own id, and when the queue
  does not take the job the row is failed again.
\<close>

theorem retry_leaves_no_orphan:
  assumes "sim_store T" "bull_queue Q" "settled T j d" "retry_sim_job T Q j t (d, q) = (out, d', q')"
  shows "settled T j d' \<or> out = Inr Queued \<and> j \<in> held Q q'"
proof (cases "find_first T (\<lambda>r. sj_id r = j) d")
  case None
  then show ?thesis using assms(3,4) by (simp add: retry_sim_job_def)
next
  case (Some r)
  have rj: "sj_id r = j" using find_first_Some [OF Some] by simp
  show ?thesis
  proof (cases "job_status r \<in> {Failed, TimedOut, Canceled}")
    case False
    then show ?thesis using assms(3,4) Some by (simp add: retry_sim_job_def)
  next
    case True
    obtain b q1 where q1: "remove_sim_job Q j q = (b, q1)" by fastforce
    obtain x q2 where q2: "enqueue_sim Q (retry_payload r) q1 = (x, q2)" by fastforce
    show ?thesis
    proof (cases x)
      case (Inl m)
      have "d' = update_rows T (\<lambda>r. sj_id r = j)
          (\<lambda>r. r\<lparr>job_status := Failed, sj_error := Some (''retry re-enqueue failed: '' @ m), sj_finishedAt := Some t\<rparr>)
          (update_rows T (\<lambda>r. sj_id r = j) requeued d)"
        using assms(4) Some True q1 q2 Inl by (auto simp: retry_sim_job_def)
      then have "settled T j d'" using sim_store.settled_update [OF assms(1)] by (simp add: terminal_def)
      then show ?thesis by simp
    next
      case (Inr i)
      have "pl_job (retry_payload r) = j" using rj by (simp add: retry_payload_def plain_payload_def)
      then have "j \<in> held Q q2"
        using q2 Inr bull_queue.add_named [OF assms(2)] by (auto simp: enqueue_sim_def)
      then show ?thesis using assms(4) Some True q1 q2 Inr by (auto simp: retry_sim_job_def)
    qed
  qed
qed

text \<open>What a retry runs: of a batch, one simulation of the empty deck.\<close>

lemma retry_forgets_batch:
  "sj_netlist r = [] \<Longrightarrow> batch_of (retry_payload r) = None \<and> pl_netlist (retry_payload r) = []"
  by (simp add: retry_payload_def plain_payload_def batch_of_def)

section \<open>What the client reads of a large result\<close>

lemma reduced_meta:
  "sr_downsampledFrom (downsample_result s m) = sr_downsampledFrom s \<and> downsample_result s m = s \<or>
   sr_downsampledFrom (downsample_result s m) = Some (sr_pointsCount s)"
  by (simp add: downsample_result_def Let_def)

text \<open>
  A result that was decimated for storage, for the reply, or for both, names the number of points the
  simulation gave, not one in between; a result that was not keeps its points.
\<close>

theorem original_points_reported:
  assumes "sr_downsampledFrom s = None" "bounded t r = Some b" "rr_result r = Some s"
  shows "sr_downsampledFrom (decimated m b) = Some (sr_pointsCount s) \<or> decimated m b = s"
  using assms reduced_meta [of s "max_points t"] reduced_meta [of b "the m"]
  by (cases m) (auto simp: bounded_def decimated_def Let_def)

section \<open>Concrete runs\<close>

definition sim_rows :: "(sim_job list, sim_job) table" where
  "sim_rows = list_table (\<lambda>d. d) (\<lambda>f. f)"

interpretation sim_lists: sim_store sim_rows
  unfolding sim_rows_def by (rule sim_store.intro) (rule one_table.prisma_table_axioms)

definition demo_sim_row :: sim_job where
  "demo_sim_row = new_sim ''s-1'' 5 ''acme'' None (JObj []) ''* rc''"

definition demo_waveform :: sim_result where
  "demo_waveform = \<lparr>sr_pointsCount = 2, sr_downsampledFrom = None, sr_meta = JNull, sr_series = []\<rparr>"

definition demo_run :: run_result where
  "demo_run = \<lparr>rr_success = True, rr_result = Some demo_waveform, rr_stdout = ''ok'', rr_stderr = [], rr_runtimeMs = 7,
     rr_outputBytes = Some 90, rr_error = None, rr_infra = False, rr_timedOut = False, rr_convergence = None\<rparr>"

definition demo_no_spice :: run_result where
  "demo_no_spice = demo_run\<lparr>rr_success := False, rr_result := None, rr_infra := True, rr_error := Some ''ENOENT''\<rparr>"

definition demo_sim_tools :: "run_result \<Rightarrow> sim_tools" where
  "demo_sim_tools r = \<lparr>download = (\<lambda>_. Inr ''.model''), run_simulation = (\<lambda>_ _. Inr r), run_batch = (\<lambda>_ _ _ _. Inl ''none''),
     result_bytes = (\<lambda>_. 42), upload_result = (\<lambda>j _. Inr j), max_points = 100, gone_message = ''gone''\<rparr>"

definition demo_attempt :: "run_result \<Rightarrow> sim_job list attempt" where
  "demo_attempt r = \<lparr>tools_of = demo_sim_tools r, claim_fault = None, write_fault = None, batch_fault = None, catch_fault = None,
     before = (\<lambda>d. d), others = (\<lambda>d. d), claim_at = 6, finish_at = 9\<rparr>"

definition demo_payload :: payload where
  "demo_payload = plain_payload ''s-1'' ''acme'' ''* rc'' [] (JStr ''tran'') (JObj []) [''u/models/d.lib'']"

text \<open>The first run finds no simulator, the second one does.\<close>

definition sim_env :: "nat \<Rightarrow> sim_job list attempt" where
  "sim_env k = demo_attempt (if k = 0 then demo_no_spice else demo_run)"

lemma demo_first: "process_job sim_rows (sim_env 0) demo_payload 0 (Some 3) [demo_sim_row] =
    (Inl (Retryable_infra ''ENOENT''), [demo_sim_row\<lparr>job_status := Running, sj_startedAt := Some 6\<rparr>])"
  by code_simp

abbreviation demo_claimed :: sim_job where
  "demo_claimed \<equiv> demo_sim_row\<lparr>job_status := Running, sj_startedAt := Some 6\<rparr>"

lemma sim_rows_simps [simp]:
  "rows sim_rows d = d" "update_rows sim_rows P f d = map (\<lambda>r. if P r then f r else r) d"
  by (simp_all add: sim_rows_def list_table_def)

lemma demo_fields [simp]:
  "before (sim_env k) d = d" "others (sim_env k) d = d" "claim_at (sim_env k) = 6" "claim_fault (sim_env k) = None"
  "write_fault (sim_env k) = None" "catch_fault (sim_env k) = None" "pl_job demo_payload = ''s-1''" "sj_id demo_sim_row = ''s-1''"
  "tools_of (sim_env (Suc n)) = demo_sim_tools demo_run"
  by (simp_all add: sim_env_def demo_attempt_def demo_payload_def plain_payload_def demo_sim_row_def new_sim_def)

lemma demo_success:
  "\<exists>x. handle_success sim_rows (sim_env (Suc n)) ''s-1'' demo_run [y] = (Inr (), [x]) \<and> sj_id x = ''s-1'' \<and> job_status x = Succeeded"
  if "sj_id y = ''s-1''" "sim_s3Key y = None" for y
proof -
  have "place_result (demo_sim_tools demo_run) ''s-1'' demo_run = Inr (Some (downsample_result demo_waveform 100), None)"
    by (simp add: place_result_def bounded_def stored_size_def demo_sim_tools_def demo_run_def)
  then show ?thesis using that by (simp add: handle_success_def write_row_def update_one_def find_first_def)
qed

lemma demo_body: "run_body sim_rows (sim_env (Suc n)) demo_payload final d = handle_success sim_rows (sim_env (Suc n)) ''s-1'' demo_run d"
proof -
  have "download_models (demo_sim_tools demo_run) (pl_assets demo_payload) = Inr [(''d.lib'', ''.model'')]" by code_simp
  moreover have "batch_of demo_payload = None" by (simp add: batch_of_def demo_payload_def plain_payload_def)
  moreover have "run_simulation (demo_sim_tools demo_run) p fs = Inr demo_run" for p fs by (simp add: demo_sim_tools_def)
  moreover have "classify_job_outcome demo_run final = Success" by (simp add: classify_job_outcome_def demo_run_def)
  ultimately show ?thesis by (simp add: run_body_def run_single_def)
qed

lemma demo_second:
  "\<exists>d'. process_job sim_rows (sim_env (Suc 0)) demo_payload (Suc 0) (Some 3) [demo_claimed] = (Inr Ran, d') \<and> map job_status d' = [Succeeded]"
proof -
  have "claim_simulation_job sim_rows ''s-1'' 6 [demo_claimed] = (Claimed, [demo_claimed])"
    by (simp add: claim_simulation_job_def update_many_def count_rows_def)
  moreover obtain x where "handle_success sim_rows (sim_env (Suc 0)) ''s-1'' demo_run [demo_claimed] = (Inr (), [x])" "job_status x = Succeeded"
    using demo_success [of demo_claimed 0] by (auto simp: demo_sim_row_def new_sim_def)
  ultimately show ?thesis by (simp add: process_job_def demo_body)
qed

lemma demo_runs:
  "\<exists>d'. run_attempts sim_rows sim_env demo_payload (Some 3) 0 [demo_sim_row] = ((Suc (Suc 0), Inr Ran), d') \<and>
     map job_status d' = [Succeeded]"
proof (rule exE [OF demo_second], erule conjE)
  fix d'
  assume 2: "process_job sim_rows (sim_env (Suc 0)) demo_payload (Suc 0) (Some 3) [demo_claimed] = (Inr Ran, d')"
    "map job_status d' = [Succeeded]"
  have more: "Suc 0 < attempts_of (Some 3)" by (simp add: attempts_of_def)
  have "run_attempts sim_rows sim_env demo_payload (Some 3) 0 [demo_sim_row] = ((Suc (Suc 0), Inr Ran), d')"
    by (rule trans [OF run_again [where env = sim_env, OF demo_first more] run_stops [where env = sim_env, OF 2(1)]])
  with 2(2) show ?thesis by (intro exI [of _ d'] conjI)
qed


theorem failed_attempt_hidden_witness:
  "snd (process_job sim_rows (sim_env 0) demo_payload 0 (Some 3) [demo_sim_row]) =
     snd (claim_simulation_job sim_rows ''s-1'' 6 [demo_sim_row])"
proof -
  have f: "\<not> is_final_attempt 0 (Some 3)" by (simp add: is_final_attempt_def)
  have e: "before (sim_env 0) d = d" "others (sim_env 0) d = d" "claim_at (sim_env 0) = 6" "pl_job demo_payload = ''s-1''" for d
    by (simp_all add: sim_env_def demo_attempt_def demo_payload_def plain_payload_def)
  have "[demo_sim_row\<lparr>job_status := Running, sj_startedAt := Some 6\<rparr>] \<noteq> [demo_sim_row]"
    by (simp add: demo_sim_row_def new_sim_def)
  then show ?thesis using failed_attempt_hidden [OF sim_lists.sim_store_axioms f demo_first] by (simp add: e demo_first)
qed

theorem decided_row_untouched_witness:
  "fst (run_attempts sim_rows sim_env demo_payload (Some 3) 0 []) \<in> {(1, Inr (Skipped Orphaned)), (1, Inr (Skipped Terminal_row))} \<and>
   snd (run_attempts sim_rows sim_env demo_payload (Some 3) 0 []) = []"
proof -
  obtain x d' where r: "run_attempts sim_rows sim_env demo_payload (Some 3) 0 [] = (x, d')" by fastforce
  have "settled sim_rows (pl_job demo_payload) (before (sim_env 0) [])" by (simp add: settled_def)
  from decided_row_untouched [OF sim_lists.sim_store_axioms demo_fields(4) this r] show ?thesis by (simp add: r)
qed

theorem stored_size_counted_witness:
  "map (\<lambda>x. stored_bytes (sim_row.truncate x)) (snd (handle_success sim_rows (sim_env (Suc 0)) ''s-1'' demo_run [demo_sim_row])) = [42]"
proof -
  have k: "sim_s3Key demo_sim_row = None" by (simp add: demo_sim_row_def new_sim_def)
  obtain x where h: "handle_success sim_rows (sim_env (Suc 0)) ''s-1'' demo_run [demo_sim_row] = (Inr (), [x])" "sj_id x = ''s-1''"
    using demo_success [of demo_sim_row 0] k by auto
  have r: "rr_result demo_run = Some demo_waveform" by (simp add: demo_run_def)
  have x: "x \<in> set (rows sim_rows [x])" by simp
  have none: "sim_s3Key y = None" if "y \<in> set (rows sim_rows [demo_sim_row])" "sj_id y = ''s-1''" for y
    using that k by simp
  have "result_bytes (demo_sim_tools demo_run) b = 42" for b by (simp add: demo_sim_tools_def)
  then show ?thesis using stored_size_counted [OF sim_lists.sim_store_axioms h(1) r x h(2) refl none] h(1) by simp
qed

definition demo_model :: model_asset where
  "demo_model = \<lparr>as_org = ''acme'', as_sizeBytes = 7, ma_id = ''m'', ma_type = ''SPICE_MODEL'', ma_key = ''u/models/d.lib''\<rparr>"

record sim_lists =
  sl_sims :: "sim_job list"
  sl_assets :: "model_asset list"

definition no_rows :: "('d, 'r) table" where
  "no_rows = list_table (\<lambda>_. []) (\<lambda>_ d. d)"

text \<open>A database of simulations and models, with no organization that has a limit, an override or a suspension.\<close>

definition sim_list_db :: "sim_lists sim_db" where
  "sim_list_db = \<lparr>sim_table = list_table sl_sims sl_sims_update,
     sim_usage = \<lparr>sims_of = no_rows, designs_of = no_rows, layouts_of = no_rows, assets_of = no_rows, overrides_of = no_rows,
       org_states_of = no_rows, usage_of = no_rows\<rparr>,
     sim_projects = \<lparr>projects_of = no_rows, versions_of = no_rows, drafts_of = no_rows,
       members_db = \<lparr>orgs_of = no_rows, members_of = no_rows, invites_of = no_rows, users_of = no_rows, audit_of = no_rows\<rparr>\<rparr>,
     sim_assets = list_table sl_assets sl_assets_update\<rparr>"


definition demo_api :: sim_api where
  "demo_api = \<lparr>api_env = (\<lambda>_. None), valid_circuit = Inr, valid_analysis = Inr, netlist_for = (\<lambda>_ _ _ _. Inr ''* rc''),
     api_attempts = Some 3\<rparr>"

definition empty_queue :: list_queue where
  "empty_queue = \<lparr>lq_jobs = [], lq_down = False\<rparr>"

theorem queued_sim_not_cancelable_witness:
  "\<exists>d1 q1 e q2. insert_and_enqueue sim_list_db demo_api list_bull 5 demo_sim_row demo_payload
       (\<lparr>sl_sims = [], sl_assets = []\<rparr>, empty_queue) = (Inr ''s-1'', d1, q1) \<and> map job_status (sl_sims d1) = [Queued] \<and>
     cancel_sim_job (sim_table sim_list_db) list_bull ''s-1'' 9 id (d1, q1) = (Inl e, d1, q2) \<and>
     (\<exists>i. (i, demo_payload, Some 3) \<in> pending list_bull q2)"
proof -
  let ?q = "snd (snd (insert_and_enqueue sim_list_db demo_api list_bull 5 demo_sim_row demo_payload (\<lparr>sl_sims = [], sl_assets = []\<rparr>, empty_queue)))"
  have i: "insert_and_enqueue sim_list_db demo_api list_bull 5 demo_sim_row demo_payload (\<lparr>sl_sims = [], sl_assets = []\<rparr>, empty_queue) =
      (Inr ''s-1'', \<lparr>sl_sims = [demo_sim_row], sl_assets = []\<rparr>, ?q)" by code_simp
  have n: "\<not> all_digits (sj_id demo_sim_row)" "sj_id demo_sim_row \<notin> held list_bull empty_queue"
    by code_simp+
  have a: "api_attempts demo_api = Some 3" and m: "map job_status (sl_sims \<lparr>sl_sims = [demo_sim_row], sl_assets = []\<rparr>) = [Queued]"
    by (simp_all add: demo_api_def demo_sim_row_def new_sim_def)
  obtain e q2 where c: "cancel_sim_job (sim_table sim_list_db) list_bull ''s-1'' 9 id (\<lparr>sl_sims = [demo_sim_row], sl_assets = []\<rparr>, ?q) =
      (Inl e, \<lparr>sl_sims = [demo_sim_row], sl_assets = []\<rparr>, q2)"
    and p: "pending list_bull q2 = pending list_bull ?q" "\<exists>i. (i, demo_payload, Some 3) \<in> pending list_bull ?q"
    using queued_sim_not_cancelable [OF list_bull.bull_queue_axioms i n, of 9 id "\<lparr>sl_sims = [demo_sim_row], sl_assets = []\<rparr>"]
    unfolding a by blast
  have q: "\<exists>i. (i, demo_payload, Some 3) \<in> pending list_bull q2" unfolding p(1) by (rule p(2))
  show ?thesis by (rule exI, rule exI, rule exI, rule exI, intro conjI, rule i, rule m, rule c, rule q)
qed

text \<open>A retry of a failed row, with a queue that answers and with one that does not.\<close>

theorem retry_leaves_no_orphan_witness:
  "snd (snd (retry_sim_job sim_rows list_bull ''s-1'' 9 ([demo_sim_row\<lparr>job_status := Failed\<rparr>], empty_queue))) \<noteq> empty_queue \<and>
   ''s-1'' \<in> held list_bull (snd (snd (retry_sim_job sim_rows list_bull ''s-1'' 9 ([demo_sim_row\<lparr>job_status := Failed\<rparr>], empty_queue)))) \<and>
   settled sim_rows ''s-1'' (fst (snd (retry_sim_job sim_rows list_bull ''s-1'' 9
     ([demo_sim_row\<lparr>job_status := Failed\<rparr>], empty_queue\<lparr>lq_down := True\<rparr>))))"
proof -
  let ?d = "[demo_sim_row\<lparr>job_status := Failed\<rparr>]"
  have s: "settled sim_rows ''s-1'' ?d" by (simp add: settled_def terminal_def)
  obtain x d' q' where r: "retry_sim_job sim_rows list_bull ''s-1'' 9 (?d, empty_queue) = (x, d', q')" by (rule prod_cases3)
  obtain y e' p' where f: "retry_sim_job sim_rows list_bull ''s-1'' 9 (?d, empty_queue\<lparr>lq_down := True\<rparr>) = (y, e', p')"
    by (rule prod_cases3)
  have "job_status (hd d') = Queued" "d' = [hd d']" "sj_id (hd d') = ''s-1''" "y \<noteq> Inr Queued"
    using r f by (auto simp: retry_sim_job_def find_first_def remove_sim_job_def lq_operations lq_remove_def empty_queue_def enqueue_sim_def
        lq_add_def requeued_def lq_ids_def Let_def)
  then have "\<not> settled sim_rows ''s-1'' d'" by (metis settled_def sim_rows_simps(1) list.set_intros(1) terminal_def)
  then have h: "''s-1'' \<in> held list_bull q'" "settled sim_rows ''s-1'' e'"
    using retry_leaves_no_orphan [OF sim_lists.sim_store_axioms list_bull.bull_queue_axioms s r]
      retry_leaves_no_orphan [OF sim_lists.sim_store_axioms list_bull.bull_queue_axioms s f] \<open>y \<noteq> Inr Queued\<close> by blast+
  moreover have "held list_bull empty_queue = {}" by (simp add: lq_held lq_ids_def empty_queue_def)
  ultimately show ?thesis using r f by auto
qed

theorem original_points_reported_witness:
  "decimated (Some 100) (downsample_result demo_waveform 100) = demo_waveform"
proof -
  have "bounded (demo_sim_tools demo_run) demo_run = Some (downsample_result demo_waveform 100)" "rr_result demo_run = Some demo_waveform"
    "sr_downsampledFrom demo_waveform = None"
    by (simp_all add: bounded_def demo_sim_tools_def demo_run_def demo_waveform_def)
  from original_points_reported [OF this(3,1,2), of "Some 100"]
  show ?thesis by (auto simp: demo_waveform_def decimated_def downsample_result_def Let_def)
qed

end
