(* ===== verification/Assertions.thy ===== *)
theory Assertions
  imports Mixed_Signal
begin

text \<open>
  \<open>packages/eda-core/src/analysis/assertions.ts\<close>: the one place a measurable specification is checked against a
  simulation. A criterion names a net; the simulator reports the node the deck gave the net. Both sides are
  turned into a key, the criterion through the resolver of \<open>buildProbeResolver\<close> and the measurement without one,
  and the value found under the key is compared.

  A number that may be no finite number is a \<open>rat option\<close>. The rounding of a value to four digits, for display, is
  the argument \<open>shown\<close>; the texts of the messages are constructors.
\<close>

section \<open>Kinds of probes\<close>

definition line_end :: "char \<Rightarrow> bool" where
  "line_end c \<longleftrightarrow> code c = 10 \<or> code c = 13"

text \<open>
  The argument of a call, \<open>/^v\s*\(\s*(.+?)\s*\)$/i\<close> and the like: the text between the first bracket and the one the
  text ends with, without the blanks around it; of a blank argument, its last character.
\<close>

definition call_body :: "char \<Rightarrow> string \<Rightarrow> string option" where
  "call_body l t =
     (case t of [] \<Rightarrow> None
      | c # r \<Rightarrow>
          if lower_char c \<noteq> l then None
          else (case dropWhile js_space r of [] \<Rightarrow> None
                | b # body \<Rightarrow> if b = CHR ''('' \<and> body \<noteq> [] \<and> last body = CHR '')'' then Some (butlast body) else None))"

definition argument :: "string \<Rightarrow> string" where
  "argument body = (let s = dropWhile js_space body in
     if s \<noteq> [] then trim_end s else if body \<noteq> [] then [last body] else [])"

definition voltage_argument :: "string \<Rightarrow> string option" where
  "voltage_argument t =
     (case call_body (CHR ''v'') t of
        None \<Rightarrow> None
      | Some body \<Rightarrow> (let x = argument body in if x = [] \<or> list_ex line_end x then None else Some x))"

definition after_blanks :: "(char \<Rightarrow> bool) \<Rightarrow> string \<Rightarrow> string option" where
  "after_blanks P s = (case dropWhile js_space s of [] \<Rightarrow> None | c # r \<Rightarrow> if P c then Some r else None)"

definition is_current_probe :: "string \<Rightarrow> bool" where
  "is_current_probe p \<longleftrightarrow>
     (case after_blanks (\<lambda>c. lower_char c = CHR ''i'') p of None \<Rightarrow> False
      | Some r \<Rightarrow> after_blanks (\<lambda>c. c = CHR ''('') r \<noteq> None) \<or>
     (case after_blanks (\<lambda>c. c = CHR '']'') (rev p) of None \<Rightarrow> False
      | Some r \<Rightarrow> (case after_blanks (\<lambda>c. lower_char c = CHR ''i'') r of None \<Rightarrow> False
          | Some r' \<Rightarrow> after_blanks (\<lambda>c. c = CHR ''['') r' \<noteq> None))"

definition current_argument :: "string \<Rightarrow> string option" where
  "current_argument t =
     (case call_body (CHR ''i'') t of
        None \<Rightarrow> None
      | Some body \<Rightarrow> if CHR '')'' \<in> set body \<or> argument body = [] then None else Some (argument body))"

text \<open>\<open>/^@\s*([^[\s]+?)\s*\[\s*i\s*\]$/i\<close>.\<close>

definition device_current :: "string \<Rightarrow> string option" where
  "device_current t =
     (case t of [] \<Rightarrow> None
      | a # r \<Rightarrow>
          if a \<noteq> CHR ''@'' then None
          else (let s = dropWhile js_space r; x = takeWhile (\<lambda>c. c \<noteq> CHR ''['' \<and> \<not> js_space c) s in
            (case after_blanks (\<lambda>c. c = CHR ''['') (drop (length x) s) of None \<Rightarrow> None
             | Some r1 \<Rightarrow> (case after_blanks (\<lambda>c. lower_char c = CHR ''i'') r1 of None \<Rightarrow> None
               | Some r2 \<Rightarrow> if x \<noteq> [] \<and> dropWhile js_space r2 = '']'' then Some x else None))))"

definition current_key :: "string \<Rightarrow> string option" where
  "current_key p =
     (case current_argument (js_trim p) of
        Some x \<Rightarrow> Some (js_lower x)
      | None \<Rightarrow> map_option js_lower (device_current (js_trim p)))"

definition is_observable_current_probe :: "string \<Rightarrow> bool" where
  "is_observable_current_probe p \<longleftrightarrow>
     (case current_key p of Some (c # _) \<Rightarrow> lower_char c \<in> set ''rcvleh'' | _ \<Rightarrow> False)"

definition is_differential_probe :: "string \<Rightarrow> bool" where
  "is_differential_probe p \<longleftrightarrow>
     (case voltage_argument (normalize_probe (js_trim p)) of None \<Rightarrow> False | Some inner \<Rightarrow> CHR '','' \<in> set inner)"

section \<open>Keys\<close>

record resolver =
  netRefToNode :: "string \<rightharpoonup> string"
  groundRefs :: "string list"

text \<open>\<open>buildProbeResolver\<close> of \<open>probe-map.ts\<close>, and the three shapes \<open>evaluateAssertions\<close> accepts.\<close>

definition build_probe_resolver :: "(rat \<Rightarrow> string) \<Rightarrow> component list \<Rightarrow> net list \<Rightarrow> rat option \<Rightarrow> resolver" where
  "build_probe_resolver nt cs ns ov =
     (let nodes = build_node_map ns; plan = plan_mixed_signal nt cs nodes [] ov
      in \<lparr>netRefToNode = build_net_ref_to_node ns nodes (map_of (probeNodeForNet plan)), groundRefs = ground_refs ns\<rparr>)"

datatype reference = Of_circuit "component list" "net list" | Of_resolver resolver | Of_nets "net list"

definition to_resolver :: "(rat \<Rightarrow> string) \<Rightarrow> reference option \<Rightarrow> resolver option" where
  "to_resolver nt from =
     (case from of
        None \<Rightarrow> None
      | Some (Of_nets ns) \<Rightarrow> if ns = [] then None else Some (build_probe_resolver nt [] ns None)
      | Some (Of_resolver r) \<Rightarrow> Some r
      | Some (Of_circuit cs ns) \<Rightarrow> Some (build_probe_resolver nt cs ns None))"

definition node_key :: "(string \<rightharpoonup> string) \<Rightarrow> string \<Rightarrow> string" where
  "node_key m p =
     (let t = js_trim (rewrite_probe_node_refs (normalize_probe (js_trim p)) m False) in
      if t = [] then []
      else (let inner = (case voltage_argument t of Some x \<Rightarrow> x | None \<Rightarrow> t)
            in join_with '','' (map (\<lambda>x. js_lower (sanitize_node_name (js_trim x))) (split_on (CHR '','') inner))))"

datatype match_key = Current_key string | Ground_key | Sign_ambiguous_key | Voltage_key string

definition names_ground_only :: "string list \<Rightarrow> string \<Rightarrow> bool" where
  "names_ground_only grounds p \<longleftrightarrow>
     (case voltage_argument (normalize_probe (js_trim p)) of
        None \<Rightarrow> False
      | Some inner \<Rightarrow> (let parts = map (\<lambda>x. js_lower (js_trim x)) (split_on (CHR '','') inner)
          in length parts = 1 \<and> hd parts \<in> set grounds))"

definition match_key :: "resolver option \<Rightarrow> string \<Rightarrow> match_key" where
  "match_key res p =
     (if is_current_probe p then Current_key (case current_key p of Some k \<Rightarrow> k | None \<Rightarrow> js_lower (js_trim p))
      else if (case res of None \<Rightarrow> False | Some r \<Rightarrow> names_ground_only (groundRefs r) p) then Ground_key
      else (let k = node_key (case res of None \<Rightarrow> Map.empty | Some r \<Rightarrow> netRefToNode r) p
            in if k = [] then Sign_ambiguous_key else Voltage_key k))"

section \<open>Criteria and measurements\<close>

datatype metric = MMin | MMax | MFinal | MPp | MAvg | MRms | MCutoff | MThd | MGain

datatype comparison = Lt | Lte | Gt | Gte | Approx

record criterion =
  cr_probe :: string
  cr_metric :: metric
  cr_op :: comparison
  cr_value :: rat
  cr_tol :: "rat option"
  cr_label :: "string option"

record readings =
  rd_min :: "rat option"
  rd_max :: "rat option"
  rd_final :: "rat option"
  rd_pp :: "rat option"
  rd_avg :: "rat option"
  rd_rms :: "rat option"

record measurement =
  ms_node :: string
  ms_rounded :: readings
  ms_raw :: "readings option"
  ms_cutoff :: "rat option"
  ms_thd :: "rat option"
  ms_gain :: "rat option"

datatype verdict_detail =
    Ground_undefined
  | Ground_derived
  | Operands_swapped
  | Probe_not_found
  | No_results
  | Not_determinable metric
  | Not_measurable
  | Measured

record assertion_result =
  ar_criterion :: criterion
  ar_actual :: "rat option"
  ar_pass :: bool
  ar_distance :: "rat option"
  ar_detail :: verdict_detail

definition compare_assertion :: "rat \<Rightarrow> comparison \<Rightarrow> rat \<Rightarrow> rat option \<Rightarrow> bool" where
  "compare_assertion actual op target tol =
     (case op of
        Lt \<Rightarrow> actual < target
      | Lte \<Rightarrow> actual \<le> target
      | Gt \<Rightarrow> target < actual
      | Gte \<Rightarrow> target \<le> actual
      | Approx \<Rightarrow> \<bar>actual - target\<bar> \<le> (case tol of Some t \<Rightarrow> t | None \<Rightarrow> max (\<bar>target\<bar> * 5 / 100) (1 / 10 ^ 9)))"

text \<open>The value of a metric: the metrics of their own analysis as they were folded on, a current by its magnitude.\<close>

definition reading :: "metric \<Rightarrow> readings \<Rightarrow> rat option" where
  "reading k v = (case k of MMin \<Rightarrow> rd_min v | MMax \<Rightarrow> rd_max v | MFinal \<Rightarrow> rd_final v | MPp \<Rightarrow> rd_pp v | MAvg \<Rightarrow> rd_avg v
     | MRms \<Rightarrow> rd_rms v | _ \<Rightarrow> None)"

definition magnitude_reading :: "metric \<Rightarrow> readings \<Rightarrow> rat option" where
  "magnitude_reading k v =
     (if k = MMax \<or> k = MMin
      then (case (rd_min v, rd_max v) of (Some a, Some b) \<Rightarrow> Some (max \<bar>a\<bar> \<bar>b\<bar>) | _ \<Rightarrow> None)
      else map_option abs (reading k v))"

definition measured_value :: "criterion \<Rightarrow> measurement \<Rightarrow> rat option" where
  "measured_value a m =
     (case cr_metric a of
        MCutoff \<Rightarrow> ms_cutoff m
      | MThd \<Rightarrow> ms_thd m
      | MGain \<Rightarrow> ms_gain m
      | k \<Rightarrow> (let src = (case ms_raw m of Some v \<Rightarrow> v | None \<Rightarrow> ms_rounded m)
          in if is_current_probe (cr_probe a) then magnitude_reading k src else reading k src))"

definition derived_metric :: "metric \<Rightarrow> bool" where
  "derived_metric k \<longleftrightarrow> k \<in> {MCutoff, MThd, MGain}"

definition unmet :: "criterion \<Rightarrow> verdict_detail \<Rightarrow> assertion_result" where
  "unmet a why = \<lparr>ar_criterion = a, ar_actual = None, ar_pass = False, ar_distance = None, ar_detail = why\<rparr>"

text \<open>The \<open>Map\<close> of the measurements: of two with one key, the later one.\<close>

definition under_key :: "measurement list \<Rightarrow> match_key \<Rightarrow> measurement option" where
  "under_key ms k = find (\<lambda>m. match_key None (ms_node m) = k) (rev ms)"

definition evaluate_one :: "(rat \<Rightarrow> rat) \<Rightarrow> measurement list \<Rightarrow> bool \<Rightarrow> resolver option \<Rightarrow> criterion \<Rightarrow> assertion_result" where
  "evaluate_one shown ms ok res a =
     (let k = match_key res (cr_probe a) in
      if ok \<and> ms \<noteq> [] \<and> res \<noteq> None \<and> k = Ground_key
      then (if derived_metric (cr_metric a) then unmet a Ground_undefined
            else \<lparr>ar_criterion = a, ar_actual = Some 0, ar_pass = compare_assertion 0 (cr_op a) (cr_value a) (cr_tol a),
                  ar_distance = Some (0 - cr_value a), ar_detail = Ground_derived\<rparr>)
      else if ok \<and> res \<noteq> None \<and> k = Sign_ambiguous_key then unmet a Operands_swapped
      else (case (if ok then under_key ms k else None) of
              None \<Rightarrow> unmet a (if ok then Probe_not_found else No_results)
            | Some m \<Rightarrow> (case measured_value a m of
                  None \<Rightarrow> unmet a (if derived_metric (cr_metric a) then Not_determinable (cr_metric a) else Not_measurable)
                | Some v \<Rightarrow>
                    (let actual = (if cr_metric a = MCutoff then v else shown v)
                     in \<lparr>ar_criterion = a, ar_actual = Some actual, ar_pass = compare_assertion v (cr_op a) (cr_value a) (cr_tol a),
                         ar_distance = Some (actual - cr_value a), ar_detail = Measured\<rparr>))))"

definition evaluate_assertions ::
  "(rat \<Rightarrow> string) \<Rightarrow> (rat \<Rightarrow> rat) \<Rightarrow> measurement list \<Rightarrow> criterion list \<Rightarrow> bool \<Rightarrow> reference option \<Rightarrow> assertion_result list" where
  "evaluate_assertions nt shown ms cs ok from = map (evaluate_one shown ms ok (to_resolver nt from)) cs"

text \<open>The results of a \<open>fourier\<close> and a \<open>tf\<close> request, folded onto the measurements.\<close>

definition attach_fourier_thd :: "(string \<times> rat option) list \<Rightarrow> measurement list \<Rightarrow> measurement list" where
  "attach_fourier_thd fs =
     map (\<lambda>m. case find (\<lambda>f. node_key Map.empty (fst f) = node_key Map.empty (ms_node m)) fs of
        Some (_, Some t) \<Rightarrow> m\<lparr>ms_thd := Some t\<rparr> | _ \<Rightarrow> m)"

fun attach_gain :: "string \<Rightarrow> rat \<Rightarrow> measurement list \<Rightarrow> measurement list" where
  "attach_gain out g [] = []"
| "attach_gain out g (m # ms) =
     (if node_key Map.empty (ms_node m) = node_key Map.empty out then m\<lparr>ms_gain := Some g\<rparr> # ms else m # attach_gain out g ms)"

definition attach_transfer_function :: "(string \<times> rat option) option \<Rightarrow> measurement list \<Rightarrow> measurement list" where
  "attach_transfer_function tf ms = (case tf of Some (out, Some g) \<Rightarrow> attach_gain out g ms | _ \<Rightarrow> ms)"

definition extra_probes_for_criteria :: "criterion list \<Rightarrow> string list" where
  "extra_probes_for_criteria cs =
     map cr_probe (filter (\<lambda>c. is_current_probe (cr_probe c) \<or> is_differential_probe (cr_probe c)) cs)"

section \<open>Coverage\<close>

datatype dimension = Voltage | Current | Frequency | Distortion

definition criterion_dimension :: "criterion \<Rightarrow> dimension" where
  "criterion_dimension c =
     (if cr_metric c = MCutoff then Frequency else if cr_metric c = MThd then Distortion
      else if is_current_probe (cr_probe c) then Current else Voltage)"

text \<open>\<open>required\<close> is what the detectors of \<open>requiredDimensions\<close>, regular expressions, found in the prompt.\<close>

definition uncovered_required_dimensions :: "dimension set \<Rightarrow> criterion list \<Rightarrow> dimension list" where
  "uncovered_required_dimensions required cs =
     filter (\<lambda>d. d \<in> required \<and> d \<notin> criterion_dimension ` set cs) [Current, Frequency, Distortion]"

section \<open>A verdict rests on a measurement\<close>

text \<open>
  A criterion passes only on evidence: the run produced measurements, and either the probe is the reference,
  which is zero, or the value found under its key is a number that satisfies the comparison.
\<close>

theorem pass_rests_on_evidence:
  assumes "r \<in> set (evaluate_assertions nt shown ms cs ok from)" "ar_pass r"
  shows "ok \<and> ms \<noteq> [] \<and> ar_criterion r \<in> set cs \<and>
    (match_key (to_resolver nt from) (cr_probe (ar_criterion r)) = Ground_key \<and> \<not> derived_metric (cr_metric (ar_criterion r)) \<and>
       compare_assertion 0 (cr_op (ar_criterion r)) (cr_value (ar_criterion r)) (cr_tol (ar_criterion r)) \<or>
     (\<exists>m \<in> set ms. \<exists>v. match_key None (ms_node m) = match_key (to_resolver nt from) (cr_probe (ar_criterion r)) \<and>
       measured_value (ar_criterion r) m = Some v \<and>
       compare_assertion v (cr_op (ar_criterion r)) (cr_value (ar_criterion r)) (cr_tol (ar_criterion r))))"
proof -
  obtain a where a: "a \<in> set cs" "r = evaluate_one shown ms ok (to_resolver nt from) a"
    using assms(1) by (auto simp: evaluate_assertions_def)
  let ?res = "to_resolver nt from" and ?k = "match_key (to_resolver nt from) (cr_probe a)"
  have c: "ar_criterion r = a"
    by (simp add: a(2) evaluate_one_def unmet_def Let_def split: option.split)
  show ?thesis
  proof (cases "ok \<and> ms \<noteq> [] \<and> ?res \<noteq> None \<and> ?k = Ground_key")
    case True
    then show ?thesis using assms(2) a c by (simp add: evaluate_one_def unmet_def Let_def split: if_splits)
  next
    case False
    then obtain m v where m: "ok" "under_key ms ?k = Some m" "measured_value a m = Some v"
      "compare_assertion v (cr_op a) (cr_value a) (cr_tol a)"
      using assms(2) unfolding a(2) evaluate_one_def Let_def
      by (auto simp: unmet_def split: if_splits option.splits)
    have "m \<in> set ms" "match_key None (ms_node m) = ?k"
      using find_SomeD [OF m(2) [unfolded under_key_def]] by simp_all
    then show ?thesis using m a(1) unfolding c by auto
  qed
qed

section \<open>Which column a criterion reads\<close>

lemma legal_chars: "legal_node x \<Longrightarrow> c \<in> set x \<Longrightarrow> is_word c"
  by (simp add: legal_node_def list_all_iff)

lemma word_plain: "is_word c \<Longrightarrow> \<not> js_space c \<and> \<not> line_end c \<and> c \<notin> {CHR ''('', CHR '')'', CHR ''@'', CHR '','', CHR '']'', CHR ''[''}"
  by (auto simp: is_word_def is_letter_def is_upper_def is_lower_def is_digit_def js_space_def line_end_def code_def)

lemma legal_plain:
  assumes "legal_node x"
  shows "plain x" "\<not> list_ex line_end x" "CHR '','' \<notin> set x"
proof -
  have x: "x \<noteq> []" using assms by (simp add: legal_node_def)
  have w: "\<not> js_space c \<and> \<not> line_end c \<and> c \<notin> {CHR ''('', CHR '')'', CHR ''@'', CHR '','', CHR '']'', CHR ''[''}" if "c \<in> set x" for c
    using word_plain [OF legal_chars [OF assms that]] .
  show "plain x" unfolding plain_def using x w hd_in_set [OF x] last_in_set [OF x] by blast
  show "\<not> list_ex line_end x" using w by (auto simp: list_ex_iff)
  show "CHR '','' \<notin> set x" using w by blast
qed

lemma voltage_argument_probe:
  assumes "plain x" "\<not> list_ex line_end x"
  shows "voltage_argument (probe_of x) = Some x"
proof -
  have [simp]: "\<not> js_space (CHR ''('')" "lower_char (CHR ''v'') = CHR ''v''"
    by (simp_all add: js_space_def lower_char_def is_upper_def code_def)
  have "call_body (CHR ''v'') (probe_of x) = Some x"
    by (simp add: call_body_def probe_of_def)
  moreover have "argument x = x" using assms(1) by (simp add: argument_def plain_def dropWhile_id trim_end_id)
  ultimately show ?thesis using assms by (simp add: voltage_argument_def plain_def)
qed

lemma trim_probe: "js_trim (probe_of x) = probe_of x"
  by (rule trimmed_id) (simp_all add: probe_of_def js_space_def code_def)

lemma probe_not_current: "\<not> is_current_probe (probe_of x)"
  by (simp add: is_current_probe_def after_blanks_def probe_of_def js_space_def lower_char_def is_upper_def code_def)

lemma sanitize_again:
  assumes "legal_node x"
  shows "sanitize_node_name x = (if js_lower x = ''none'' then ''x_'' @ x else x)"
proof -
  have w: "map (\<lambda>c. if is_word c then c else CHR ''_'') x = x"
    using legal_chars [OF assms] by (intro map_idI) simp
  obtain c t where x: "x = c # t" using assms by (cases x) (auto simp: legal_node_def)
  have p: "prefix ''n'' x \<or> prefix ''x_'' x" using assms by (simp add: legal_node_def)
  then have d: "\<not> is_digit c" by (auto simp: x is_digit_def code_def)
  have op: "js_lower x \<notin> set ngspice_operators" using assms by (simp add: legal_node_def)
  have r: "js_lower x \<in> set reserved_words \<longleftrightarrow> js_lower x = ''none''"
    using p by (auto simp: reserved_words_def prefix_def js_lower_def lower_char_def is_upper_def code_def)
  have "js_lower (''x_'' @ x) \<notin> set ngspice_operators" using operator_x by simp
  then show ?thesis
    unfolding sanitize_node_name_def w using x d op r p by (auto simp: Let_def)
qed

definition column_key :: "string \<Rightarrow> string" where
  "column_key x = js_lower (if js_lower x = ''none'' then ''x_'' @ x else x)"

lemma legal_not_zero: "legal_node x \<Longrightarrow> x \<noteq> ''0''"
  by (auto simp: legal_node_def prefix_def)

lemma node_key_column:
  assumes "legal_node x" "\<And>r. m r = None \<or> r \<noteq> js_lower x"
  shows "node_key m (probe_of x) = column_key x"
proof -
  note p = legal_plain [OF assms(1)]
  have none: "m (js_lower x) = None" using assms(2) [of "js_lower x"] by blast
  have "rewrite_probe_node_refs (probe_of x) m False = probe_of x"
    using p(1) by (simp add: rewrite_probe node_reference_def plain_trim none split_on_absent [OF p(3)] look_up_def
        legal_not_zero [OF assms(1)])
  moreover have "probe_of x \<noteq> []" by (simp add: probe_of_def)
  ultimately have "node_key m (probe_of x) = js_lower (sanitize_node_name x)"
    using p by (simp add: node_key_def Let_def trim_probe normalize_probe_of voltage_argument_probe split_on_absent plain_trim)
  then show ?thesis by (simp add: column_key_def sanitize_again [OF assms(1)])
qed

lemma column_match: "legal_node x \<Longrightarrow> match_key None (probe_of x) = Voltage_key (column_key x)"
proof -
  assume l: "legal_node x"
  then have "x \<noteq> []" by (simp add: legal_node_def)
  then have "column_key x \<noteq> []" by (simp add: column_key_def js_lower_def)
  then show ?thesis using node_key_column [OF l, of Map.empty] by (simp add: match_key_def probe_not_current)
qed

lemma columns_apart_keys:
  assumes "js_lower x \<noteq> js_lower y" "column_key x = column_key y"
  shows "{js_lower x, js_lower y} = {''none'', ''x_none''}"
proof -
  have "js_lower (''x_'' @ z) = ''x_'' @ js_lower z" for z
    by (simp add: js_lower_def lower_char_def is_upper_def code_def)
  then show ?thesis using assms by (auto simp: column_key_def split: if_splits)
qed

section \<open>A criterion on a net\<close>

definition net_resolver :: "(rat \<Rightarrow> string) \<Rightarrow> component list \<Rightarrow> net list \<Rightarrow> resolver" where
  "net_resolver nt cs ns = build_probe_resolver nt cs ns None"

definition analog_twins :: "(rat \<Rightarrow> string) \<Rightarrow> component list \<Rightarrow> net list \<Rightarrow> (string \<rightharpoonup> string)" where
  "analog_twins nt cs ns = map_of (probeNodeForNet (plan_mixed_signal nt cs (build_node_map ns) [] None))"

lemma net_resolver_simps:
  "netRefToNode (net_resolver nt cs ns) = refs ns (analog_twins nt cs ns)"
  "groundRefs (net_resolver nt cs ns) = ground_refs ns"
  by (simp_all add: net_resolver_def build_probe_resolver_def refs_def analog_twins_def Let_def)

definition reads_as :: "string \<Rightarrow> string \<Rightarrow> bool" where
  "reads_as r p \<longleftrightarrow> plain_operand r \<and> \<not> list_ex line_end r \<and> \<not> is_current_probe r \<and> p \<in> {r, probe_of r}"

lemma reads_as_facts:
  assumes "reads_as r p"
  shows "normalize_probe (js_trim p) = probe_of r" "\<not> is_current_probe p" "voltage_argument (probe_of r) = Some r"
    "CHR '','' \<notin> set r" "js_trim r = r"
  using assms by (auto simp: reads_as_def plain_operand_def plain_trim trim_probe normalize_bare normalize_probe_of
      probe_not_current voltage_argument_probe)

lemma criterion_reads_its_net:
  assumes n: "n \<in> set ns" "unshadowed ns (analog_twins nt cs ns) n" "js_lower r = js_lower (net_id n)"
    and r: "reads_as r p" "js_lower r \<notin> set (ground_refs ns)"
    and x: "observed (analog_twins nt cs ns) n = x" "legal_node x"
  shows "match_key (Some (net_resolver nt cs ns)) p = Voltage_key (column_key x)"
proof -
  note f = reads_as_facts [OF r(1)] and l = legal_plain [OF x(2)]
  have "plain r" using r(1) by (simp add: reads_as_def plain_operand_def)
  then have "rewrite_probe_node_refs (probe_of r) (refs ns (analog_twins nt cs ns)) False = probe_of x"
    using rewrite_known [of r "refs ns (analog_twins nt cs ns)" x False] refs_own [OF n(1,2)] n(3) x(1)
      legal_not_zero [OF x(2)] by simp
  moreover have "probe_of x \<noteq> []" by (simp add: probe_of_def)
  ultimately have "node_key (refs ns (analog_twins nt cs ns)) p = js_lower (sanitize_node_name x)"
    using l by (simp add: node_key_def Let_def f(1) trim_probe voltage_argument_probe split_on_absent plain_trim)
  then have k: "node_key (refs ns (analog_twins nt cs ns)) p = column_key x"
    by (simp add: column_key_def sanitize_again [OF x(2)])
  have "x \<noteq> []" using x(2) by (simp add: legal_node_def)
  then have "column_key x \<noteq> []" by (simp add: column_key_def js_lower_def)
  moreover have "\<not> names_ground_only (groundRefs (net_resolver nt cs ns)) p"
    using r(2) by (simp add: names_ground_only_def f split_on_absent net_resolver_simps Let_def)
  ultimately show ?thesis by (simp add: match_key_def f(2) k net_resolver_simps)
qed

definition columns_ok :: "string list \<Rightarrow> bool" where
  "columns_ok xs \<longleftrightarrow> list_all legal_node xs \<and> distinct (map js_lower xs) \<and> \<not> {''none'', ''x_none''} \<subseteq> js_lower ` set xs"

lemma column_key_inj:
  assumes "columns_ok xs" "x \<in> set xs" "y \<in> set xs" "column_key x = column_key y"
  shows "x = y"
proof (rule ccontr)
  assume "x \<noteq> y"
  then have "js_lower x \<noteq> js_lower y"
    using assms(1-3) by (metis columns_ok_def distinct_map inj_on_eq_iff)
  moreover have "legal_node x" "legal_node y" using assms(1-3) by (simp_all add: columns_ok_def list_all_iff)
  ultimately have "{js_lower x, js_lower y} = {''none'', ''x_none''}"
    using columns_apart_keys assms(4) by blast
  then show False using assms(1-3) by (auto simp: columns_ok_def)
qed

lemma under_own_key:
  assumes "columns_ok xs" "map ms_node ms = map probe_of xs" "m \<in> set ms" "ms_node m = probe_of x" "legal_node x"
  shows "under_key ms (Voltage_key (column_key x)) = Some m"
proof -
  have inj: "probe_of a = probe_of b \<longleftrightarrow> a = b" for a b by (simp add: probe_of_def)
  have col: "\<exists>y \<in> set xs. ms_node k = probe_of y" if "k \<in> set ms" for k
    using that assms(2) by (metis image_iff list.set_map)
  have "distinct xs" using assms(1) by (simp add: columns_ok_def distinct_map)
  then have d: "distinct (map ms_node ms)" by (simp add: assms(2) distinct_map inj_on_def inj)
  have key: "match_key None (ms_node k) = Voltage_key (column_key x) \<longleftrightarrow> k = m" if k: "k \<in> set ms" for k
  proof -
    obtain y where y: "y \<in> set xs" "ms_node k = probe_of y" using col [OF k] by blast
    obtain z where z: "z \<in> set xs" "ms_node m = probe_of z" using col [OF assms(3)] by blast
    have zx: "z = x" using z(2) assms(4) inj by simp
    have "legal_node y" using assms(1) y(1) by (simp add: columns_ok_def list_all_iff)
    then have "match_key None (ms_node k) = Voltage_key (column_key y)" using y(2) by (simp add: column_match)
    then have "match_key None (ms_node k) = Voltage_key (column_key x) \<longleftrightarrow> ms_node k = ms_node m"
      using column_key_inj [OF assms(1) y(1)] z(1) zx y(2) z(2) by (auto simp: inj)
    then show ?thesis using d k assms(3) by (metis distinct_map inj_on_eq_iff)
  qed
  have "find (\<lambda>k. match_key None (ms_node k) = Voltage_key (column_key x)) (rev ms) \<noteq> None"
    using key [OF assms(3)] assms(3) by (auto simp: find_None_iff)
  then obtain k where k: "find (\<lambda>k. match_key None (ms_node k) = Voltage_key (column_key x)) (rev ms) = Some k" by blast
  then have "k \<in> set ms" "match_key None (ms_node k) = Voltage_key (column_key x)"
    using find_SomeD [OF k] by simp_all
  then show ?thesis using key k by (simp add: under_key_def)
qed

text \<open>
  \<^bold>\<open>C31.\<close> The verdict on a net is the comparison of the value measured on its own column. A criterion names a net
  that nothing shadows, bare or as a voltage, and the run reports that net's node among columns that stay apart:
  then the criterion passes exactly when the value of that column is a number that satisfies it.
\<close>

theorem verdict_on_own_column:
  assumes "n \<in> set ns" "unshadowed ns (analog_twins nt cs ns) n" "js_lower r = js_lower (net_id n)"
    and "reads_as r (cr_probe a)" "js_lower r \<notin> set (ground_refs ns)"
    and "legal_node (observed (analog_twins nt cs ns) n)"
    and "columns_ok xs" "map ms_node ms = map probe_of xs"
    and "m \<in> set ms" "ms_node m = probe_of (observed (analog_twins nt cs ns) n)"
  shows "ar_pass (evaluate_one shown ms True (to_resolver nt (Some (Of_circuit cs ns))) a) =
    (case measured_value a m of None \<Rightarrow> False
     | Some v \<Rightarrow> compare_assertion v (cr_op a) (cr_value a) (cr_tol a))"
proof -
  let ?x = "observed (analog_twins nt cs ns) n"
  have k: "match_key (Some (net_resolver nt cs ns)) (cr_probe a) = Voltage_key (column_key ?x)"
    by (rule criterion_reads_its_net [OF assms(1-5) refl assms(6)])
  have u: "under_key ms (Voltage_key (column_key ?x)) = Some m"
    by (rule under_own_key [OF assms(7-10,6)])
  have "to_resolver nt (Some (Of_circuit cs ns)) = Some (net_resolver nt cs ns)"
    by (simp add: to_resolver_def net_resolver_def)
  then show ?thesis by (simp add: evaluate_one_def k u unmet_def Let_def split: option.split)
qed

section \<open>A sample\<close>

definition divider_nets :: "net list" where
  "divider_nets = [sample_net ''in'' ''IN'', sample_net ''mid'' ''MID'', sample_net ''0v'' ''GND'']"

definition divider_parts :: "component list" where
  "divider_parts =
     [sample_part ''R1'' Resistor (Some ''1k'') [(''1'', ''in''), (''2'', ''mid'')],
      sample_part ''R2'' Resistor (Some ''1k'') [(''1'', ''mid''), (''2'', ''0v'')]]"

definition steady :: "string \<Rightarrow> rat \<Rightarrow> measurement" where
  "steady x v =
     \<lparr>ms_node = probe_of x,
      ms_rounded = \<lparr>rd_min = Some v, rd_max = Some v, rd_final = Some v, rd_pp = Some 0, rd_avg = Some v, rd_rms = Some v\<rparr>,
      ms_raw = None, ms_cutoff = None, ms_thd = None, ms_gain = None\<rparr>"

definition at_least :: "string \<Rightarrow> rat \<Rightarrow> criterion" where
  "at_least p v = \<lparr>cr_probe = p, cr_metric = MMin, cr_op = Gte, cr_value = v, cr_tol = None, cr_label = None\<rparr>"

lemma divider_twins: "analog_twins nt divider_parts divider_nets = Map.empty"
proof -
  have "\<not> list_ex (\<lambda>c. is_digital (comp_type c)) divider_parts" by code_simp
  then show ?thesis by (simp add: analog_twins_def plan_mixed_signal_def empty_plan_def)
qed

lemma steady_value:
  "ms_node (steady x v) = probe_of x" "\<not> is_current_probe p \<Longrightarrow> measured_value (at_least p w) (steady x v) = Some v"
  "cr_probe (at_least p w) = p" "cr_op (at_least p w) = Gte" "cr_value (at_least p w) = w"
  by (simp_all add: steady_def at_least_def measured_value_def reading_def)

theorem pass_rests_on_evidence_witness:
  "(let r = evaluate_one id [steady ''nmid'' 3] True None (at_least (probe_of ''nmid'') 2) in
    ar_pass r \<and> measured_value (ar_criterion r) (steady ''nmid'' 3) = Some 3 \<and>
    compare_assertion 3 (cr_op (ar_criterion r)) (cr_value (ar_criterion r)) (cr_tol (ar_criterion r)))"
proof -
  let ?a = "at_least (probe_of ''nmid'') 2" and ?m = "steady ''nmid'' 3"
  define r where "r = evaluate_one id [?m] True None ?a"
  have "legal_node ''nmid''" by code_simp
  then have k: "match_key None (probe_of ''nmid'') = Voltage_key (column_key ''nmid'')" by (rule column_match)
  have r: "ar_pass r" "ar_criterion r = ?a"
    by (simp_all add: r_def evaluate_one_def k under_key_def steady_value probe_not_current compare_assertion_def Let_def)
  have "r \<in> set (evaluate_assertions (\<lambda>_. []) id [?m] [?a] True None)"
    by (simp add: evaluate_assertions_def to_resolver_def r_def)
  from pass_rests_on_evidence [OF this r(1)]
  have "compare_assertion 3 (cr_op ?a) (cr_value ?a) (cr_tol ?a)"
    by (simp add: r(2) to_resolver_def k steady_value probe_not_current)
  then show ?thesis unfolding r_def [symmetric] using r by (simp add: steady_value probe_not_current)
qed

theorem verdict_on_own_column_witness:
  "map (\<lambda>(p, v). ar_pass (evaluate_one id [steady ''x_in'' 5, steady ''nmid'' (5 / 2)] True
      (to_resolver (\<lambda>_. []) (Some (Of_circuit divider_parts divider_nets))) (at_least p v)))
    [(''MID'', 2), (probe_of ''Mid'', 3), (''in'', 5)] = [True, False, True]"
proof -
  have n: "unshadowed divider_nets Map.empty (divider_nets ! 0)" "unshadowed divider_nets Map.empty (divider_nets ! 1)"
    "observed Map.empty (divider_nets ! 0) = ''x_in''" "observed Map.empty (divider_nets ! 1) = ''nmid''"
    "divider_nets ! 0 \<in> set divider_nets" "divider_nets ! 1 \<in> set divider_nets"
    "legal_node ''x_in''" "legal_node ''nmid''" "columns_ok [''x_in'', ''nmid'']" by code_simp+
  have r: "list_all (\<lambda>(r, p). reads_as r p) [(''MID'', ''MID''), (''Mid'', probe_of ''Mid''), (''in'', ''in'')]"
    "list_all (\<lambda>r. js_lower r \<notin> set (ground_refs divider_nets)) [''MID'', ''Mid'', ''in'']"
    "map js_lower [''MID'', ''Mid'', ''in''] = [''mid'', ''mid'', ''in'']"
    "js_lower (net_id (divider_nets ! 0)) = ''in''" "js_lower (net_id (divider_nets ! 1)) = ''mid''"
    "list_all (\<lambda>p. \<not> is_current_probe p) [''MID'', probe_of ''Mid'', ''in'']" by code_simp+
  note v = verdict_on_own_column [where nt = "\<lambda>_. []" and cs = divider_parts and ns = divider_nets and xs = "[''x_in'', ''nmid'']"
      and ms = "[steady ''x_in'' 5, steady ''nmid'' (5 / 2)]" and shown = id]
  show ?thesis
    using v [where n = "divider_nets ! 1" and r = "''MID''" and a = "at_least ''MID'' 2" and m = "steady ''nmid'' (5 / 2)"]
      v [where n = "divider_nets ! 1" and r = "''Mid''" and a = "at_least (probe_of ''Mid'') 3" and m = "steady ''nmid'' (5 / 2)"]
      v [where n = "divider_nets ! 0" and r = "''in''" and a = "at_least ''in'' 5" and m = "steady ''x_in'' 5"]
      n r by (simp add: divider_twins steady_value compare_assertion_def)
qed

text \<open>The columns of the nets \<open>one\<close> and \<open>none\<close> have one key: a criterion on the one is judged by the other.\<close>

lemma one_and_none_confused:
  "(let ns = [sample_net ''one'' ''A'', sample_net ''none'' ''B''] in
    map (observed Map.empty) ns = [''none'', ''x_none''] \<and>
    under_key [steady ''none'' 1, steady ''x_none'' 7] (match_key (to_resolver (\<lambda>_. []) (Some (Of_nets ns))) ''one'') =
      Some (steady ''x_none'' 7))"
proof -
  let ?ns = "[sample_net ''one'' ''A'', sample_net ''none'' ''B'']"
  have t: "analog_twins (\<lambda>_. []) [] ?ns = Map.empty"
    by (simp add: analog_twins_def plan_mixed_signal_def empty_plan_def)
  have f: "map (observed Map.empty) ?ns = [''none'', ''x_none'']" "unshadowed ?ns Map.empty (?ns ! 0)"
    "js_lower ''one'' = js_lower (net_id (?ns ! 0))" "reads_as ''one'' ''one''" "js_lower ''one'' \<notin> set (ground_refs ?ns)"
    "legal_node ''none''" "legal_node ''x_none''" "column_key ''none'' = ''x_none''" "column_key ''x_none'' = ''x_none''"
    by code_simp+
  have "match_key (Some (net_resolver (\<lambda>_. []) [] ?ns)) ''one'' = Voltage_key (column_key ''none'')"
    by (rule criterion_reads_its_net [of "?ns ! 0" ?ns _ _ "''one''"]) (use f t in simp_all)
  then show ?thesis using f
    by (simp add: to_resolver_def net_resolver_def under_key_def steady_value column_match)
qed

end
