(* ===== verification/Monte_Carlo.thy ===== *)
theory Monte_Carlo
  imports Assertions "HOL-Library.Word"
begin

text \<open>
  \<open>packages/eda-core/src/montecarlo.ts\<close>: a circuit's values are drawn within their tolerances, every variant is
  simulated and judged against the acceptance criteria, and the passes are graded on the lower end of a 95%
  interval. \<open>utils/prng.ts\<close> is here too.

  Doubles are rationals; \<open>Math.sqrt\<close>, \<open>Math.log\<close>, \<open>Math.cos\<close> are the argument \<open>math\<close>, and
  \<open>parseComponentMagnitude\<close> with its \<open>rebuild\<close> is the argument \<open>magnitude\<close>. The words of the generator are 32 bits
  wide.
\<close>

unbundle bit_operations_syntax

record math =
  m_sqrt :: "rat \<Rightarrow> rat"
  m_log :: "rat \<Rightarrow> rat"
  m_cos :: "rat \<Rightarrow> rat"

section \<open>Draws\<close>

definition mulberry32 :: "32 word \<Rightarrow> rat \<times> 32 word" where
  "mulberry32 a0 =
     (let a = a0 + 0x6d2b79f5;
          t = (a XOR drop_bit 15 a) * (1 OR a);
          u = (t + (t XOR drop_bit 7 t) * (61 OR t)) XOR t
      in (of_nat (unat (u XOR drop_bit 14 u)) / 4294967296, a))"

definition gaussian :: "math \<Rightarrow> rat \<Rightarrow> rat \<Rightarrow> rat" where
  "gaussian f u1 u2 =
     m_sqrt f (- 2 * m_log f (max u1 (1 / 10 ^ 12))) * m_cos f (2 * (3141592653589793 / 10 ^ 15) * u2)"

datatype distribution = Gaussian | Uniform

definition perturb_value :: "math \<Rightarrow> distribution \<Rightarrow> rat \<Rightarrow> rat \<Rightarrow> 32 word \<Rightarrow> rat \<times> 32 word" where
  "perturb_value f law nominal tol s =
     (if \<not> 0 < tol then (nominal, s)
      else (case law of
              Uniform \<Rightarrow> (let (u, s1) = mulberry32 s in (nominal * (1 + tol * (2 * u - 1)), s1))
            | Gaussian \<Rightarrow>
                (let (u1, s1) = mulberry32 s; (u2, s2) = mulberry32 s1;
                     factor = max (1 - tol) (min (1 + tol) (1 + tol / 3 * gaussian f u1 u2))
                 in (nominal * factor, s2))))"

type_synonym magnitudes = "string \<Rightarrow> (rat \<times> (rat \<Rightarrow> string)) option"

definition perturb_part :: "math \<Rightarrow> magnitudes \<Rightarrow> distribution \<Rightarrow> component \<Rightarrow> 32 word \<Rightarrow> component \<times> 32 word" where
  "perturb_part f magnitude law c s =
     (case (tolerance c, comp_value c) of
        (Some tol, Some v) \<Rightarrow>
          if tol \<le> 0 \<or> v = [] then (c, s)
          else (case magnitude v of
                  None \<Rightarrow> (c, s)
                | Some (x, rebuild) \<Rightarrow>
                    (let (y, s1) = perturb_value f law x tol s in (c\<lparr>comp_value := Some (rebuild y)\<rparr>, s1)))
      | _ \<Rightarrow> (c, s))"

fun perturb_parts :: "math \<Rightarrow> magnitudes \<Rightarrow> distribution \<Rightarrow> component list \<Rightarrow> 32 word \<Rightarrow> component list \<times> 32 word" where
  "perturb_parts f magnitude law [] s = ([], s)"
| "perturb_parts f magnitude law (c # cs) s =
     (let (c1, s1) = perturb_part f magnitude law c s; (cs1, s2) = perturb_parts f magnitude law cs s1 in (c1 # cs1, s2))"

definition perturb_circuit :: "math \<Rightarrow> magnitudes \<Rightarrow> distribution \<Rightarrow> circuit \<Rightarrow> 32 word \<Rightarrow> circuit \<times> 32 word" where
  "perturb_circuit f magnitude law c s =
     (let (cs, s1) = perturb_parts f magnitude law (components c) s in (c\<lparr>components := cs\<rparr>, s1))"

fun variants_from :: "math \<Rightarrow> magnitudes \<Rightarrow> distribution \<Rightarrow> circuit \<Rightarrow> nat \<Rightarrow> 32 word \<Rightarrow> circuit list" where
  "variants_from f magnitude law c 0 s = []"
| "variants_from f magnitude law c (Suc n) s =
     (let (v, s1) = perturb_circuit f magnitude law c s in v # variants_from f magnitude law c n s1)"

definition monte_carlo_variants :: "math \<Rightarrow> magnitudes \<Rightarrow> circuit \<Rightarrow> nat \<Rightarrow> 32 word \<Rightarrow> distribution \<Rightarrow> circuit list" where
  "monte_carlo_variants f magnitude c n seed law = variants_from f magnitude law c n seed"

section \<open>The interval and the yield\<close>

definition z95 :: rat where
  "z95 = 1959963984540054 / 10 ^ 15"

definition absolute_max_runs :: nat where
  "absolute_max_runs = 50000"

definition errored_attempt_headroom :: nat where
  "errored_attempt_headroom = 3"

text \<open>An interval is the pair of its \<open>low\<close> and its \<open>high\<close> end.\<close>

definition wilson95 :: "math \<Rightarrow> nat \<Rightarrow> nat \<Rightarrow> rat \<times> rat" where
  "wilson95 f passed n =
     (if n = 0 then (0, 1)
      else (let z2 = z95 * z95; p = of_nat passed / of_nat n; denom = 1 + z2 / of_nat n;
                center = (p + z2 / (2 * of_nat n)) / denom;
                half = z95 * m_sqrt f (p * (1 - p) / of_nat n + z2 / (4 * of_nat n * of_nat n)) / denom
            in (max 0 (center - half), min 1 (center + half))))"

datatype variant_outcome = Pass | Fail | Errored

record yield_summary =
  ys_total :: nat
  ys_evaluated :: nat
  ys_passed :: nat
  ys_failed :: nat
  ys_errored :: nat
  ys_yield :: rat
  ys_ci95 :: "rat \<times> rat"

definition compute_yield :: "math \<Rightarrow> variant_outcome list \<Rightarrow> yield_summary" where
  "compute_yield f os =
     (let passed = count_list os Pass; failed = count_list os Fail; evaluated = passed + failed
      in \<lparr>ys_total = length os, ys_evaluated = evaluated, ys_passed = passed, ys_failed = failed,
          ys_errored = count_list os Errored,
          ys_yield = (if 0 < evaluated then of_nat passed / of_nat evaluated else 0), ys_ci95 = wilson95 f passed evaluated\<rparr>)"

record bars =
  robustMin :: rat
  marginalMin :: rat

definition tier_decided :: "rat \<times> rat \<Rightarrow> bars \<Rightarrow> bool" where
  "tier_decided ci b \<longleftrightarrow>
     robustMin b \<le> fst ci \<or> snd ci < marginalMin b \<or> (marginalMin b \<le> fst ci \<and> snd ci < robustMin b)"

definition required_runs_for_bar :: "rat \<Rightarrow> nat" where
  "required_runs_for_bar r =
     (if r \<le> 0 \<or> 1 \<le> r then absolute_max_runs else nat \<lceil>z95 * z95 * r / (1 - r)\<rceil>)"

section \<open>The batch\<close>

record mc_options =
  mc_n :: "int option"
  mc_seed :: "32 word option"
  mc_dist :: "distribution option"
  mc_half_width :: "rat option"
  mc_bars :: "bars option"
  mc_min_runs :: "int option"

definition mc_cap :: "mc_options \<Rightarrow> nat" where
  "mc_cap op = (case mc_bars op of Some b \<Rightarrow> max 2000 (required_runs_for_bar (robustMin b)) | None \<Rightarrow> 2000)"

definition mc_target :: "mc_options \<Rightarrow> nat" where
  "mc_target op =
     (let cap = mc_cap op;
          usual = (case mc_bars op of Some b \<Rightarrow> min (required_runs_for_bar (robustMin b)) cap | None \<Rightarrow> 300)
      in nat (max 1 (min (min (case mc_n op of Some n \<Rightarrow> n | None \<Rightarrow> int usual) (int cap)) (int absolute_max_runs))))"

definition mc_least :: "mc_options \<Rightarrow> nat" where
  "mc_least op = nat (max 1 (case mc_min_runs op of Some n \<Rightarrow> n | None \<Rightarrow> 24))"

definition mc_attempts :: "mc_options \<Rightarrow> nat" where
  "mc_attempts op =
     (if mc_bars op \<noteq> None then min absolute_max_runs (mc_target op * errored_attempt_headroom) else mc_target op)"

record batch =
  ba_outcomes :: "variant_outcome list"
  ba_passed :: nat
  ba_evaluated :: nat
  ba_ran :: nat
  ba_early :: bool
  ba_rng :: "32 word"

text \<open>The stop of an adaptive batch, asked after a usable sample.\<close>

definition mc_settled :: "math \<Rightarrow> mc_options \<Rightarrow> batch \<Rightarrow> bool" where
  "mc_settled f op s \<longleftrightarrow>
     mc_least op \<le> ba_evaluated s \<and>
     (let ci = wilson95 f (ba_passed s) (ba_evaluated s); w = (case mc_half_width op of Some w \<Rightarrow> w | None \<Rightarrow> 3 / 100)
      in case mc_bars op of Some b \<Rightarrow> tier_decided ci b | None \<Rightarrow> 0 < w \<and> (snd ci - fst ci) / 2 \<le> w)"

text \<open>
  One turn of the loop; \<open>None\<close> beside the state is a \<open>break\<close>. \<open>judge\<close> is the evaluation of the criteria,
  \<open>run\<close> the simulation of a variant, which throws or answers \<open>null\<close> with \<open>None\<close>.
\<close>

definition mc_turn ::
  "math \<Rightarrow> mc_options \<Rightarrow> (32 word \<Rightarrow> circuit \<times> 32 word) \<Rightarrow> (circuit \<Rightarrow> nat \<Rightarrow> measurement list option) \<Rightarrow>
   (measurement list \<Rightarrow> bool) \<Rightarrow> (nat \<Rightarrow> bool) \<Rightarrow> nat \<Rightarrow> batch \<Rightarrow> bool \<times> batch" where
  "mc_turn f op draw run judge stop attempt s =
     (if mc_bars op \<noteq> None \<and> mc_target op \<le> ba_evaluated s then (False, s)
      else if stop attempt then (False, s\<lparr>ba_early := True\<rparr>)
      else (let (v, rng) = draw (ba_rng s); s1 = s\<lparr>ba_ran := Suc (ba_ran s), ba_rng := rng\<rparr>
        in case run v attempt of
             None \<Rightarrow>
               (let s2 = s1\<lparr>ba_outcomes := ba_outcomes s @ [Errored]\<rparr>
                in if ba_evaluated s = 0 \<and> mc_least op \<le> length (ba_outcomes s2) then (False, s2\<lparr>ba_early := True\<rparr>)
                   else (True, s2))
           | Some ms \<Rightarrow>
               (let ok = judge ms;
                    s2 = s1\<lparr>ba_outcomes := ba_outcomes s @ [if ok then Pass else Fail], ba_evaluated := Suc (ba_evaluated s),
                             ba_passed := (if ok then Suc (ba_passed s) else ba_passed s)\<rparr>
                in if mc_settled f op s2 then (False, s2\<lparr>ba_early := True\<rparr>) else (True, s2))))"

fun mc_loop ::
  "math \<Rightarrow> mc_options \<Rightarrow> (32 word \<Rightarrow> circuit \<times> 32 word) \<Rightarrow> (circuit \<Rightarrow> nat \<Rightarrow> measurement list option) \<Rightarrow>
   (measurement list \<Rightarrow> bool) \<Rightarrow> (nat \<Rightarrow> bool) \<Rightarrow> nat \<Rightarrow> nat \<Rightarrow> batch \<Rightarrow> batch" where
  "mc_loop f op draw run judge stop attempt 0 s = s"
| "mc_loop f op draw run judge stop attempt (Suc k) s =
     (let (more, s1) = mc_turn f op draw run judge stop attempt s
      in if more then mc_loop f op draw run judge stop (Suc attempt) k s1 else s1)"

definition empty_batch :: "32 word \<Rightarrow> batch" where
  "empty_batch seed =
     \<lparr>ba_outcomes = [], ba_passed = 0, ba_evaluated = 0, ba_ran = 0, ba_early = False, ba_rng = seed\<rparr>"

definition mc_judge ::
  "(rat \<Rightarrow> string) \<Rightarrow> (rat \<Rightarrow> rat) \<Rightarrow> criterion list \<Rightarrow> circuit \<Rightarrow> measurement list \<Rightarrow> bool" where
  "mc_judge nt shown cs c ms =
     (let rs = evaluate_assertions nt shown ms cs True
                 (Some (Of_resolver (build_probe_resolver nt (components c) (nets c) None)))
      in rs \<noteq> [] \<and> list_all ar_pass rs)"

record monte_carlo_yield =
  my_summary :: yield_summary
  my_early :: bool
  my_ran :: nat

definition run_batch ::
  "math \<Rightarrow> mc_options \<Rightarrow> (32 word \<Rightarrow> circuit \<times> 32 word) \<Rightarrow> (circuit \<Rightarrow> nat \<Rightarrow> measurement list option) \<Rightarrow>
   (measurement list \<Rightarrow> bool) \<Rightarrow> (nat \<Rightarrow> bool) \<Rightarrow> batch" where
  "run_batch f op draw run judge stop =
     mc_loop f op draw run judge stop 0 (mc_attempts op)
       (empty_batch (case mc_seed op of Some s \<Rightarrow> s | None \<Rightarrow> 1))"

definition run_monte_carlo ::
  "math \<Rightarrow> magnitudes \<Rightarrow> (rat \<Rightarrow> string) \<Rightarrow> (rat \<Rightarrow> rat) \<Rightarrow> mc_options \<Rightarrow> circuit \<Rightarrow> criterion list \<Rightarrow>
   (circuit \<Rightarrow> nat \<Rightarrow> measurement list option) \<Rightarrow> (nat \<Rightarrow> bool) \<Rightarrow> monte_carlo_yield" where
  "run_monte_carlo f magnitude nt shown op c cs run stop =
     (let law = (case mc_dist op of Some d \<Rightarrow> d | None \<Rightarrow> Gaussian);
          s = run_batch f op (perturb_circuit f magnitude law c) run (mc_judge nt shown cs c) stop
      in \<lparr>my_summary = compute_yield f (ba_outcomes s), my_early = ba_early s, my_ran = ba_ran s\<rparr>)"

section \<open>The grade\<close>

datatype robustness_tier = Robust | Marginal | At_risk | Unknown

definition robustness_profiles :: "(string \<times> bars) list" where
  "robustness_profiles =
     [(''consumer'', \<lparr>robustMin = 99 / 100, marginalMin = 9 / 10\<rparr>),
      (''automotive'', \<lparr>robustMin = 999 / 1000, marginalMin = 99 / 100\<rparr>),
      (''medical'', \<lparr>robustMin = 999 / 1000, marginalMin = 99 / 100\<rparr>)]"

definition default_robustness_profile :: string where
  "default_robustness_profile = ''consumer''"

definition bars_for_profile :: "string option \<Rightarrow> bars" where
  "bars_for_profile p =
     (case p of
        Some n \<Rightarrow> (if n \<noteq> [] then (case map_of robustness_profiles n of Some b \<Rightarrow> b
                       | None \<Rightarrow> the (map_of robustness_profiles default_robustness_profile))
                   else the (map_of robustness_profiles default_robustness_profile))
      | None \<Rightarrow> the (map_of robustness_profiles default_robustness_profile))"

text \<open>What a report may say, each field present or not, and the notes as constructors.\<close>

record yield_report =
  yr_yield :: "rat option"
  yr_low :: "rat option"
  yr_high :: "rat option"
  yr_evaluated :: "nat option"
  yr_errored :: "nat option"

datatype robustness_note =
    Infra_failed nat
  | Not_assessed
  | Too_small nat rat rat rat nat
  | Is_robust rat nat rat
  | Undecided rat rat nat nat
  | Is_marginal rat rat nat
  | Is_at_risk rat nat

record robustness_verdict =
  rv_tier :: robustness_tier
  rv_profile :: string
  rv_yield :: "rat option"
  rv_low :: "rat option"
  rv_evaluated :: "nat option"
  rv_note :: robustness_note

definition classify_robustness :: "yield_report option \<Rightarrow> string option \<Rightarrow> robustness_verdict" where
  "classify_robustness rep profile =
     (let name = (case profile of Some p \<Rightarrow> p | None \<Rightarrow> default_robustness_profile);
          b = bars_for_profile (Some name);
          lo = (case rep of Some r \<Rightarrow> yr_low r | None \<Rightarrow> None);
          evaluated = (case rep of Some r \<Rightarrow> yr_evaluated r | None \<Rightarrow> None);
          errored = (case rep of Some r \<Rightarrow> (case yr_errored r of Some e \<Rightarrow> e | None \<Rightarrow> 0) | None \<Rightarrow> 0)
      in case (lo, evaluated) of
           (Some l, Some (Suc e)) \<Rightarrow>
             (let hi = (case rep of Some r \<Rightarrow> (case yr_high r of Some h \<Rightarrow> h | None \<Rightarrow> 1) | None \<Rightarrow> 1);
                  y = (case rep of Some r \<Rightarrow> yr_yield r | None \<Rightarrow> None);
                  tier = (if robustMin b \<le> l then Robust else if marginalMin b \<le> l then Marginal
                          else if hi < marginalMin b then At_risk else Unknown);
                  needed = required_runs_for_bar (robustMin b);
                  why = (case tier of
                           Unknown \<Rightarrow> Too_small (Suc e) l hi (marginalMin b) needed
                         | Robust \<Rightarrow> Is_robust (robustMin b) (Suc e) l
                         | Marginal \<Rightarrow> if robustMin b \<le> hi then Undecided l (robustMin b) needed (Suc e)
                             else Is_marginal l (robustMin b) (Suc e)
                         | At_risk \<Rightarrow> Is_at_risk l (Suc e))
              in \<lparr>rv_tier = tier, rv_profile = name, rv_yield = y, rv_low = Some l, rv_evaluated = Some (Suc e), rv_note = why\<rparr>)
         | _ \<Rightarrow>
             \<lparr>rv_tier = Unknown, rv_profile = name, rv_yield = None, rv_low = None, rv_evaluated = evaluated,
              rv_note = (if 0 < errored then Infra_failed errored else Not_assessed)\<rparr>)"

definition report_of :: "yield_summary \<Rightarrow> yield_report" where
  "report_of y =
     \<lparr>yr_yield = Some (ys_yield y), yr_low = Some (fst (ys_ci95 y)), yr_high = Some (snd (ys_ci95 y)),
      yr_evaluated = Some (ys_evaluated y), yr_errored = Some (ys_errored y)\<rparr>"


section \<open>Values stay within their tolerance\<close>

lemma mulberry32_range: "0 \<le> fst (mulberry32 a) \<and> fst (mulberry32 a) < 1"
proof -
  define w where "w = (let a = a + 0x6d2b79f5; t = (a XOR drop_bit 15 a) * (1 OR a);
    u = (t + (t XOR drop_bit 7 t) * (61 OR t)) XOR t in u XOR drop_bit 14 u)"
  have w: "fst (mulberry32 a) = of_nat (unat w) / 4294967296"
    by (simp add: mulberry32_def w_def Let_def)
  have range: "0 \<le> (of_nat n :: rat) / 4294967296 \<and> (of_nat n :: rat) / 4294967296 < 1" if "n < 4294967296" for n
  proof -
    have "(of_nat n :: rat) < of_nat 4294967296" using that unfolding of_nat_less_iff .
    then show ?thesis by simp
  qed
  have "unat w < 4294967296" using unsigned_less [of w, where 'a = nat] by simp
  then show ?thesis unfolding w by (rule range)
qed

text \<open>
  A drawn value is within the tolerance of its nominal value, whatever the square root, the logarithm and
  the cosine answer, and without a tolerance it is the nominal value.
\<close>

theorem drawn_within_tolerance:
  "(let y = fst (perturb_value f law x tol s) in if 0 < tol then \<bar>y - x\<bar> \<le> \<bar>x\<bar> * tol else y = x)"
proof (cases "0 < tol")
  case True
  have near: "\<bar>x * g - x\<bar> \<le> \<bar>x\<bar> * tol" if "1 - tol \<le> g" "g \<le> 1 + tol" for g
  proof -
    have "\<bar>x * g - x\<bar> = \<bar>x\<bar> * \<bar>g - 1\<bar>" by (simp add: abs_mult [symmetric] algebra_simps)
    also have "\<dots> \<le> \<bar>x\<bar> * tol" using that by (intro mult_left_mono) auto
    finally show ?thesis .
  qed
  show ?thesis
  proof (cases law)
    case Gaussian
    let ?z = "gaussian f (fst (mulberry32 s)) (fst (mulberry32 (snd (mulberry32 s))))"
    have "fst (perturb_value f law x tol s) = x * max (1 - tol) (min (1 + tol) (1 + tol / 3 * ?z))"
      using True Gaussian by (simp add: perturb_value_def Let_def case_prod_beta)
    moreover have "1 - tol \<le> max (1 - tol) (min (1 + tol) (1 + tol / 3 * ?z))"
      "max (1 - tol) (min (1 + tol) (1 + tol / 3 * ?z)) \<le> 1 + tol" using True by simp_all
    ultimately show ?thesis using near True by (simp add: Let_def)
  next
    case Uniform
    let ?u = "fst (mulberry32 s)"
    have "fst (perturb_value f law x tol s) = x * (1 + tol * (2 * ?u - 1))"
      using True Uniform by (simp add: perturb_value_def Let_def case_prod_beta)
    moreover have "- 1 \<le> 2 * ?u - 1" "2 * ?u - 1 \<le> 1" using mulberry32_range [of s] by simp_all
    then have "tol * (- 1) \<le> tol * (2 * ?u - 1)" "tol * (2 * ?u - 1) \<le> tol * 1"
      using True by (intro mult_left_mono, simp_all)+
    then have "1 - tol \<le> 1 + tol * (2 * ?u - 1)" "1 + tol * (2 * ?u - 1) \<le> 1 + tol" by simp_all
    ultimately show ?thesis using near True by (simp add: Let_def)
  qed
next
  case False
  then show ?thesis by (simp add: perturb_value_def)
qed

section \<open>One resolver for every variant\<close>

definition revalued :: "component \<Rightarrow> component \<Rightarrow> bool" where
  "revalued c c1 \<longleftrightarrow> c1 = c\<lparr>comp_value := comp_value c1\<rparr>"

lemma revalued_simps: "revalued c c1 \<Longrightarrow> comp_type c1 = comp_type c \<and> pins c1 = pins c"
  by (cases c; cases c1) (simp add: revalued_def)

lemma perturb_part_revalued: "revalued c (fst (perturb_part f magnitude law c s))"
  by (auto simp: perturb_part_def revalued_def Let_def case_prod_beta split: option.splits)

lemma perturb_parts_revalued: "list_all2 revalued cs (fst (perturb_parts f magnitude law cs s))"
  by (induction cs arbitrary: s)
    (use perturb_part_revalued in \<open>auto simp: Let_def case_prod_beta\<close>)

lemma count_pin_revalued: "revalued c c1 \<Longrightarrow> count_pin c1 = count_pin c"
  by (intro ext) (simp add: count_pin_def revalued_simps)

lemma classify_revalued:
  "list_all2 revalued cs cs1 \<Longrightarrow> fold classify_part cs1 r = fold classify_part cs r"
proof (induction cs cs1 arbitrary: r rule: list_all2_induct)
  case (Cons c cs c1 cs1)
  then have "classify_part c1 r = classify_part c r"
    by (simp add: classify_part_def revalued_simps count_pin_revalued)
  then show ?case using Cons.IH by simp
qed simp

lemma digital_revalued:
  "list_all2 revalued cs cs1 \<Longrightarrow> list_ex (\<lambda>c. is_digital (comp_type c)) cs1 = list_ex (\<lambda>c. is_digital (comp_type c)) cs"
  by (induction rule: list_all2_induct) (simp_all add: revalued_simps)

definition same_twins :: "planning \<Rightarrow> planning \<Rightarrow> bool" where
  "same_twins s t \<longleftrightarrow> usedNodes t = usedNodes s \<and> probeNodeForNet (plan t) = probeNodeForNet (plan s)"

lemma plan_net_twins: "same_twins s t \<Longrightarrow> same_twins (plan_net cs nodes v e s) (plan_net cs1 nodes v1 e t)"
  by (auto simp: plan_net_def same_twins_def unique_node_def Let_def split: prod.splits option.splits)

lemma plan_nets_twins:
  "same_twins s t \<Longrightarrow> same_twins (fold (plan_net cs nodes v) es s) (fold (plan_net cs1 nodes v1) es t)"
  by (induction es arbitrary: s t) (simp_all add: plan_net_twins)

lemma low_rail_twins: "probeNodeForNet (plan (add_low_rail v s)) = probeNodeForNet (plan s)"
  by (simp add: add_low_rail_def unique_node_def Let_def)

lemma probe_nodes_revalued:
  assumes "list_all2 revalued cs cs1"
  shows "probeNodeForNet (plan_mixed_signal nt cs1 nodes used ov) = probeNodeForNet (plan_mixed_signal nt cs nodes used ov)"
proof -
  define s0 where "s0 = \<lparr>usedNodes = map (\<lambda>x. js_lower (snd x)) nodes, usedDevices = used, synthN = 0,
                      plan = empty_plan\<lparr>mp_active := True\<rparr>\<rparr>"
  let ?s1 = "\<lambda>cs. snd (fold (name_model nt) cs ((Map.empty, (\<lambda>_. 0)), s0))"
  let ?s2 = "\<lambda>cs. fold (plan_net cs nodes (detect_logic_high cs (classify_nets cs) ov)) (classify_nets cs) (?s1 cs)"
  have roles: "classify_nets cs1 = classify_nets cs" using classify_revalued [OF assms] by (simp add: classify_nets_def)
  have "same_twins (?s1 cs) (?s1 cs1)" by (simp add: same_twins_def name_models_keep)
  then have "same_twins (?s2 cs) (?s2 cs1)" unfolding roles by (rule plan_nets_twins)
  then have eq: "probeNodeForNet (plan (?s2 cs1)) = probeNodeForNet (plan (?s2 cs))" by (simp add: same_twins_def)
  have "probeNodeForNet (plan_mixed_signal nt x nodes used ov) =
      (if list_ex (\<lambda>c. is_digital (comp_type c)) x then probeNodeForNet (plan (?s2 x)) else [])" for x
    by (simp add: plan_mixed_signal_def Let_def s0_def low_rail_twins empty_plan_def)
  then show ?thesis using eq digital_revalued [OF assms] by simp
qed

text \<open>
  \<^bold>\<open>C35.\<close> The resolver the batch builds once from the nominal circuit is the resolver of every variant, digital
  bridges included, although the logic level a plan is built for depends on the values.
\<close>

theorem one_resolver_for_all_variants:
  "list_all (\<lambda>v. build_probe_resolver nt (components v) (nets v) ov = build_probe_resolver nt (components c) (nets c) ov)
     (monte_carlo_variants f magnitude c n seed law)"
proof -
  have "list_all (\<lambda>v. build_probe_resolver nt (components v) (nets v) ov = build_probe_resolver nt (components c) (nets c) ov)
     (variants_from f magnitude law c n s)" for s
  proof (induction n arbitrary: s)
    case (Suc n)
    let ?v = "fst (perturb_circuit f magnitude law c s)"
    have v: "components ?v = fst (perturb_parts f magnitude law (components c) s)" "nets ?v = nets c"
      by (simp_all add: perturb_circuit_def Let_def case_prod_beta)
    have "build_probe_resolver nt (components ?v) (nets ?v) ov = build_probe_resolver nt (components c) (nets c) ov"
      unfolding build_probe_resolver_def v using probe_nodes_revalued [OF perturb_parts_revalued] by (simp add: Let_def)
    then show ?case using Suc.IH by (simp add: Let_def case_prod_beta)
  qed simp
  then show ?thesis by (simp add: monte_carlo_variants_def)
qed

section \<open>The batch ends within its bounds\<close>

definition tallied :: "batch \<Rightarrow> bool" where
  "tallied s \<longleftrightarrow>
     ba_ran s = length (ba_outcomes s) \<and> ba_passed s = count_list (ba_outcomes s) Pass \<and>
     ba_evaluated s = count_list (ba_outcomes s) Pass + count_list (ba_outcomes s) Fail"

lemma outcomes_counted: "length os = count_list os Pass + count_list os Fail + count_list os Errored"
proof (induction os)
  case (Cons x os)
  then show ?case by (cases x) simp_all
qed simp

lemma mc_turn_tallied:
  "tallied s \<Longrightarrow> tallied (snd (mc_turn f op draw run judge stop a s))"
  by (auto simp: mc_turn_def tallied_def Let_def case_prod_beta split: option.split)

lemma mc_loop_rule:
  assumes "I a s" "a + k = A" "\<And>s. I A s \<Longrightarrow> Q s"
    and turn: "\<And>a s. a < A \<Longrightarrow> I a s \<Longrightarrow>
      (let (more, s1) = mc_turn f op draw run judge stop a s in if more then I (Suc a) s1 else Q s1)"
  shows "Q (mc_loop f op draw run judge stop a k s)"
  using assms(1,2)
proof (induction k arbitrary: a s)
  case 0
  then show ?case using assms(3) by simp
next
  case (Suc k)
  obtain more s1 where t: "mc_turn f op draw run judge stop a s = (more, s1)" by (cases "mc_turn f op draw run judge stop a s")
  then have "if more then I (Suc a) s1 else Q s1" using turn [of a s] Suc.prems by simp
  then show ?case using Suc.IH [of "Suc a" s1] Suc.prems(2) t by (cases more) simp_all
qed

text \<open>Why a batch stopped early.\<close>

definition stop_reason :: "math \<Rightarrow> mc_options \<Rightarrow> (nat \<Rightarrow> bool) \<Rightarrow> batch \<Rightarrow> bool" where
  "stop_reason f op stop s \<longleftrightarrow> mc_settled f op s \<or> ba_evaluated s = 0 \<or> (\<exists>k. stop k)"

lemma target_below_attempts: "mc_target op \<le> mc_attempts op" "mc_attempts op \<le> absolute_max_runs"
proof -
  have "mc_target op \<le> absolute_max_runs"
    by (simp add: mc_target_def Let_def absolute_max_runs_def)
  then show "mc_target op \<le> mc_attempts op" "mc_attempts op \<le> absolute_max_runs"
    by (auto simp: mc_attempts_def errored_attempt_headroom_def)
qed

lemma run_batch_ends:
  fixes f op draw run judge stop
  defines "s \<equiv> run_batch f op draw run judge stop"
  shows "tallied s \<and> ba_ran s \<le> mc_attempts op \<and> ba_evaluated s \<le> mc_target op \<and>
    (ba_early s \<longrightarrow> stop_reason f op stop s)"
proof -
  define I where "I = (\<lambda>a s. tallied s \<and> ba_ran s = a \<and> \<not> ba_early s \<and>
    (if mc_bars op = None then ba_evaluated s \<le> a else ba_evaluated s \<le> mc_target op))"
  define Q where "Q = (\<lambda>s. tallied s \<and> ba_ran s \<le> mc_attempts op \<and> ba_evaluated s \<le> mc_target op \<and>
    (ba_early s \<longrightarrow> stop_reason f op stop s))"
  have target: "mc_bars op = None \<Longrightarrow> mc_target op = mc_attempts op" by (simp add: mc_attempts_def)
  have "Q (mc_loop f op draw run judge stop 0 (mc_attempts op)
      (empty_batch (case mc_seed op of Some s \<Rightarrow> s | None \<Rightarrow> 1)))"
  proof (rule mc_loop_rule [where A = "mc_attempts op"])
    show "I 0 (empty_batch (case mc_seed op of Some s \<Rightarrow> s | None \<Rightarrow> 1))"
      by (simp add: I_def empty_batch_def tallied_def)
    show "Q s" if "I (mc_attempts op) s" for s
      using that target by (auto simp: I_def Q_def split: if_splits)
  next
    fix a s
    assume a: "a < mc_attempts op" and i: "I a s"
    obtain more s1 where t: "mc_turn f op draw run judge stop a s = (more, s1)"
      by (cases "mc_turn f op draw run judge stop a s")
    have c: "tallied s1" using mc_turn_tallied [of s f op draw run judge stop a] i t by (simp add: I_def)
    have "if more then I (Suc a) s1 else Q s1"
      using t [unfolded mc_turn_def Let_def case_prod_beta] i a c target
      by (auto simp: I_def Q_def stop_reason_def mc_settled_def split: if_splits option.splits)
    then show "let (more, s1) = mc_turn f op draw run judge stop a s in if more then I (Suc a) s1 else Q s1"
      by (simp add: t)
  qed simp
  then show ?thesis by (simp add: Q_def s_def run_batch_def)
qed

lemma batch_summary:
  fixes f op draw run judge stop
  defines "s \<equiv> run_batch f op draw run judge stop"
  shows "compute_yield f (ba_outcomes s) =
    \<lparr>ys_total = ba_ran s, ys_evaluated = ba_evaluated s, ys_passed = ba_passed s,
     ys_failed = ba_evaluated s - ba_passed s, ys_errored = ba_ran s - ba_evaluated s,
     ys_yield = (if 0 < ba_evaluated s then of_nat (ba_passed s) / of_nat (ba_evaluated s) else 0),
     ys_ci95 = wilson95 f (ba_passed s) (ba_evaluated s)\<rparr> \<and>
    ba_passed s \<le> ba_evaluated s \<and> ba_evaluated s \<le> ba_ran s"
  using run_batch_ends [of f op draw run judge stop] outcomes_counted [of "ba_outcomes s"]
  unfolding s_def by (simp add: compute_yield_def tallied_def Let_def)

text \<open>
  \<^bold>\<open>C34.\<close> Whatever the variants do, a batch ends: it spends at most three attempts for each sample asked for and
  never more than the runaway guard, evaluates no more samples than asked for, and its counts add up.
\<close>

theorem batch_bounded:
  "(let r = run_monte_carlo f magnitude nt shown op c cs run stop; y = my_summary r in
    my_ran r \<le> min absolute_max_runs (errored_attempt_headroom * mc_target op) \<and> ys_total y = my_ran r \<and>
    ys_evaluated y \<le> mc_target op \<and> ys_passed y + ys_failed y = ys_evaluated y \<and>
    ys_evaluated y + ys_errored y = ys_total y)"
proof -
  define draw where "draw = perturb_circuit f magnitude (case mc_dist op of Some d \<Rightarrow> d | None \<Rightarrow> Gaussian) c"
  define judge where "judge = mc_judge nt shown cs c"
  have "mc_attempts op \<le> min absolute_max_runs (errored_attempt_headroom * mc_target op)"
    using target_below_attempts [of op] by (auto simp: mc_attempts_def errored_attempt_headroom_def)
  then show ?thesis
    using run_batch_ends [of f op draw run judge stop] batch_summary [of f op draw run judge stop]
    unfolding run_monte_carlo_def Let_def draw_def [symmetric] judge_def [symmetric] by simp
qed

section \<open>The sampler and the grade agree\<close>

lemma bars_default: "bars_for_profile (Some default_robustness_profile) = bars_for_profile None"
  by (simp add: bars_for_profile_def default_robustness_profile_def robustness_profiles_def)

lemma graded_report:
  "0 < ys_evaluated y \<Longrightarrow> rv_tier (classify_robustness (Some (report_of y)) profile) =
    (let b = bars_for_profile profile in
     if robustMin b \<le> fst (ys_ci95 y) then Robust else if marginalMin b \<le> fst (ys_ci95 y) then Marginal
     else if snd (ys_ci95 y) < marginalMin b then At_risk else Unknown)"
  by (cases "ys_evaluated y")
    (auto simp: classify_robustness_def report_of_def bars_default Let_def split: option.split)

text \<open>
  \<^bold>\<open>C33.\<close> The sampler and the grade cannot disagree: a batch that samples for the bars of a profile and stops
  early of its own accord, on at least one usable sample, is graded under that profile, never left unknown.
\<close>

theorem early_stop_is_graded:
  assumes "mc_bars op = Some (bars_for_profile profile)"
    and "r = run_monte_carlo f magnitude nt shown op c cs run (\<lambda>_. False)"
    and "my_early r" "0 < ys_evaluated (my_summary r)"
  shows "rv_tier (classify_robustness (Some (report_of (my_summary r))) profile) \<noteq> Unknown"
proof -
  define draw where "draw = perturb_circuit f magnitude (case mc_dist op of Some d \<Rightarrow> d | None \<Rightarrow> Gaussian) c"
  define judge where "judge = mc_judge nt shown cs c"
  define s where "s = run_batch f op draw run judge (\<lambda>_. False)"
  have r: "my_summary r = compute_yield f (ba_outcomes s)" "my_early r = ba_early s"
    unfolding assms(2) run_monte_carlo_def Let_def s_def draw_def judge_def by simp_all
  note y = batch_summary [of f op draw run judge "\<lambda>_. False", folded s_def]
  have e: "0 < ba_evaluated s" using assms(4) y by (simp add: r)
  have "mc_settled f op s"
    using run_batch_ends [of f op draw run judge "\<lambda>_. False"] assms(3) e
    unfolding s_def [symmetric] r by (simp add: stop_reason_def)
  then have "tier_decided (ys_ci95 (my_summary r)) (bars_for_profile profile)"
    using y unfolding r mc_settled_def Let_def assms(1) by simp
  then show ?thesis using graded_report [OF assms(4)] by (auto simp: tier_decided_def Let_def)
qed

section \<open>A flawless design earns the top tier\<close>

text \<open>The square root is exact on the squares the interval of a clean sample asks for.\<close>

definition exact_roots :: "math \<Rightarrow> nat \<Rightarrow> bool" where
  "exact_roots f m \<longleftrightarrow>
     list_all (\<lambda>n. m_sqrt f (z95 * z95 / (4 * of_nat n * of_nat n)) = z95 / (2 * of_nat n)) [1..<Suc m]"

lemma clean_interval:
  assumes "exact_roots f m" "0 < n" "n \<le> m"
  shows "wilson95 f n n = (of_nat n / (of_nat n + z95 * z95), 1)"
proof -
  have root: "m_sqrt f (z95 * z95 / (4 * of_nat n * of_nat n)) = z95 / (2 * of_nat n)"
    using assms by (auto simp add: exact_roots_def list_all_iff simp del: upt_Suc)
  define N :: rat where "N = of_nat n"
  define z where "z = z95 * z95"
  have N: "0 < N" using assms(2) by (simp add: N_def)
  have z: "0 < z" by (simp add: z_def z95_def)
  have half: "z95 * m_sqrt f (N / N * (1 - N / N) / N + z / (4 * N * N)) = z / (2 * N)"
    using root N by (simp add: N_def z_def)
  have low: "(N / N + z / (2 * N)) / (1 + z / N) - z / (2 * N) / (1 + z / N) = N / (N + z)"
  proof -
    have "(N / N + z / (2 * N)) / (1 + z / N) - z / (2 * N) / (1 + z / N) = 1 / (1 + z / N)"
      unfolding diff_divide_distrib [symmetric] using N by simp
    also have "\<dots> = N / (N + z)" using N by (simp add: field_simps)
    finally show ?thesis .
  qed
  have high: "(N / N + z / (2 * N)) / (1 + z / N) + z / (2 * N) / (1 + z / N) = 1"
  proof -
    have "z / (2 * N) + z / (2 * N) = z / N" by simp
    moreover have "1 + z / N \<noteq> 0" using N z by (metis add_pos_pos divide_pos_pos less_irrefl zero_less_one)
    ultimately show ?thesis unfolding add_divide_distrib [symmetric] using N by (simp add: add.assoc)
  qed
  have "0 \<le> N / (N + z)" using N z by simp
  then show ?thesis
    unfolding wilson95_def Let_def N_def [symmetric] z_def [symmetric] half low high using assms(2) by simp
qed

lemma required_runs_exact:
  assumes "0 < r" "r < 1"
  shows "r \<le> of_nat n / (of_nat n + z95 * z95) \<longleftrightarrow> required_runs_for_bar r \<le> n"
proof -
  define z where "z = z95 * z95"
  have z: "0 < z" by (simp add: z_def z95_def)
  have "r \<le> of_nat n / (of_nat n + z) \<longleftrightarrow> r * (of_nat n + z) \<le> of_nat n"
    using z by (simp add: pos_le_divide_eq add_nonneg_pos)
  also have "\<dots> \<longleftrightarrow> z * r \<le> of_nat n * (1 - r)" by (simp add: algebra_simps)
  also have "\<dots> \<longleftrightarrow> z * r / (1 - r) \<le> of_nat n" using assms(2) by (simp add: pos_divide_le_eq)
  also have "\<dots> \<longleftrightarrow> \<lceil>z * r / (1 - r)\<rceil> \<le> int n" by (simp add: ceiling_le_iff)
  also have "\<dots> \<longleftrightarrow> nat \<lceil>z * r / (1 - r)\<rceil> \<le> n" by linarith
  finally show ?thesis using assms by (simp add: required_runs_for_bar_def z_def)
qed

lemma profile_bars: "bars_for_profile p \<in> set (map snd robustness_profiles)"
  by (auto simp: bars_for_profile_def robustness_profiles_def default_robustness_profile_def split: option.split)

lemma required_runs_known: "required_runs_for_bar (99 / 100) = 381" "required_runs_for_bar (999 / 1000) = 3838"
proof -
  have "\<lceil>z95 * z95 * (99 / 100) / (1 - 99 / 100)\<rceil> = 381" "\<lceil>z95 * z95 * (999 / 1000) / (1 - 999 / 1000)\<rceil> = 3838"
    by (rule ceiling_unique; simp add: z95_def)+
  then show "required_runs_for_bar (99 / 100) = 381" "required_runs_for_bar (999 / 1000) = 3838"
    by (simp_all add: required_runs_for_bar_def)
qed

lemma profile_facts:
  "0 < robustMin (bars_for_profile p)" "robustMin (bars_for_profile p) < 1" "marginalMin (bars_for_profile p) \<le> 1"
  "24 \<le> required_runs_for_bar (robustMin (bars_for_profile p))"
  "required_runs_for_bar (robustMin (bars_for_profile p)) \<le> absolute_max_runs"
  using profile_bars [of p] by (auto simp: robustness_profiles_def required_runs_known absolute_max_runs_def)

definition clean_upto :: "nat \<Rightarrow> batch \<Rightarrow> bool" where
  "clean_upto k s \<longleftrightarrow> ba_passed s = k \<and> ba_evaluated s = k \<and> ba_ran s = k"

lemma clean_loop:
  assumes settled: "\<And>s k. clean_upto k s \<Longrightarrow> k \<le> R \<Longrightarrow> mc_settled f op s \<longleftrightarrow> R \<le> k"
    and run: "\<And>v k. \<exists>ms. run v k = Some ms \<and> judge ms" and "mc_target op = R"
  shows "clean_upto k s \<Longrightarrow> k < R \<Longrightarrow> R \<le> k + j \<Longrightarrow>
    clean_upto R (mc_loop f op draw run judge (\<lambda>_. False) a j s) \<and> ba_early (mc_loop f op draw run judge (\<lambda>_. False) a j s)"
proof (induction j arbitrary: k s a)
  case (Suc j)
  obtain v rng where d: "draw (ba_rng s) = (v, rng)" by (cases "draw (ba_rng s)")
  obtain ms where ms: "run v a = Some ms" "judge ms" using run by blast
  define s1 where "s1 = s\<lparr>ba_ran := Suc (ba_ran s), ba_rng := rng, ba_outcomes := ba_outcomes s @ [Pass],
    ba_evaluated := Suc (ba_evaluated s), ba_passed := Suc (ba_passed s)\<rparr>"
  have c: "clean_upto (Suc k) s1" using Suc.prems(1) by (simp add: s1_def clean_upto_def)
  have e: "\<not> mc_target op \<le> ba_evaluated s" using Suc.prems(1,2) assms(3) by (simp add: clean_upto_def)
  have turn: "mc_turn f op draw run judge (\<lambda>_. False) a s =
      (if mc_settled f op s1 then (False, s1\<lparr>ba_early := True\<rparr>) else (True, s1))"
    unfolding mc_turn_def using e by (simp add: d ms s1_def)
  show ?case
  proof (cases "R \<le> Suc k")
    case True
    then have "Suc k = R" "mc_settled f op s1" using Suc.prems(2) settled [OF c] by simp_all
    then show ?thesis using c by (simp add: turn clean_upto_def)
  next
    case False
    then have "\<not> mc_settled f op s1" using settled [OF c] by simp
    then show ?thesis using Suc.IH [OF c] False Suc.prems(3) by (simp add: turn)
  qed
qed simp

text \<open>
  \<^bold>\<open>C32.\<close> The top tier can be earned: sampling for the bars of a profile, a design whose every variant runs and
  meets its criteria is graded robust, after exactly the clean runs \<open>requiredRunsForBar\<close> promises and no more.
\<close>

theorem flawless_design_is_robust:
  assumes "mc_bars op = Some (bars_for_profile profile)" "mc_n op = None" "mc_min_runs op = None"
    and "exact_roots f (required_runs_for_bar (robustMin (bars_for_profile profile)))"
    and "\<And>v k. \<exists>ms. run v k = Some ms \<and> mc_judge nt shown cs c ms"
    and "r = run_monte_carlo f magnitude nt shown op c cs run (\<lambda>_. False)"
  shows "my_ran r = required_runs_for_bar (robustMin (bars_for_profile profile)) \<and> my_early r \<and>
    rv_tier (classify_robustness (Some (report_of (my_summary r))) profile) = Robust"
proof -
  let ?b = "bars_for_profile profile"
  define R where "R = required_runs_for_bar (robustMin ?b)"
  define draw where "draw = perturb_circuit f magnitude (case mc_dist op of Some d \<Rightarrow> d | None \<Rightarrow> Gaussian) c"
  define s where "s = run_batch f op draw run (mc_judge nt shown cs c) (\<lambda>_. False)"
  note p = profile_facts [of profile, folded R_def]
  have target: "mc_target op = R"
    using p(4,5) by (simp add: mc_target_def mc_cap_def assms(1,2) Let_def R_def [symmetric] absolute_max_runs_def)
  have attempts: "R \<le> mc_attempts op" using target_below_attempts [of op] target by simp
  have low: "robustMin ?b \<le> of_nat n / (of_nat n + z95 * z95) \<longleftrightarrow> R \<le> n" for n
    unfolding R_def by (rule required_runs_exact [OF p(1,2)])
  have settled: "mc_settled f op s \<longleftrightarrow> R \<le> k" if "clean_upto k s" "k \<le> R" for s k
  proof (cases "k = 0")
    case True
    then show ?thesis using that p(4) by (simp add: mc_settled_def mc_least_def assms(3) clean_upto_def)
  next
    case False
    then have "wilson95 f (ba_passed s) (ba_evaluated s) = (of_nat k / (of_nat k + z95 * z95), 1)"
      using clean_interval [OF assms(4) _ that(2) [unfolded R_def]] that(1) by (simp add: clean_upto_def)
    then have "tier_decided (wilson95 f (ba_passed s) (ba_evaluated s)) ?b \<longleftrightarrow> R \<le> k"
      using low [of k] p(2,3) by (simp add: tier_decided_def)
    then show ?thesis
      using that(1) p(4) by (auto simp: mc_settled_def mc_least_def assms(1,3) clean_upto_def Let_def)
  qed
  have "clean_upto R s \<and> ba_early s"
    unfolding s_def run_batch_def
    by (rule clean_loop [OF settled assms(5) target, of 0])
      (use attempts p(4) in \<open>simp_all add: clean_upto_def empty_batch_def\<close>)
  then have c: "ba_ran s = R" "ba_evaluated s = R" "ba_passed s = R" "ba_early s" by (simp_all add: clean_upto_def)
  have r: "my_summary r = compute_yield f (ba_outcomes s)" "my_early r = ba_early s" "my_ran r = ba_ran s"
    unfolding assms(6) run_monte_carlo_def Let_def s_def draw_def by simp_all
  note y = batch_summary [of f op draw run "mc_judge nt shown cs c" "\<lambda>_. False", folded s_def]
  have "wilson95 f R R = (of_nat R / (of_nat R + z95 * z95), 1)"
    using clean_interval [OF assms(4)] p(4) by (simp add: R_def)
  then have "robustMin ?b \<le> fst (ys_ci95 (my_summary r))" "0 < ys_evaluated (my_summary r)"
    using y low [of R] c p(4) by (simp_all add: r)
  then show ?thesis using c graded_report [of "my_summary r" profile] by (simp add: r R_def Let_def)
qed

section \<open>Samples\<close>

definition flat_math :: math where
  "flat_math = \<lparr>m_sqrt = (\<lambda>_. 0), m_log = (\<lambda>_. 0), m_cos = (\<lambda>_. 1)\<rparr>"

definition square_math :: math where
  "square_math =
     \<lparr>m_sqrt = (\<lambda>x. case find (\<lambda>n. x = z95 * z95 / (4 * of_nat n * of_nat n)) [1..<382] of
        Some n \<Rightarrow> z95 / (2 * of_nat n) | None \<Rightarrow> 0), m_log = (\<lambda>_. 0), m_cos = (\<lambda>_. 1)\<rparr>"

definition for_profile :: "string option \<Rightarrow> int option \<Rightarrow> int option \<Rightarrow> mc_options" where
  "for_profile p n least =
     \<lparr>mc_n = n, mc_seed = Some 7, mc_dist = None, mc_half_width = None, mc_bars = Some (bars_for_profile p),
      mc_min_runs = least\<rparr>"

definition divider :: circuit where
  "divider = \<lparr>version = ''1'', components = divider_parts, nets = divider_nets, models = None, metadata = None\<rparr>"

definition no_magnitudes :: magnitudes where
  "no_magnitudes = (\<lambda>_. None)"

lemma consumer_bars: "bars_for_profile (Some ''consumer'') = \<lparr>robustMin = 99 / 100, marginalMin = 9 / 10\<rparr>"
  by (simp add: bars_for_profile_def robustness_profiles_def)

theorem early_stop_is_graded_witness:
  "(let r = run_monte_carlo flat_math no_magnitudes (\<lambda>_. []) id (for_profile (Some ''consumer'') (Some 1) (Some 1)) divider []
      (\<lambda>_ _. Some []) (\<lambda>_. False)
    in my_ran r = 1 \<and> rv_tier (classify_robustness (Some (report_of (my_summary r))) (Some ''consumer'')) \<noteq> Unknown)"
proof -
  let ?op = "for_profile (Some ''consumer'') (Some 1) (Some 1)"
  define r where "r = run_monte_carlo flat_math no_magnitudes (\<lambda>_. []) id ?op divider [] (\<lambda>_ _. Some []) (\<lambda>_. False)"
  define draw where "draw = perturb_circuit flat_math no_magnitudes Gaussian divider"
  have op: "mc_bars ?op = Some (bars_for_profile (Some ''consumer''))" "mc_target ?op = 1" "mc_attempts ?op = 3" "mc_least ?op = 1"
    "mc_seed ?op = Some 7" "mc_dist ?op = None"
    by (simp_all add: for_profile_def mc_target_def mc_attempts_def mc_least_def mc_cap_def consumer_bars required_runs_known
        errored_attempt_headroom_def absolute_max_runs_def)
  have j: "\<not> mc_judge (\<lambda>_. []) id [] divider ms" for ms by (simp add: mc_judge_def evaluate_assertions_def)
  have ci: "snd (wilson95 flat_math 0 1) < 9 / 10" by (simp add: wilson95_def flat_math_def z95_def Let_def)
  obtain v rng where d: "draw 7 = (v, rng)" by (cases "draw 7")
  have "mc_turn flat_math ?op draw (\<lambda>_ _. Some []) (mc_judge (\<lambda>_. []) id [] divider) (\<lambda>_. False) 0 (empty_batch 7) =
      (False, \<lparr>ba_outcomes = [Fail], ba_passed = 0, ba_evaluated = 1, ba_ran = 1, ba_early = True, ba_rng = rng\<rparr>)"
    using ci by (simp add: mc_turn_def op d j empty_batch_def mc_settled_def tier_decided_def consumer_bars)
  then have b: "run_batch flat_math ?op draw (\<lambda>_ _. Some []) (mc_judge (\<lambda>_. []) id [] divider) (\<lambda>_. False) =
      \<lparr>ba_outcomes = [Fail], ba_passed = 0, ba_evaluated = 1, ba_ran = 1, ba_early = True, ba_rng = rng\<rparr>"
    by (simp add: run_batch_def op numeral_3_eq_3)
  have f: "my_early r" "0 < ys_evaluated (my_summary r)" "my_ran r = 1"
    by (simp_all add: r_def run_monte_carlo_def op draw_def [symmetric] b compute_yield_def Let_def)
  show ?thesis
    unfolding r_def [symmetric] Let_def
    using early_stop_is_graded [OF op(1) r_def f(1,2)] f(3) by simp
qed

lemma square_roots: "exact_roots square_math 381"
proof -
  have "m_sqrt square_math (z95 * z95 / (4 * of_nat n * of_nat n)) = z95 / (2 * of_nat n)" if n: "n \<in> set [1..<382]" for n
  proof -
    have same: "z95 * z95 / (4 * of_nat n * of_nat n) = z95 * z95 / (4 * of_nat k * of_nat k :: rat) \<longleftrightarrow> k = n"
      if "k \<in> set [1..<382]" for k
    proof
      assume e: "z95 * z95 / (4 * of_nat n * of_nat n) = z95 * z95 / (4 * of_nat k * of_nat k :: rat)"
      have p: "(0 :: rat) < of_nat n" "(0 :: rat) < of_nat k" "z95 * z95 \<noteq> 0"
        using n that by (simp_all add: z95_def del: upt_Suc)
      then have "(of_nat k * of_nat k :: rat) = of_nat n * of_nat n" using e by (simp add: field_simps)
      then have "(of_nat (k * k) :: rat) = of_nat (n * n)" by simp
      then have "k * k = n * n" unfolding of_nat_eq_iff .
      then show "k = n" by (metis power2_eq_square power2_eq_iff_nonneg zero_le)
    qed simp
    let ?P = "\<lambda>k. z95 * z95 / (4 * of_nat n * of_nat n) = z95 * z95 / (4 * of_nat k * of_nat k :: rat)"
    have "find ?P [1..<382] \<noteq> None" using n same [OF n] by (auto simp: find_None_iff simp del: upt_Suc)
    then obtain k where k: "find ?P [1..<382] = Some k" by blast
    then have "k = n" using find_SomeD [OF k] same by blast
    then show ?thesis using k by (simp add: square_math_def del: upt_Suc)
  qed
  then show ?thesis by (simp add: exact_roots_def list_all_iff del: upt_Suc)
qed

lemma ground_criterion:
  "mc_judge (\<lambda>_. []) id [at_least ''0v'' 0] divider [steady ''nmid'' 3]"
proof -
  have r: "reads_as ''0v'' ''0v''" "js_lower ''0v'' \<in> set (ground_refs divider_nets)" by code_simp+
  note f = reads_as_facts [OF r(1)]
  have "normalize_probe ''0v'' = probe_of ''0v''" using f(1) unfolding f(5) .
  then have "match_key (Some (net_resolver (\<lambda>_. []) divider_parts divider_nets)) ''0v'' = Ground_key"
    using r(2) by (simp add: match_key_def names_ground_only_def f split_on_absent net_resolver_simps Let_def)
  then show ?thesis
    by (simp add: mc_judge_def evaluate_assertions_def to_resolver_def divider_def net_resolver_def [symmetric]
        evaluate_one_def at_least_def derived_metric_def compare_assertion_def)
qed

theorem flawless_design_is_robust_witness:
  "(let r = run_monte_carlo square_math no_magnitudes (\<lambda>_. []) id (for_profile (Some ''consumer'') None None) divider
      [at_least ''0v'' 0] (\<lambda>_ _. Some [steady ''nmid'' 3]) (\<lambda>_. False)
    in my_ran r = 381 \<and> rv_tier (classify_robustness (Some (report_of (my_summary r))) (Some ''consumer'')) = Robust)"
proof -
  let ?op = "for_profile (Some ''consumer'') None None"
  have op: "mc_bars ?op = Some (bars_for_profile (Some ''consumer''))" "mc_n ?op = None" "mc_min_runs ?op = None"
    by (simp_all add: for_profile_def)
  have R: "required_runs_for_bar (robustMin (bars_for_profile (Some ''consumer''))) = 381"
    by (simp add: consumer_bars required_runs_known)
  have "exact_roots square_math (required_runs_for_bar (robustMin (bars_for_profile (Some ''consumer''))))"
    unfolding R by (rule square_roots)
  from flawless_design_is_robust [OF op this _ refl, where run = "\<lambda>_ _. Some [steady ''nmid'' 3]" and nt = "\<lambda>_. []"
      and shown = id and c = divider and cs = "[at_least ''0v'' 0]" and magnitude = no_magnitudes]
  show ?thesis using ground_criterion by (simp add: R Let_def)
qed

end
