(* ===== verification/Scope_Manifest.thy ===== *)
theory Scope_Manifest
  imports Monte_Carlo
begin

text \<open>
  \<open>packages/eda-core/src/verification/manifest.ts\<close> and \<open>netlist/coverage.ts\<close>: what a verdict discloses of the
  checks behind it. A producer names the checks it owns; each is reported as run, not run or excluded.
  The details, which are prose, are constructors with the values they state.
\<close>

section \<open>What the deck held\<close>

record omitted_component =
  om_designator :: string
  om_type :: ctype
  om_nets :: "string list"
  om_load_bearing :: bool

record simulation_coverage =
  sc_omitted :: "omitted_component list"
  sc_load_bearing :: "omitted_component list"
  sc_complete :: bool

definition net_ids_of :: "component \<Rightarrow> string list" where
  "net_ids_of c = uniq (map netId (pins c))"

definition emitted :: "component \<Rightarrow> bool" where
  "emitted c \<longleftrightarrow> comp_type c \<noteq> Ground \<and> is_simulatable (comp_type c)"

definition simulated_nets :: "component list \<Rightarrow> string list" where
  "simulated_nets cs = concat (map (\<lambda>c. map netId (pins c)) (filter emitted cs))"

definition omission :: "component list \<Rightarrow> component \<Rightarrow> omitted_component" where
  "omission cs c =
     (let ids = net_ids_of c
      in \<lparr>om_designator = designator c, om_type = comp_type c, om_nets = ids,
          om_load_bearing = 2 \<le> length (filter (\<lambda>i. i \<in> set (simulated_nets cs)) ids)\<rparr>)"

definition simulation_coverage :: "component list \<Rightarrow> simulation_coverage" where
  "simulation_coverage cs =
     (let omitted = map (omission cs) (filter (\<lambda>c. comp_type c \<noteq> Ground \<and> \<not> is_simulatable (comp_type c)) cs);
          bearing = filter om_load_bearing omitted
      in \<lparr>sc_omitted = omitted, sc_load_bearing = bearing, sc_complete = (bearing = [])\<rparr>)"

section \<open>The manifest\<close>

datatype check_id =
    Sim | Sim_coverage | Erc_check | Assertion_of dimension | Resistor_power | Voltage_stress | Current_stress | Robustness
  | Decoupling | Polarity | Thermal | Emi | Compliance | Routing | Parity | Drc_check | Manufacturability

datatype check_status = Run | Not_run | Excluded

datatype check_detail =
    Quantity_asserted
  | Not_compared
  | All_emitted
  | Omitted_harmless "omitted_component list"
  | Omitted_bearing "omitted_component list"
  | No_power_data
  | No_voltage_stress
  | No_current_stress
  | Robustness_not_requested
  | Robustness_verdict robustness_note
  | No_monte_carlo
  | Stress_not_reviewed
  | Decoupling_deferred
  | No_polarized_part
  | Needs_thermal_data
  | Needs_laboratory
  | Needs_accredited_body
  | No_routing_stage
  | Quality_routed
  | Every_margin_rejected "(nat \<times> nat) option"
  | Router_died "(nat \<times> nat) option"
  | No_runner
  | Router_not_requested
  | Cause_unrecorded
  | Pins_isomorphic nat nat
  | Drc_findings "nat option" "nat option"
  | Delivered_clean
  | Bundle_withheld

record entry =
  en_status :: check_status
  en_detail :: "check_detail option"

type_synonym manifest = "(check_id \<times> entry) list"

definition run_entry :: "check_detail option \<Rightarrow> entry" where
  "run_entry d = \<lparr>en_status = Run, en_detail = d\<rparr>"

definition not_run :: "check_detail option \<Rightarrow> entry" where
  "not_run d = \<lparr>en_status = Not_run, en_detail = d\<rparr>"

definition build_manifest :: "check_id list \<Rightarrow> (check_id \<rightharpoonup> entry) \<Rightarrow> manifest" where
  "build_manifest owned determined =
     map (\<lambda>i. (i, case determined i of None \<Rightarrow> not_run None | Some e \<Rightarrow> e)) owned"

definition excluded_reason :: "check_id \<Rightarrow> check_detail option" where
  "excluded_reason i =
     (case i of Thermal \<Rightarrow> Some Needs_thermal_data | Emi \<Rightarrow> Some Needs_laboratory | Compliance \<Rightarrow> Some Needs_accredited_body
      | _ \<Rightarrow> None)"

definition excluded_entries :: "check_id list \<Rightarrow> (check_id \<rightharpoonup> entry) option" where
  "excluded_entries is =
     (if list_all (\<lambda>i. excluded_reason i \<noteq> None) is
      then Some (map_of (map (\<lambda>i. (i, \<lparr>en_status = Excluded, en_detail = excluded_reason i\<rparr>)) is)) else None)"

definition coverage_entry :: "simulation_coverage option \<Rightarrow> entry" where
  "coverage_entry c =
     (case c of
        None \<Rightarrow> not_run (Some Not_compared)
      | Some s \<Rightarrow> run_entry (Some (if sc_omitted s = [] then All_emitted
          else if sc_load_bearing s = [] then Omitted_harmless (sc_omitted s) else Omitted_bearing (sc_load_bearing s))))"

record electrical_input =
  ei_simRan :: bool
  ei_covered :: "dimension list"
  ei_power :: "entry option"
  ei_robustness :: "entry option"
  ei_decoupling :: "entry option"
  ei_polarity :: "entry option"
  ei_coverage :: "simulation_coverage option"

definition electrical_checks :: "check_id list" where
  "electrical_checks =
     [Sim, Sim_coverage, Erc_check, Assertion_of Voltage, Assertion_of Current, Assertion_of Frequency, Assertion_of Distortion,
      Resistor_power, Voltage_stress, Current_stress, Robustness, Decoupling, Polarity, Thermal, Emi, Compliance]"

definition or_entry :: "entry option \<Rightarrow> check_detail \<Rightarrow> entry" where
  "or_entry e d = (case e of Some x \<Rightarrow> x | None \<Rightarrow> not_run (Some d))"

definition electrical_findings :: "electrical_input \<Rightarrow> check_id \<Rightarrow> entry option" where
  "electrical_findings x i =
     (case i of
        Sim \<Rightarrow> Some (if ei_simRan x then run_entry None else not_run None)
      | Sim_coverage \<Rightarrow> Some (coverage_entry (ei_coverage x))
      | Erc_check \<Rightarrow> Some (run_entry None)
      | Assertion_of d \<Rightarrow> Some (if d \<in> set (ei_covered x) then run_entry (Some Quantity_asserted) else not_run None)
      | Resistor_power \<Rightarrow> Some (or_entry (ei_power x) No_power_data)
      | Voltage_stress \<Rightarrow> Some (not_run (Some No_voltage_stress))
      | Current_stress \<Rightarrow> Some (not_run (Some No_current_stress))
      | Robustness \<Rightarrow> Some (or_entry (ei_robustness x) Robustness_not_requested)
      | Decoupling \<Rightarrow> Some (or_entry (ei_decoupling x) Decoupling_deferred)
      | Polarity \<Rightarrow> Some (or_entry (ei_polarity x) No_polarized_part)
      | _ \<Rightarrow> (case excluded_entries [Thermal, Emi, Compliance] of Some m \<Rightarrow> m i | None \<Rightarrow> None))"

definition build_electrical_scope :: "electrical_input \<Rightarrow> manifest" where
  "build_electrical_scope x = build_manifest electrical_checks (electrical_findings x)"

datatype degraded_cause = Board_rejected | Tool_fault | No_router | Not_requested | Other_cause

record routing_disclosure =
  rd_quality :: bool
  rd_cause :: degraded_cause
  rd_tried :: "nat option"
  rd_offered :: "nat option"

definition routing_entry :: "routing_disclosure option \<Rightarrow> entry" where
  "routing_entry r =
     (case r of
        None \<Rightarrow> not_run (Some No_routing_stage)
      | Some d \<Rightarrow>
          if rd_quality d then run_entry (Some Quality_routed)
          else (let attempted = (case (rd_tried d, rd_offered d) of (Some a, Some b) \<Rightarrow> Some (a, b) | _ \<Rightarrow> None)
            in case rd_cause d of
                 Board_rejected \<Rightarrow> run_entry (Some (Every_margin_rejected attempted))
               | Tool_fault \<Rightarrow> not_run (Some (Router_died attempted))
               | No_router \<Rightarrow> not_run (Some No_runner)
               | Not_requested \<Rightarrow> not_run (Some Router_not_requested)
               | Other_cause \<Rightarrow> not_run (Some Cause_unrecorded)))"

record layout_input =
  li_routing :: "routing_disclosure option"
  li_parity :: "(nat \<times> nat) option"
  li_clean :: bool
  li_violations :: nat
  li_warnings :: "nat option"
  li_manufacturable :: bool

definition layout_findings :: "layout_input \<Rightarrow> check_id \<Rightarrow> entry option" where
  "layout_findings x i =
     (case i of
        Routing \<Rightarrow> Some (routing_entry (li_routing x))
      | Parity \<Rightarrow> Some (run_entry (map_option (\<lambda>(a, b). Pins_isomorphic a b) (li_parity x)))
      | Drc_check \<Rightarrow> Some (run_entry (Some (Drc_findings (if li_clean x then None else Some (li_violations x)) (li_warnings x))))
      | Manufacturability \<Rightarrow> Some (run_entry (Some (if li_manufacturable x then Delivered_clean else Bundle_withheld)))
      | _ \<Rightarrow> None)"

definition build_layout_scope :: "layout_input \<Rightarrow> manifest" where
  "build_layout_scope x = build_manifest [Routing, Parity, Drc_check, Manufacturability] (layout_findings x)"

text \<open>\<open>withCheck\<close> throws on a check the manifest does not own.\<close>

definition with_check :: "manifest \<Rightarrow> check_id \<Rightarrow> entry \<Rightarrow> manifest option" where
  "with_check m i e = (if i \<in> fst ` set m then Some (map (\<lambda>(k, x). (k, if k = i then e else x)) m) else None)"

section \<open>Nothing is silent\<close>

lemma electrical_ids: "map fst (build_electrical_scope x) = electrical_checks"
  by (simp add: build_electrical_scope_def build_manifest_def comp_def)

lemma electrical_lookup:
  "i \<in> set electrical_checks \<Longrightarrow> map_of (build_electrical_scope x) i = electrical_findings x i"
proof -
  have "electrical_findings x i \<noteq> None" if "i \<in> set electrical_checks"
    using that by (auto simp: electrical_checks_def electrical_findings_def excluded_entries_def excluded_reason_def)
  then show "i \<in> set electrical_checks \<Longrightarrow> map_of (build_electrical_scope x) i = electrical_findings x i"
    by (auto simp: build_electrical_scope_def build_manifest_def map_of_map_restrict restrict_map_def)
qed

text \<open>
  A check of the electrical verdict is stated exactly once, and no check is called run that was not: a quantity only
  when a criterion measures it, the simulation only when it produced data, robustness only when the caller
  handed an entry that says so.
\<close>

theorem electrical_scope_discloses:
  "distinct (map fst (build_electrical_scope x)) \<and> map fst (build_electrical_scope x) = electrical_checks \<and>
   filter (\<lambda>i. map_option en_status (map_of (build_electrical_scope x) i) = Some Run) electrical_checks =
   filter (\<lambda>i. case i of
       Sim \<Rightarrow> ei_simRan x | Sim_coverage \<Rightarrow> ei_coverage x \<noteq> None | Erc_check \<Rightarrow> True
     | Assertion_of d \<Rightarrow> d \<in> set (ei_covered x)
     | Resistor_power \<Rightarrow> map_option en_status (ei_power x) = Some Run
     | Robustness \<Rightarrow> map_option en_status (ei_robustness x) = Some Run
     | Decoupling \<Rightarrow> map_option en_status (ei_decoupling x) = Some Run
     | Polarity \<Rightarrow> map_option en_status (ei_polarity x) = Some Run | _ \<Rightarrow> False) electrical_checks"
proof -
  have "distinct electrical_checks" by (simp add: electrical_checks_def)
  moreover have "map_option en_status (electrical_findings x i) = Some Run \<longleftrightarrow>
     (case i of
       Sim \<Rightarrow> ei_simRan x | Sim_coverage \<Rightarrow> ei_coverage x \<noteq> None | Erc_check \<Rightarrow> True
     | Assertion_of d \<Rightarrow> d \<in> set (ei_covered x)
     | Resistor_power \<Rightarrow> map_option en_status (ei_power x) = Some Run
     | Robustness \<Rightarrow> map_option en_status (ei_robustness x) = Some Run
     | Decoupling \<Rightarrow> map_option en_status (ei_decoupling x) = Some Run
     | Polarity \<Rightarrow> map_option en_status (ei_polarity x) = Some Run | _ \<Rightarrow> False)" for i
    by (cases i)
      (auto simp: electrical_findings_def run_entry_def not_run_def coverage_entry_def or_entry_def excluded_entries_def
        excluded_reason_def split: option.split)
  ultimately show ?thesis
    by (simp add: electrical_ids electrical_lookup cong: filter_cong)
qed

lemma with_check_keeps:
  "with_check m i e = Some m1 \<Longrightarrow> map fst m1 = map fst m \<and> map_of m1 k = (if k = i then Some e else map_of m k)"
proof -
  assume "with_check m i e = Some m1"
  then have i: "i \<in> fst ` set m" and m1: "m1 = map (\<lambda>(k, x). (k, if k = i then e else x)) m"
    by (simp_all add: with_check_def split: if_splits)
  have "map_of (map (\<lambda>(k, x). (k, if k = i then e else x)) m) k =
      (if k = i then (if i \<in> fst ` set m then Some e else None) else map_of m k)"
    by (induction m) (force split: if_splits)+
  then show ?thesis using i by (simp add: m1 comp_def case_prod_beta)
qed

section \<open>What coverage does not see\<close>

text \<open>
  Two omitted parts in series join two simulated nets through a net of their own: neither bridges two simulated
  nets by itself, and the deck is called complete although the path is open in it.
\<close>

lemma chain_of_omissions_unseen:
  "(let chip = (\<lambda>d a b. sample_part d Generic None [(''1'', a), (''2'', b)]);
        cs = [sample_part ''R1'' Resistor (Some ''1k'') [(''1'', ''a''), (''2'', ''g'')],
              sample_part ''R2'' Resistor (Some ''1k'') [(''1'', ''b''), (''2'', ''g'')], chip ''U1'' ''a'' ''x'', chip ''U2'' ''x'' ''b'']
    in sc_complete (simulation_coverage cs) \<and> length (sc_omitted (simulation_coverage cs)) = 2 \<and>
       \<not> sc_complete (simulation_coverage (take 2 cs @ [chip ''U1'' ''a'' ''b''])))"
  by code_simp

text \<open>A gate without an input pin has no line in the deck and is no omission either.\<close>

lemma gate_without_inputs_unreported:
  "map_of (digitalModelName mp) (comp_id c) = Some m \<Longrightarrow> m \<noteq> [] \<Longrightarrow> is_logic_gate (comp_type c) \<Longrightarrow>
   gate_input_pins c = [] \<Longrightarrow> node_of nodes mp c ''out'' = Node x \<Longrightarrow>
   emit_digital_component c nodes mp = Inr None"
  by (simp add: emit_digital_component_def with_nodes_def Let_def)

lemma gates_counted_as_emitted: "list_all is_simulatable [LogicNot, LogicAnd, LogicOr]"
  by code_simp

end
