(* ===== verification/Design_Loop.thy ===== *)
theory Design_Loop
  imports Erc Spice_Deck Usage Scope_Manifest
begin

text \<open>
  \<open>packages/llm-core/src/design-core.ts\<close>, \<open>runDesignLoop\<close>: a circuit is generated, checked, simulated and judged,
  and sent back to the model with what is wrong, for a bounded number of rounds.

  What the host injects is the record \<open>design_env\<close>: the model, the simulations with the clock of a poll, the
  catalogue, the cancel flag, and the parts of the evaluation that are arguments of their own theories. An
  answer that may differ from round to round takes the round. A call that throws is an \<open>Inl\<close>; a loop that never
  returns is \<open>None\<close>. What a problem tells the model and what a note says are constructors. Where a report has
  fields nobody reads, they are left out.
\<close>

section \<open>What travels through the loop\<close>

datatype failure = Design_aborted | Bad_generation string | Other_error string

datatype analysis_kind = Op | Dc | Ac | Tran | Noise | Sens

record analysis =
  an_kind :: analysis_kind
  an_fourier :: "json option"
  an_tf :: "json option"
  an_rest :: json

record generated =
  gn_circuit :: circuit
  gn_analysis :: analysis
  gn_explanation :: "string option"
  gn_criteria :: "criterion list"

datatype poll_state = Job job_status | Poll_timeout

record status_report =
  sr_state :: poll_state
  sr_points :: "nat option"
  sr_infra :: bool
  sr_diagnosis :: "string option"
  sr_yield :: "yield_report option"

type_synonym data_series = "string \<times> (rat option \<times> rat option) list"

record sim_result =
  rs_metric_points :: "nat option"
  rs_meta_points :: "nat option"
  rs_series :: "data_series list"
  rs_fourier :: "(string \<times> rat option) list"
  rs_tf :: "(string \<times> rat option) option"
  rs_error :: "string option"

datatype problem =
    Erc_problem "erc_issue list"
  | Netlist_problem deck_refusal
  | Sim_problem poll_state "string option" "string option"
  | Spec_problem "assertion_result list"
  | Coverage_problem "dimension list"

datatype round_status = Erc_failed | Netlist_failed | Infra_error | Sim_was poll_state

datatype round_note =
    Erc_codes "erc_code list"
  | Deck_refused deck_refusal
  | Threw failure
  | No_capacity
  | Worker_fault
  | No_results_to_check
  | No_note
  | No_criteria
  | Criteria_unmet nat nat
  | Criteria_met
  | Dimension_missing "dimension list"

record round_record =
  hr_round :: nat
  hr_status :: round_status
  hr_points :: nat
  hr_job :: "string option"
  hr_note :: round_note

datatype warning =
    Capacity_unavailable
  | Not_runnable
  | Worker_unable
  | Results_missing
  | Erc_stuck
  | Spec_missed
  | Coverage_missed "dimension list"
  | Never_simulated

datatype yield_outcome = Yielded yield_report | Yield_incomplete | Yield_unavailable

record design_result =
  dr_ok :: bool
  dr_verified :: bool
  dr_inconclusive :: bool
  dr_circuit :: circuit
  dr_analysis :: analysis
  dr_explanation :: "string option"
  dr_rounds :: nat
  dr_history :: "round_record list"
  dr_job :: "string option"
  dr_status :: "round_status option"
  dr_run :: "sim_result option"
  dr_criteria :: "criterion list option"
  dr_assertions :: "assertion_result list option"
  dr_warning :: "warning option"
  dr_frequency_caveat :: bool
  dr_yield :: "yield_outcome option"
  dr_robustness :: "robustness_verdict option"
  dr_scope :: manifest

datatype checkpoint = Before_design | Before_round nat | Before_fix nat

record design_env =
  de_generate :: "failure + generated"
  de_fix :: "nat \<Rightarrow> circuit \<Rightarrow> analysis \<Rightarrow> problem \<Rightarrow> failure + generated"
  de_aborted :: "checkpoint \<Rightarrow> bool"
  de_grounded :: bool
  de_enrich :: "circuit \<Rightarrow> failure + circuit"
  de_new_sim :: "nat \<Rightarrow> deck \<Rightarrow> analysis \<Rightarrow> failure + string"
  de_new_yield :: "circuit \<Rightarrow> analysis \<Rightarrow> criterion list \<Rightarrow> failure + string"
  de_elapsed :: "string \<Rightarrow> nat \<Rightarrow> nat"
  de_status :: "string \<Rightarrow> nat \<Rightarrow> failure + status_report"
  de_result :: "string \<Rightarrow> failure + sim_result"
  de_intentful :: "failure \<Rightarrow> bool"
  de_timeout :: nat
  de_mc :: bool
  de_profile :: "string option"
  de_required :: "dimension set"
  de_readings :: Erc.readings
  de_generic :: "string \<rightharpoonup> model_def"
  de_number :: "rat \<Rightarrow> string"
  de_shown :: "rat \<Rightarrow> rat"
  de_summarize :: "data_series \<Rightarrow> analysis_kind \<Rightarrow> measurement"

section \<open>Polling\<close>

definition poll_backoff :: "nat \<Rightarrow> nat" where
  "poll_backoff attempt = min 2000 (150 * 2 ^ attempt)"

definition settled_state :: "poll_state \<Rightarrow> bool" where
  "settled_state s \<longleftrightarrow> s \<in> {Job Succeeded, Job Failed, Job TimedOut, Job Canceled}"

definition timed_out_report :: status_report where
  "timed_out_report = \<lparr>sr_state = Poll_timeout, sr_points = None, sr_infra = False, sr_diagnosis = None, sr_yield = None\<rparr>"

text \<open>\<open>elapsed k\<close> is the time since the start of the poll when its condition is evaluated for the \<open>k\<close>-th time.\<close>

partial_function (option) poll_from ::
  "nat \<Rightarrow> (nat \<Rightarrow> nat) \<Rightarrow> (nat \<Rightarrow> failure + status_report) \<Rightarrow> nat \<Rightarrow> (failure + status_report) option" where
  "poll_from timeout elapsed status k =
     (if elapsed k < timeout
      then (case status k of
              Inl f \<Rightarrow> Some (Inl f)
            | Inr s \<Rightarrow> if settled_state (sr_state s) then Some (Inr s) else poll_from timeout elapsed status (Suc k))
      else Some (Inr timed_out_report))"

declare poll_from.simps [code]

definition poll_job :: "design_env \<Rightarrow> string \<Rightarrow> (failure + status_report) option" where
  "poll_job e j = poll_from (de_timeout e) (de_elapsed e j) (de_status e j) 0"

section \<open>Models, criteria and overlays\<close>

fun resolve_generic_models :: "(string \<rightharpoonup> model_def) \<Rightarrow> string list \<Rightarrow> component list \<Rightarrow> model_def list" where
  "resolve_generic_models g known [] = []"
| "resolve_generic_models g known (c # cs) =
     (case comp_model c of
        None \<Rightarrow> resolve_generic_models g known cs
      | Some n \<Rightarrow>
          (case g n of
             Some m \<Rightarrow> if n \<noteq> [] \<and> n \<notin> set known then m # resolve_generic_models g (n # known) cs
               else resolve_generic_models g known cs
           | None \<Rightarrow> resolve_generic_models g known cs))"

definition attach_generic_models :: "(string \<rightharpoonup> model_def) \<Rightarrow> circuit \<Rightarrow> circuit" where
  "attach_generic_models g c =
     (let ms = (case models c of Some ms \<Rightarrow> ms | None \<Rightarrow> []);
          extra = resolve_generic_models g (map model_name ms) (components c)
      in if extra \<noteq> [] then c\<lparr>models := Some (ms @ extra)\<rparr> else c)"

definition criterion_key :: "criterion \<Rightarrow> string \<times> metric \<times> comparison \<times> rat" where
  "criterion_key c =
     ((if is_current_probe (cr_probe c)
       then ''i:'' @ (case current_key (cr_probe c) of Some k \<Rightarrow> k | None \<Rightarrow> js_lower (cr_probe c)) else cr_probe c),
      cr_metric c, cr_op c, cr_value c)"

text \<open>\<open>mergeCriteria\<close>: of what a fix returns, only what measures a wanted quantity that nothing measured yet.\<close>

definition merge_step ::
  "dimension set \<Rightarrow> criterion \<Rightarrow> (string \<times> metric \<times> comparison \<times> rat) list \<times> criterion list \<Rightarrow>
   (string \<times> metric \<times> comparison \<times> rat) list \<times> criterion list" where
  "merge_step wanted c st =
     (case st of (seen, merged) \<Rightarrow>
       if criterion_dimension c \<notin> wanted \<or> criterion_key c \<in> set seen then st
       else (criterion_key c # seen, merged @ [c]))"

definition merge_criteria :: "criterion list \<Rightarrow> criterion list \<Rightarrow> dimension set \<Rightarrow> criterion list" where
  "merge_criteria original returned required =
     (let wanted = required - criterion_dimension ` set original in
      if returned = [] \<or> wanted = {} then original
      else snd (fold (merge_step wanted) returned (map criterion_key original, original)))"

definition preserve_metric_overlays :: "analysis \<Rightarrow> analysis \<Rightarrow> criterion list \<Rightarrow> analysis" where
  "preserve_metric_overlays prev next cs =
     (let out =
        (if list_ex (\<lambda>c. cr_metric c = MThd) cs \<and> an_kind prev = Tran \<and> an_fourier prev \<noteq> None \<and>
            an_kind next = Tran \<and> an_fourier next = None
         then next\<lparr>an_fourier := an_fourier prev\<rparr> else next)
      in if list_ex (\<lambda>c. cr_metric c = MGain) cs \<and> an_kind prev = Op \<and> an_tf prev \<noteq> None \<and>
            an_kind out = Op \<and> an_tf out = None
         then out\<lparr>an_tf := an_tf prev\<rparr> else out)"

section \<open>The state of the loop\<close>

record loop_state =
  ls_circuit :: circuit
  ls_analysis :: analysis
  ls_explanation :: "string option"
  ls_criteria :: "criterion list"
  ls_assertions :: "assertion_result list"
  ls_probes :: "string list"
  ls_history :: "round_record list"

datatype step = Finished "failure + design_result" | Continue loop_state

definition current_probes :: "criterion list \<Rightarrow> string list" where
  "current_probes cs = map cr_probe (filter (\<lambda>c. is_current_probe (cr_probe c)) cs)"

definition push :: "round_record \<Rightarrow> loop_state \<Rightarrow> loop_state" where
  "push x s = s\<lparr>ls_history := ls_history s @ [x]\<rparr>"

definition apply_fix :: "design_env \<Rightarrow> nat \<Rightarrow> circuit \<Rightarrow> analysis \<Rightarrow> problem \<Rightarrow> failure + generated" where
  "apply_fix e r c a p =
     (case de_fix e r c a p of
        Inl f \<Rightarrow> Inl f
      | Inr g \<Rightarrow> Inr (g\<lparr>gn_circuit := attach_generic_models (de_generic e) (gn_circuit g)\<rparr>))"

text \<open>The fix of a round: the new criteria are merged and the overlays kept, after a look at the cancel flag.\<close>

definition fix_and_merge :: "design_env \<Rightarrow> nat \<Rightarrow> loop_state \<Rightarrow> problem \<Rightarrow> step" where
  "fix_and_merge e r s p =
     (if de_aborted e (Before_fix r) then Finished (Inl Design_aborted)
      else (case apply_fix e r (ls_circuit s) (ls_analysis s) p of
              Inl f \<Rightarrow> Finished (Inl f)
            | Inr g \<Rightarrow>
                (let cs = merge_criteria (ls_criteria s) (gn_criteria g) (de_required e)
                 in Continue (s\<lparr>ls_circuit := gn_circuit g, ls_explanation := gn_explanation g, ls_criteria := cs,
                      ls_analysis := preserve_metric_overlays (ls_analysis s) (gn_analysis g) cs,
                      ls_probes := current_probes cs\<rparr>))))"

text \<open>The fix after a refused deck takes the circuit and the analysis as they come, with no look at the flag.\<close>

definition fix_deck :: "design_env \<Rightarrow> nat \<Rightarrow> loop_state \<Rightarrow> problem \<Rightarrow> step" where
  "fix_deck e r s p =
     (case apply_fix e r (ls_circuit s) (ls_analysis s) p of
        Inl f \<Rightarrow> Finished (Inl f)
      | Inr g \<Rightarrow> Continue (s\<lparr>ls_circuit := gn_circuit g, ls_analysis := gn_analysis g, ls_explanation := gn_explanation g\<rparr>))"

section \<open>The results\<close>

definition robustness_scope_entry :: "robustness_verdict option \<Rightarrow> entry" where
  "robustness_scope_entry v =
     (case v of
        None \<Rightarrow> not_run (Some No_monte_carlo)
      | Some w \<Rightarrow> (if rv_tier w \<noteq> Unknown then run_entry else not_run) (Some (Robustness_verdict (rv_note w))))"

definition design_scope :: "bool \<Rightarrow> criterion list \<Rightarrow> robustness_verdict option \<Rightarrow> circuit \<Rightarrow> manifest" where
  "design_scope healthy cs robustness c =
     build_electrical_scope
       \<lparr>ei_simRan = healthy, ei_covered = (if healthy then map criterion_dimension cs else []),
        ei_power = Some (not_run (Some Stress_not_reviewed)), ei_robustness = Some (robustness_scope_entry robustness),
        ei_decoupling = None, ei_polarity = None, ei_coverage = Some (simulation_coverage (components c))\<rparr>"

definition sourced :: "design_env \<Rightarrow> circuit \<Rightarrow> failure + circuit" where
  "sourced e c = (if de_grounded e then de_enrich e c else Inr c)"

definition inconclusive :: "design_env \<Rightarrow> loop_state \<Rightarrow> warning \<Rightarrow> failure + design_result" where
  "inconclusive e s w =
     (case sourced e (ls_circuit s) of
        Inl f \<Rightarrow> Inl f
      | Inr c \<Rightarrow>
          Inr \<lparr>dr_ok = False, dr_verified = False, dr_inconclusive = True, dr_circuit = c, dr_analysis = ls_analysis s,
               dr_explanation = ls_explanation s, dr_rounds = length (ls_history s), dr_history = ls_history s,
               dr_job = None, dr_status = (if ls_history s = [] then None else Some (hr_status (last (ls_history s)))),
               dr_run = None, dr_criteria = None, dr_assertions = None, dr_warning = Some w, dr_frequency_caveat = False,
               dr_yield = None, dr_robustness = None, dr_scope = design_scope False [] None c\<rparr>)"

definition has_tolerance :: "circuit \<Rightarrow> bool" where
  "has_tolerance c \<longleftrightarrow> list_ex (\<lambda>p. case tolerance p of Some t \<Rightarrow> 0 < t | None \<Rightarrow> False) (components c)"

text \<open>\<open>runYieldAnalysis\<close>; the outer option is the poll's.\<close>

definition run_yield_analysis ::
  "design_env \<Rightarrow> bool \<Rightarrow> circuit \<Rightarrow> analysis \<Rightarrow> criterion list \<Rightarrow> yield_outcome option option" where
  "run_yield_analysis e mc c a cs =
     (if \<not> mc \<or> cs = [] \<or> \<not> has_tolerance c then Some None
      else (case de_new_yield e c a cs of
              Inl f \<Rightarrow> Some (Some Yield_unavailable)
            | Inr j \<Rightarrow>
                (case poll_job e j of
                   None \<Rightarrow> None
                 | Some (Inl f) \<Rightarrow> Some (Some Yield_unavailable)
                 | Some (Inr st) \<Rightarrow>
                     Some (Some (case sr_yield st of
                       Some y \<Rightarrow> if sr_state st = Job Succeeded \<and> (case yr_evaluated y of Some n \<Rightarrow> 0 < n | None \<Rightarrow> False)
                         then Yielded y else Yield_incomplete
                     | None \<Rightarrow> Yield_incomplete)))))"

definition blank_report :: yield_report where
  "blank_report = \<lparr>yr_yield = None, yr_low = None, yr_high = None, yr_evaluated = None, yr_errored = None\<rparr>"

definition as_report :: "yield_outcome option \<Rightarrow> yield_report option" where
  "as_report y = map_option (\<lambda>x. case x of Yielded r \<Rightarrow> r | _ \<Rightarrow> blank_report) y"

definition succeed ::
  "design_env \<Rightarrow> nat \<Rightarrow> loop_state \<Rightarrow> string \<Rightarrow> status_report \<Rightarrow> sim_result \<Rightarrow> (failure + design_result) option" where
  "succeed e r s j st res =
     (case sourced e (ls_circuit s) of
        Inl f \<Rightarrow> Some (Inl f)
      | Inr c \<Rightarrow>
          (case run_yield_analysis e (de_mc e) c (ls_analysis s) (ls_criteria s) of
             None \<Rightarrow> None
           | Some y \<Rightarrow>
               (let v = classify_robustness (as_report y) (de_profile e)
                in Some (Inr \<lparr>dr_ok = True, dr_verified = (ls_criteria s \<noteq> []), dr_inconclusive = False, dr_circuit = c,
                     dr_analysis = ls_analysis s, dr_explanation = ls_explanation s, dr_rounds = r,
                     dr_history = ls_history s, dr_job = Some j, dr_status = Some (Sim_was (sr_state st)),
                     dr_run = Some res, dr_criteria = Some (ls_criteria s), dr_assertions = Some (ls_assertions s),
                     dr_warning = None, dr_frequency_caveat = Frequency \<in> de_required e, dr_yield = y,
                     dr_robustness = Some v, dr_scope = design_scope True (ls_criteria s) (Some v) c\<rparr>))))"

definition give_up :: "design_env \<Rightarrow> loop_state \<Rightarrow> failure + design_result" where
  "give_up e s =
     (case sourced e (ls_circuit s) of
        Inl f \<Rightarrow> Inl f
      | Inr c \<Rightarrow>
          (let final = (if ls_history s = [] then None else Some (last (ls_history s)));
               status = map_option hr_status final;
               healthy = (case final of Some x \<Rightarrow> hr_status x = Sim_was (Job Succeeded) \<and> 0 < hr_points x | None \<Rightarrow> False);
               missed = (healthy \<and> ls_assertions s \<noteq> [] \<and> list_ex (\<lambda>a. \<not> ar_pass a) (ls_assertions s));
               uncovered = (if healthy then uncovered_required_dimensions (de_required e) (ls_criteria s) else [])
           in Inr \<lparr>dr_ok = False, dr_verified = False, dr_inconclusive = False, dr_circuit = c, dr_analysis = ls_analysis s,
                dr_explanation = ls_explanation s, dr_rounds = length (ls_history s), dr_history = ls_history s,
                dr_job = None, dr_status = status, dr_run = None, dr_criteria = Some (ls_criteria s),
                dr_assertions = Some (ls_assertions s),
                dr_warning = Some (if status = Some Erc_failed then Erc_stuck else if missed then Spec_missed
                  else if healthy \<and> uncovered \<noteq> [] then Coverage_missed uncovered else Never_simulated),
                dr_frequency_caveat = Frequency \<in> de_required e, dr_yield = None, dr_robustness = None,
                dr_scope = design_scope healthy (ls_criteria s) None c\<rparr>))"

section \<open>A round\<close>

datatype sim_end = Rethrown failure | Broken failure | Unavailable string poll_state | Measured_run string status_report sim_result

definition thrown_sim :: "design_env \<Rightarrow> failure \<Rightarrow> sim_end" where
  "thrown_sim e f = (if de_intentful e f then Rethrown f else Broken f)"

definition run_sim :: "design_env \<Rightarrow> nat \<Rightarrow> deck \<Rightarrow> analysis \<Rightarrow> sim_end option" where
  "run_sim e r d a =
     (case de_new_sim e r d a of
        Inl f \<Rightarrow> Some (thrown_sim e f)
      | Inr j \<Rightarrow>
          (case poll_job e j of
             None \<Rightarrow> None
           | Some (Inl f) \<Rightarrow> Some (thrown_sim e f)
           | Some (Inr st) \<Rightarrow>
               if sr_state st \<in> {Poll_timeout, Job Canceled} then Some (Unavailable j (sr_state st))
               else Some (case de_result e j of Inl f \<Rightarrow> thrown_sim e f | Inr res \<Rightarrow> Measured_run j st res)))"

definition points_count :: "status_report \<Rightarrow> sim_result \<Rightarrow> nat" where
  "points_count st res =
     (case sr_points st of Some n \<Rightarrow> n | None \<Rightarrow>
       (case rs_metric_points res of Some n \<Rightarrow> n | None \<Rightarrow> (case rs_meta_points res of Some n \<Rightarrow> n | None \<Rightarrow> 0)))"

definition sim_healthy :: "status_report \<Rightarrow> sim_result \<Rightarrow> bool" where
  "sim_healthy st res \<longleftrightarrow> sr_state st = Job Succeeded \<and> 0 < points_count st res"

definition measured_series :: "design_env \<Rightarrow> analysis_kind \<Rightarrow> sim_result \<Rightarrow> measurement list" where
  "measured_series e k res =
     attach_transfer_function (rs_tf res) (attach_fourier_thd (rs_fourier res) (map (\<lambda>x. de_summarize e x k) (rs_series res)))"

definition judge_run :: "design_env \<Rightarrow> circuit \<Rightarrow> analysis \<Rightarrow> criterion list \<Rightarrow> sim_result \<Rightarrow> assertion_result list" where
  "judge_run e c a cs res =
     evaluate_assertions (de_number e) (de_shown e) (measured_series e (an_kind a) res) cs True
       (Some (Of_circuit (components c) (nets c)))"

definition judge_round :: "design_env \<Rightarrow> nat \<Rightarrow> nat \<Rightarrow> loop_state \<Rightarrow> string \<Rightarrow> status_report \<Rightarrow> sim_result \<Rightarrow> step option" where
  "judge_round e m r s0 j st res =
     (let points = points_count st res; healthy = sim_healthy st res;
          s1 = (if healthy \<and> ls_criteria s0 \<noteq> []
                then s0\<lparr>ls_assertions := judge_run e (ls_circuit s0) (ls_analysis s0) (ls_criteria s0) res\<rparr> else s0);
          met = list_all ar_pass (ls_assertions s1);
          uncovered = (if healthy \<and> met then uncovered_required_dimensions (de_required e) (ls_criteria s1) else []);
          s = push \<lparr>hr_round = r, hr_status = Sim_was (sr_state st), hr_points = points, hr_job = Some j,
                hr_note = (if \<not> healthy then No_note else if ls_criteria s1 = [] then No_criteria
                  else if \<not> met
                  then Criteria_unmet (length (filter (\<lambda>a. \<not> ar_pass a) (ls_assertions s1))) (length (ls_assertions s1))
                  else if uncovered = [] then Criteria_met else Dimension_missing uncovered)\<rparr> s1
      in if healthy \<and> met \<and> uncovered = [] then map_option Finished (succeed e r s j st res)
         else if m \<le> r then Some (Continue s)
         else Some (fix_and_merge e r s
                (if \<not> healthy then Sim_problem (sr_state st) (rs_error res) (sr_diagnosis st)
                 else if \<not> met then Spec_problem (filter (\<lambda>a. \<not> ar_pass a) (ls_assertions s))
                 else Coverage_problem uncovered)))"

definition settle_round :: "design_env \<Rightarrow> nat \<Rightarrow> nat \<Rightarrow> loop_state \<Rightarrow> sim_end \<Rightarrow> step option" where
  "settle_round e m r s x =
     (case x of
        Rethrown f \<Rightarrow> Some (Finished (Inl f))
      | Broken f \<Rightarrow>
          Some (Finished (inconclusive e
            (push \<lparr>hr_round = r, hr_status = Infra_error, hr_points = 0, hr_job = None, hr_note = Threw f\<rparr> s) Not_runnable))
      | Unavailable j p \<Rightarrow>
          Some (Finished (inconclusive e
            (push \<lparr>hr_round = r, hr_status = Sim_was p, hr_points = 0, hr_job = Some j, hr_note = No_capacity\<rparr> s)
            Capacity_unavailable))
      | Measured_run j st res \<Rightarrow>
          if sr_state st \<noteq> Job Succeeded \<and> sr_infra st
          then Some (Finished (inconclusive e
            (push \<lparr>hr_round = r, hr_status = Sim_was (sr_state st), hr_points = 0, hr_job = Some j, hr_note = Worker_fault\<rparr> s)
            Worker_unable))
          else if sim_healthy st res \<and> ls_criteria s \<noteq> [] \<and> rs_series res = [] \<and>
            (case rs_error res of Some x \<Rightarrow> x \<noteq> [] | None \<Rightarrow> False)
          then Some (Finished (inconclusive e
            (push \<lparr>hr_round = r, hr_status = Sim_was (sr_state st), hr_points = points_count st res, hr_job = Some j,
              hr_note = No_results_to_check\<rparr> s) Results_missing))
          else judge_round e m r s j st res)"

definition loop_deck :: "design_env \<Rightarrow> circuit \<Rightarrow> analysis \<Rightarrow> string list \<Rightarrow> deck_refusal + deck" where
  "loop_deck e c a probes =
     generate_deck (de_number e) (de_generic e) c (an_kind a = Ac)
       \<lparr>op_probes = None, op_extra = probes, op_includes = [], op_jobDir = False, op_logicVoltage = None\<rparr>"

definition erc_errors :: "design_env \<Rightarrow> circuit \<Rightarrow> erc_issue list" where
  "erc_errors e c = filter (\<lambda>i. issue_severity i = Error) (issues (run_erc (de_readings e) c))"

definition run_round :: "design_env \<Rightarrow> nat \<Rightarrow> nat \<Rightarrow> loop_state \<Rightarrow> step option" where
  "run_round e m r s =
     (if de_aborted e (Before_round r) then Some (Finished (Inl Design_aborted))
      else if erc_errors e (ls_circuit s) \<noteq> []
      then (let es = erc_errors e (ls_circuit s);
                s1 = push \<lparr>hr_round = r, hr_status = Erc_failed, hr_points = 0, hr_job = None,
                       hr_note = Erc_codes (map issue_code es)\<rparr> s
            in Some (if m \<le> r then Continue s1 else fix_and_merge e r s1 (Erc_problem es)))
      else (case loop_deck e (ls_circuit s) (ls_analysis s) (ls_probes s) of
              Inl d \<Rightarrow>
                (let s1 = push \<lparr>hr_round = r, hr_status = Netlist_failed, hr_points = 0, hr_job = None,
                            hr_note = Deck_refused d\<rparr> s
                 in Some (if m \<le> r then Continue s1 else fix_deck e r s1 (Netlist_problem d)))
            | Inr d \<Rightarrow>
                (case run_sim e r d (ls_analysis s) of None \<Rightarrow> None | Some x \<Rightarrow> settle_round e m r s x)))"

fun rounds_from :: "design_env \<Rightarrow> nat \<Rightarrow> nat \<Rightarrow> nat \<Rightarrow> loop_state \<Rightarrow> (failure + design_result) option" where
  "rounds_from e m r 0 s = Some (give_up e s)"
| "rounds_from e m r (Suc k) s =
     (case run_round e m r s of
        None \<Rightarrow> None
      | Some (Finished o1) \<Rightarrow> Some o1
      | Some (Continue s1) \<Rightarrow> rounds_from e m (Suc r) k s1)"

definition max_rounds :: "int option \<Rightarrow> nat" where
  "max_rounds n = nat (min (max (case n of Some k \<Rightarrow> k | None \<Rightarrow> 2) 1) 4)"

record design_seed =
  sd_circuit :: circuit
  sd_analysis :: "analysis option"
  sd_criteria :: "criterion list option"
  sd_explanation :: "string option"

definition start_state :: "design_env \<Rightarrow> design_seed option \<Rightarrow> failure + loop_state" where
  "start_state e seed =
     (case (case seed of
              Some s \<Rightarrow> Inr \<lparr>gn_circuit = sd_circuit s,
                gn_analysis = (case sd_analysis s of Some a \<Rightarrow> a
                  | None \<Rightarrow> \<lparr>an_kind = Op, an_fourier = None, an_tf = None, an_rest = JObj []\<rparr>),
                gn_explanation = sd_explanation s, gn_criteria = (case sd_criteria s of Some cs \<Rightarrow> cs | None \<Rightarrow> [])\<rparr>
            | None \<Rightarrow> de_generate e) of
        Inl f \<Rightarrow> Inl f
      | Inr g \<Rightarrow>
          Inr \<lparr>ls_circuit = attach_generic_models (de_generic e) (gn_circuit g), ls_analysis = gn_analysis g,
               ls_explanation = gn_explanation g, ls_criteria = gn_criteria g, ls_assertions = [],
               ls_probes = current_probes (gn_criteria g), ls_history = []\<rparr>)"

definition run_design_loop :: "design_env \<Rightarrow> design_seed option \<Rightarrow> int option \<Rightarrow> (failure + design_result) option" where
  "run_design_loop e seed n =
     (if de_aborted e Before_design then Some (Inl Design_aborted)
      else (case start_state e seed of
              Inl f \<Rightarrow> Some (Inl f)
            | Inr s \<Rightarrow> rounds_from e (max_rounds n) 1 (max_rounds n) s))"

section \<open>The loop returns\<close>

text \<open>A timer does not fire before its time.\<close>

definition paced :: "(nat \<Rightarrow> nat) \<Rightarrow> bool" where
  "paced elapsed \<longleftrightarrow> (\<forall>k. elapsed k + poll_backoff k \<le> elapsed (Suc k))"

lemma poll_backoff_pos: "0 < poll_backoff k"
  by (simp add: poll_backoff_def)

lemma poll_returns:
  assumes "paced elapsed"
  shows "\<exists>x. poll_from timeout elapsed status k = Some x"
proof (induction "timeout - elapsed k" arbitrary: k rule: less_induct)
  case less
  show ?case
  proof (cases "elapsed k < timeout")
    case True
    have "elapsed k < elapsed (Suc k)"
      using assms poll_backoff_pos [of k] by (metis paced_def add_less_cancel_left add_0_right less_le_trans)
    then have "\<exists>x. poll_from timeout elapsed status (Suc k) = Some x"
      using less [of "Suc k"] True by simp
    then show ?thesis using True by (subst poll_from.simps) (simp split: sum.split)
  qed (subst poll_from.simps, simp)
qed

lemma total_choice: "(\<And>x. \<exists>y. f x = Some y) \<Longrightarrow> \<exists>g. \<forall>x. f x = Some (g x)"
  by (rule exI [of _ "\<lambda>x. the (f x)"]) (metis option.sel)

lemma polls_total:
  assumes "\<And>j. paced (de_elapsed e j)"
  shows "\<exists>g. \<forall>j. poll_job e j = Some (g j)"
  using poll_returns [OF assms] by (intro total_choice) (simp add: poll_job_def)

lemma run_sim_returns: "\<forall>j. poll_job e j = Some (g j) \<Longrightarrow> \<exists>y. run_sim e r d a = Some y"
  by (auto simp: run_sim_def split: sum.split)

lemma succeed_returns: "\<forall>j. poll_job e j = Some (g j) \<Longrightarrow> \<exists>y. succeed e r s j st res = Some y"
  by (auto simp: succeed_def run_yield_analysis_def Let_def split: sum.split option.split)

lemma settle_round_returns:
  assumes "\<forall>j. poll_job e j = Some (g j)"
  shows "\<exists>y. settle_round e m r s x = Some y"
proof -
  have "\<exists>y. judge_round e m r s j st res = Some y" for j st res
    using succeed_returns [OF assms] by (auto simp: judge_round_def Let_def)
  then show ?thesis by (auto simp: settle_round_def split: sim_end.split)
qed

lemma run_round_returns:
  assumes "\<forall>j. poll_job e j = Some (g j)"
  shows "\<exists>y. run_round e m r s = Some y"
proof (cases "loop_deck e (ls_circuit s) (ls_analysis s) (ls_probes s)")
  case (Inl d)
  then show ?thesis by (simp add: run_round_def Let_def)
next
  case (Inr d)
  obtain x where "run_sim e r d (ls_analysis s) = Some x" using run_sim_returns [OF assms] by blast
  then show ?thesis using Inr settle_round_returns [OF assms] by (simp add: run_round_def Let_def)
qed

text \<open>
  \<^bold>\<open>C38.\<close> The design loop returns: however the simulator, the model and the cancel flag answer, a poll whose
  timers do not fire early ends at its time limit, and the rounds are bounded.
\<close>

theorem design_loop_returns:
  assumes "\<And>j. paced (de_elapsed e j)"
  shows "\<exists>x. run_design_loop e seed n = Some x"
proof -
  obtain g where g: "\<forall>j. poll_job e j = Some (g j)" using polls_total [OF assms] by blast
  have "\<exists>x. rounds_from e m r k s = Some x" for m r k s
  proof (induction k arbitrary: r s)
    case (Suc k)
    obtain st where "run_round e m r s = Some st" using run_round_returns [OF g] by blast
    then show ?case using Suc.IH by (simp split: step.split)
  qed simp
  then show ?thesis by (auto simp: run_design_loop_def split: sum.split)
qed

section \<open>The invariant of the rounds\<close>

lemma max_rounds_bounds: "1 \<le> max_rounds n \<and> max_rounds n \<le> 4"
  by (auto simp: max_rounds_def split: option.split)

definition round_ok :: "design_env \<Rightarrow> criterion list \<Rightarrow> nat \<Rightarrow> loop_state \<Rightarrow> bool" where
  "round_ok e cs r s \<longleftrightarrow>
     map hr_round (ls_history s) = [1..<r] \<and> prefix cs (ls_criteria s) \<and> ls_probes s = current_probes (ls_criteria s)"

lemma merge_step_prefix: "prefix cs (snd st) \<Longrightarrow> prefix cs (snd (merge_step w c st))"
  by (auto simp: merge_step_def prefix_def split: prod.split)

lemma merge_criteria_prefix: "prefix cs (merge_criteria cs returned required)"
proof -
  have "prefix cs (snd (fold (merge_step w) returned st))" if "prefix cs (snd st)" for w st
    using that by (induction returned arbitrary: st) (simp_all add: merge_step_prefix)
  then show ?thesis by (simp add: merge_criteria_def Let_def)
qed

lemma rounds_rule:
  assumes "I r s" "r + k = Suc m" "\<And>s. I (Suc m) s \<Longrightarrow> Q (give_up e s)"
    and round: "\<And>r s st. r \<le> m \<Longrightarrow> I r s \<Longrightarrow> run_round e m r s = Some st \<Longrightarrow>
      (case st of Finished x \<Rightarrow> Q x | Continue s1 \<Rightarrow> I (Suc r) s1)"
  shows "rounds_from e m r k s = Some x \<Longrightarrow> Q x"
  using assms(1,2)
proof (induction k arbitrary: r s)
  case 0
  then show ?case using assms(3) [of s] by simp
next
  case (Suc k)
  obtain st where st: "run_round e m r s = Some st" using Suc.prems(1) by (auto split: option.splits)
  note c = round [of r s st, OF _ Suc.prems(2) st]
  show ?case
  proof (cases st)
    case (Finished y)
    then show ?thesis using c Suc.prems by (simp add: st)
  next
    case (Continue s1)
    then show ?thesis using c Suc.IH [of "Suc r" s1] Suc.prems by (simp add: st)
  qed
qed

lemma history_snoc: "1 \<le> r \<Longrightarrow> map hr_round h = [1..<r] \<Longrightarrow> hr_round x = r \<Longrightarrow> map hr_round (h @ [x]) = [1..<Suc r]"
  by (simp add: upt_Suc_append)

text \<open>A round that goes on leaves the invariant, and one that ends reports its own history.\<close>

definition reported :: "criterion list \<Rightarrow> nat \<Rightarrow> failure + design_result \<Rightarrow> bool" where
  "reported cs m x \<longleftrightarrow>
     (case x of Inl f \<Rightarrow> True
      | Inr d \<Rightarrow> map hr_round (dr_history d) = [1..<Suc (dr_rounds d)] \<and> 1 \<le> dr_rounds d \<and> dr_rounds d \<le> m \<and>
          (case dr_criteria d of None \<Rightarrow> \<not> dr_verified d | Some c \<Rightarrow> prefix cs c))"

lemma length_history: "map hr_round h = [1..<Suc r] \<Longrightarrow> length h = r"
  by (metis length_map length_upt diff_Suc_1)

lemma inconclusive_reported:
  "map hr_round (ls_history s) = [1..<Suc r] \<Longrightarrow> 1 \<le> r \<Longrightarrow> r \<le> m \<Longrightarrow> reported cs m (inconclusive e s w)"
  using length_history [of "ls_history s" r] by (auto simp: inconclusive_def reported_def split: sum.split)

lemma give_up_reported: "round_ok e cs (Suc m) s \<Longrightarrow> 1 \<le> m \<Longrightarrow> reported cs m (give_up e s)"
  using length_history [of "ls_history s" m] by (auto simp: give_up_def reported_def round_ok_def Let_def split: sum.split)

lemma succeed_reported:
  "round_ok e cs (Suc r) s \<Longrightarrow> 1 \<le> r \<Longrightarrow> r \<le> m \<Longrightarrow> succeed e r s j st res = Some x \<Longrightarrow> reported cs m x"
  by (auto simp: succeed_def reported_def round_ok_def Let_def split: sum.splits option.splits)

lemma fix_and_merge_ok:
  "round_ok e cs r s \<Longrightarrow> (case fix_and_merge e k s p of Finished x \<Rightarrow> reported cs m x | Continue s1 \<Rightarrow> round_ok e cs r s1)"
  using prefix_order.trans [OF _ merge_criteria_prefix, of cs "ls_criteria s"]
  by (auto simp: fix_and_merge_def round_ok_def reported_def Let_def split: sum.split)

lemma fix_deck_ok:
  "round_ok e cs r s \<Longrightarrow> (case fix_deck e k s p of Finished x \<Rightarrow> reported cs m x | Continue s1 \<Rightarrow> round_ok e cs r s1)"
  by (auto simp: fix_deck_def round_ok_def reported_def split: sum.split)

lemma pushed_ok: "round_ok e cs r s \<Longrightarrow> 1 \<le> r \<Longrightarrow> hr_round x = r \<Longrightarrow> round_ok e cs (Suc r) (push x s)"
  by (simp add: round_ok_def push_def)

lemma judge_round_ok:
  assumes "round_ok e cs r s" "1 \<le> r" "r \<le> m" "judge_round e m r s j st res = Some x"
  shows "case x of Finished y \<Rightarrow> reported cs m y | Continue s1 \<Rightarrow> round_ok e cs (Suc r) s1"
proof -
  define s1 where "s1 = (if sim_healthy st res \<and> ls_criteria s \<noteq> []
    then s\<lparr>ls_assertions := judge_run e (ls_circuit s) (ls_analysis s) (ls_criteria s) res\<rparr> else s)"
  have s1: "round_ok e cs r s1" using assms(1) by (simp add: s1_def round_ok_def)
  have p: "round_ok e cs (Suc r) (push z s1)" if "hr_round z = r" for z
    by (rule pushed_ok [OF s1 assms(2) that])
  have good: "reported cs m y" if "succeed e r (push z s1) j st res = Some y" "hr_round z = r" for y z
    by (rule succeed_reported [OF p [OF that(2)] assms(2,3) that(1)])
  show ?thesis
    using assms(4) p good unfolding judge_round_def Let_def s1_def [symmetric]
    by (auto split: if_splits intro!: fix_and_merge_ok)
qed

lemma settle_round_ok:
  assumes "round_ok e cs r s" "1 \<le> r" "r \<le> m" "settle_round e m r s z = Some x"
  shows "case x of Finished y \<Rightarrow> reported cs m y | Continue s1 \<Rightarrow> round_ok e cs (Suc r) s1"
proof -
  have "map hr_round (ls_history (push h s)) = [1..<Suc r]" if "hr_round h = r" for h
    using pushed_ok [OF assms(1,2) that] by (simp add: round_ok_def)
  then have i: "reported cs m (inconclusive e (push h s) w)" if "hr_round h = r" for h w
    using that by (intro inconclusive_reported [OF _ assms(2,3)])
  show ?thesis
    using assms(4) i judge_round_ok [OF assms(1-3)]
    by (auto simp: settle_round_def reported_def split: sim_end.splits if_splits)
qed

lemma run_round_ok:
  assumes "round_ok e cs r s" "1 \<le> r" "r \<le> m" "run_round e m r s = Some x"
  shows "case x of Finished y \<Rightarrow> reported cs m y | Continue s1 \<Rightarrow> round_ok e cs (Suc r) s1"
proof -
  have p: "round_ok e cs (Suc r) (push z s)" if "hr_round z = r" for z
    by (rule pushed_ok [OF assms(1,2) that])
  show ?thesis
    using assms(4) p settle_round_ok [OF assms(1-3)]
    by (auto simp: run_round_def Let_def reported_def [of _ _ "Inl _"] split: if_splits sum.splits option.splits
        intro!: fix_and_merge_ok fix_deck_ok)
qed

lemma loop_reported:
  assumes "run_design_loop e seed n = Some x" "start_state e seed = Inr s"
  shows "reported (ls_criteria s) (max_rounds n) x"
proof (cases "de_aborted e Before_design")
  case True
  then show ?thesis using assms(1) by (auto simp: run_design_loop_def reported_def)
next
  case False
  then have run: "rounds_from e (max_rounds n) 1 (max_rounds n) s = Some x"
    using assms by (simp add: run_design_loop_def)
  have m: "1 \<le> max_rounds n" using max_rounds_bounds by blast
  show ?thesis
  proof (rule rounds_rule [where I = "\<lambda>r s1. 1 \<le> r \<and> round_ok e (ls_criteria s) r s1", OF _ _ _ _ run])
    show "(1 :: nat) \<le> 1 \<and> round_ok e (ls_criteria s) 1 s"
      using assms(2) by (auto simp: start_state_def round_ok_def split: sum.splits)
  qed (use give_up_reported m run_round_ok in \<open>fastforce split: step.split\<close>)+
qed

text \<open>
  \<^bold>\<open>C37.\<close> Every result is accounted for: its rounds, at most four, are numbered without a gap, and the criteria it
  was judged by begin with the ones the design started with, unchanged: no round can drop or relax a criterion.
\<close>

theorem criteria_never_relaxed:
  assumes "run_design_loop e seed n = Some (Inr d)" "start_state e seed = Inr s"
  shows "map hr_round (dr_history d) = [1..<Suc (dr_rounds d)] \<and> dr_rounds d \<in> {1..4} \<and>
    (case dr_criteria d of None \<Rightarrow> \<not> dr_verified d | Some cs \<Rightarrow> prefix (ls_criteria s) cs)"
  using loop_reported [OF assms] max_rounds_bounds [of n] by (auto simp: reported_def split: option.splits)

section \<open>A verified design is one that was checked\<close>

definition verified_by ::
  "design_env \<Rightarrow> design_result \<Rightarrow> criterion list \<Rightarrow> circuit \<Rightarrow> deck \<Rightarrow> string \<Rightarrow> status_report \<Rightarrow> sim_result \<Rightarrow> bool" where
  "verified_by e d cs c dk j st res \<longleftrightarrow>
     dr_criteria d = Some cs \<and> cs \<noteq> [] \<and> uncovered_required_dimensions (de_required e) cs = [] \<and>
     erc_errors e c = [] \<and> loop_deck e c (dr_analysis d) (current_probes cs) = Inr dk \<and>
     de_new_sim e (dr_rounds d) dk (dr_analysis d) = Inr j \<and> poll_job e j = Some (Inr st) \<and> de_result e j = Inr res \<and>
     sim_healthy st res \<and> dr_assertions d = Some (judge_run e c (dr_analysis d) cs res) \<and>
     list_all ar_pass (judge_run e c (dr_analysis d) cs res) \<and> sourced e c = Inr (dr_circuit d)"

definition sound :: "design_env \<Rightarrow> failure + design_result \<Rightarrow> bool" where
  "sound e x \<longleftrightarrow>
     (case x of Inl f \<Rightarrow> True
      | Inr d \<Rightarrow> dr_verified d \<longrightarrow> (\<exists>cs c dk j st res. verified_by e d cs c dk j st res))"

lemma unverified_sound: "sound e (Inl f)" "\<not> dr_verified d \<Longrightarrow> sound e (Inr d)"
  by (simp_all add: sound_def)

lemma inconclusive_sound: "sound e (inconclusive e s w)"
  by (auto simp: inconclusive_def sound_def split: sum.split)

lemma give_up_sound: "sound e (give_up e s)"
  by (auto simp: give_up_def sound_def Let_def split: sum.split)

lemma fixes_sound:
  "case fix_and_merge e k s p of Finished x \<Rightarrow> sound e x | Continue s1 \<Rightarrow> True"
  "case fix_deck e k s p of Finished x \<Rightarrow> sound e x | Continue s1 \<Rightarrow> True"
  by (auto simp: fix_and_merge_def fix_deck_def sound_def Let_def split: sum.split)

lemma succeed_facts:
  assumes "succeed e r s j st res = Some (Inr d)" "dr_verified d"
  shows "sourced e (ls_circuit s) = Inr (dr_circuit d)" "dr_criteria d = Some (ls_criteria s)" "ls_criteria s \<noteq> []"
    "dr_assertions d = Some (ls_assertions s)" "dr_analysis d = ls_analysis s" "dr_rounds d = r"
  using assms by (auto simp: succeed_def Let_def split: sum.splits option.splits)

lemma judge_round_sound:
  assumes "erc_errors e (ls_circuit s) = []" "loop_deck e (ls_circuit s) (ls_analysis s) (current_probes (ls_criteria s)) = Inr dk"
    and "de_new_sim e r dk (ls_analysis s) = Inr j" "poll_job e j = Some (Inr st)" "de_result e j = Inr res"
    and "judge_round e m r s j st res = Some x"
  shows "case x of Finished y \<Rightarrow> sound e y | Continue s1 \<Rightarrow> True"
proof -
  define s1 where "s1 = (if sim_healthy st res \<and> ls_criteria s \<noteq> []
    then s\<lparr>ls_assertions := judge_run e (ls_circuit s) (ls_analysis s) (ls_criteria s) res\<rparr> else s)"
  have good: "sound e y"
    if y: "succeed e r (push z s1) j st res = Some y" and h: "sim_healthy st res" "list_all ar_pass (ls_assertions s1)"
      "uncovered_required_dimensions (de_required e) (ls_criteria s1) = []" for y z
  proof (cases y)
    case (Inr d)
    show ?thesis
    proof (cases "dr_verified d")
      case True
      note f = succeed_facts [OF y [unfolded Inr] True, unfolded push_def, simplified]
      have "ls_criteria s \<noteq> []" using f(3) by (simp add: s1_def split: if_splits)
      then have s1': "s1 = s\<lparr>ls_assertions := judge_run e (ls_circuit s) (ls_analysis s) (ls_criteria s) res\<rparr>"
        using h(1) by (simp add: s1_def)
      have "verified_by e d (ls_criteria s) (ls_circuit s) dk j st res"
        unfolding verified_by_def using f h assms(1-5) by (simp add: s1')
      then show ?thesis unfolding Inr sound_def by (simp only: sum.case) blast
    qed (simp add: Inr unverified_sound)
  qed (simp add: unverified_sound)
  show ?thesis
    using assms(6) good fixes_sound(1) unfolding judge_round_def Let_def s1_def [symmetric]
    by (auto split: if_splits)
qed

lemma run_round_sound:
  assumes "ls_probes s = current_probes (ls_criteria s)" "run_round e m r s = Some x"
  shows "case x of Finished y \<Rightarrow> sound e y | Continue s1 \<Rightarrow> True"
proof (cases "de_aborted e (Before_round r) \<or> erc_errors e (ls_circuit s) \<noteq> []")
  case True
  then show ?thesis using assms(2) fixes_sound(1) by (auto simp: run_round_def Let_def unverified_sound split: if_splits)
next
  case False
  show ?thesis
  proof (cases "loop_deck e (ls_circuit s) (ls_analysis s) (ls_probes s)")
    case (Inl f)
    then show ?thesis using assms(2) False fixes_sound(2) by (auto simp: run_round_def Let_def split: if_splits)
  next
    case (Inr dk)
    then obtain z where z: "run_sim e r dk (ls_analysis s) = Some z" "settle_round e m r s z = Some x"
      using assms(2) False by (auto simp: run_round_def split: option.splits)
    show ?thesis
    proof (cases z)
      case (Measured_run j st res)
      then have run: "de_new_sim e r dk (ls_analysis s) = Inr j" "poll_job e j = Some (Inr st)" "de_result e j = Inr res"
        using z(1) by (auto simp: run_sim_def thrown_sim_def split: sum.splits option.splits if_splits)
      show ?thesis
        using z(2) judge_round_sound [OF _ _ run, where m = m and x = x] False Inr assms(1)
        by (auto simp: settle_round_def Measured_run inconclusive_sound split: if_splits)
    qed (use z(2) in \<open>auto simp: settle_round_def inconclusive_sound unverified_sound\<close>)
  qed
qed

lemma loop_sound:
  assumes "run_design_loop e seed n = Some x"
  shows "sound e x"
proof (cases "de_aborted e Before_design")
  case False
  show ?thesis
  proof (cases "start_state e seed")
    case (Inr s)
    then have run: "rounds_from e (max_rounds n) 1 (max_rounds n) s = Some x"
      using assms False by (simp add: run_design_loop_def)
    have m: "1 \<le> max_rounds n" using max_rounds_bounds by blast
    show ?thesis
    proof (rule rounds_rule [where I = "\<lambda>r s1. 1 \<le> r \<and> round_ok e (ls_criteria s) r s1", OF _ _ _ _ run])
      show "(1 :: nat) \<le> 1 \<and> round_ok e (ls_criteria s) 1 s"
        using Inr by (auto simp: start_state_def round_ok_def split: sum.splits)
      fix r s1 st
      assume r: "r \<le> max_rounds n" "1 \<le> r \<and> round_ok e (ls_criteria s) r s1" "run_round e (max_rounds n) r s1 = Some st"
      then have "ls_probes s1 = current_probes (ls_criteria s1)" by (simp add: round_ok_def)
      from run_round_sound [OF this r(3)] run_round_ok [OF conjunct2 [OF r(2)] conjunct1 [OF r(2)] r(1,3)]
      show "case st of Finished x \<Rightarrow> sound e x | Continue s2 \<Rightarrow> 1 \<le> Suc r \<and> round_ok e (ls_criteria s) (Suc r) s2"
        by (simp split: step.splits)
    qed (use m give_up_sound in simp_all)
  next
    case (Inl f)
    then show ?thesis using assms False by (auto simp: run_design_loop_def unverified_sound)
  qed
qed (use assms in \<open>auto simp: run_design_loop_def unverified_sound\<close>)

text \<open>
  \<^bold>\<open>C36.\<close> What is called verified was checked, in the last round and on the circuit that is returned but for its
  sourcing: no electrical rule is violated, the deck was made from that circuit with the currents its criteria
  name, its simulation succeeded with data, and on that very run every criterion passes. There is at least one
  criterion, and none of the quantities the prompt asks for is left unmeasured.
\<close>

theorem verified_design_was_checked:
  assumes "run_design_loop e seed n = Some (Inr d)" "dr_verified d"
  shows "\<exists>cs c dk j st res. verified_by e d cs c dk j st res"
  using loop_sound [OF assms(1)] assms(2) by (simp add: sound_def)

section \<open>What a round leaves out\<close>

text \<open>
  The assertions of a result can be those of an earlier circuit: a last round that fails its rules reports the
  verdicts of the round before beside the circuit that replaced the judged one.
\<close>

lemma assertions_of_an_earlier_circuit:
  assumes "erc_errors e (ls_circuit s) \<noteq> []" "\<not> de_aborted e (Before_round r)" "\<not> de_grounded e"
  shows "\<exists>d. rounds_from e r r 1 s = Some (Inr d) \<and> dr_circuit d = ls_circuit s \<and>
    dr_assertions d = Some (ls_assertions s) \<and> dr_warning d = Some Erc_stuck"
  using assms by (simp add: run_round_def Let_def give_up_def sourced_def push_def)

text \<open>
  The fix after a refused deck does not look at the cancel flag and takes the analysis as the model returns it, with
  neither the criteria merged nor the overlays kept.
\<close>

lemma deck_fix_unguarded:
  "fix_deck (e\<lparr>de_aborted := a\<rparr>) r s p = fix_deck e r s p"
  "fix_deck e r s p = Continue s1 \<Longrightarrow> apply_fix e r (ls_circuit s) (ls_analysis s) p = Inr g \<Longrightarrow>
   ls_analysis s1 = gn_analysis g \<and> ls_criteria s1 = ls_criteria s"
  by (auto simp: fix_deck_def apply_fix_def split: sum.splits)

section \<open>A sample run\<close>

definition battery_criteria :: "criterion list" where
  "battery_criteria = [at_least ''a'' 5]"

definition op_analysis :: analysis where
  "op_analysis = \<lparr>an_kind = Op, an_fourier = None, an_tf = None, an_rest = JObj []\<rparr>"

definition good_report :: status_report where
  "good_report = \<lparr>sr_state = Job Succeeded, sr_points = Some 1, sr_infra = False, sr_diagnosis = None, sr_yield = None\<rparr>"

definition good_run :: sim_result where
  "good_run = \<lparr>rs_metric_points = Some 1, rs_meta_points = None, rs_series = [(''v(na)'', [(Some 0, Some 5)])],
     rs_fourier = [], rs_tf = None, rs_error = None\<rparr>"

definition sample_env :: design_env where
  "sample_env =
     \<lparr>de_generate = Inr \<lparr>gn_circuit = battery, gn_analysis = op_analysis, gn_explanation = None, gn_criteria = battery_criteria\<rparr>,
      de_fix = (\<lambda>_ _ _ _. Inl (Bad_generation [])), de_aborted = (\<lambda>_. False), de_grounded = False, de_enrich = Inr,
      de_new_sim = (\<lambda>_ _ _. Inr ''job''), de_new_yield = (\<lambda>_ _ _. Inl (Other_error [])), de_elapsed = (\<lambda>_ k. 2000 * k),
      de_status = (\<lambda>_ _. Inr good_report), de_result = (\<lambda>_. Inr good_run), de_intentful = (\<lambda>_. False), de_timeout = 60000,
      de_mc = False, de_profile = None, de_required = {}, de_readings = no_readings, de_generic = (\<lambda>_. None),
      de_number = (\<lambda>_. []), de_shown = id, de_summarize = (\<lambda>_ _. steady ''na'' 5)\<rparr>"

lemma sample_deck: "\<exists>dk. loop_deck sample_env battery op_analysis [] = Inr dk"
  using supply_deck by (auto simp: loop_deck_def sample_env_def op_analysis_def plain_options_def split: sum.splits)

lemma sample_rules: "erc_errors sample_env battery = []"
proof -
  have "filter (\<lambda>i. issue_severity i = Error) (issues (run_erc no_readings battery)) = []" by code_simp
  then show ?thesis by (simp add: erc_errors_def sample_env_def)
qed

lemma sample_models: "attach_generic_models (\<lambda>_. None) battery = battery"
  by (simp add: attach_generic_models_def battery_def sample_circuit_def sample_part_def)

lemma sample_judged: "list_all ar_pass (judge_run sample_env battery op_analysis battery_criteria good_run)"
proof -
  have t: "analog_twins (\<lambda>_. []) (components battery) (nets battery) = Map.empty"
  proof -
    have "\<not> list_ex (\<lambda>c. is_digital (comp_type c)) (components battery)" by code_simp
    then show ?thesis by (simp add: analog_twins_def plan_mixed_signal_def empty_plan_def)
  qed
  have f: "nets battery ! 0 \<in> set (nets battery)" "unshadowed (nets battery) Map.empty (nets battery ! 0)"
    "js_lower ''a'' = js_lower (net_id (nets battery ! 0))" "reads_as ''a'' ''a''" "js_lower ''a'' \<notin> set (ground_refs (nets battery))"
    "observed Map.empty (nets battery ! 0) = ''na''" "legal_node ''na''" "\<not> is_current_probe ''a''" by code_simp+
  have "match_key (Some (net_resolver (\<lambda>_. []) (components battery) (nets battery))) ''a'' = Voltage_key (column_key ''na'')"
    by (rule criterion_reads_its_net [of "nets battery ! 0" "nets battery" _ _ "''a''"]) (use f t in simp_all)
  moreover have "columns_ok [''na'']" by code_simp
  then have "under_key [steady ''na'' 5] (Voltage_key (column_key ''na'')) = Some (steady ''na'' 5)"
    by (rule under_own_key) (simp_all add: steady_value f)
  ultimately show ?thesis
    by (simp add: judge_run_def measured_series_def sample_env_def good_run_def battery_criteria_def evaluate_assertions_def
        to_resolver_def net_resolver_def [symmetric] evaluate_one_def steady_value f(8) compare_assertion_def Let_def
        attach_fourier_thd_def attach_transfer_function_def)
qed

lemma sample_start:
  "start_state sample_env None = Inr \<lparr>ls_circuit = battery, ls_analysis = op_analysis, ls_explanation = None,
     ls_criteria = battery_criteria, ls_assertions = [], ls_probes = [], ls_history = []\<rparr>"
proof -
  have "current_probes battery_criteria = []" by code_simp
  then show ?thesis by (simp add: start_state_def sample_env_def sample_models)
qed

lemma sample_poll: "poll_job sample_env j = Some (Inr good_report)"
  unfolding poll_job_def by (subst poll_from.simps) (simp add: sample_env_def good_report_def settled_state_def)

lemma sample_env_simps:
  "de_aborted sample_env = (\<lambda>_. False)" "de_new_sim sample_env r d a = Inr ''job''" "de_result sample_env j = Inr good_run"
  "sourced sample_env c = Inr c" "de_mc sample_env = False" "de_required sample_env = {}" "de_elapsed sample_env j = (\<lambda>k. 2000 * k)"
  by (simp_all add: sample_env_def sourced_def)

lemma sample_verified:
  "\<exists>d. run_design_loop sample_env None None = Some (Inr d) \<and> dr_verified d \<and> dr_ok d \<and> dr_rounds d = 1"
proof -
  obtain dk where dk: "loop_deck sample_env battery op_analysis [] = Inr dk" using sample_deck by blast
  have h: "sim_healthy good_report good_run" "sr_state good_report = Job Succeeded" "rs_series good_run \<noteq> []"
    "rs_error good_run = None" by (simp_all add: sim_healthy_def points_count_def good_report_def good_run_def)
  have n: "max_rounds None = Suc 1" "battery_criteria \<noteq> []" by (simp_all add: max_rounds_def battery_criteria_def)
  show ?thesis
    using h by (simp add: run_design_loop_def sample_start n sample_env_simps run_round_def sample_rules dk run_sim_def
        sample_poll settle_round_def judge_round_def sample_judged succeed_def push_def run_yield_analysis_def
        uncovered_required_dimensions_def Let_def)
qed

theorem design_loop_returns_witness: "\<exists>x. run_design_loop sample_env None (Some 9) = Some x"
  by (rule design_loop_returns) (simp add: paced_def poll_backoff_def sample_env_simps)

theorem criteria_never_relaxed_witness:
  "\<exists>d. run_design_loop sample_env None None = Some (Inr d) \<and> dr_rounds d \<in> {1..4} \<and>
     (case dr_criteria d of None \<Rightarrow> False | Some cs \<Rightarrow> prefix battery_criteria cs)"
proof -
  obtain d where d: "run_design_loop sample_env None None = Some (Inr d)" "dr_verified d" using sample_verified by blast
  show ?thesis
    using criteria_never_relaxed [OF d(1) sample_start] d by (auto split: option.splits)
qed

theorem verified_design_was_checked_witness:
  "\<exists>d. run_design_loop sample_env None None = Some (Inr d) \<and> (\<exists>cs c dk j st res. verified_by sample_env d cs c dk j st res)"
  using sample_verified verified_design_was_checked by blast

end
