(* ===== verification/Multi_Candidate.thy ===== *)
theory Multi_Candidate
  imports Design_Loop "HOL-Library.Multiset" "HOL-Library.Product_Lexorder"
begin

text \<open>
  \<open>apps/worker-sim/src/design/multi-candidate.ts\<close> with the ranking it uses, \<open>specCloseness\<close> to \<open>selectFinalists\<close> of
  \<open>llm-core/src/design-core.ts\<close>: several candidates are generated and simulated once, the best of different
  topologies go through the design loop, and the yield of the winner alone is measured.

  Every call of the host belongs to a stage; the environment of the design loop is given for each. The screens
  run in parallel, but the counter of paid calls is written between two awaits only, so they are taken in order.
  A missing distance or no criterion makes a closeness of \<open>Infinity\<close>, here \<open>None\<close>. The key of a topology is the
  multiset of the types with the number of nets, which is what the sorted and joined text determines.
\<close>

section \<open>Scores\<close>

definition unit_of :: "assertion_result \<Rightarrow> rat" where
  "unit_of a =
     (let t = \<bar>cr_value (ar_criterion a)\<bar>; eps = 1 / 10 ^ 12 in
      if eps < t then t else (case cr_tol (ar_criterion a) of Some w \<Rightarrow> if w \<noteq> 0 \<and> eps < w then w else 1 | None \<Rightarrow> 1))"

definition spec_closeness :: "assertion_result list \<Rightarrow> rat option" where
  "spec_closeness as =
     (if as = [] then None
      else Some (sum_list (map (\<lambda>a. case ar_distance a of None \<Rightarrow> 1 | Some d \<Rightarrow> \<bar>d\<bar> / unit_of a) as)))"

definition slack_of :: "assertion_result \<Rightarrow> rat" where
  "slack_of a =
     (case ar_distance a of
        None \<Rightarrow> 0
      | Some d \<Rightarrow>
          (let c = ar_criterion a; u = unit_of a in
           case cr_op c of
             Gt \<Rightarrow> d / u
           | Gte \<Rightarrow> d / u
           | Lt \<Rightarrow> - d / u
           | Lte \<Rightarrow> - d / u
           | Approx \<Rightarrow>
               (let tol = (case cr_tol c of Some w \<Rightarrow> if w \<noteq> 0 \<and> 1 / 10 ^ 12 < w then w else max (\<bar>cr_value c\<bar> * 5 / 100) (1 / 10 ^ 9)
                      | None \<Rightarrow> max (\<bar>cr_value c\<bar> * 5 / 100) (1 / 10 ^ 9))
                in (tol - \<bar>d\<bar>) / u)))"

definition robustness_slack :: "assertion_result list \<Rightarrow> rat" where
  "robustness_slack as = (if as = [] then 0 else Min (set (map slack_of as)))"

definition screen_specs_met :: "dimension set \<Rightarrow> assertion_result list \<Rightarrow> criterion list \<Rightarrow> bool" where
  "screen_specs_met required as cs \<longleftrightarrow>
     as \<noteq> [] \<and> list_all ar_pass as \<and> uncovered_required_dimensions required cs = []"

section \<open>The screen\<close>

record screen_result =
  sn_circuit :: circuit
  sn_analysis :: analysis
  sn_explanation :: "string option"
  sn_criteria :: "criterion list"
  sn_assertions :: "assertion_result list"
  sn_healthy :: bool
  sn_points :: nat
  sn_met :: bool
  sn_closeness :: "rat option"
  sn_state :: "poll_state option"

text \<open>What the guarded part of \<open>screenCandidate\<close> leaves behind: the state, the points and the assertions.\<close>

definition screen_run ::
  "design_env \<Rightarrow> circuit \<Rightarrow> analysis \<Rightarrow> criterion list \<Rightarrow> (poll_state option \<times> nat \<times> bool \<times> assertion_result list) option" where
  "screen_run e c a cs =
     (case loop_deck e c a (current_probes cs) of
        Inl d \<Rightarrow> Some (None, 0, False, [])
      | Inr d \<Rightarrow>
          (case de_new_sim e 0 d a of
             Inl f \<Rightarrow> Some (None, 0, False, [])
           | Inr j \<Rightarrow>
               (case poll_job e j of
                  None \<Rightarrow> None
                | Some (Inl f) \<Rightarrow> Some (None, 0, False, [])
                | Some (Inr st) \<Rightarrow>
                    Some (case de_result e j of
                      Inl f \<Rightarrow> (Some (sr_state st), 0, False, [])
                    | Inr res \<Rightarrow>
                        (Some (sr_state st), points_count st res, sim_healthy st res,
                         if sim_healthy st res \<and> cs \<noteq> [] then judge_run e c a cs res else [])))))"

definition screen_candidate :: "design_env \<Rightarrow> (failure + screen_result) option" where
  "screen_candidate e =
     (case de_generate e of
        Inl f \<Rightarrow> Some (Inl f)
      | Inr g \<Rightarrow>
          (let c = attach_generic_models (de_generic e) (gn_circuit g); cs = gn_criteria g
           in map_option (\<lambda>(state, points, healthy, as).
                Inr \<lparr>sn_circuit = c, sn_analysis = gn_analysis g, sn_explanation = gn_explanation g, sn_criteria = cs,
                  sn_assertions = as, sn_healthy = healthy, sn_points = points,
                  sn_met = screen_specs_met (de_required e) as cs,
                  sn_closeness = (if healthy then spec_closeness as else None), sn_state = state\<rparr>)
              (screen_run e c (gn_analysis g) cs)))"

section \<open>The finalists\<close>

definition part_count :: "circuit \<Rightarrow> nat" where
  "part_count c = length (filter (\<lambda>x. comp_type x \<noteq> Ground) (components c))"

definition topology_key :: "circuit \<Rightarrow> ctype multiset \<times> nat" where
  "topology_key c = (mset (map comp_type (components c)), length (nets c))"

text \<open>The comparator; only the sign of what it returns matters.\<close>

definition compare_candidates :: "screen_result \<Rightarrow> screen_result \<Rightarrow> rat" where
  "compare_candidates a b =
     (let parts = of_nat (part_count (sn_circuit a)) - of_nat (part_count (sn_circuit b)) in
      if sn_healthy a \<noteq> sn_healthy b then (if sn_healthy a then - 1 else 1)
      else if sn_met a \<noteq> sn_met b then (if sn_met a then - 1 else 1)
      else if sn_met a \<and> sn_met b
      then (let d = robustness_slack (sn_assertions b) - robustness_slack (sn_assertions a) in if d \<noteq> 0 then d else parts)
      else (case (sn_closeness a, sn_closeness b) of
              (Some x, Some y) \<Rightarrow> if x \<noteq> y then x - y else parts
            | (Some x, None) \<Rightarrow> - 1
            | (None, Some y) \<Rightarrow> 1
            | (None, None) \<Rightarrow> parts))"

definition keep_better :: "screen_result \<Rightarrow> ((ctype multiset \<times> nat) \<times> screen_result) list \<Rightarrow>
    ((ctype multiset \<times> nat) \<times> screen_result) list" where
  "keep_better x best =
     (let k = topology_key (sn_circuit x) in
      case map_of best k of
        None \<Rightarrow> AList.update k x best
      | Some prev \<Rightarrow> if compare_candidates x prev < 0 then AList.update k x best else best)"

text \<open>\<open>Array.sort\<close> with the comparator: stable.\<close>

fun insert_candidate :: "screen_result \<Rightarrow> screen_result list \<Rightarrow> screen_result list" where
  "insert_candidate x [] = [x]"
| "insert_candidate x (y # ys) = (if 0 < compare_candidates x y then y # insert_candidate x ys else x # y # ys)"

definition sort_candidates :: "screen_result list \<Rightarrow> screen_result list" where
  "sort_candidates xs = foldr insert_candidate xs []"

definition select_finalists :: "screen_result list \<Rightarrow> int \<Rightarrow> screen_result list" where
  "select_finalists screened k =
     take (nat (max 1 k)) (sort_candidates (map snd (fold keep_better screened [])))"

section \<open>The orchestrator\<close>

definition max_candidates :: int where
  "max_candidates = 5"

definition topology_directives :: "string list" where
  "topology_directives =
     ['''', ''Prefer the simplest topology with the fewest components.'',
      ''Prefer a discrete-component implementation (avoid op-amps / ICs) where reasonable.'',
      ''Prefer an op-amp / active implementation where it improves the design.'',
      ''Prefer a topology that is robust to component-value tolerance.'']"

definition candidate_directives :: "nat \<Rightarrow> string list" where
  "candidate_directives n = take (max 1 n) topology_directives"

definition candidate_constraints :: "string option \<Rightarrow> string \<Rightarrow> string option" where
  "candidate_constraints constraints directive =
     (if directive = [] then constraints
      else Some (case constraints of Some (c # cs) \<Rightarrow> (c # cs) @ '' '' @ directive | _ \<Rightarrow> directive))"

datatype stage = Single | Screening nat | Refining nat | Degraded | Grading

record alternative =
  al_circuit :: circuit
  al_ok :: bool
  al_verified :: bool
  al_rounds :: nat
  al_status :: "round_status option"
  al_passed :: nat
  al_total :: nat
  al_warning :: "warning option"

definition summarize_alternative :: "design_result \<Rightarrow> alternative" where
  "summarize_alternative d =
     (let as = (case dr_assertions d of Some as \<Rightarrow> as | None \<Rightarrow> [])
      in \<lparr>al_circuit = dr_circuit d, al_ok = dr_ok d, al_verified = dr_verified d, al_rounds = dr_rounds d,
          al_status = dr_status d, al_passed = length (filter ar_pass as), al_total = length as, al_warning = dr_warning d\<rparr>)"

definition first_index :: "('a \<Rightarrow> bool) \<Rightarrow> 'a list \<Rightarrow> nat option" where
  "first_index P xs = find (\<lambda>i. P (xs ! i)) [0..<length xs]"

definition pick_winner :: "design_result list \<Rightarrow> nat" where
  "pick_winner ds =
     (case first_index (\<lambda>d. dr_ok d \<and> dr_verified d) ds of
        Some i \<Rightarrow> i
      | None \<Rightarrow> (case first_index dr_ok ds of Some i \<Rightarrow> i | None \<Rightarrow> 0))"

record multi_result =
  mr_result :: design_result
  mr_candidates :: "(nat \<times> nat \<times> nat) option"
  mr_alternatives :: "alternative list"

record multi_options =
  mo_n :: int
  mo_k :: int
  mo_budget :: int

type_synonym stage_env = "stage \<Rightarrow> string option \<Rightarrow> design_env"

definition alone :: "(failure + design_result) option \<Rightarrow> (failure + multi_result) option" where
  "alone = map_option (map_sum id (\<lambda>d. \<lparr>mr_result = d, mr_candidates = None, mr_alternatives = []\<rparr>))"

text \<open>The screens: the calls made so far and the candidates that survived. A screen that throws is dropped.\<close>

fun screen_all ::
  "stage_env \<Rightarrow> string option \<Rightarrow> nat \<Rightarrow> nat \<Rightarrow> string list \<Rightarrow> nat \<Rightarrow> (nat \<times> screen_result list) option" where
  "screen_all env constraints budget i [] calls = Some (calls, [])"
| "screen_all env constraints budget i (d # ds) calls =
     (if budget \<le> calls then screen_all env constraints budget (Suc i) ds calls
      else (case screen_candidate (env (Screening i) (candidate_constraints constraints d)) of
              None \<Rightarrow> None
            | Some x \<Rightarrow>
                map_option (\<lambda>(n, xs). (n, (case x of Inl f \<Rightarrow> xs | Inr s \<Rightarrow> s # xs)))
                  (screen_all env constraints budget (Suc i) ds (Suc calls))))"

definition seed_of :: "screen_result \<Rightarrow> bool \<Rightarrow> design_seed" where
  "seed_of f explained =
     \<lparr>sd_circuit = sn_circuit f, sd_analysis = Some (sn_analysis f), sd_criteria = Some (sn_criteria f),
      sd_explanation = (if explained then sn_explanation f else None)\<rparr>"

definition without_yield :: "design_env \<Rightarrow> design_env" where
  "without_yield e = e\<lparr>de_mc := False\<rparr>"

text \<open>The loops of the finalists, one after the other, until the budget is spent; one that throws ends the request.\<close>

fun refine_all ::
  "stage_env \<Rightarrow> string option \<Rightarrow> int option \<Rightarrow> nat \<Rightarrow> nat \<Rightarrow> screen_result list \<Rightarrow> nat \<Rightarrow>
   (failure + nat \<times> design_result list) option" where
  "refine_all env constraints rounds budget i [] calls = Some (Inr (calls, []))"
| "refine_all env constraints rounds budget i (f # fs) calls =
     (if budget \<le> calls then Some (Inr (calls, []))
      else (case run_design_loop (without_yield (env (Refining i) constraints)) (Some (seed_of f True)) rounds of
              None \<Rightarrow> None
            | Some (Inl x) \<Rightarrow> Some (Inl x)
            | Some (Inr d) \<Rightarrow>
                map_option (map_sum id (\<lambda>(n, ds). (n, d # ds)))
                  (refine_all env constraints rounds budget (Suc i) fs (calls + (dr_rounds d - 1)))))"

definition crown :: "design_env \<Rightarrow> nat \<Rightarrow> nat \<Rightarrow> design_result list \<Rightarrow> (failure + multi_result) option" where
  "crown e screened calls ds =
     (let i = pick_winner ds; w = ds ! i in
      case (if dr_ok w
            then run_yield_analysis e (de_mc e) (dr_circuit w) (dr_analysis w) (case dr_criteria w of Some cs \<Rightarrow> cs | None \<Rightarrow> [])
            else Some None) of
        None \<Rightarrow> None
      | Some y \<Rightarrow>
          (let v = classify_robustness (as_report y) (de_profile e) in
           case with_check (dr_scope w) Robustness (robustness_scope_entry (Some v)) of
             None \<Rightarrow> Some (Inl (Other_error ''withCheck''))
           | Some m \<Rightarrow>
               Some (Inr \<lparr>mr_result = w\<lparr>dr_yield := (if y \<noteq> None then y else dr_yield w), dr_robustness := Some v, dr_scope := m\<rparr>,
                 mr_candidates = Some (screened, length ds, calls),
                 mr_alternatives = map summarize_alternative (take i ds @ drop (Suc i) ds)\<rparr>)))"

definition candidate_count :: "multi_options \<Rightarrow> nat" where
  "candidate_count op = nat (max 1 (min (mo_n op) max_candidates))"

definition call_budget :: "multi_options \<Rightarrow> nat" where
  "call_budget op = nat (max (int (candidate_count op)) (mo_budget op))"

definition run_multi_candidate_design ::
  "stage_env \<Rightarrow> string option \<Rightarrow> int option \<Rightarrow> multi_options \<Rightarrow> (failure + multi_result) option" where
  "run_multi_candidate_design env constraints rounds op =
     (let n = candidate_count op; budget = call_budget op in
      if n \<le> 1 then alone (run_design_loop (env Single constraints) None rounds)
      else (case screen_all env constraints budget 0 (candidate_directives n) 0 of
              None \<Rightarrow> None
            | Some (calls, screened) \<Rightarrow>
                if screened = [] then alone (run_design_loop (env Degraded constraints) None rounds)
                else (let finalists = select_finalists screened (mo_k op) in
                  case refine_all env constraints rounds budget 0 finalists calls of
                    None \<Rightarrow> None
                  | Some (Inl f) \<Rightarrow> Some (Inl f)
                  | Some (Inr (used, ds)) \<Rightarrow>
                      if ds = []
                      then alone (run_design_loop (without_yield (env Degraded constraints)) (Some (seed_of (hd finalists) False)) rounds)
                      else crown (env Grading constraints) (length screened) used ds)))"

section \<open>The ranking is one order\<close>

text \<open>The comparator is the lexicographic order of a rank, so it is consistent and any stable sort agrees.\<close>

definition candidate_rank :: "screen_result \<Rightarrow> nat \<times> nat \<times> nat \<times> rat \<times> nat" where
  "candidate_rank x =
     (if sn_healthy x then 0 else 1, if sn_met x then 0 else 1,
      if sn_met x \<or> sn_closeness x \<noteq> None then 0 else 1,
      if sn_met x then - robustness_slack (sn_assertions x) else (case sn_closeness x of Some d \<Rightarrow> d | None \<Rightarrow> 0),
      part_count (sn_circuit x))"

lemma compare_rank: "0 < compare_candidates a b \<longleftrightarrow> candidate_rank b < candidate_rank a"
  by (auto simp: compare_candidates_def candidate_rank_def Let_def less_prod_def split: option.split)

lemma compare_antisym: "compare_candidates a b \<le> 0 \<longleftrightarrow> 0 \<le> compare_candidates b a"
  by (auto simp: compare_candidates_def Let_def split: option.split)

lemma compare_le: "compare_candidates a b \<le> 0 \<longleftrightarrow> candidate_rank a \<le> candidate_rank b"
  using compare_rank [of a b] by (metis linorder_not_le)

lemma compare_less: "compare_candidates a b < 0 \<longleftrightarrow> candidate_rank a < candidate_rank b"
  using compare_le [of b a] compare_antisym [of b a] by (metis linorder_not_le)

lemma sort_candidates_key: "sort_candidates xs = sort_key candidate_rank xs"
proof -
  have "insert_candidate x ys = insort_key candidate_rank x ys" for x ys
    by (induction ys) (auto simp: compare_rank dest: leD)
  then have "insert_candidate = insort_key candidate_rank" by (intro ext)
  then show ?thesis by (simp add: sort_candidates_def sort_key_def)
qed

section \<open>The finalists are the best of their topologies\<close>

abbreviation topology :: "screen_result \<Rightarrow> ctype multiset \<times> nat" where
  "topology x \<equiv> topology_key (sn_circuit x)"

definition best_of :: "screen_result list \<Rightarrow> ((ctype multiset \<times> nat) \<times> screen_result) list \<Rightarrow> bool" where
  "best_of xs best \<longleftrightarrow>
     distinct (map fst best) \<and> (\<forall>(k, x) \<in> set best. topology x = k \<and> x \<in> set xs) \<and>
     (\<forall>x \<in> set xs. \<exists>y. map_of best (topology x) = Some y \<and> candidate_rank y \<le> candidate_rank x)"

lemma set_update_distinct:
  "distinct (map fst al) \<Longrightarrow> set (AList.update k v al) = insert (k, v) {p \<in> set al. fst p \<noteq> k}"
  by (induction al) (auto simp: image_iff)

lemma keep_better_step: "best_of xs best \<Longrightarrow> best_of (xs @ [x]) (keep_better x best)"
proof -
  assume b: "best_of xs best"
  then have d: "distinct (map fst best)" by (simp add: best_of_def)
  have put: "best_of (xs @ [x]) (AList.update (topology x) x best)"
    if "\<And>y. map_of best (topology x) = Some y \<Longrightarrow> candidate_rank x \<le> candidate_rank y"
    unfolding best_of_def
  proof (intro conjI)
    show "distinct (map fst (AList.update (topology x) x best))" by (rule distinct_update [OF d])
    show "\<forall>(k, z) \<in> set (AList.update (topology x) x best). topology z = k \<and> z \<in> set (xs @ [x])"
      using b by (auto simp: set_update_distinct [OF d] best_of_def)
    show "\<forall>z \<in> set (xs @ [x]). \<exists>y. map_of (AList.update (topology x) x best) (topology z) = Some y \<and>
        candidate_rank y \<le> candidate_rank z"
    proof
      fix z
      assume "z \<in> set (xs @ [x])"
      then consider "z = x" | "z \<in> set xs" by auto
      then show "\<exists>y. map_of (AList.update (topology x) x best) (topology z) = Some y \<and> candidate_rank y \<le> candidate_rank z"
      proof cases
        case 2
        then obtain y where y: "map_of best (topology z) = Some y" "candidate_rank y \<le> candidate_rank z"
          using b by (auto simp: best_of_def)
        show ?thesis
        proof (cases "topology z = topology x")
          case True
          then have "candidate_rank x \<le> candidate_rank z" using that [of y] y by (metis order.trans)
          then show ?thesis using True by (simp add: update_conv)
        next
          case False
          then show ?thesis using y by (simp add: update_conv)
        qed
      qed (simp add: update_conv)
    qed
  qed
  show ?thesis
  proof (cases "map_of best (topology x)")
    case None
    then show ?thesis using put by (simp add: keep_better_def)
  next
    case (Some prev)
    show ?thesis
    proof (cases "compare_candidates x prev < 0")
      case True
      then show ?thesis using put Some by (simp add: keep_better_def Let_def compare_less)
    next
      case False
      then have "candidate_rank prev \<le> candidate_rank x" by (simp add: compare_less not_less)
      then have "best_of (xs @ [x]) best" using b Some by (auto simp: best_of_def)
      then show ?thesis using False Some by (simp add: keep_better_def Let_def)
    qed
  qed
qed

lemma keep_better_all: "best_of xs (fold keep_better xs [])"
proof -
  have "best_of (zs @ xs) (fold keep_better xs best)" if "best_of zs best" for zs best
    using that
  proof (induction xs arbitrary: zs best)
    case (Cons x xs)
    then show ?case using Cons.IH [OF keep_better_step [OF Cons.prems, of x]] by simp
  qed simp
  moreover have "best_of [] []" by (simp add: best_of_def)
  ultimately have "best_of ([] @ xs) (fold keep_better xs [])" by blast
  then show ?thesis by simp
qed

lemma best_of_facts:
  assumes "best_of xs best"
  shows "distinct (map topology (map snd best))" "set (map snd best) \<subseteq> set xs" "length best = Finite_Set.card (topology ` set xs)"
    "\<And>x. x \<in> set xs \<Longrightarrow> \<exists>y \<in> set (map snd best). topology y = topology x \<and> candidate_rank y \<le> candidate_rank x"
proof -
  have keys: "map topology (map snd best) = map fst best"
    using assms by (auto simp: best_of_def)
  show d: "distinct (map topology (map snd best))" unfolding keys using assms by (simp add: best_of_def)
  show s: "set (map snd best) \<subseteq> set xs" using assms by (auto simp: best_of_def)
  show near: "\<exists>y \<in> set (map snd best). topology y = topology x \<and> candidate_rank y \<le> candidate_rank x" if x: "x \<in> set xs" for x
  proof -
    obtain y where y: "map_of best (topology x) = Some y" "candidate_rank y \<le> candidate_rank x"
      using assms x by (auto simp: best_of_def)
    then have m: "(topology x, y) \<in> set best" by (simp add: map_of_SomeD)
    then have "topology y = topology x" using assms by (auto simp: best_of_def)
    moreover have "y \<in> set (map snd best)" using m by force
    ultimately show ?thesis using y(2) by blast
  qed
  have "topology ` set xs \<subseteq> topology ` set (map snd best)"
    by (rule subsetI, elim imageE) (metis near imageI)
  then have "topology ` set (map snd best) = topology ` set xs"
    using image_mono [OF s, of topology] by blast
  then show "length best = Finite_Set.card (topology ` set xs)"
    using distinct_card [OF d] unfolding set_map [of topology] by simp
qed

text \<open>
  \<^bold>\<open>C39.\<close> The finalists are what the ranking promises: screened candidates of different topologies, best first, as
  many as asked for or as there are topologies; and a candidate that is left out is no better than a finalist of
  its own topology, or than every finalist.
\<close>

theorem finalists_are_the_best:
  "(let fs = select_finalists xs k in
    distinct (map topology fs) \<and> sorted_wrt (\<lambda>a b. compare_candidates a b \<le> 0) fs \<and> set fs \<subseteq> set xs \<and>
    length fs = min (nat (max 1 k)) (Finite_Set.card (topology ` set xs)) \<and>
    list_all (\<lambda>x. list_ex (\<lambda>f. topology f = topology x \<and> compare_candidates f x \<le> 0) fs \<or>
      length fs = nat (max 1 k) \<and> list_all (\<lambda>f. compare_candidates f x \<le> 0) fs) xs)"
proof -
  define best where "best = map snd (fold keep_better xs [])"
  define ranked where "ranked = sort_key candidate_rank best"
  define n where "n = nat (max 1 k)"
  note b = best_of_facts [OF keep_better_all [of xs], folded best_def]
  have fs: "select_finalists xs k = take n ranked"
    by (simp add: select_finalists_def sort_candidates_key best_def ranked_def n_def)
  have d: "distinct (map topology ranked)"
    using b(1) by (simp add: ranked_def distinct_map)
  have s: "set ranked = set best" "length ranked = Finite_Set.card (topology ` set xs)"
    using b(3) by (simp_all add: ranked_def best_def)
  have o: "sorted_wrt (\<lambda>a b. candidate_rank a \<le> candidate_rank b) ranked"
    using sorted_sort_key [of candidate_rank best] by (simp add: ranked_def sorted_wrt_map)
  have left: "list_ex (\<lambda>f. topology f = topology x \<and> candidate_rank f \<le> candidate_rank x) (take n ranked) \<or>
      length (take n ranked) = n \<and> list_all (\<lambda>f. candidate_rank f \<le> candidate_rank x) (take n ranked)" if x: "x \<in> set xs" for x
  proof -
    obtain y where y: "y \<in> set ranked" "topology y = topology x" "candidate_rank y \<le> candidate_rank x"
      using b(4) [OF x] s(1) by blast
    show ?thesis
    proof (cases "y \<in> set (take n ranked)")
      case True
      then have "list_ex (\<lambda>f. topology f = topology x \<and> candidate_rank f \<le> candidate_rank x) (take n ranked)"
        unfolding list_ex_iff using y(2,3) by blast
      then show ?thesis ..
    next
      case False
      then have "y \<in> set (drop n ranked)" using y(1) by (metis append_take_drop_id Un_iff set_append)
      moreover have "sorted_wrt (\<lambda>a b. candidate_rank a \<le> candidate_rank b) (take n ranked @ drop n ranked)"
        using o by simp
      ultimately have le: "candidate_rank f \<le> candidate_rank y" if "f \<in> set (take n ranked)" for f
        using that unfolding sorted_wrt_append by blast
      have "n \<le> length ranked" using \<open>y \<in> set (drop n ranked)\<close> by (cases "n \<le> length ranked") simp_all
      then have "length (take n ranked) = n" by simp
      moreover have "list_all (\<lambda>f. candidate_rank f \<le> candidate_rank x) (take n ranked)"
        unfolding list_all_iff using order.trans [OF le y(3)] by blast
      ultimately show ?thesis by blast
    qed
  qed
  show ?thesis
    unfolding Let_def fs compare_le n_def [symmetric]
  proof (intro conjI)
    show "distinct (map topology (take n ranked))" using d by (metis distinct_take take_map)
    show "sorted_wrt (\<lambda>a b. candidate_rank a \<le> candidate_rank b) (take n ranked)" by (rule sorted_wrt_take [OF o])
    show "set (take n ranked) \<subseteq> set xs" using s(1) b(2) set_take_subset [of n ranked] by blast
    show "length (take n ranked) = min n (Finite_Set.card (topology ` set xs))" by (simp add: s(2))
    show "list_all (\<lambda>x. list_ex (\<lambda>f. topology f = topology x \<and> candidate_rank f \<le> candidate_rank x) (take n ranked) \<or>
      length (take n ranked) = n \<and> list_all (\<lambda>f. candidate_rank f \<le> candidate_rank x) (take n ranked)) xs"
      using left by (simp add: list_all_iff)
  qed
qed

section \<open>Every result of a loop discloses its own grade\<close>

definition disclosed :: "design_result \<Rightarrow> bool" where
  "disclosed d \<longleftrightarrow>
     map fst (dr_scope d) = electrical_checks \<and> map_of (dr_scope d) Robustness = Some (robustness_scope_entry (dr_robustness d))"

definition all_disclosed :: "failure + design_result \<Rightarrow> bool" where
  "all_disclosed x \<longleftrightarrow> (case x of Inl f \<Rightarrow> True | Inr d \<Rightarrow> disclosed d)"

lemma design_scope_robustness:
  "map_of (design_scope h cs r c) Robustness = Some (robustness_scope_entry r)" "map fst (design_scope h cs r c) = electrical_checks"
proof -
  have "Robustness \<in> set electrical_checks" by (simp add: electrical_checks_def)
  then show "map_of (design_scope h cs r c) Robustness = Some (robustness_scope_entry r)"
    by (simp add: design_scope_def electrical_lookup electrical_findings_def or_entry_def)
  show "map fst (design_scope h cs r c) = electrical_checks" by (simp add: design_scope_def electrical_ids)
qed

lemma ends_disclosed:
  "all_disclosed (Inl f)" "all_disclosed (inconclusive e s w)" "all_disclosed (give_up e s)"
  "succeed e r s j st res = Some x \<Longrightarrow> all_disclosed x"
  by (auto simp: all_disclosed_def disclosed_def inconclusive_def give_up_def succeed_def Let_def design_scope_robustness
      split: sum.splits option.splits)

lemma fixes_disclosed:
  "case fix_and_merge e k s p of Finished x \<Rightarrow> all_disclosed x | Continue s1 \<Rightarrow> True"
  "case fix_deck e k s p of Finished x \<Rightarrow> all_disclosed x | Continue s1 \<Rightarrow> True"
  by (auto simp: fix_and_merge_def fix_deck_def Let_def ends_disclosed split: sum.split)

lemma run_round_disclosed:
  assumes "run_round e m r s = Some x"
  shows "case x of Finished y \<Rightarrow> all_disclosed y | Continue s1 \<Rightarrow> True"
proof -
  have judged: "case x of Finished y \<Rightarrow> all_disclosed y | Continue s1 \<Rightarrow> True" if "judge_round e m r s j st res = Some x" for j st res x
    using that fixes_disclosed(1) unfolding judge_round_def Let_def
    by (auto split: if_splits intro: ends_disclosed(4))
  have "case x of Finished y \<Rightarrow> all_disclosed y | Continue s1 \<Rightarrow> True" if "settle_round e m r s z = Some x" for z x
    using that judged by (auto simp: settle_round_def ends_disclosed split: sim_end.splits if_splits)
  then show ?thesis
    using assms fixes_disclosed by (auto simp: run_round_def Let_def ends_disclosed split: if_splits sum.splits option.splits)
qed

lemma loop_disclosed:
  assumes "run_design_loop e seed n = Some x"
  shows "all_disclosed x"
proof -
  have rounds: "all_disclosed y" if "rounds_from e m r k s = Some y" "r + k = Suc m" for m r k s y
    by (rule rounds_rule [where I = "\<lambda>_ _. True", OF _ _ _ _ that(1)])
      (use that(2) run_round_disclosed ends_disclosed(3) in \<open>auto split: step.splits\<close>)
  show ?thesis
    using assms rounds [of "max_rounds n" 1 "max_rounds n"]
    by (auto simp: run_design_loop_def ends_disclosed split: if_splits sum.splits)
qed

section \<open>The orchestrator\<close>

lemma loop_rounds: "run_design_loop e (Some seed) n = Some (Inr d) \<Longrightarrow> 1 \<le> dr_rounds d \<and> dr_rounds d \<le> max_rounds n"
proof -
  assume run: "run_design_loop e (Some seed) n = Some (Inr d)"
  obtain s where "start_state e (Some seed) = Inr s" by (simp add: start_state_def)
  from loop_reported [OF run this] show ?thesis by (simp add: reported_def)
qed

lemma screen_all_calls:
  "screen_all env constraints budget i ds calls = Some (n, xs) \<Longrightarrow> calls + length ds \<le> budget \<Longrightarrow>
   n = calls + length ds \<and> length xs \<le> length ds"
proof (induction ds arbitrary: i calls n xs)
  case (Cons d ds)
  then have "\<not> budget \<le> calls" by simp
  then obtain x m ys where x: "screen_candidate (env (Screening i) (candidate_constraints constraints d)) = Some x"
    "screen_all env constraints budget (Suc i) ds (Suc calls) = Some (m, ys)" "n = m"
    "xs = (case x of Inl f \<Rightarrow> ys | Inr s \<Rightarrow> s # ys)"
    using Cons.prems(1) by (auto split: option.splits)
  then show ?case using Cons.IH [OF x(2)] Cons.prems(2) by (auto split: sum.split)
qed simp

text \<open>A finalist's result is the result of its own loop.\<close>

definition refined_by :: "stage_env \<Rightarrow> string option \<Rightarrow> int option \<Rightarrow> design_result \<Rightarrow> bool" where
  "refined_by env constraints rounds d \<longleftrightarrow>
     (\<exists>i seed. run_design_loop (without_yield (env (Refining i) constraints)) (Some seed) rounds = Some (Inr d))"

lemma map_sum_Inr: "map_sum id f z = Inr y \<longleftrightarrow> (\<exists>w. z = Inr w \<and> y = f w)"
  by (cases z) auto

lemma refine_all_results:
  "refine_all env constraints rounds budget i fs calls = Some (Inr (used, ds)) \<Longrightarrow>
   list_all (refined_by env constraints rounds) ds \<and> length ds \<le> length fs \<and>
   (calls \<le> budget \<longrightarrow> calls \<le> used \<and> used < budget + max_rounds rounds)"
proof (induction fs arbitrary: i calls used ds)
  case Nil
  then show ?case using max_rounds_bounds [of rounds] by auto
next
  case (Cons f fs)
  show ?case
  proof (cases "budget \<le> calls")
    case True
    then show ?thesis using Cons.prems max_rounds_bounds [of rounds] by auto
  next
    case False
    then obtain d ds1 where d: "run_design_loop (without_yield (env (Refining i) constraints)) (Some (seed_of f True)) rounds = Some (Inr d)"
      and rest: "refine_all env constraints rounds budget (Suc i) fs (calls + (dr_rounds d - 1)) = Some (Inr (used, ds1))" "ds = d # ds1"
      using Cons.prems by (auto simp: map_sum_Inr split: option.splits sum.splits)
    have r: "calls + (dr_rounds d - 1) < budget + max_rounds rounds"
      using loop_rounds [OF d] False by linarith
    have late: "used = calls + (dr_rounds d - 1)" if "budget \<le> calls + (dr_rounds d - 1)"
      using rest(1) that by (cases fs) auto
    have "refined_by env constraints rounds d" using d by (auto simp: refined_by_def)
    then show ?thesis using Cons.IH [OF rest(1)] rest(2) r late by auto
  qed
qed

lemma pick_winner_in: "ds \<noteq> [] \<Longrightarrow> ds ! pick_winner ds \<in> set ds"
  by (auto simp: pick_winner_def first_index_def split: option.split dest!: find_SomeD)

text \<open>The finalist the winner is: verified if one is.\<close>

lemma pick_winner_verified:
  assumes "list_ex (\<lambda>d. dr_ok d \<and> dr_verified d) ds"
  shows "dr_ok (ds ! pick_winner ds) \<and> dr_verified (ds ! pick_winner ds)"
proof -
  let ?P = "\<lambda>d. dr_ok d \<and> dr_verified d"
  obtain i where i: "i < length ds" "?P (ds ! i)" using assms by (auto simp: list_ex_iff in_set_conv_nth)
  then have "first_index ?P ds \<noteq> None" by (auto simp: first_index_def find_None_iff)
  then obtain k where k: "first_index ?P ds = Some k" by blast
  then have "?P (ds ! k)" unfolding first_index_def by (blast dest: find_SomeD)
  then show ?thesis by (simp add: pick_winner_def k)
qed

lemma crown_result:
  assumes "crown e g calls ds = Some (Inr r)" "ds \<noteq> []"
  shows "\<exists>d y v m. d \<in> set ds \<and> with_check (dr_scope d) Robustness (robustness_scope_entry (Some v)) = Some m \<and>
    mr_result r = d\<lparr>dr_yield := y, dr_robustness := Some v, dr_scope := m\<rparr> \<and> mr_candidates r = Some (g, length ds, calls)"
proof -
  define w where "w = ds ! pick_winner ds"
  define Y where "Y = (if dr_ok w
    then run_yield_analysis e (de_mc e) (dr_circuit w) (dr_analysis w) (case dr_criteria w of Some cs \<Rightarrow> cs | None \<Rightarrow> [])
    else Some None)"
  note crown = assms(1) [unfolded crown_def Let_def, folded w_def, folded Y_def]
  obtain y where y: "Y = Some y" using crown by (cases Y) simp_all
  define v where "v = classify_robustness (as_report y) (de_profile e)"
  obtain m where m: "with_check (dr_scope w) Robustness (robustness_scope_entry (Some v)) = Some m"
    using crown unfolding y option.case v_def [symmetric] by (auto split: option.splits)
  have r: "r = \<lparr>mr_result = w\<lparr>dr_yield := (if y \<noteq> None then y else dr_yield w), dr_robustness := Some v, dr_scope := m\<rparr>,
      mr_candidates = Some (g, length ds, calls),
      mr_alternatives = map summarize_alternative (take (pick_winner ds) ds @ drop (Suc (pick_winner ds)) ds)\<rparr>"
    using crown unfolding y option.case v_def [symmetric] m by simp
  show ?thesis
    by (rule exI [of _ w], rule exI [of _ "if y \<noteq> None then y else dr_yield w"], rule exI [of _ v], rule exI [of _ m])
      (use m pick_winner_in [OF assms(2)] in \<open>simp add: r w_def\<close>)
qed

text \<open>A result with the evidence for it.\<close>

definition was_checked :: "design_env \<Rightarrow> design_result \<Rightarrow> bool" where
  "was_checked e d \<longleftrightarrow> (\<exists>cs c dk j st res. verified_by e d cs c dk j st res)"

lemma sound_checked: "sound e (Inr d) \<longleftrightarrow> (dr_verified d \<longrightarrow> was_checked e d)"
  by (simp add: sound_def was_checked_def)

lemma regraded_checked: "was_checked e (d\<lparr>dr_yield := y, dr_robustness := v, dr_scope := m\<rparr>) = was_checked e d"
  by (simp add: was_checked_def verified_by_def)

text \<open>The environments a result can come from.\<close>

definition loop_envs :: "stage_env \<Rightarrow> string option \<Rightarrow> design_env set" where
  "loop_envs env constraints =
     {env Single constraints, env Degraded constraints, without_yield (env Degraded constraints)} \<union>
     range (\<lambda>i. without_yield (env (Refining i) constraints))"

lemma alone_result: "alone x = Some (Inr r) \<Longrightarrow> x = Some (Inr (mr_result r)) \<and> mr_candidates r = None"
  by (cases x) (auto simp: alone_def map_sum_def split: sum.splits)

lemma directives_length: "1 \<le> n \<Longrightarrow> n \<le> 5 \<Longrightarrow> length (candidate_directives n) = n"
  by (simp add: candidate_directives_def topology_directives_def)

lemma candidate_count_bounds: "1 \<le> candidate_count op" "candidate_count op \<le> 5" "candidate_count op \<le> call_budget op"
proof -
  show "candidate_count op \<le> call_budget op" by (simp add: call_budget_def)
qed (simp_all add: candidate_count_def max_candidates_def)

lemma multi_cases:
  assumes "run_multi_candidate_design env constraints rounds op = Some (Inr r)"
  shows "(\<exists>e seed. e \<in> loop_envs env constraints \<and> run_design_loop e seed rounds = Some (Inr (mr_result r)) \<and> mr_candidates r = None) \<or>
    (\<exists>g used ds. g \<le> candidate_count op \<and> used < call_budget op + max_rounds rounds \<and> length ds \<le> nat (max 1 (mo_k op)) \<and>
      ds \<noteq> [] \<and> list_all (refined_by env constraints rounds) ds \<and> crown (env Grading constraints) g used ds = Some (Inr r))"
proof -
  let ?n = "candidate_count op"
  have lone: ?thesis if "alone (run_design_loop e seed rounds) = Some (Inr r)" "e \<in> loop_envs env constraints" for e seed
    using alone_result [OF that(1)] that(2) by blast
  have envs: "env Single constraints \<in> loop_envs env constraints" "env Degraded constraints \<in> loop_envs env constraints"
    "without_yield (env Degraded constraints) \<in> loop_envs env constraints" by (simp_all add: loop_envs_def)
  show ?thesis
  proof (cases "?n \<le> 1")
    case True
    then show ?thesis using assms lone envs(1) by (auto simp: run_multi_candidate_design_def)
  next
    case False
    then obtain calls screened where s: "screen_all env constraints (call_budget op) 0 (candidate_directives ?n) 0 = Some (calls, screened)"
      using assms by (auto simp: run_multi_candidate_design_def Let_def split: option.splits)
    have c: "calls = ?n" "length screened \<le> ?n"
      using screen_all_calls [OF s] directives_length [of ?n] candidate_count_bounds [of op] by simp_all
    show ?thesis
    proof (cases "screened = []")
      case True
      then show ?thesis using assms False s lone envs(2) by (auto simp: run_multi_candidate_design_def Let_def)
    next
      case some: False
      define fs where "fs = select_finalists screened (mo_k op)"
      obtain used ds where d: "refine_all env constraints rounds (call_budget op) 0 fs calls = Some (Inr (used, ds))"
        using assms False s some unfolding run_multi_candidate_design_def Let_def fs_def
        by (auto split: option.splits sum.splits)
      have run: "(if ds = [] then alone (run_design_loop (without_yield (env Degraded constraints)) (Some (seed_of (hd fs) False)) rounds)
          else crown (env Grading constraints) (length screened) used ds) = Some (Inr r)"
        using assms False s some d unfolding run_multi_candidate_design_def Let_def fs_def by simp
      show ?thesis
      proof (cases "ds = []")
        case True
        then show ?thesis using run lone envs(3) by auto
      next
        case False
        have "length fs \<le> nat (max 1 (mo_k op))" by (simp add: fs_def select_finalists_def)
        then show ?thesis
          using refine_all_results [OF d] c candidate_count_bounds(3) [of op] run False by fastforce
      qed
    qed
  qed
qed

text \<open>
  \<^bold>\<open>C40.\<close> What several candidates bring forth is held to what one is: a result called verified was checked, in the
  environment of one of the loops, and the manifest of every result states the very grade beside it, although
  the yield of a winner is measured after its manifest was written.
\<close>

theorem winner_was_checked:
  assumes "run_multi_candidate_design env constraints rounds op = Some (Inr r)"
  shows "disclosed (mr_result r) \<and>
    (if dr_verified (mr_result r)
     then \<exists>e \<in> loop_envs env constraints. was_checked e (mr_result r) else True)"
  using multi_cases [OF assms]
proof (elim disjE exE conjE)
  fix e seed
  assume e: "e \<in> loop_envs env constraints" "run_design_loop e seed rounds = Some (Inr (mr_result r))"
  show ?thesis
    using loop_disclosed [OF e(2)] loop_sound [OF e(2)] e(1) by (auto simp: all_disclosed_def sound_checked)
next
  fix g used ds
  assume d: "ds \<noteq> []" "list_all (refined_by env constraints rounds) ds" "crown (env Grading constraints) g used ds = Some (Inr r)"
  obtain w y v m where w: "w \<in> set ds" "with_check (dr_scope w) Robustness (robustness_scope_entry (Some v)) = Some m"
    "mr_result r = w\<lparr>dr_yield := y, dr_robustness := Some v, dr_scope := m\<rparr>"
    using crown_result [OF d(3,1)] by blast
  obtain i seed where i: "run_design_loop (without_yield (env (Refining i) constraints)) (Some seed) rounds = Some (Inr w)"
    using d(2) w(1) by (auto simp: list_all_iff refined_by_def)
  have "disclosed (mr_result r)"
    using loop_disclosed [OF i] with_check_keeps [OF w(2)] by (simp add: w(3) disclosed_def all_disclosed_def)
  moreover have "without_yield (env (Refining i) constraints) \<in> loop_envs env constraints" by (simp add: loop_envs_def)
  ultimately show ?thesis
    using loop_sound [OF i] by (auto simp: w(3) regraded_checked sound_checked)
qed

text \<open>
  The calls that are counted exceed the budget by less than the rounds of one loop, and when the budget is no more
  than the candidates cost, no finalist is refined within it: the best one is refined all the same, uncounted.
\<close>

theorem counted_calls_bounded:
  assumes "run_multi_candidate_design env constraints rounds op = Some (Inr r)" "mr_candidates r = Some (g, f, calls)"
  shows "g \<le> 5 \<and> f \<le> nat (max 1 (mo_k op)) \<and> calls < call_budget op + max_rounds rounds"
  using multi_cases [OF assms(1)]
proof (elim disjE exE conjE)
  fix g1 used ds
  assume d: "g1 \<le> candidate_count op" "used < call_budget op + max_rounds rounds" "length ds \<le> nat (max 1 (mo_k op))"
    "ds \<noteq> []" "crown (env Grading constraints) g1 used ds = Some (Inr r)"
  then show ?thesis using crown_result [OF d(5,4)] assms(2) candidate_count_bounds(2) [of op] by auto
qed (use assms(2) in simp)

lemma spent_budget_still_refines:
  assumes "1 < candidate_count op" "call_budget op = candidate_count op" "screened \<noteq> []"
    and "screen_all env constraints (call_budget op) 0 (candidate_directives (candidate_count op)) 0 = Some (n, screened)"
  shows "n = call_budget op \<and> run_multi_candidate_design env constraints rounds op =
    alone (run_design_loop (without_yield (env Degraded constraints))
      (Some (seed_of (hd (select_finalists screened (mo_k op))) False)) rounds)"
proof -
  have n: "n = call_budget op"
    using screen_all_calls [OF assms(4)] directives_length [of "candidate_count op"] candidate_count_bounds [of op] assms(2) by simp
  have "refine_all env constraints rounds (call_budget op) 0 fs n = Some (Inr (n, []))" for fs
    by (cases fs) (simp_all add: n)
  then show ?thesis using assms n by (simp add: run_multi_candidate_design_def Let_def)
qed

section \<open>A sample request\<close>

definition sample_stages :: stage_env where
  "sample_stages = (\<lambda>_ _. sample_env)"

definition two_candidates :: multi_options where
  "two_candidates = \<lparr>mo_n = 2, mo_k = 2, mo_budget = 8\<rparr>"

lemma sample_screen:
  "\<exists>s. screen_candidate sample_env = Some (Inr s) \<and> seed_of s True =
     \<lparr>sd_circuit = battery, sd_analysis = Some op_analysis, sd_criteria = Some battery_criteria, sd_explanation = None\<rparr>"
proof -
  obtain dk where dk: "loop_deck sample_env battery op_analysis [] = Inr dk" using sample_deck by blast
  have g: "de_generate sample_env = Inr \<lparr>gn_circuit = battery, gn_analysis = op_analysis, gn_explanation = None, gn_criteria = battery_criteria\<rparr>"
    "de_generic sample_env = (\<lambda>_. None)" by (simp_all add: sample_env_def)
  have p: "current_probes battery_criteria = []" by code_simp
  show ?thesis
    by (simp add: screen_candidate_def g sample_models screen_run_def p dk sample_env_simps sample_poll seed_of_def)
qed

lemma sample_refined:
  "without_yield sample_env = sample_env"
  "run_design_loop sample_env (Some \<lparr>sd_circuit = battery, sd_analysis = Some op_analysis, sd_criteria = Some battery_criteria,
     sd_explanation = None\<rparr>) rounds = run_design_loop sample_env None rounds"
  by (simp_all add: without_yield_def sample_env_def run_design_loop_def start_state_def)

theorem winner_was_checked_witness:
  "\<exists>r. run_multi_candidate_design sample_stages None None two_candidates = Some (Inr r) \<and> disclosed (mr_result r) \<and>
     mr_candidates r = Some (2, 1, 2) \<and> (\<exists>e \<in> loop_envs sample_stages None. was_checked e (mr_result r))"
proof -
  obtain s where s: "screen_candidate sample_env = Some (Inr s)" "seed_of s True =
     \<lparr>sd_circuit = battery, sd_analysis = Some op_analysis, sd_criteria = Some battery_criteria, sd_explanation = None\<rparr>"
    using sample_screen by blast
  obtain d where d: "run_design_loop sample_env None None = Some (Inr d)" "dr_verified d" "dr_ok d" "dr_rounds d = 1"
    using sample_verified by blast
  have dd: "disclosed d" "dr_rounds d = 1" "dr_ok d"
    using loop_disclosed [OF d(1)] d by (simp_all add: all_disclosed_def)
  define other where "other = topology_directives ! 1"
  have n: "candidate_count two_candidates = 2" "call_budget two_candidates = 8" "mo_k two_candidates = 2"
    "candidate_directives 2 = ['''', other]"
    by (simp_all add: candidate_count_def call_budget_def two_candidates_def max_candidates_def candidate_directives_def
        topology_directives_def other_def numeral_2_eq_2)
  have screens: "screen_all sample_stages None 8 0 ['''', other] 0 = Some (2, [s, s])"
    by (simp add: sample_stages_def s)
  have fs: "select_finalists [s, s] 2 = [s]"
    by (simp add: select_finalists_def sort_candidates_def keep_better_def compare_less)
  have refined: "refine_all sample_stages None None 8 0 [s] 2 = Some (Inr (2, [d]))"
    by (simp add: sample_stages_def sample_refined s d dd)
  have w: "pick_winner [d] = 0" by (simp add: pick_winner_def first_index_def)
  obtain m where m: "with_check (dr_scope d) Robustness (robustness_scope_entry (Some (classify_robustness None (de_profile sample_env)))) = Some m"
    using dd(1) by (auto simp: with_check_def disclosed_def electrical_checks_def dest!: map_of_SomeD)
  obtain r where r: "crown sample_env 2 2 [d] = Some (Inr r)" "dr_verified (mr_result r)" "mr_candidates r = Some (2, 1, 2)"
    by (simp add: crown_def w dd run_yield_analysis_def sample_env_simps as_report_def m d(2))
  have run: "run_multi_candidate_design sample_stages None None two_candidates = Some (Inr r)"
    using r(1) by (simp add: run_multi_candidate_design_def n screens fs refined fun_cong [OF fun_cong [OF sample_stages_def]] numeral_2_eq_2 [symmetric]
        del: screen_all.simps refine_all.simps)
  show ?thesis using winner_was_checked [OF run] run r(2,3) by auto
qed

end
