(* ===== verification/Spec2Isabelle.thy ===== *)
theory Spec2Isabelle
  imports Erc History Auth Layout_Jobs Connectivity_Parity Fab_Profile Downsample Semaphore Spice_Deck Sim_Jobs Assertions Monte_Carlo Multi_Candidate
begin

text \<open>
  A verification library for Circuit Forge.
\<close>

end
